(* ===== verification/Prelude.thy ===== *)
theory Prelude
  imports Complex_Main "HOL-Library.AList" "HOL-Library.List_Lexorder" "HOL-Library.Char_ord"
begin

text \<open>
  Shared vocabulary of the development: Python exceptions as values of a sum type, the loop
  combinators every component uses, and insertion-ordered dictionaries.

  A Python call that may raise is a function into \<open>py_error + 'a\<close>: \<open>Inl\<close> carries the
  exception, \<open>Inr\<close> the returned value. \<open>bindE\<close> is sequencing, \<open>raiseIf\<close> is
  \<open>if cond: raise ...\<close>, \<open>foldE\<close> is a \<open>for\<close> loop over a list whose body updates the
  loop state and may raise, \<open>mapE\<close> is a list comprehension whose body may raise.

  A Python \<open>dict\<close> keeps insertion order and the code iterates over it, so dictionaries are
  association lists: \<open>map_of\<close> is \<open>d.get\<close>, \<open>AList.update\<close> is \<open>d[k] = v\<close> (in place when
  the key is present, at the end otherwise), \<open>AList.delete\<close> is \<open>d.pop(k)\<close>.

  Strings (instrument ids, ISO session dates) are ordered lexicographically by character,
  which is the order Python compares them with.
\<close>

section \<open>Exceptions\<close>

datatype py_error =
    DecimalException
  | NumericContractError string
  | StrategyCalculationError string "string list"
  | ValueError string
  | KeyError string
  | OverflowError
  | TypeError string
  | StrategyProgramError string
  | IndexError
  | ZeroDivisionError
  | FactorDataError string "string list"

section \<open>Collections of facts\<close>

named_theorems res_simps \<open>equations and inversion rules of the exception sequencing\<close>
named_theorems dec_simps \<open>equations of the decimal operations\<close>
named_theorems order_simps \<open>equations of the order rules\<close>

section \<open>Sequencing\<close>

definition bindE :: "'e + 'a \<Rightarrow> ('a \<Rightarrow> 'e + 'b) \<Rightarrow> 'e + 'b" where
  "bindE m f = (case m of Inl e \<Rightarrow> Inl e | Inr x \<Rightarrow> f x)"

definition raiseIf :: "bool \<Rightarrow> 'e \<Rightarrow> 'e + unit" where
  "raiseIf b e = (if b then Inl e else Inr ())"

fun foldE :: "('a \<Rightarrow> 's \<Rightarrow> 'e + 's) \<Rightarrow> 'a list \<Rightarrow> 's \<Rightarrow> 'e + 's" where
  "foldE f [] s = Inr s"
| "foldE f (x # xs) s = bindE (f x s) (foldE f xs)"

fun mapE :: "('a \<Rightarrow> 'e + 'b) \<Rightarrow> 'a list \<Rightarrow> 'e + 'b list" where
  "mapE f [] = Inr []"
| "mapE f (x # xs) = bindE (f x) (\<lambda>y. bindE (mapE f xs) (\<lambda>ys. Inr (y # ys)))"

definition mapErr :: "('e \<Rightarrow> 'f) \<Rightarrow> 'e + 'a \<Rightarrow> 'f + 'a" where
  "mapErr g m = (case m of Inl e \<Rightarrow> Inl (g e) | Inr x \<Rightarrow> Inr x)"

definition lookupE :: "('k \<times> 'v) list \<Rightarrow> 'k \<Rightarrow> 'e \<Rightarrow> 'e + 'v" where
  "lookupE d k e = (case map_of d k of None \<Rightarrow> Inl e | Some v \<Rightarrow> Inr v)"

text \<open>\<open>xs[i]\<close> for an index that is not negative.\<close>

definition nthE :: "'a list \<Rightarrow> nat \<Rightarrow> py_error + 'a" where
  "nthE xs i = (if i < length xs then Inr (xs ! i) else Inl IndexError)"

lemma bindE_simps [simp, res_simps]:
  "bindE (Inl e) f = Inl e"
  "bindE (Inr x) f = f x"
  by (simp_all add: bindE_def)

lemma bindE_Inr_iff [res_simps]:
  "bindE m f = Inr y \<longleftrightarrow> (\<exists>x. m = Inr x \<and> f x = Inr y)"
  by (cases m) auto

lemma bindE_InrE [elim!]:
  assumes "bindE m f = Inr y"
  obtains x where "m = Inr x" and "f x = Inr y"
  using assms by (auto simp: bindE_Inr_iff)

lemma bindE_Inl_iff [res_simps]:
  "bindE m f = Inl e \<longleftrightarrow> m = Inl e \<or> (\<exists>x. m = Inr x \<and> f x = Inl e)"
  by (cases m) auto

lemma bindE_assoc: "bindE (bindE m f) g = bindE m (\<lambda>x. bindE (f x) g)"
  by (cases m) auto

lemma bindE_cong [fundef_cong]:
  "m = m' \<Longrightarrow> (\<And>x. m' = Inr x \<Longrightarrow> f x = f' x) \<Longrightarrow> bindE m f = bindE m' f'"
  by (cases m') auto

lemma raiseIf_Inr_iff [simp, res_simps]: "raiseIf b e = Inr u \<longleftrightarrow> \<not> b"
  by (simp add: raiseIf_def)

lemma raiseIf_Inl_iff [simp, res_simps]: "raiseIf b e = Inl e' \<longleftrightarrow> b \<and> e' = e"
  by (auto simp: raiseIf_def)

lemma raiseIf_simps [simp]: "raiseIf True e = Inl e" "raiseIf False e = Inr ()"
  by (simp_all add: raiseIf_def)

lemma mapErr_Inr_iff [simp, res_simps]: "mapErr g m = Inr y \<longleftrightarrow> m = Inr y"
  by (cases m) (auto simp: mapErr_def)

lemma mapErr_simps [simp]: "mapErr g (Inl e) = Inl (g e)" "mapErr g (Inr x) = Inr x"
  by (simp_all add: mapErr_def)

lemma lookupE_Inr_iff [simp, res_simps]: "lookupE d k e = Inr v \<longleftrightarrow> map_of d k = Some v"
  by (simp add: lookupE_def split: option.splits)

lemma mapE_InrE:
  assumes "mapE f xs = Inr ys"
  shows "\<And>x. x \<in> set xs \<Longrightarrow> \<exists>y\<in>set ys. f x = Inr y" and "\<And>y. y \<in> set ys \<Longrightarrow> \<exists>x\<in>set xs. f x = Inr y"
proof -
  have "(\<forall>x\<in>set xs. \<exists>y\<in>set ys. f x = Inr y) \<and> (\<forall>y\<in>set ys. \<exists>x\<in>set xs. f x = Inr y)"
    using assms by (induction xs arbitrary: ys) (fastforce elim!: bindE_InrE)+
  then show "\<And>x. x \<in> set xs \<Longrightarrow> \<exists>y\<in>set ys. f x = Inr y" and "\<And>y. y \<in> set ys \<Longrightarrow> \<exists>x\<in>set xs. f x = Inr y" by blast+
qed

lemma foldE_append: "foldE f (xs @ ys) s = bindE (foldE f xs s) (foldE f ys)"
proof (induction xs arbitrary: s)
  case Nil
  then show ?case by simp
next
  case (Cons x xs)
  then have "foldE f (xs @ ys) = (\<lambda>t. bindE (foldE f xs t) (foldE f ys))" by auto
  then show ?case by (simp add: bindE_assoc)
qed

lemma foldE_cong [fundef_cong]:
  "xs = ys \<Longrightarrow> s = t \<Longrightarrow> (\<And>x u. x \<in> set ys \<Longrightarrow> f x u = g x u) \<Longrightarrow> foldE f xs s = foldE g ys t"
proof (induction ys arbitrary: xs s t)
  case Nil
  then show ?case by simp
next
  case (Cons y ys)
  have "foldE f ys = foldE g ys"
    by (rule ext, rule Cons.IH) (use Cons.prems(3) in auto)
  with Cons.prems show ?case by simp
qed

lemma mapE_length: "mapE f xs = Inr ys \<Longrightarrow> length ys = length xs"
  by (induction xs arbitrary: ys) auto

lemma mapE_Inr_map: "(\<And>x. x \<in> set xs \<Longrightarrow> f x = Inr (g x)) \<Longrightarrow> mapE f xs = Inr (map g xs)"
  by (induction xs) auto

lemma mapE_nth: "mapE f xs = Inr ys \<Longrightarrow> i < length xs \<Longrightarrow> f (xs ! i) = Inr (ys ! i)"
  by (induction xs arbitrary: ys i) (auto simp: nth_Cons split: nat.splits)

lemma mapE_in: "mapE f xs = Inr ys \<Longrightarrow> y \<in> set ys \<Longrightarrow> \<exists>x\<in>set xs. f x = Inr y"
  by (induction xs arbitrary: ys) auto

section \<open>Loops keep an invariant\<close>

text \<open>
  The contract of a \<open>for\<close> loop: a body that keeps an invariant on every element it is run
  with keeps it over the whole loop. Each component interprets it on its own loop body.
\<close>

locale loop_invariant =
  fixes body :: "'a \<Rightarrow> 's \<Rightarrow> 'e + 's"
    and admissible :: "'a \<Rightarrow> bool"
    and inv :: "'s \<Rightarrow> bool"
  assumes body_keeps: "admissible x \<Longrightarrow> inv s \<Longrightarrow> body x s = Inr t \<Longrightarrow> inv t"
begin

lemma loop_keeps:
  "\<forall>x\<in>set xs. admissible x \<Longrightarrow> inv s \<Longrightarrow> foldE body xs s = Inr t \<Longrightarrow> inv t"
proof (induction xs arbitrary: s)
  case Nil
  then show ?case by simp
next
  case (Cons x xs)
  then obtain u where "body x s = Inr u" "foldE body xs u = Inr t" by auto
  with Cons show ?case by (auto intro: body_keeps)
qed

end

text \<open>
  The same for a relation between the states before and after: what one step does and composes,
  the whole loop does.
\<close>

locale loop_relation =
  fixes body :: "'a \<Rightarrow> 's \<Rightarrow> 'e + 's"
    and rel :: "'s \<Rightarrow> 's \<Rightarrow> bool"
  assumes rel_refl: "rel s s"
    and rel_trans: "rel s t \<Longrightarrow> rel t u \<Longrightarrow> rel s u"
    and body_rel: "body x s = Inr t \<Longrightarrow> rel s t"
begin

lemma loop_rel: "foldE body xs s = Inr t \<Longrightarrow> rel s t"
proof (induction xs arbitrary: s)
  case Nil
  then show ?case by (simp add: rel_refl)
next
  case (Cons x xs)
  then obtain u where "body x s = Inr u" "foldE body xs u = Inr t" by auto
  with Cons.IH show ?case by (blast intro: rel_trans body_rel)
qed

end

section \<open>Dictionaries\<close>

lemma map_of_update [simp]: "map_of (AList.update k v d) = (map_of d)(k \<mapsto> v)"
  by (simp add: update_conv')

lemma map_of_delete [simp]: "map_of (AList.delete k d) = (map_of d)(k := None)"
  by (rule delete_conv')

lemma keys_update_present: "k \<in> fst ` set d \<Longrightarrow> map fst (AList.update k v d) = map fst d"
  by (induction d) auto

lemma distinct_keys_update: "distinct (map fst d) \<Longrightarrow> distinct (map fst (AList.update k v d))"
  by (rule distinct_update)

lemma distinct_keys_delete: "distinct (map fst d) \<Longrightarrow> distinct (map fst (AList.delete k d))"
  by (rule distinct_delete)

lemma update_fresh: "k \<notin> set (map fst d) \<Longrightarrow> AList.update k v d = d @ [(k, v)]"
  by (induction d) auto

end
