(* ===== verification/Decimals.thy ===== *)
theory Decimals
  imports Prelude
begin

text \<open>
  Python's \<open>decimal.Decimal\<close>, as far as the kernel uses it, and
  \<open>research_kernel/numeric.py\<close>.

  A finite decimal is \<open>Dec c e\<close> for \<open>c * 10 ^ e\<close>; the sign of zero is not kept, because
  no comparison, no arithmetic result and no canonical text in the code depends on it. Values
  that may be infinite or NaN occur only where text or market data is parsed, as \<open>pydec\<close>.

  Arithmetic runs in a context: the exact result is rounded half-even to \<open>prec\<close> digits,
  with the exponent range \<open>Etiny\<close> to \<open>Etop\<close>, as \<open>Decimal._fix\<close> does. Two contexts
  matter: \<open>ACCOUNTING_CONTEXT\<close> (34 digits, \<open>numeric.py\<close>) and the interpreter's default
  context (28 digits), in which an expression such as \<open>gross_cash + value\<close> is evaluated when
  it is written outside \<open>with accounting_context()\<close>, also as the argument of \<open>money\<close>.

  \<open>dval\<close> reads a decimal as a rational; the lemmas say that every operation is the rational
  operation followed by one rounding, and that rounding is monotone, odd, idempotent and off by
  at most half a unit of the last kept digit.
\<close>

section \<open>Decimals and contexts\<close>

datatype dec = Dec (coeff: int) (expo: int)

datatype pydec = Finite dec | Infinite | NaN

record dctx =
  prec :: nat
  emin :: int
  emax :: int
  clamp :: bool

definition ACCOUNTING_CONTEXT :: dctx where
  "ACCOUNTING_CONTEXT = \<lparr>prec = 34, emin = -6143, emax = 6144, clamp = True\<rparr>"

definition DEFAULT_CONTEXT :: dctx where
  "DEFAULT_CONTEXT = \<lparr>prec = 28, emin = -999999, emax = 999999, clamp = False\<rparr>"

definition etiny :: "dctx \<Rightarrow> int" where
  "etiny ctx = emin ctx - int (prec ctx) + 1"

definition etop :: "dctx \<Rightarrow> int" where
  "etop ctx = emax ctx - int (prec ctx) + 1"

function ndigits :: "int \<Rightarrow> nat" where
  "ndigits n = (if n < 10 then 1 else Suc (ndigits (n div 10)))"
  by pat_completeness auto
termination
  by (relation "measure nat") auto

declare ndigits.simps [simp del]

definition half_even :: "int \<Rightarrow> int \<Rightarrow> int" where
  "half_even c p =
     (let q = c div p; r = c mod p
      in if 2 * r < p \<or> (2 * r = p \<and> even q) then q else q + 1)"

definition dec_fix :: "dctx \<Rightarrow> dec \<Rightarrow> py_error + dec" where
  "dec_fix ctx d =
     (let c = coeff d; e = expo d in
      if c = 0 then Inr (Dec 0 (min (max e (etiny ctx)) (if clamp ctx then etop ctx else emax ctx)))
      else
        let exp_min = int (ndigits \<bar>c\<bar>) + e - int (prec ctx) in
        if etop ctx < exp_min then Inl DecimalException
        else
          let g = max exp_min (etiny ctx) in
          if e < g then
            let q = half_even c (10 ^ nat (g - e)) in
            if prec ctx < ndigits \<bar>q\<bar> then
              (if etop ctx < g + 1 then Inl DecimalException else Inr (Dec (q div 10) (g + 1)))
            else Inr (Dec q g)
          else if clamp ctx \<and> etop ctx < e then Inr (Dec (c * 10 ^ nat (e - etop ctx)) (etop ctx))
          else Inr (Dec c e))"

definition dec_of_int :: "int \<Rightarrow> dec" where
  "dec_of_int n = Dec n 0"

definition align :: "int \<Rightarrow> dec \<Rightarrow> int" where
  "align e d = coeff d * 10 ^ nat (expo d - e)"

definition dec_add :: "dctx \<Rightarrow> dec \<Rightarrow> dec \<Rightarrow> py_error + dec" where
  "dec_add ctx a b = (let e = min (expo a) (expo b) in dec_fix ctx (Dec (align e a + align e b) e))"

definition copy_negate :: "dec \<Rightarrow> dec" where
  "copy_negate a = Dec (- coeff a) (expo a)"

definition dec_sub :: "dctx \<Rightarrow> dec \<Rightarrow> dec \<Rightarrow> py_error + dec" where
  "dec_sub ctx a b = dec_add ctx a (copy_negate b)"

definition dec_mul :: "dctx \<Rightarrow> dec \<Rightarrow> dec \<Rightarrow> py_error + dec" where
  "dec_mul ctx a b = dec_fix ctx (Dec (coeff a * coeff b) (expo a + expo b))"

text \<open>
  Division computes \<open>prec + 1\<close> or more digits of the quotient, marks an inexact quotient by
  making its last digit sticky, and rounds once. An exact quotient moves towards the ideal
  exponent, here by at most the quotient's own digits.
\<close>

function strip_zeros :: "int \<Rightarrow> int \<Rightarrow> int \<Rightarrow> dec" where
  "strip_zeros ideal c e =
     (if c \<noteq> 0 \<and> e < ideal \<and> c mod 10 = 0 then strip_zeros ideal (c div 10) (e + 1) else Dec c e)"
  by pat_completeness auto
termination
  by (relation "measure (\<lambda>(ideal, c, e). nat (ideal - e))") auto

declare strip_zeros.simps [simp del]

definition sticky :: "int \<Rightarrow> int \<Rightarrow> int" where
  "sticky n d =
     (let q = n div d in if n mod d \<noteq> 0 \<and> q mod 5 = 0 then q + 1 else q)"

definition dec_div :: "dctx \<Rightarrow> dec \<Rightarrow> dec \<Rightarrow> py_error + dec" where
  "dec_div ctx a b =
     (if coeff b = 0 then Inl DecimalException
      else if coeff a = 0 then dec_fix ctx (Dec 0 (expo a - expo b))
      else
        let shift = int (ndigits \<bar>coeff b\<bar>) - int (ndigits \<bar>coeff a\<bar>) + int (prec ctx) + 1;
            n = \<bar>coeff a\<bar> * 10 ^ nat shift;
            d = \<bar>coeff b\<bar> * 10 ^ nat (- shift);
            e = expo a - expo b - shift;
            s = sgn (coeff a) * sgn (coeff b)
        in if n mod d \<noteq> 0 then dec_fix ctx (Dec (s * sticky n d) e)
           else let r = strip_zeros (expo a - expo b) (n div d) e
                in dec_fix ctx (Dec (s * coeff r) (expo r)))"

definition dle :: "dec \<Rightarrow> dec \<Rightarrow> bool" where
  "dle a b = (let e = min (expo a) (expo b) in align e a \<le> align e b)"

definition dlt :: "dec \<Rightarrow> dec \<Rightarrow> bool" where
  "dlt a b = (let e = min (expo a) (expo b) in align e a < align e b)"

definition deq :: "dec \<Rightarrow> dec \<Rightarrow> bool" where
  "deq a b = (let e = min (expo a) (expo b) in align e a = align e b)"

definition dzero :: dec where
  "dzero = Dec 0 0"

text \<open>Python's \<open>max(a, b)\<close> and \<open>min(a, b)\<close> return the first argument when both are equal.\<close>

definition dmax :: "dec \<Rightarrow> dec \<Rightarrow> dec" where
  "dmax a b = (if dlt a b then b else a)"

definition dmin :: "dec \<Rightarrow> dec \<Rightarrow> dec" where
  "dmin a b = (if dlt b a then b else a)"

text \<open>\<open>int(d)\<close> truncates towards zero.\<close>

definition dec_to_int :: "dec \<Rightarrow> int" where
  "dec_to_int d =
     (if 0 \<le> expo d then coeff d * 10 ^ nat (expo d)
      else sgn (coeff d) * (\<bar>coeff d\<bar> div 10 ^ nat (- expo d)))"

fun dsum :: "dctx \<Rightarrow> dec \<Rightarrow> dec list \<Rightarrow> py_error + dec" where
  "dsum ctx acc [] = Inr acc"
| "dsum ctx acc (x # xs) = bindE (dec_add ctx acc x) (\<lambda>s. dsum ctx s xs)"

section \<open>Rational reading\<close>

definition dval :: "dec \<Rightarrow> rat" where
  "dval d = of_int (coeff d) * 10 powi (expo d)"

lemma ten_powi_pos [simp]: "(0::rat) < 10 powi e"
  by (simp add: zero_less_power_int)

lemma ten_powi_neq0 [simp]: "(10::rat) powi e \<noteq> 0"
  by (simp add: power_int_eq_0_iff)

lemma ten_powi_mono: "a \<le> b \<Longrightarrow> (10::rat) powi a \<le> 10 powi b"
  by (rule power_int_increasing) simp_all

lemma ten_powi_less_iff [simp]: "(10::rat) powi a < 10 powi b \<longleftrightarrow> a < b"
  by (metis linorder_not_le order_less_irrefl order_le_less power_int_strict_increasing
      numeral_One numeral_less_iff semiring_norm(76) ten_powi_mono)

lemma ten_powi_le_iff [simp]: "(10::rat) powi a \<le> 10 powi b \<longleftrightarrow> a \<le> b"
  by (metis linorder_not_le ten_powi_less_iff)

lemma ten_powi_nat: "0 \<le> k \<Longrightarrow> (10::rat) powi k = of_int (10 ^ nat k)"
  by (simp add: power_int_def)

lemma ten_powi_split: "e \<le> f \<Longrightarrow> (10::rat) powi f = of_int (10 ^ nat (f - e)) * 10 powi e"
proof -
  assume "e \<le> f"
  then have "(10::rat) powi (f - e) * 10 powi e = of_int (10 ^ nat (f - e)) * 10 powi e"
    by (subst ten_powi_nat) auto
  then show ?thesis by (simp flip: power_int_add)
qed

lemma align_val: "e \<le> expo d \<Longrightarrow> of_int (align e d) * 10 powi e = dval d"
  by (simp add: align_def dval_def ten_powi_split [of e "expo d"])

lemma dval_Dec [simp]: "dval (Dec c e) = of_int c * 10 powi e"
  by (simp add: dval_def)

lemma dval_of_int [simp]: "dval (dec_of_int n) = of_int n"
  by (simp add: dec_of_int_def)

lemma dval_dzero [simp]: "dval dzero = 0"
  by (simp add: dzero_def)

lemma dval_copy_negate [simp]: "dval (copy_negate a) = - dval a"
  by (simp add: copy_negate_def dval_def)

lemma dval_eq_0_iff: "dval d = 0 \<longleftrightarrow> coeff d = 0"
  by (simp add: dval_def)

lemma dval_pos_iff: "0 < dval d \<longleftrightarrow> 0 < coeff d"
  by (simp add: dval_def zero_less_mult_iff) (simp add: order_less_not_sym)

lemma dle_val: "dle a b \<longleftrightarrow> dval a \<le> dval b"
proof -
  let ?e = "min (expo a) (expo b)"
  have "dval a \<le> dval b \<longleftrightarrow> of_int (align ?e a) * 10 powi ?e \<le> (of_int (align ?e b) * 10 powi ?e :: rat)"
    by (simp add: align_val)
  also have "\<dots> \<longleftrightarrow> align ?e a \<le> align ?e b" by simp
  finally show ?thesis by (simp add: dle_def Let_def)
qed

lemma dlt_val: "dlt a b \<longleftrightarrow> dval a < dval b"
proof -
  have "dlt a b \<longleftrightarrow> \<not> dle b a" by (simp add: dlt_def dle_def Let_def min.commute not_le)
  then show ?thesis by (simp add: dle_val not_le)
qed

lemma deq_val: "deq a b \<longleftrightarrow> dval a = dval b"
proof -
  have "deq a b \<longleftrightarrow> dle a b \<and> dle b a"
    by (auto simp: deq_def dle_def Let_def min.commute)
  then show ?thesis by (auto simp: dle_val)
qed

lemmas dec_order_val = dle_val dlt_val deq_val

lemma dval_dmax [simp]: "dval (dmax a b) = max (dval a) (dval b)"
  by (simp add: dmax_def dlt_val max_def)

lemma dval_dmin [simp]: "dval (dmin a b) = min (dval a) (dval b)"
  by (auto simp: dmin_def dlt_val min_def)

section \<open>Rounding\<close>

text \<open>
  \<open>rhe\<close> rounds a rational half-even to an integer and \<open>rgrid v g\<close> to a multiple of
  \<open>10 ^ g\<close>: the specification of the rounding step of \<open>dec_fix\<close>.
\<close>

definition rhe :: "rat \<Rightarrow> int" where
  "rhe x = (let f = \<lfloor>x\<rfloor>; d = x - of_int f
            in if d < 1 / 2 \<or> (d = 1 / 2 \<and> even f) then f else f + 1)"

definition rgrid :: "rat \<Rightarrow> int \<Rightarrow> rat" where
  "rgrid v g = of_int (rhe (v / 10 powi g)) * 10 powi g"

definition dgrid :: "dctx \<Rightarrow> dec \<Rightarrow> int" where
  "dgrid ctx d = max (int (ndigits \<bar>coeff d\<bar>) + expo d - int (prec ctx)) (etiny ctx)"

definition fits :: "dctx \<Rightarrow> rat \<Rightarrow> bool" where
  "fits ctx v \<longleftrightarrow> (\<exists>m g. v = of_int m * 10 powi g \<and> \<bar>m\<bar> < 10 ^ prec ctx \<and> etiny ctx \<le> g)"

lemma rhe_of_int [simp]: "rhe (of_int n) = n"
  by (simp add: rhe_def)

lemma rhe_error: "\<bar>of_int (rhe x) - x\<bar> \<le> 1 / 2"
proof -
  obtain f where f: "\<lfloor>x\<rfloor> = f" by blast
  then have "of_int f \<le> x" "x < of_int f + 1" using floor_correct [of x] by auto
  then show ?thesis by (auto simp: rhe_def Let_def abs_if f)
qed

lemma rhe_mono: "x \<le> y \<Longrightarrow> rhe x \<le> rhe y"
proof -
  assume xy: "x \<le> y"
  then have le: "\<lfloor>x\<rfloor> \<le> \<lfloor>y\<rfloor>" by (rule floor_mono)
  show ?thesis
  proof (cases "\<lfloor>x\<rfloor> = \<lfloor>y\<rfloor>")
    case True
    with xy show ?thesis by (auto simp: rhe_def Let_def)
  next
    case False
    with le have "\<lfloor>x\<rfloor> + 1 \<le> \<lfloor>y\<rfloor>" by simp
    then show ?thesis by (auto simp: rhe_def Let_def)
  qed
qed

lemma rhe_minus: "rhe (- x) = - rhe x"
proof (cases "x = of_int \<lfloor>x\<rfloor>")
  case True
  then obtain n where "x = of_int n" by blast
  then show ?thesis by (metis of_int_minus rhe_of_int)
next
  case False
  obtain f where f: "\<lfloor>x\<rfloor> = f" by blast
  with False have fx: "of_int f < x" "x < of_int f + 1" using floor_correct [of x] by auto
  then have "\<lfloor>- x\<rfloor> = - f - 1" by (intro floor_unique) auto
  with f fx show ?thesis by (auto simp: rhe_def Let_def)
qed

lemma half_even_rhe: "0 < p \<Longrightarrow> half_even c p = rhe (of_int c / of_int p)"
proof -
  assume p: "0 < p"
  have fl: "\<lfloor>(of_int c / of_int p :: rat)\<rfloor> = c div p" by (rule floor_divide_of_int_eq)
  have "(of_int c :: rat) = of_int (c div p) * of_int p + of_int (c mod p)"
    by (metis div_mult_mod_eq of_int_add of_int_mult)
  with p have d: "(of_int c / of_int p :: rat) - of_int (c div p) = of_int (c mod p) / of_int p"
    by (simp add: field_simps)
  have "of_int (c mod p) / of_int p < (1 / 2 :: rat) \<longleftrightarrow> (of_int (2 * (c mod p)) :: rat) < of_int p"
    using p by (simp add: divide_simps mult.commute)
  then have lt: "of_int (c mod p) / of_int p < (1 / 2 :: rat) \<longleftrightarrow> 2 * (c mod p) < p"
    by (simp only: of_int_less_iff)
  have "of_int (c mod p) / of_int p = (1 / 2 :: rat) \<longleftrightarrow> (of_int (2 * (c mod p)) :: rat) = of_int p"
    using p by (simp add: divide_simps mult.commute)
  then have eq: "of_int (c mod p) / of_int p = (1 / 2 :: rat) \<longleftrightarrow> 2 * (c mod p) = p"
    by (simp only: of_int_eq_iff)
  show ?thesis
    unfolding half_even_def rhe_def fl Let_def d lt eq ..
qed

lemma rgrid_0 [simp]: "rgrid 0 g = 0"
  using rhe_of_int [of 0] by (simp add: rgrid_def)

lemma rgrid_minus: "rgrid (- v) g = - rgrid v g"
  by (simp add: rgrid_def rhe_minus)

lemma rgrid_mono: "v \<le> w \<Longrightarrow> rgrid v g \<le> rgrid w g"
  by (simp add: rgrid_def rhe_mono divide_right_mono)

lemma rgrid_error: "\<bar>rgrid v g - v\<bar> \<le> 10 powi g / 2"
proof -
  have "\<bar>rgrid v g - v\<bar> = \<bar>of_int (rhe (v / 10 powi g)) - v / 10 powi g\<bar> * 10 powi g"
    by (simp add: rgrid_def abs_mult [symmetric] left_diff_distrib abs_mult_pos)
  also have "\<dots> \<le> 1 / 2 * 10 powi g"
    by (rule mult_right_mono [OF rhe_error]) (simp add: less_imp_le)
  finally show ?thesis by simp
qed

lemma rgrid_fixed: "g \<le> f \<Longrightarrow> rgrid (of_int m * 10 powi f) g = of_int m * 10 powi f"
proof -
  assume "g \<le> f"
  then have "(of_int m * 10 powi f :: rat) / 10 powi g = of_int (m * 10 ^ nat (f - g))"
    by (simp add: ten_powi_split [of g f])
  then have "rhe (of_int m * 10 powi f / 10 powi g) = m * 10 ^ nat (f - g)" by (metis rhe_of_int)
  then show ?thesis using \<open>g \<le> f\<close> by (simp add: rgrid_def ten_powi_split [of g f])
qed

section \<open>Digit counts\<close>

lemma ndigits_pos [simp]: "0 < ndigits n"
  by (subst ndigits.simps) simp

lemma ndigits_bounds: "0 < n \<Longrightarrow> 10 ^ (ndigits n - 1) \<le> n \<and> n < 10 ^ ndigits n"
proof (induction n rule: ndigits.induct)
  case (1 n)
  show ?case
  proof (cases "n < 10")
    case True
    with "1.prems" show ?thesis by (simp add: ndigits.simps [of n])
  next
    case False
    let ?k = "ndigits (n div 10)"
    from False "1.IH" have ih: "10 ^ (?k - 1) \<le> n div 10" "n div 10 < 10 ^ ?k" by auto
    have k: "Suc (?k - 1) = ?k" by (rule Suc_diff_1) simp
    have "(10::int) ^ ?k = 10 * 10 ^ (?k - 1)" by (metis k power_Suc)
    with ih False show ?thesis
      by (simp add: ndigits.simps [of n]) (intro conjI; linarith)
  qed
qed

lemma ndigits_le_iff: "0 < n \<Longrightarrow> ndigits n \<le> k \<longleftrightarrow> n < 10 ^ k"
proof
  assume "0 < n" "ndigits n \<le> k"
  then show "n < 10 ^ k"
    using ndigits_bounds [of n] power_increasing [of "ndigits n" k "10::int"] by linarith
next
  assume n: "0 < n" "n < 10 ^ k"
  show "ndigits n \<le> k"
  proof (rule ccontr)
    assume "\<not> ndigits n \<le> k"
    then have "k \<le> ndigits n - 1" by simp
    then have "(10::int) ^ k \<le> 10 ^ (ndigits n - 1)" by (rule power_increasing) simp
    with n ndigits_bounds [OF n(1)] show False by linarith
  qed
qed

lemma dval_magnitude:
  assumes "coeff d \<noteq> 0"
  shows "10 powi (int (ndigits \<bar>coeff d\<bar>) + expo d - 1) \<le> \<bar>dval d\<bar>"
    and "\<bar>dval d\<bar> < 10 powi (int (ndigits \<bar>coeff d\<bar>) + expo d)"
proof -
  let ?n = "ndigits \<bar>coeff d\<bar>"
  have b: "10 ^ (?n - 1) \<le> \<bar>coeff d\<bar>" "\<bar>coeff d\<bar> < 10 ^ ?n"
    using ndigits_bounds [of "\<bar>coeff d\<bar>"] assms by auto
  have abs: "\<bar>dval d\<bar> = of_int \<bar>coeff d\<bar> * 10 powi expo d"
    by (simp add: dval_def abs_mult)
  have n1: "int ?n + expo d - 1 = int (?n - 1) + expo d"
    using ndigits_pos [of "\<bar>coeff d\<bar>"] by linarith
  have "(10::rat) powi (int ?n + expo d - 1) = of_int (10 ^ (?n - 1)) * 10 powi expo d"
    unfolding n1 by (simp add: power_int_add)
  moreover have "(10::rat) powi (int ?n + expo d) = of_int (10 ^ ?n) * 10 powi expo d"
    by (simp add: power_int_add)
  moreover have "(of_int (10 ^ (?n - 1)) :: rat) \<le> of_int \<bar>coeff d\<bar>"
    using b(1) by (rule of_int_le_iff [THEN iffD2])
  moreover have "(of_int \<bar>coeff d\<bar> :: rat) < of_int (10 ^ ?n)"
    using b(2) by (rule of_int_less_iff [THEN iffD2])
  ultimately show "10 powi (int ?n + expo d - 1) \<le> \<bar>dval d\<bar>"
    and "\<bar>dval d\<bar> < 10 powi (int ?n + expo d)"
    unfolding abs by (simp_all only: mult_right_mono mult_strict_right_mono ten_powi_pos less_imp_le)
qed

section \<open>What one rounding does\<close>

text \<open>A context is sound when it keeps a digit and its exponent range is not empty.\<close>

definition ctx_ok :: "dctx \<Rightarrow> bool" where
  "ctx_ok ctx \<longleftrightarrow> 0 < prec ctx \<and> etiny ctx \<le> etop ctx \<and> etop ctx \<le> emax ctx"

lemma ctx_ok_ACCOUNTING [simp]: "ctx_ok ACCOUNTING_CONTEXT"
  by (simp add: ctx_ok_def ACCOUNTING_CONTEXT_def etiny_def etop_def)

lemma ctx_ok_DEFAULT [simp]: "ctx_ok DEFAULT_CONTEXT"
  by (simp add: ctx_ok_def DEFAULT_CONTEXT_def etiny_def etop_def)

lemma half_even_rgrid:
  "e \<le> g \<Longrightarrow> of_int (half_even c (10 ^ nat (g - e))) * 10 powi g = rgrid (of_int c * 10 powi e) g"
  by (simp add: half_even_rhe rgrid_def ten_powi_split [of e g])

lemma rgrid_magnitude:
  assumes "\<bar>v\<bar> \<le> 10 powi k" "g \<le> k" shows "\<bar>rgrid v g\<bar> \<le> 10 powi k"
proof -
  have "rgrid (10 powi k) g = 10 powi k" using rgrid_fixed [OF assms(2), of 1] by simp
  then show ?thesis
    using rgrid_mono [of v "10 powi k" g] rgrid_mono [of "- (10 powi k)" v g] assms(1)
    by (simp add: abs_le_iff rgrid_minus)
qed

lemma dec_fix_zero: "coeff d = 0 \<Longrightarrow> \<exists>r. dec_fix ctx d = Inr r \<and> coeff r = 0"
  by (simp add: dec_fix_def)

text \<open>
  The correctness of \<open>dec_fix\<close>: a result is the exact value rounded on the grid of the
  context, and has at most \<open>prec\<close> digits.
\<close>

lemma carry_is_power:
  assumes p: "0 < p" and big: "p < ndigits \<bar>q\<bar>" and le: "\<bar>q\<bar> \<le> 10 ^ p"
  shows "\<bar>q div 10\<bar> < 10 ^ p" and "q div 10 * 10 = q"
proof -
  have "q \<noteq> 0" using p big by (auto simp: ndigits.simps [of 0])
  then have "10 ^ p \<le> \<bar>q\<bar>" using big ndigits_le_iff [of "\<bar>q\<bar>" p] by simp
  with le have q: "\<bar>q\<bar> = 10 ^ p" by simp
  moreover have "(10::int) ^ p = 10 * 10 ^ (p - 1)" using p by (cases p) auto
  ultimately have q: "q = 10 * 10 ^ (p - 1) \<or> q = 10 * (- (10 ^ (p - 1)))" by linarith
  then show "q div 10 * 10 = q" by auto
  have "(10::int) ^ (p - 1) < 10 ^ p" using p by (intro power_strict_increasing) auto
  with q show "\<bar>q div 10\<bar> < 10 ^ p" by (auto simp del: mult_minus_right)
qed

lemma dec_fix_correct:
  assumes ok: "ctx_ok ctx" and nz: "coeff d \<noteq> 0" and res: "dec_fix ctx d = Inr r"
  shows "dval r = rgrid (dval d) (dgrid ctx d)"
    and "\<bar>coeff r\<bar> < 10 ^ prec ctx" and "etiny ctx \<le> expo r"
proof -
  let ?p = "prec ctx" and ?c = "coeff d" and ?e = "expo d" and ?g = "dgrid ctx d"
  let ?n = "ndigits \<bar>?c\<bar>"
  have p: "0 < ?p" using ok by (simp add: ctx_ok_def)
  have dd: "dval d = of_int ?c * 10 powi ?e" by (simp add: dval_def)
  have gdef: "?g = max (int ?n + ?e - int ?p) (etiny ctx)" by (simp add: dgrid_def)
  have top: "int ?n + ?e - int ?p \<le> etop ctx"
    using res nz by (auto simp: dec_fix_def Let_def split: if_splits)
  then have top': "\<not> etop ctx < int ?n + ?e - int ?p" by linarith
  note unfold = dec_fix_def Let_def gdef [symmetric]
  have "dval r = rgrid (dval d) ?g \<and> \<bar>coeff r\<bar> < 10 ^ ?p \<and> etiny ctx \<le> expo r"
  proof (cases "?e < ?g")
    case True
    let ?q = "half_even ?c (10 ^ nat (?g - ?e))"
    have qv: "of_int ?q * 10 powi ?g = rgrid (dval d) ?g"
      using True by (simp add: half_even_rgrid dd)
    have "int ?n + ?e \<le> ?g + int ?p" by (simp add: gdef)
    from order_less_le_trans [OF dval_magnitude(2) [OF nz] ten_powi_mono [OF this]]
    have "\<bar>dval d\<bar> \<le> 10 powi (?g + int ?p)" by simp
    then have "\<bar>of_int ?q * (10::rat) powi ?g\<bar> \<le> 10 powi (?g + int ?p)"
      unfolding qv by (rule rgrid_magnitude) simp
    then have "of_int \<bar>?q\<bar> * (10::rat) powi ?g \<le> of_int (10 ^ ?p) * 10 powi ?g"
      by (simp add: abs_mult power_int_add mult.commute)
    then have qle: "\<bar>?q\<bar> \<le> 10 ^ ?p" by (simp only: mult_le_cancel_right_pos ten_powi_pos of_int_le_iff)
    show ?thesis
    proof (cases "?p < ndigits \<bar>?q\<bar>")
      case big: True
      have r: "r = Dec (?q div 10) (?g + 1)"
        using res unfolding unfold by (simp only: nz top' True big if_True if_False split: if_splits) auto
      have "dval r = of_int (?q div 10 * 10) * 10 powi ?g"
        by (simp add: r power_int_add mult.assoc)
      then have "dval r = rgrid (dval d) ?g" by (simp only: carry_is_power(2) [OF p big qle] qv)
      moreover have "\<bar>coeff r\<bar> < 10 ^ ?p" using carry_is_power(1) [OF p big qle] by (simp only: r dec.sel)
      moreover have "etiny ctx \<le> expo r" by (simp add: r gdef)
      ultimately show ?thesis by blast
    next
      case small: False
      have r: "r = Dec ?q ?g"
        using res unfolding unfold by (simp only: nz top' True small if_True if_False) simp
      have "?q = 0 \<or> \<bar>?q\<bar> < 10 ^ ?p"
        using small ndigits_le_iff [of "\<bar>?q\<bar>" ?p] by linarith
      then have "\<bar>?q\<bar> < 10 ^ ?p" by auto
      moreover have "dval r = rgrid (dval d) ?g" by (simp only: r dval_Dec qv)
      moreover have "etiny ctx \<le> expo r" by (simp only: r dec.sel gdef)
      ultimately show ?thesis by (simp only: r dec.sel)
    qed
  next
    case False
    then have g: "?g \<le> ?e" by simp
    have v: "rgrid (dval d) ?g = dval d" unfolding dd by (rule rgrid_fixed [OF g])
    have small: "\<bar>?c\<bar> < 10 ^ ?n" using ndigits_bounds [of "\<bar>?c\<bar>"] nz by simp
    show ?thesis
    proof (cases "clamp ctx \<and> etop ctx < ?e")
      case True
      have r: "r = Dec (?c * 10 ^ nat (?e - etop ctx)) (etop ctx)"
        using res nz False top True by (auto simp: dec_fix_def Let_def gdef split: if_splits)
      have "\<bar>?c * 10 ^ nat (?e - etop ctx)\<bar> < 10 ^ ?n * 10 ^ nat (?e - etop ctx)"
        using small by (simp add: abs_mult)
      also have "\<dots> \<le> 10 ^ ?p"
        unfolding power_add [symmetric] using True top by (intro power_increasing) auto
      finally show ?thesis
        using v ok True ten_powi_split [of "etop ctx" ?e] by (simp add: r dd ctx_ok_def)
    next
      case noclamp: False
      have r: "r = Dec ?c ?e"
        using res nz False top noclamp by (auto simp: dec_fix_def Let_def gdef split: if_splits)
      have "?n \<le> ?p" using g by (simp add: gdef)
      then have "(10::int) ^ ?n \<le> 10 ^ ?p" by (intro power_increasing) auto
      with small have "\<bar>?c\<bar> < 10 ^ ?p" by linarith
      with g v show ?thesis by (simp add: r dd gdef)
    qed
  qed
  then show "dval r = rgrid (dval d) ?g" "\<bar>coeff r\<bar> < 10 ^ ?p" "etiny ctx \<le> expo r" by auto
qed

section \<open>Rounding of rationals in a context\<close>

text \<open>
  \<open>rounds_to ctx v x\<close>: the rational \<open>v\<close> rounds to \<open>x\<close> in the context. It speaks of
  values only, so it also covers quotients that are no finite decimals.
\<close>

definition decade :: "rat \<Rightarrow> int \<Rightarrow> bool" where
  "decade v k \<longleftrightarrow> 10 powi k \<le> \<bar>v\<bar> \<and> \<bar>v\<bar> < 10 powi (k + 1)"

definition vgrid :: "dctx \<Rightarrow> int \<Rightarrow> int" where
  "vgrid ctx k = max (k + 1 - int (prec ctx)) (etiny ctx)"

definition rounds_to :: "dctx \<Rightarrow> rat \<Rightarrow> rat \<Rightarrow> bool" where
  "rounds_to ctx v x \<longleftrightarrow> (v = 0 \<and> x = 0) \<or> (\<exists>k. decade v k \<and> x = rgrid v (vgrid ctx k))"

lemma decade_mono: "decade v k \<Longrightarrow> decade w l \<Longrightarrow> \<bar>v\<bar> \<le> \<bar>w\<bar> \<Longrightarrow> k \<le> l"
proof -
  assume "decade v k" "decade w l" "\<bar>v\<bar> \<le> \<bar>w\<bar>"
  then have "(10::rat) powi k < 10 powi (l + 1)" unfolding decade_def by linarith
  then show ?thesis by simp
qed

lemma decade_nonzero: "decade v k \<Longrightarrow> v \<noteq> 0"
  using ten_powi_pos [of k] by (auto simp: decade_def simp flip: not_less)

lemma decade_dval: "coeff d \<noteq> 0 \<Longrightarrow> decade (dval d) (int (ndigits \<bar>coeff d\<bar>) + expo d - 1)"
  using dval_magnitude [of d] by (simp add: decade_def)

lemma dec_fix_rounds:
  assumes "ctx_ok ctx" and "dec_fix ctx d = Inr r"
  shows "rounds_to ctx (dval d) (dval r)"
proof (cases "coeff d = 0")
  case True
  then show ?thesis
    using assms(2) dec_fix_zero [of d ctx] by (auto simp: rounds_to_def dval_eq_0_iff)
next
  case False
  then show ?thesis
    using dec_fix_correct(1) [OF assms(1) False assms(2)] decade_dval [OF False]
    unfolding rounds_to_def by (intro disjI2 exI conjI) (assumption, simp add: dgrid_def vgrid_def add.commute)
qed

lemma rounds_minus: "rounds_to ctx v x \<Longrightarrow> rounds_to ctx (- v) (- x)"
  by (auto simp: rounds_to_def decade_def rgrid_minus)

lemma rounds_nonneg: "rounds_to ctx v x \<Longrightarrow> 0 \<le> v \<Longrightarrow> 0 \<le> x"
  using rgrid_mono [of 0 v] by (auto simp: rounds_to_def)

lemma rounds_nonpos: "rounds_to ctx v x \<Longrightarrow> v \<le> 0 \<Longrightarrow> x \<le> 0"
  using rgrid_mono [of v 0] by (auto simp: rounds_to_def)

lemma rgrid_reaches:
  assumes "decade v k" "0 \<le> v" "g \<le> k" shows "10 powi k \<le> rgrid v g"
  using rgrid_mono [of "10 powi k" v g] rgrid_fixed [OF assms(3), of 1] assms(1,2)
  by (simp add: decade_def)

text \<open>Grids grow with the magnitude, so rounding is monotone across them.\<close>

lemma rounds_mono_pos:
  assumes ok: "ctx_ok ctx" and v: "rounds_to ctx v x" and w: "rounds_to ctx w y" and le: "0 \<le> v" "v \<le> w"
  shows "x \<le> y"
proof (cases "v = 0")
  case True
  then have "x = 0" using v decade_nonzero by (auto simp: rounds_to_def)
  then show ?thesis using rounds_nonneg [OF w] le by simp
next
  case False
  with v w le obtain k l where k: "decade v k" "x = rgrid v (vgrid ctx k)"
    and l: "decade w l" "y = rgrid w (vgrid ctx l)" by (auto simp: rounds_to_def)
  have kl: "k \<le> l" using decade_mono [OF k(1) l(1)] le by simp
  show ?thesis
  proof (cases "vgrid ctx k = vgrid ctx l")
    case True
    then show ?thesis using k l le rgrid_mono by simp
  next
    case False
    with kl have less: "k < l" "vgrid ctx l = l + 1 - int (prec ctx)" "vgrid ctx k < vgrid ctx l"
      by (auto simp: vgrid_def)
    moreover have gl: "vgrid ctx l \<le> l" using ok less by (simp add: ctx_ok_def)
    moreover have "\<bar>v\<bar> \<le> 10 powi l"
      using k(1) ten_powi_mono [of "k + 1" l] less unfolding decade_def by linarith
    ultimately have "\<bar>x\<bar> \<le> 10 powi l" unfolding k(2) by (intro rgrid_magnitude) auto
    moreover have "10 powi l \<le> y" unfolding l(2) using l(1) le gl by (intro rgrid_reaches) auto
    ultimately show ?thesis by linarith
  qed
qed

theorem rounds_mono:
  assumes "ctx_ok ctx" "rounds_to ctx v x" "rounds_to ctx w y" "v \<le> w"
  shows "x \<le> y"
proof -
  consider "0 \<le> v" | "w \<le> 0" | "v \<le> 0" "0 \<le> w" by linarith
  then show ?thesis
  proof cases
    case 1
    then show ?thesis using rounds_mono_pos [OF assms(1-3)] assms(4) by simp
  next
    case 2
    then have "- y \<le> - x"
      using rounds_mono_pos [OF assms(1) rounds_minus [OF assms(3)] rounds_minus [OF assms(2)]] assms(4) by simp
    then show ?thesis by simp
  next
    case 3
    then show ?thesis using assms rounds_nonneg [of ctx w y] rounds_nonpos [of ctx v x] by linarith
  qed
qed

lemma rounds_unique: "ctx_ok ctx \<Longrightarrow> rounds_to ctx v x \<Longrightarrow> rounds_to ctx v y \<Longrightarrow> x = y"
  using rounds_mono [of ctx v x v y] rounds_mono [of ctx v y v x] by simp

lemma fits_bound:
  assumes m: "\<bar>m\<bar> < 10 ^ prec ctx" "int (prec ctx) + g \<le> k"
  shows "\<bar>of_int m * 10 powi g\<bar> < (10 powi k :: rat)"
proof -
  have "of_int \<bar>m\<bar> * 10 powi g < (of_int (10 ^ prec ctx) * 10 powi g :: rat)"
    using m(1) by (intro mult_strict_right_mono) (simp_all only: of_int_less_iff ten_powi_pos)
  also have "\<dots> = 10 powi (int (prec ctx) + g)" by (simp add: power_int_add)
  also have "\<dots> \<le> 10 powi k" using m(2) by (rule ten_powi_mono)
  finally show ?thesis by (simp add: abs_mult)
qed

lemma fits_on_grid:
  fixes v :: rat
  assumes v: "v = of_int m * 10 powi g" "\<bar>m\<bar> < 10 ^ prec ctx" "etiny ctx \<le> g" and k: "10 powi k \<le> \<bar>v\<bar>"
  shows "vgrid ctx k \<le> g"
proof (rule ccontr)
  assume "\<not> vgrid ctx k \<le> g"
  with v(3) have "int (prec ctx) + g \<le> k" by (auto simp: vgrid_def)
  with v k show False using fits_bound [of m ctx g k] by simp
qed

lemma rounds_exact: "rounds_to ctx v x \<Longrightarrow> fits ctx v \<Longrightarrow> x = v"
  unfolding rounds_to_def fits_def decade_def using fits_on_grid rgrid_fixed by blast

lemma fits_le_rounded:
  assumes ok: "ctx_ok ctx" and w: "rounds_to ctx w y" and v: "fits ctx v" and le: "0 \<le> v" "v \<le> w"
  shows "v \<le> y"
proof (cases "w = 0")
  case True
  then show ?thesis using w le rounds_nonneg [of ctx w y] by simp
next
  case False
  then obtain k where k: "decade w k" "y = rgrid w (vgrid ctx k)" using w by (auto simp: rounds_to_def)
  obtain m g where mg: "v = of_int m * 10 powi g" "\<bar>m\<bar> < 10 ^ prec ctx" "etiny ctx \<le> g"
    using v by (auto simp: fits_def)
  show ?thesis
  proof (cases "vgrid ctx k \<le> g")
    case True
    then have "rgrid v (vgrid ctx k) = v" unfolding mg(1) by (rule rgrid_fixed)
    then show ?thesis using rgrid_mono [OF le(2), of "vgrid ctx k"] k by simp
  next
    case False
    then have b: "int (prec ctx) + g \<le> k" "vgrid ctx k = k + 1 - int (prec ctx)"
      using mg(3) by (auto simp: vgrid_def)
    then have "v < 10 powi k" using fits_bound [OF mg(2) b(1)] mg(1) by simp
    moreover have "10 powi k \<le> y"
      unfolding k(2) using k(1) le b(2) ok by (intro rgrid_reaches) (auto simp: ctx_ok_def)
    ultimately show ?thesis by simp
  qed
qed

lemma rounded_le_fits:
  assumes w: "rounds_to ctx w y" and v: "fits ctx v" and le: "0 \<le> w" "w \<le> v"
  shows "y \<le> v"
proof (cases "w = 0")
  case True
  then show ?thesis using w le decade_nonzero by (auto simp: rounds_to_def)
next
  case False
  then obtain k where k: "decade w k" "y = rgrid w (vgrid ctx k)" using w by (auto simp: rounds_to_def)
  obtain m g where mg: "v = of_int m * 10 powi g" "\<bar>m\<bar> < 10 ^ prec ctx" "etiny ctx \<le> g"
    using v by (auto simp: fits_def)
  have "10 powi k \<le> \<bar>v\<bar>" using k(1) le by (simp add: decade_def)
  then have "rgrid v (vgrid ctx k) = v"
    unfolding mg(1) by (intro rgrid_fixed) (use mg fits_on_grid in blast)
  then show ?thesis using rgrid_mono [OF le(2), of "vgrid ctx k"] k by simp
qed

lemma rounds_fits:
  assumes ok: "ctx_ok ctx" and v: "rounds_to ctx v x"
  shows "fits ctx x"
proof (cases "v = 0")
  case True
  then have "x = 0" using v decade_nonzero by (auto simp: rounds_to_def)
  then show ?thesis unfolding fits_def by (intro exI [of _ 0] exI [of _ "etiny ctx"]) simp
next
  case False
  then obtain k where k: "decade v k" "x = rgrid v (vgrid ctx k)" using v by (auto simp: rounds_to_def)
  let ?g = "vgrid ctx k" and ?p = "prec ctx"
  let ?m = "rhe (v / 10 powi ?g)"
  have p: "0 < ?p" using ok by (simp add: ctx_ok_def)
  have "k + 1 \<le> int ?p + ?g" by (simp add: vgrid_def)
  then have "\<bar>v\<bar> \<le> 10 powi (int ?p + ?g)"
    using k(1) ten_powi_mono [of "k + 1" "int ?p + ?g"] unfolding decade_def by linarith
  then have "\<bar>rgrid v ?g\<bar> \<le> 10 powi (int ?p + ?g)" by (rule rgrid_magnitude) simp
  then have "of_int \<bar>?m\<bar> * (10::rat) powi ?g \<le> of_int (10 ^ ?p) * 10 powi ?g"
    by (simp add: rgrid_def abs_mult power_int_add)
  then have m: "\<bar>?m\<bar> \<le> 10 ^ ?p" by (simp only: mult_le_cancel_right_pos ten_powi_pos of_int_le_iff)
  have g: "etiny ctx \<le> ?g" by (simp add: vgrid_def)
  show ?thesis
  proof (cases "\<bar>?m\<bar> = 10 ^ ?p")
    case False
    with m g show ?thesis unfolding fits_def k(2) rgrid_def by (intro exI conjI refl) auto
  next
    case True
    have ten: "(10::int) ^ ?p = 10 * 10 ^ (?p - 1)" using p by (cases ?p) auto
    have lt: "(10::int) ^ (?p - 1) < 10 ^ ?p" using p by (intro power_strict_increasing) auto
    obtain n where n: "?m = 10 * n" "\<bar>n\<bar> = 10 ^ (?p - 1)"
    proof (cases "0 \<le> ?m")
      case True
      with \<open>\<bar>?m\<bar> = 10 ^ ?p\<close> ten show ?thesis by (intro that [of "10 ^ (?p - 1)"]) auto
    next
      case False
      with \<open>\<bar>?m\<bar> = 10 ^ ?p\<close> ten show ?thesis by (intro that [of "- (10 ^ (?p - 1))"]) auto
    qed
    have "x = of_int n * 10 powi (?g + 1)" unfolding k(2) rgrid_def n(1) by (simp add: power_int_add)
    moreover have "\<bar>n\<bar> < 10 ^ ?p" using n(2) lt by simp
    ultimately show ?thesis
      using g unfolding fits_def by (intro exI [of _ n] exI [of _ "?g + 1"]) simp
  qed
qed

lemma rounds_error: "rounds_to ctx v x \<Longrightarrow> decade v k \<Longrightarrow> \<bar>x - v\<bar> \<le> 10 powi (vgrid ctx k) / 2"
proof -
  assume x: "rounds_to ctx v x" and k: "decade v k"
  then obtain l where l: "decade v l" "x = rgrid v (vgrid ctx l)"
    using decade_nonzero by (auto simp: rounds_to_def)
  have "k = l" using decade_mono [OF k l(1)] decade_mono [OF l(1) k] by simp
  then show ?thesis using rgrid_error l(2) by simp
qed

section \<open>Operations\<close>

lemma dec_add_rounds: "ctx_ok ctx \<Longrightarrow> dec_add ctx a b = Inr r \<Longrightarrow> rounds_to ctx (dval a + dval b) (dval r)"
proof -
  assume ok: "ctx_ok ctx" and r: "dec_add ctx a b = Inr r"
  let ?e = "min (expo a) (expo b)"
  have "dval (Dec (align ?e a + align ?e b) ?e) = dval a + dval b"
    using align_val [of ?e a] align_val [of ?e b] by (simp add: distrib_right)
  then show ?thesis using dec_fix_rounds [OF ok] r by (metis dec_add_def)
qed

lemma dec_sub_rounds: "ctx_ok ctx \<Longrightarrow> dec_sub ctx a b = Inr r \<Longrightarrow> rounds_to ctx (dval a - dval b) (dval r)"
  unfolding dec_sub_def using dec_add_rounds [of ctx a "copy_negate b" r] by simp

lemma dec_mul_rounds: "ctx_ok ctx \<Longrightarrow> dec_mul ctx a b = Inr r \<Longrightarrow> rounds_to ctx (dval a * dval b) (dval r)"
  unfolding dec_mul_def by (drule (1) dec_fix_rounds) (simp add: dval_def power_int_add mult_ac)

text \<open>
  Division. The sticky digit makes the truncated quotient round like the exact one: neither a
  grid point nor the middle between two of them lies strictly between consecutive multiples of
  five, and both quotients are there.
\<close>

lemma strip_zeros_val: "dval (strip_zeros i c e) = of_int c * 10 powi e"
proof (induction i c e rule: strip_zeros.induct)
  case (1 i c e)
  show ?case
  proof (cases "c \<noteq> 0 \<and> e < i \<and> c mod 10 = 0")
    case True
    then have "c = c div 10 * 10" by auto
    then have "(of_int c :: rat) = of_int (c div 10) * 10" by (metis of_int_mult of_int_numeral)
    with True "1.IH" show ?thesis
      by (simp add: strip_zeros.simps [of i c e] power_int_add)
  next
    case False
    then show ?thesis by (subst strip_zeros.simps) auto
  qed
qed

lemma rhe_between:
  assumes "of_int h < 2 * x" "2 * x < of_int h + 1"
  shows "rhe x = (h + 1) div 2"
proof (cases "even h")
  case True
  then obtain f where h: "h = 2 * f" by blast
  then have "\<lfloor>x\<rfloor> = f" using assms by (intro floor_unique) auto
  then show ?thesis using assms h by (simp add: rhe_def Let_def)
next
  case False
  then obtain f where h: "h = 2 * f + 1" by (elim oddE)
  then have "\<lfloor>x\<rfloor> = f" using assms by (intro floor_unique) auto
  then show ?thesis using assms h by (simp add: rhe_def Let_def)
qed

lemma rhe_sticky:
  fixes x :: rat
  assumes x: "of_int (5 * j) < x" "x < of_int (5 * j + 5)"
  shows "rhe (x / of_int (10 * 10 ^ m)) = (j div 10 ^ m + 1) div 2"
proof (rule rhe_between)
  let ?P = "10 ^ m :: int" and ?h = "j div 10 ^ m"
  have P: "0 < ?P" by simp
  have "?h * ?P \<le> j" "j + 1 \<le> (?h + 1) * ?P"
    using div_mult_mod_eq [of j ?P] pos_mod_bound [OF P, of j] pos_mod_sign [OF P, of j]
    unfolding distrib_right by linarith+
  then have "(of_int (?h * ?P) :: rat) \<le> of_int j" "(of_int (j + 1) :: rat) \<le> of_int ((?h + 1) * ?P)"
    by (simp_all only: of_int_le_iff)
  then have b: "(of_int ?h * of_int ?P :: rat) \<le> of_int j" "(of_int j + 1 :: rat) \<le> (of_int ?h + 1) * of_int ?P"
    by (simp_all only: of_int_mult of_int_add of_int_1)
  have eq: "2 * (x / of_int (10 * ?P)) = x / (5 * of_int ?P)" by simp
  have "of_int ?h * (5 * of_int ?P) < x" using b(1) x(1) by simp
  then show "of_int ?h < 2 * (x / of_int (10 * ?P))" unfolding eq by (simp add: less_divide_eq)
  have "x < (of_int ?h + 1) * (5 * of_int ?P)" using b(2) x(2) by simp
  then show "2 * (x / of_int (10 * ?P)) < of_int ?h + 1" unfolding eq by (simp add: divide_less_eq)
qed

lemma off_fives:
  fixes q :: int
  shows "q mod 5 \<noteq> 0 \<Longrightarrow> 5 * (q div 5) < q" and "q < 5 * (q div 5) + 5"
    and "q mod 5 = 0 \<Longrightarrow> q + 1 < 5 * (q div 5) + 5" and "q mod 5 = 0 \<Longrightarrow> 5 * (q div 5) = q"
    and "q mod 5 = 0 \<Longrightarrow> (q + 1) mod 5 \<noteq> 0"
  by presburger+

lemma sticky_between:
  assumes d: "0 < d" and inexact: "n mod d \<noteq> 0"
  defines "t \<equiv> (of_int n / of_int d :: rat)" and "j \<equiv> (n div d) div 5"
  shows "of_int (5 * j) < t" "t < of_int (5 * j + 5)"
    and "of_int (5 * j) < (of_int (sticky n d) :: rat)" "(of_int (sticky n d) :: rat) < of_int (5 * j + 5)"
    and "of_int (n div d) < t" "t < of_int (n div d) + 1"
proof -
  let ?q = "n div d"
  have nd: "(of_int n :: rat) = of_int ?q * of_int d + of_int (n mod d)"
    by (metis div_mult_mod_eq of_int_add of_int_mult)
  have m: "0 < n mod d" "n mod d < d"
    using pos_mod_sign [OF d, of n] pos_mod_bound [OF d, of n] inexact by linarith+
  have m': "0 < (of_int (n mod d) :: rat)" "(of_int (n mod d) :: rat) < of_int d" using m by simp_all
  have dpos: "0 < (of_int d :: rat)" using d by simp
  show q: "of_int ?q < t" using m' dpos unfolding t_def nd by (simp add: less_divide_eq)
  show q1: "t < of_int ?q + 1" using m' dpos unfolding t_def nd by (simp add: divide_less_eq distrib_right)
  have j: "5 * j \<le> ?q" "?q + 1 \<le> 5 * j + 5" unfolding j_def by linarith+
  then have "(of_int (5 * j) :: rat) \<le> of_int ?q" "(of_int (?q + 1) :: rat) \<le> of_int (5 * j + 5)"
    by (simp_all only: of_int_le_iff)
  with q q1 show "of_int (5 * j) < t" "t < of_int (5 * j + 5)" by linarith+
  have "5 * j < sticky n d" "sticky n d < 5 * j + 5"
    unfolding sticky_def Let_def j_def using inexact off_fives [of ?q] by (auto split: if_split)
  then show "of_int (5 * j) < (of_int (sticky n d) :: rat)" "(of_int (sticky n d) :: rat) < of_int (5 * j + 5)"
    by (simp_all only: of_int_less_iff)
qed

lemma decade_scale: "decade v k \<Longrightarrow> decade (v * 10 powi e) (k + e)"
  by (simp add: decade_def abs_mult power_int_add add.commute [of e] add.left_commute mult.commute mult.left_commute)

lemma sticky_rounds:
  assumes ok: "ctx_ok ctx" and d: "0 < d" and inexact: "n mod d \<noteq> 0" and big: "10 ^ prec ctx \<le> n div d"
    and r: "rounds_to ctx (of_int (sticky n d) * 10 powi e) x"
  shows "rounds_to ctx (of_int n / of_int d * 10 powi e) x"
proof -
  let ?q = "n div d" and ?t = "of_int n / of_int d :: rat" and ?s = "of_int (sticky n d) :: rat"
  let ?l = "ndigits ?q - 1"
  note btw = sticky_between [OF d inexact]
  have p: "0 < prec ctx" using ok by (simp add: ctx_ok_def)
  have qpos: "0 < ?q" using big by (meson order_less_le_trans zero_less_numeral zero_less_power)
  have suc: "Suc ?l = ndigits ?q" by (rule Suc_diff_1) simp
  have b: "10 ^ ?l \<le> ?q" "?q < 10 ^ Suc ?l" using ndigits_bounds [OF qpos] unfolding suc by blast+
  have pl: "prec ctx \<le> ?l"
  proof (rule ccontr)
    assume "\<not> prec ctx \<le> ?l"
    then have "(10::int) ^ Suc ?l \<le> 10 ^ prec ctx" by (intro power_increasing) auto
    with b big show False by linarith
  qed
  have ten: "(10::int) ^ Suc ?l = 5 * (2 * 10 ^ ?l)" unfolding power_Suc by linarith
  have "sticky n d < 10 ^ Suc ?l"
  proof (cases "?q mod 5 = 0")
    case True
    have "?q + 1 \<noteq> 5 * (2 * 10 ^ ?l)"
    proof
      assume "?q + 1 = 5 * (2 * 10 ^ ?l)"
      then have "(?q + 1) mod 5 = 0" by simp
      with off_fives(5) [OF True] show False by (rule notE)
    qed
    then show ?thesis using b(2) ten by (auto simp: sticky_def Let_def)
  qed (use b(2) in \<open>simp add: sticky_def Let_def\<close>)
  moreover have qs: "?q \<le> sticky n d" by (simp add: sticky_def Let_def)
  ultimately have s: "10 ^ ?l \<le> sticky n d" "sticky n d < 10 ^ Suc ?l" using b(1) by auto
  have sabs: "\<bar>sticky n d\<bar> = sticky n d" using qs qpos by linarith
  have pw: "(10::rat) powi int ?l = of_int (10 ^ ?l)" "(10::rat) powi (int ?l + 1) = of_int (10 ^ Suc ?l)"
    using ten_powi_nat [of "int ?l"] ten_powi_nat [of "int ?l + 1"] by (simp_all add: nat_add_distrib del: One_nat_def Suc_diff_Suc)
  have ds: "decade ?s (int ?l)"
    using s sabs unfolding decade_def pw by (simp only: of_int_le_iff of_int_less_iff flip: of_int_abs)
  have "?q + 1 \<le> 10 ^ Suc ?l" using b by linarith
  then have "(of_int (10 ^ ?l) :: rat) \<le> of_int ?q" "(of_int (?q + 1) :: rat) \<le> of_int (10 ^ Suc ?l)"
    using b by (simp_all only: of_int_le_iff)
  moreover have "0 < (of_int ?q :: rat)" using qpos by simp
  ultimately have dt: "decade ?t (int ?l)"
    unfolding decade_def pw using btw(5,6) by (simp only: of_int_add of_int_1) linarith
  let ?g = "vgrid ctx (int ?l + e)"
  have "e < ?g" using pl by (simp add: vgrid_def)
  then have split: "v * 10 powi e / 10 powi ?g = v / of_int (10 * 10 ^ nat (?g - e - 1))" for v :: rat
    using ten_powi_split [of e ?g] by (simp add: Suc_nat_eq_nat_zadd1 flip: power_Suc)
  have "rgrid (?t * 10 powi e) ?g = rgrid (?s * 10 powi e) ?g"
    unfolding rgrid_def split using rhe_sticky [OF btw(1,2)] rhe_sticky [OF btw(3,4)] by simp
  moreover have "x = rgrid (?s * 10 powi e) ?g"
    using rounds_unique [OF ok r] decade_scale [OF ds, of e] unfolding rounds_to_def by blast
  ultimately show ?thesis using decade_scale [OF dt, of e] unfolding rounds_to_def by metis
qed

lemma quotient_is_long:
  fixes p :: nat and a b :: int
  assumes a: "0 < a" and b: "0 < b"
  defines "shift \<equiv> int (ndigits b) - int (ndigits a) + int p + 1"
  shows "10 ^ p \<le> a * 10 ^ nat shift div (b * 10 ^ nat (- shift))"
proof -
  let ?n = "a * 10 ^ nat shift" and ?d = "b * 10 ^ nat (- shift)"
  have dpos: "0 < ?d" using b by simp
  have "10 ^ p * ?d \<le> 10 ^ p * (10 ^ ndigits b * 10 ^ nat (- shift))"
    using ndigits_bounds [OF b] by (intro mult_left_mono mult_right_mono) auto
  also have "\<dots> = 10 ^ (p + ndigits b + nat (- shift))" by (simp add: power_add)
  also have "p + ndigits b + nat (- shift) = ndigits a - 1 + nat shift"
    using ndigits_pos [of a] unfolding shift_def by linarith
  also have "(10::int) ^ (ndigits a - 1 + nat shift) = 10 ^ (ndigits a - 1) * 10 ^ nat shift"
    by (simp add: power_add)
  also have "\<dots> \<le> ?n" using ndigits_bounds [OF a] by (intro mult_right_mono) auto
  finally have "10 ^ p * ?d \<le> ?n" .
  then have "10 ^ p * ?d div ?d \<le> ?n div ?d" by (rule zdiv_mono1 [OF _ dpos])
  moreover have "10 ^ p * ?d div ?d = 10 ^ p" using dpos by (intro nonzero_mult_div_cancel_right) linarith
  ultimately show ?thesis by simp
qed

lemma exact_quotient: "n mod d = 0 \<Longrightarrow> 0 < d \<Longrightarrow> (of_int (n div d) :: rat) = of_int n / of_int d"
proof -
  assume m: "n mod d = 0" and d: "0 < d"
  then have "n = n div d * d" by auto
  then have "(of_int n :: rat) = of_int (n div d) * of_int d" by (metis of_int_mult)
  then show ?thesis using d by simp
qed

lemma rounds_sgn: "\<bar>s\<bar> = 1 \<Longrightarrow> rounds_to ctx (of_int s * v) x \<longleftrightarrow> rounds_to ctx v (of_int s * x)"
  using rounds_minus [of ctx v "- x"] rounds_minus [of ctx "- v" x] by (auto simp: abs_if split: if_splits)

lemma quotient_scale:
  fixes ctx :: dctx and a b :: dec
  assumes b: "coeff b \<noteq> 0"
  defines "shift \<equiv> int (ndigits \<bar>coeff b\<bar>) - int (ndigits \<bar>coeff a\<bar>) + int (prec ctx) + 1"
  shows "of_int (\<bar>coeff a\<bar> * 10 ^ nat shift) / of_int (\<bar>coeff b\<bar> * 10 ^ nat (- shift)) * 10 powi (expo a - expo b - shift)
    = \<bar>dval a\<bar> / \<bar>dval b\<bar>"
proof -
  have pw: "(10::rat) powi shift * of_int (10 ^ nat (- shift)) = of_int (10 ^ nat shift)"
    by (cases "0 \<le> shift") (simp_all add: power_int_def divide_simps)
  have e: "(10::rat) powi (expo a - expo b - shift) = 10 powi expo a / (10 powi expo b * 10 powi shift)"
    by (simp add: power_int_diff)
  show ?thesis
    unfolding e dval_def abs_mult of_int_mult pw [symmetric] using b by (simp add: field_simps)
qed

text \<open>A division of non-zero decimals, with the scaled quotient named.\<close>

lemma dec_div_nonzero:
  assumes a: "coeff a \<noteq> 0" and b: "coeff b \<noteq> 0"
  obtains n d e s where "0 < d" and "10 ^ prec ctx \<le> n div d" and "\<bar>s\<bar> = 1"
    and "dval a / dval b = of_int s * (of_int n / of_int d * 10 powi e)"
    and "dec_div ctx a b = (if n mod d \<noteq> 0 then dec_fix ctx (Dec (s * sticky n d) e)
      else dec_fix ctx (Dec (s * coeff (strip_zeros (expo a - expo b) (n div d) e))
             (expo (strip_zeros (expo a - expo b) (n div d) e))))"
proof -
  define shift where "shift = int (ndigits \<bar>coeff b\<bar>) - int (ndigits \<bar>coeff a\<bar>) + int (prec ctx) + 1"
  define n where "n = \<bar>coeff a\<bar> * 10 ^ nat shift"
  define d where "d = \<bar>coeff b\<bar> * 10 ^ nat (- shift)"
  define s where "s = sgn (coeff a) * sgn (coeff b)"
  have "of_int n / of_int d * 10 powi (expo a - expo b - shift) = \<bar>dval a\<bar> / \<bar>dval b\<bar>"
    using quotient_scale [OF b, of a ctx] unfolding n_def d_def shift_def .
  moreover have "dval a / dval b = of_int s * (\<bar>dval a\<bar> / \<bar>dval b\<bar>)"
    unfolding s_def by (simp add: dval_def abs_mult sgn_if)
  moreover have "10 ^ prec ctx \<le> n div d"
    unfolding n_def d_def shift_def using quotient_is_long [of "\<bar>coeff a\<bar>" "\<bar>coeff b\<bar>" "prec ctx"] a b by simp
  moreover have "0 < d" "\<bar>s\<bar> = 1"
    using a b unfolding d_def s_def by (simp_all add: abs_mult abs_sgn_eq)
  moreover have "dec_div ctx a b = (if n mod d \<noteq> 0 then dec_fix ctx (Dec (s * sticky n d) (expo a - expo b - shift))
      else dec_fix ctx (Dec (s * coeff (strip_zeros (expo a - expo b) (n div d) (expo a - expo b - shift)))
             (expo (strip_zeros (expo a - expo b) (n div d) (expo a - expo b - shift)))))"
    unfolding dec_div_def Let_def n_def d_def s_def shift_def by (simp only: a b if_False)
  ultimately show thesis by (intro that [of d n s]) simp_all
qed

theorem dec_div_rounds:
  assumes ok: "ctx_ok ctx" and r: "dec_div ctx a b = Inr r"
  shows "coeff b \<noteq> 0" and "rounds_to ctx (dval a / dval b) (dval r)"
proof -
  show b: "coeff b \<noteq> 0" using r by (auto simp: dec_div_def)
  show "rounds_to ctx (dval a / dval b) (dval r)"
  proof (cases "coeff a = 0")
    case True
    then show ?thesis
      using dec_fix_rounds [OF ok, of "Dec 0 (expo a - expo b)" r] r b by (simp add: dec_div_def dval_def)
  next
    case False
    obtain n d e s where d: "0 < d" "10 ^ prec ctx \<le> n div d" "\<bar>s\<bar> = 1"
      and quot: "dval a / dval b = of_int s * (of_int n / of_int d * 10 powi e)"
      and div: "dec_div ctx a b = (if n mod d \<noteq> 0 then dec_fix ctx (Dec (s * sticky n d) e)
        else dec_fix ctx (Dec (s * coeff (strip_zeros (expo a - expo b) (n div d) e))
               (expo (strip_zeros (expo a - expo b) (n div d) e))))"
      by (rule dec_div_nonzero [OF False b, of ctx]) (rule that)
    show ?thesis
    proof (cases "n mod d = 0")
      case True
      let ?z = "strip_zeros (expo a - expo b) (n div d) e"
      have "dec_fix ctx (Dec (s * coeff ?z) (expo ?z)) = Inr r" using r True by (simp add: div)
      from dec_fix_rounds [OF ok this] have "rounds_to ctx (of_int s * dval ?z) (dval r)"
        by (simp add: dval_def mult.assoc)
      then show ?thesis
        unfolding quot strip_zeros_val exact_quotient [OF True d(1)] .
    next
      case inexact: False
      have "dec_fix ctx (Dec (s * sticky n d) e) = Inr r" using r inexact by (simp add: div)
      from dec_fix_rounds [OF ok this]
      have "rounds_to ctx (of_int s * (of_int (sticky n d) * 10 powi e)) (dval r)"
        by (simp add: mult.assoc)
      then have "rounds_to ctx (of_int n / of_int d * 10 powi e) (of_int s * dval r)"
        unfolding rounds_sgn [OF d(3)] by (rule sticky_rounds [OF ok d(1) inexact d(2)])
      then show ?thesis unfolding quot rounds_sgn [OF d(3)] .
    qed
  qed
qed

section \<open>When an operation returns\<close>

definition ctx_wide :: "dctx \<Rightarrow> bool" where
  "ctx_wide ctx \<longleftrightarrow> ctx_ok ctx \<and> etiny ctx < etop ctx"

lemma ctx_wide_contexts [simp]: "ctx_wide ACCOUNTING_CONTEXT" "ctx_wide DEFAULT_CONTEXT"
  by (simp_all add: ctx_wide_def) (simp_all add: ACCOUNTING_CONTEXT_def DEFAULT_CONTEXT_def etiny_def etop_def)

lemma returns_if:
  "(\<exists>r. (if P then x else y) = Inr r) \<longleftrightarrow> (P \<longrightarrow> (\<exists>r. x = Inr r)) \<and> (\<not> P \<longrightarrow> (\<exists>r. y = Inr r))"
  "\<exists>r. Inr z = Inr r"
  by auto

lemma dec_fix_total:
  assumes ctx: "ctx_wide ctx" and v: "\<bar>dval d\<bar> < 10 powi (emax ctx)"
  shows "\<exists>r. dec_fix ctx d = Inr r"
proof (cases "coeff d = 0")
  case True
  then show ?thesis by (simp add: dec_fix_def)
next
  case False
  let ?n = "int (ndigits \<bar>coeff d\<bar>)"
  have "(10::rat) powi (?n + expo d - 1) < 10 powi (emax ctx)"
    using dval_magnitude(1) [OF False] v by linarith
  then have "?n + expo d \<le> emax ctx" by simp
  then have a: "?n + expo d - int (prec ctx) + 1 \<le> etop ctx" unfolding etop_def by linarith
  have b: "etiny ctx + 1 \<le> etop ctx" using ctx unfolding ctx_wide_def by linarith
  have "\<not> etop ctx < ?n + expo d - int (prec ctx)"
    "\<not> etop ctx < max (?n + expo d - int (prec ctx)) (etiny ctx) + 1"
    using a b by linarith+
  then show ?thesis
    unfolding dec_fix_def Let_def by (simp only: False if_False returns_if simp_thms)
qed

lemma dec_add_total: "ctx_wide ctx \<Longrightarrow> \<bar>dval a + dval b\<bar> < 10 powi (emax ctx) \<Longrightarrow> \<exists>r. dec_add ctx a b = Inr r"
proof -
  let ?e = "min (expo a) (expo b)"
  have "dval (Dec (align ?e a + align ?e b) ?e) = dval a + dval b"
    using align_val [of ?e a] align_val [of ?e b] by (simp add: distrib_right)
  then show "ctx_wide ctx \<Longrightarrow> \<bar>dval a + dval b\<bar> < 10 powi (emax ctx) \<Longrightarrow> ?thesis"
    using dec_fix_total [of ctx "Dec (align ?e a + align ?e b) ?e"] by (simp only: dec_add_def Let_def)
qed

lemma dec_sub_total: "ctx_wide ctx \<Longrightarrow> \<bar>dval a - dval b\<bar> < 10 powi (emax ctx) \<Longrightarrow> \<exists>r. dec_sub ctx a b = Inr r"
  unfolding dec_sub_def by (rule dec_add_total) simp_all

lemma dec_mul_total: "ctx_wide ctx \<Longrightarrow> \<bar>dval a * dval b\<bar> < 10 powi (emax ctx) \<Longrightarrow> \<exists>r. dec_mul ctx a b = Inr r"
  unfolding dec_mul_def by (rule dec_fix_total) (simp_all add: dval_def power_int_add mult_ac)

lemma sticky_le:
  fixes n d :: int
  assumes "1 \<le> n div d"
  shows "sticky n d \<le> 2 * (n div d)" and "0 \<le> sticky n d"
  using assms by (auto simp: sticky_def Let_def)

lemma dec_div_total:
  assumes ctx: "ctx_wide ctx" and b: "coeff b \<noteq> 0" and v: "2 * \<bar>dval a / dval b\<bar> < 10 powi (emax ctx)"
  shows "\<exists>r. dec_div ctx a b = Inr r"
proof (cases "coeff a = 0")
  case True
  then show ?thesis using b by (simp add: dec_div_def dec_fix_def)
next
  case False
  obtain n d e s where d: "0 < d" "10 ^ prec ctx \<le> n div d" "\<bar>s\<bar> = 1"
    and quot: "dval a / dval b = of_int s * (of_int n / of_int d * 10 powi e)"
    and div: "dec_div ctx a b = (if n mod d \<noteq> 0 then dec_fix ctx (Dec (s * sticky n d) e)
      else dec_fix ctx (Dec (s * coeff (strip_zeros (expo a - expo b) (n div d) e))
             (expo (strip_zeros (expo a - expo b) (n div d) e))))"
      by (rule dec_div_nonzero [OF False b, of ctx]) (rule that)
  have s: "\<bar>of_int s :: rat\<bar> = 1" using d(3) by (metis of_int_1 of_int_abs)
  define t where "t = of_int n / of_int d * (10::rat) powi e"
  have t: "\<bar>t\<bar> = \<bar>dval a / dval b\<bar>" unfolding quot t_def [symmetric] abs_mult s by simp
  show ?thesis
  proof (cases "n mod d = 0")
    case True
    let ?z = "strip_zeros (expo a - expo b) (n div d) e"
    have "dval ?z = t" unfolding strip_zeros_val exact_quotient [OF True d(1)] t_def ..
    then have "dval (Dec (s * coeff ?z) (expo ?z)) = of_int s * t" by (simp add: dval_def mult.assoc)
    then have "\<bar>dval (Dec (s * coeff ?z) (expo ?z))\<bar> < 10 powi (emax ctx)"
      using v t abs_ge_zero [of t] by (simp only: abs_mult s)
    from dec_fix_total [OF ctx this] show ?thesis using True by (simp add: div)
  next
    case inexact: False
    have "(1::int) \<le> 10 ^ prec ctx" by simp
    then have long: "1 \<le> n div d" using d(2) by linarith
    have "of_int (sticky n d) \<le> (of_int (2 * (n div d)) :: rat)" "(0::rat) \<le> of_int (sticky n d)"
      using sticky_le [OF long] by (simp_all only: of_int_le_iff of_int_0_le_iff)
    then have st: "\<bar>of_int (sticky n d) :: rat\<bar> \<le> 2 * (of_int n / of_int d)"
      using sticky_between(5) [OF d(1) inexact] by simp
    have "\<bar>dval (Dec (s * sticky n d) e)\<bar> = \<bar>of_int (sticky n d)\<bar> * 10 powi e"
      using s by (simp add: abs_mult)
    also have "\<dots> \<le> 2 * (of_int n / of_int d) * 10 powi e"
      using st by (rule mult_right_mono) (simp add: less_imp_le)
    also have "\<dots> = 2 * t" unfolding t_def by (simp only: mult.assoc)
    also have "\<dots> \<le> 2 * \<bar>t\<bar>" by simp
    finally have "\<bar>dval (Dec (s * sticky n d) e)\<bar> < 10 powi (emax ctx)" using v t by linarith
    from dec_fix_total [OF ctx this] show ?thesis using inexact by (simp add: div)
  qed
qed

end
