(* ===== verification/Numeric.thy ===== *)
theory Numeric
  imports Decimals
begin

text \<open>
  \<open>research_kernel/numeric.py\<close>: the canonical text of a decimal, accounting division, the
  numeric contract; \<open>money\<close> of \<open>strategy.py\<close>; and binary64 for the reported figures.

  The rows the code stores hold \<open>canonical_decimal\<close> texts and read them back with
  \<open>Decimal(text)\<close>. \<open>decimal_of_string_canonical\<close> shows that this returns \<open>canon d\<close>, the
  same value with the trailing zeros of the coefficient moved into the exponent; rows of the
  later theories therefore hold \<open>canon d\<close>.
\<close>

section \<open>Text of integers\<close>

definition digit_char :: "int \<Rightarrow> char" where
  "digit_char n = ''0123456789'' ! nat n"

function str_nat :: "int \<Rightarrow> string" where
  "str_nat n = (if n < 10 then [digit_char n] else str_nat (n div 10) @ [digit_char (n mod 10)])"
  by pat_completeness auto
termination
  by (relation "measure nat") auto

declare str_nat.simps [simp del]

definition canonical_integer :: "int \<Rightarrow> string" where
  "canonical_integer n = (if n < 0 then ''-'' @ str_nat (- n) else str_nat n)"

definition digit_value :: "char \<Rightarrow> int" where
  "digit_value c = of_char c - 48"

definition is_digit :: "char \<Rightarrow> bool" where
  "is_digit c \<longleftrightarrow> 0 \<le> digit_value c \<and> digit_value c \<le> 9"

definition int_of_digits :: "string \<Rightarrow> int" where
  "int_of_digits s = foldl (\<lambda>a c. 10 * a + digit_value c) 0 s"

definition sign_of :: "string \<Rightarrow> bool \<times> string" where
  "sign_of s = (case s of [] \<Rightarrow> (False, s)
     | c # t \<Rightarrow> if c = CHR ''-'' then (True, t) else if c = CHR ''+'' then (False, t) else (False, s))"

definition exponent_of :: "string \<Rightarrow> int option" where
  "exponent_of s = (case s of [] \<Rightarrow> Some 0
     | c # t \<Rightarrow>
         if c = CHR ''e'' \<or> c = CHR ''E'' then
           (case sign_of t of (neg, u) \<Rightarrow>
              if u \<noteq> [] \<and> list_all is_digit u
              then Some (if neg then - int_of_digits u else int_of_digits u) else None)
         else None)"

definition fraction_part :: "string \<Rightarrow> string \<times> string" where
  "fraction_part s = (case s of [] \<Rightarrow> ([], s)
     | c # t \<Rightarrow> if c = CHR ''.'' then (takeWhile is_digit t, dropWhile is_digit t) else ([], s))"

definition decimal_of_string :: "string \<Rightarrow> dec option" where
  "decimal_of_string s =
     (case sign_of s of (neg, s1) \<Rightarrow>
        let ip = takeWhile is_digit s1 in
        case fraction_part (dropWhile is_digit s1) of (fp, r) \<Rightarrow>
          if ip @ fp = [] then None
          else case exponent_of r of None \<Rightarrow> None
               | Some e \<Rightarrow>
                   Some (Dec ((if neg then - 1 else 1) * int_of_digits (ip @ fp)) (e - int (length fp))))"

section \<open>Canonical decimals\<close>

function strip10 :: "int \<Rightarrow> int \<Rightarrow> dec" where
  "strip10 c e = (if c \<noteq> 0 \<and> c mod 10 = 0 then strip10 (c div 10) (e + 1) else Dec c e)"
  by pat_completeness auto
termination
  by (relation "measure (\<lambda>(c, e). nat \<bar>c\<bar>)") auto

declare strip10.simps [simp del]

definition canon :: "dec \<Rightarrow> dec" where
  "canon d = (if coeff d = 0 then Dec 0 0 else strip10 (coeff d) (expo d))"

definition canonical_decimal :: "dec \<Rightarrow> string" where
  "canonical_decimal d =
     (if coeff d = 0 then ''0''
      else let c = canon d in
        (if coeff c < 0 then ''-'' else []) @ str_nat \<bar>coeff c\<bar> @ ''e''
          @ (if 0 \<le> expo c then ''+'' @ str_nat (expo c) else canonical_integer (expo c)))"

section \<open>Accounting operations\<close>

definition MAX_INITIAL_CASH_CNY :: dec where
  "MAX_INITIAL_CASH_CNY = Dec 1000000000 0"

definition NUMERIC_CONTRACT_ID :: string where
  "NUMERIC_CONTRACT_ID = ''thesistrace-numeric-v1''"

definition require_current_numeric_contract :: "string \<Rightarrow> py_error + unit" where
  "require_current_numeric_contract contract_id =
     raiseIf (contract_id \<noteq> NUMERIC_CONTRACT_ID)
       (NumericContractError ''Product State Numeric Execution Contract does not match this runtime'')"

definition accounting_divide :: "dec \<Rightarrow> dec \<Rightarrow> py_error + dec" where
  "accounting_divide l r =
     mapErr (\<lambda>_. NumericContractError ''invalid accounting division'') (dec_div ACCOUNTING_CONTEXT l r)"

definition require_finite_decimal :: "pydec \<Rightarrow> py_error + dec" where
  "require_finite_decimal v =
     (case v of Finite d \<Rightarrow> Inr d | _ \<Rightarrow> Inl (NumericContractError ''decimal value must be finite''))"

text \<open>\<open>money\<close> rounds its argument in the accounting context (unary plus).\<close>

definition money :: "dec \<Rightarrow> py_error + dec" where
  "money v =
     mapErr (\<lambda>_. StrategyCalculationError ''invalid accounting result'' []) (dec_fix ACCOUNTING_CONTEXT v)"

text \<open>
  Arithmetic inside \<open>with accounting_context()\<close> (prefix \<open>acc\<close>) and outside it (prefix
  \<open>def\<close>, the interpreter's default context).
\<close>

abbreviation "acc_add \<equiv> dec_add ACCOUNTING_CONTEXT"
abbreviation "acc_sub \<equiv> dec_sub ACCOUNTING_CONTEXT"
abbreviation "acc_mul \<equiv> dec_mul ACCOUNTING_CONTEXT"
abbreviation "acc_div \<equiv> dec_div ACCOUNTING_CONTEXT"
abbreviation "def_add \<equiv> dec_add DEFAULT_CONTEXT"
abbreviation "def_sub \<equiv> dec_sub DEFAULT_CONTEXT"
abbreviation "def_mul \<equiv> dec_mul DEFAULT_CONTEXT"
abbreviation "def_div \<equiv> dec_div DEFAULT_CONTEXT"

section \<open>Binary64\<close>

text \<open>
  A finite binary64 value is the rational it denotes; \<open>float_of\<close> is the correctly rounded
  conversion (\<open>float(Decimal)\<close>, \<open>float(Fraction)\<close>, the quotient of two integers, a sum of
  floats rounded once). Beyond the binary64 range it is an error: the code's infinities of the
  reported ratios are outside the model.
\<close>

function bit_length :: "int \<Rightarrow> int" where
  "bit_length n = (if n < 1 then 0 else 1 + bit_length (n div 2))"
  by pat_completeness auto
termination
  by (relation "measure nat") auto

declare bit_length.simps [simp del]

definition pow2 :: "int \<Rightarrow> rat" where
  "pow2 k = (if 0 \<le> k then of_int (2 ^ nat k) else 1 / of_int (2 ^ nat (- k)))"

definition float_of :: "rat \<Rightarrow> py_error + rat" where
  "float_of x =
     (if x = 0 then Inr 0
      else let (n, d) = quotient_of \<bar>x\<bar>;
               k = bit_length n - bit_length d;
               e = (if pow2 k \<le> \<bar>x\<bar> then k else k - 1);
               g = pow2 (max (e - 52) (- 1074));
               y = of_int (rhe (x / g)) * g
           in if \<bar>y\<bar> < pow2 1024 then Inr y else Inl OverflowError)"

section \<open>Facts about the text\<close>

lemma upto9: "0 \<le> n \<Longrightarrow> n < (10::int) \<Longrightarrow> n \<in> {0, 1, 2, 3, 4, 5, 6, 7, 8, 9}"
  unfolding insert_iff empty_iff by presburger

lemma digit_value_char [simp]: "0 \<le> n \<Longrightarrow> n < 10 \<Longrightarrow> digit_value (digit_char n) = n"
  by (drule (1) upto9)
    (elim insertE emptyE; hypsubst; simp add: digit_value_def digit_char_def)

lemma is_digit_char [simp]: "0 \<le> n \<Longrightarrow> n < 10 \<Longrightarrow> is_digit (digit_char n)"
  by (simp add: is_digit_def)

lemma int_of_digits_append [simp]: "int_of_digits (s @ [c]) = 10 * int_of_digits s + digit_value c"
  by (simp add: int_of_digits_def)

lemma str_nat_digits: "0 \<le> n \<Longrightarrow> list_all is_digit (str_nat n) \<and> str_nat n \<noteq> [] \<and> int_of_digits (str_nat n) = n"
proof (induction n rule: str_nat.induct)
  case (1 n)
  show ?case
  proof (cases "n < 10")
    case True
    with 1 show ?thesis by (subst (1 2 3) str_nat.simps) (simp add: int_of_digits_def)
  next
    case False
    with 1 have ih: "list_all is_digit (str_nat (n div 10))" "int_of_digits (str_nat (n div 10)) = n div 10"
      by auto
    have "str_nat n = str_nat (n div 10) @ [digit_char (n mod 10)]"
      using False by (subst str_nat.simps) simp
    with ih show ?thesis by simp
  qed
qed

lemma not_digit [simp]: "\<not> is_digit CHR ''-''" "\<not> is_digit CHR ''+''" "\<not> is_digit CHR ''e''" "\<not> is_digit CHR ''.''"
  by (simp_all add: is_digit_def digit_value_def)

lemma sign_of_digits: "list_all is_digit s \<Longrightarrow> s \<noteq> [] \<Longrightarrow> sign_of (s @ r) = (False, s @ r)"
  by (cases s) (auto simp: sign_of_def)

lemma span_digits:
  "list_all is_digit s \<Longrightarrow> takeWhile is_digit (s @ CHR ''e'' # r) = s"
  "list_all is_digit s \<Longrightarrow> dropWhile is_digit (s @ CHR ''e'' # r) = CHR ''e'' # r"
  by (induction s) auto

lemma exponent_of_text:
  "exponent_of (CHR ''e'' # (if 0 \<le> e then ''+'' @ str_nat e else canonical_integer e)) = Some e"
proof (cases "0 \<le> e")
  case True
  then show ?thesis using str_nat_digits [OF True] by (simp add: exponent_of_def sign_of_def)
next
  case False
  then show ?thesis
    using str_nat_digits [of "- e"] by (simp add: exponent_of_def sign_of_def canonical_integer_def)
qed

lemma decimal_of_text:
  assumes "c \<noteq> 0"
  shows "decimal_of_string ((if c < 0 then ''-'' else []) @ str_nat \<bar>c\<bar> @ ''e''
           @ (if 0 \<le> e then ''+'' @ str_nat e else canonical_integer e)) = Some (Dec c e)"
proof -
  let ?s = "str_nat \<bar>c\<bar>" and ?r = "''e'' @ (if 0 \<le> e then ''+'' @ str_nat e else canonical_integer e)"
  have s: "list_all is_digit ?s" "?s \<noteq> []" "int_of_digits ?s = \<bar>c\<bar>"
    using str_nat_digits [of "\<bar>c\<bar>"] by auto
  have "sign_of ((if c < 0 then ''-'' else []) @ ?s @ ?r) = (c < 0, ?s @ ?r)"
  proof (cases "c < 0")
    case True
    then show ?thesis by (simp add: sign_of_def)
  next
    case False
    then show ?thesis using sign_of_digits [OF s(1,2), of ?r] by simp
  qed
  moreover have "takeWhile is_digit (?s @ ?r) = ?s"
    "fraction_part (dropWhile is_digit (?s @ ?r)) = ([], ?r)" "exponent_of ?r = Some e"
    using exponent_of_text [of e] span_digits [OF s(1)] by (simp_all add: fraction_part_def)
  moreover have "(if c < 0 then - 1 else 1) * \<bar>c\<bar> = c" by simp
  ultimately show ?thesis
    unfolding decimal_of_string_def Let_def using s(2,3) by simp
qed

section \<open>The canonical form\<close>

lemma strip10_props:
  "c \<noteq> 0 \<Longrightarrow> dval (strip10 c e) = of_int c * 10 powi e \<and> coeff (strip10 c e) mod 10 \<noteq> 0"
proof (induction c e rule: strip10.induct)
  case (1 c e)
  show ?case
  proof (cases "c mod 10 = 0")
    case True
    then have c: "c = c div 10 * 10" by auto
    then have "(of_int c :: rat) = of_int (c div 10) * 10" by (metis of_int_mult of_int_numeral)
    moreover have "c div 10 \<noteq> 0" using c \<open>c \<noteq> 0\<close> by presburger
    ultimately show ?thesis
      using True 1 by (subst (1 2) strip10.simps) (simp add: power_int_add)
  next
    case False
    with 1 show ?thesis by (subst (1 2) strip10.simps) (simp add: dval_def)
  qed
qed

lemma dval_canon [simp]: "dval (canon d) = dval d"
  using strip10_props [of "coeff d" "expo d"] by (simp add: canon_def dval_def)

lemma canon_normal: "coeff d \<noteq> 0 \<Longrightarrow> coeff (canon d) mod 10 \<noteq> 0"
  using strip10_props [of "coeff d" "expo d"] by (simp add: canon_def)


lemma canonical_unique:
  assumes v: "dval x = dval y" and x: "coeff x mod 10 \<noteq> 0" and y: "coeff y mod 10 \<noteq> 0"
  shows "x = y"
proof -
  have le: "expo q \<le> expo p" if v: "dval p = dval q" and p: "coeff p mod 10 \<noteq> 0" for p q
  proof (rule ccontr)
    assume "\<not> expo q \<le> expo p"
    then have lt: "expo p < expo q" by simp
    then have "dval q = of_int (coeff q * 10 ^ nat (expo q - expo p)) * 10 powi expo p"
      using ten_powi_split [of "expo p" "expo q"] by (simp add: dval_def)
    then have "coeff p = coeff q * 10 ^ nat (expo q - expo p)"
      using v by (simp only: dval_def [of p] mult_cancel_right ten_powi_neq0 of_int_eq_iff) simp
    moreover obtain k where "nat (expo q - expo p) = Suc k"
      using lt by (metis gr0_implies_Suc zero_less_nat_eq diff_gt_0_iff_gt)
    ultimately show False using p by simp
  qed
  show ?thesis using le [OF v x] le [OF v [symmetric] y] v
    by (cases x, cases y) (auto simp: dval_def)
qed

lemma canon_eq_iff: "canon a = canon b \<longleftrightarrow> dval a = dval b"
proof
  assume "canon a = canon b"
  then show "dval a = dval b" by (metis dval_canon)
next
  assume v: "dval a = dval b"
  show "canon a = canon b"
  proof (cases "coeff a = 0")
    case True
    then have "coeff b = 0" using v dval_eq_0_iff by metis
    with True show ?thesis by (simp add: canon_def)
  next
    case False
    then have "coeff b \<noteq> 0" using v dval_eq_0_iff by metis
    with False v show ?thesis by (intro canonical_unique canon_normal) auto
  qed
qed

lemma canon_idem [simp]: "canon (canon d) = canon d"
  by (simp add: canon_eq_iff)

lemma parse_canonical: "decimal_of_string (canonical_decimal d) = Some (canon d)"
proof (cases "coeff d = 0")
  case True
  then show ?thesis
    by (simp add: canonical_decimal_def canon_def decimal_of_string_def sign_of_def is_digit_def
        digit_value_def fraction_part_def exponent_of_def int_of_digits_def)
next
  case False
  then have "coeff (canon d) \<noteq> 0" using canon_normal by fastforce
  from decimal_of_text [OF this, of "expo (canon d)"] False show ?thesis
    by (simp add: canonical_decimal_def Let_def)
qed

section \<open>Properties\<close>

text \<open>
  C20: The canonical text of an account decimal is read back as the same number, and two decimals
  have the same text exactly when they are equal numbers, so a continuation that stores the texts
  loses nothing and checksums over them do not depend on how a value was computed.
\<close>

theorem canonical_decimal_roundtrip:
  "(\<exists>r. decimal_of_string (canonical_decimal d) = Some r \<and> dval r = dval d) \<and>
   (canonical_decimal d = canonical_decimal e) = (dval d = dval e)"
proof -
  have "canonical_decimal d = canonical_decimal e \<Longrightarrow> canon d = canon e"
    using parse_canonical [of d] parse_canonical [of e] by simp
  moreover have "canonical_decimal d = canonical_decimal e" if "canon d = canon e"
  proof -
    have z: "coeff d = 0 \<longleftrightarrow> coeff e = 0" using that canon_eq_iff dval_eq_0_iff by metis
    then show ?thesis using that by (simp add: canonical_decimal_def Let_def)
  qed
  ultimately show ?thesis using parse_canonical [of d] by (auto simp: canon_eq_iff)
qed

end
