(* ===== verification/Orders.thy ===== *)
theory Orders
  imports Numeric
begin

text \<open>
  The order rules of \<open>research_kernel/strategy.py\<close>: board lots, child orders, transaction
  costs, slippage, market rejections and the largest affordable buy quantity.

  Boards are the strings of the source, because an unknown board is an error path of the code.
  \<open>costs\<close> is the cost table of the run definition after \<open>Decimal(str(value))\<close>.
\<close>

section \<open>Definitions\<close>

datatype side = Buy | Sell

record costs =
  commission_rate_all_in :: dec
  commission_min_cny :: dec
  stamp_duty_sell_rate :: dec
  transfer_fee_rate :: dec
  slippage_bps :: dec

record fee_parts =
  commission_cny :: dec
  stamp_duty_cny :: dec
  transfer_fee_cny :: dec

definition unsupported_board :: "string \<Rightarrow> py_error" where
  "unsupported_board board = StrategyCalculationError ''unsupported board'' [board]"

definition legal_order_quantity :: "string \<Rightarrow> side \<Rightarrow> int \<Rightarrow> bool \<Rightarrow> py_error + int" where
  "legal_order_quantity board side target_quantity complete_liquidation =
     (let quantity = max 0 target_quantity in
      if complete_liquidation then Inr quantity
      else if board = ''main'' \<or> board = ''chinext'' then Inr (quantity div 100 * 100)
      else if board = ''star'' then Inr (if 200 \<le> quantity then quantity else 0)
      else Inl (unsupported_board board))"

definition child_caps :: "(string \<times> int) list" where
  "child_caps = [(''main'', 1000000), (''chinext'', 300000), (''star'', 100000)]"

definition child_minimums :: "(string \<times> int) list" where
  "child_minimums = [(''main'', 100), (''chinext'', 100), (''star'', 200)]"

text \<open>\<open>while remaining > cap\<close>; every cap of the table is positive.\<close>

function take_caps :: "int \<Rightarrow> int list \<Rightarrow> int \<Rightarrow> int list \<times> int" where
  "take_caps cap children remaining =
     (if 0 < cap \<and> cap < remaining then take_caps cap (children @ [cap]) (remaining - cap)
      else (children, remaining))"
  by pat_completeness auto
termination
  by (relation "measure (\<lambda>(cap, children, remaining). nat remaining)") auto

declare take_caps.simps [simp del]

definition split_child_orders :: "string \<Rightarrow> int \<Rightarrow> bool \<Rightarrow> py_error + int list" where
  "split_child_orders board quantity complete_liquidation =
     (case (map_of child_caps board, map_of child_minimums board) of
        (Some cap, Some minimum) \<Rightarrow>
          if \<not> complete_liquidation \<and> (board = ''main'' \<or> board = ''chinext'') \<and> quantity mod 100 \<noteq> 0
          then Inl (StrategyCalculationError ''non-liquidation child order is not a board lot'' [])
          else
            (case take_caps cap [] quantity of (children, remaining) \<Rightarrow>
               if remaining = 0 then Inr children
               else if complete_liquidation then Inr (children @ [remaining])
               else if children \<noteq> [] \<and> remaining < minimum then
                 let adjustment = minimum - remaining
                 in Inr (butlast children @ [last children - adjustment, remaining + adjustment])
               else Inr (children @ [remaining]))
      | _ \<Rightarrow> Inl (unsupported_board board))"

definition transaction_cost_parts :: "dec \<Rightarrow> side \<Rightarrow> costs \<Rightarrow> py_error + fee_parts" where
  "transaction_cost_parts notional side costs =
     bindE (acc_mul notional (commission_rate_all_in costs)) (\<lambda>rated.
     bindE (if side = Sell then acc_mul notional (stamp_duty_sell_rate costs) else Inr dzero) (\<lambda>stamp.
     bindE (acc_mul notional (transfer_fee_rate costs)) (\<lambda>transfer.
     Inr \<lparr>commission_cny = dmax rated (commission_min_cny costs),
          stamp_duty_cny = stamp, transfer_fee_cny = transfer\<rparr>)))"

text \<open>\<open>sum(parts.values())\<close> starts from \<open>0\<close> and adds in insertion order.\<close>

definition sum_parts :: "fee_parts \<Rightarrow> py_error + dec" where
  "sum_parts parts =
     dsum ACCOUNTING_CONTEXT dzero [commission_cny parts, stamp_duty_cny parts, transfer_fee_cny parts]"

definition transaction_cost :: "dec \<Rightarrow> side \<Rightarrow> costs \<Rightarrow> py_error + dec" where
  "transaction_cost raw_notional side costs =
     bindE (transaction_cost_parts raw_notional side costs) sum_parts"

definition execution_price_factor :: "side \<Rightarrow> costs \<Rightarrow> py_error + dec" where
  "execution_price_factor side costs =
     bindE (if side = Buy then acc_add (dec_of_int 10000) (slippage_bps costs)
            else acc_sub (dec_of_int 10000) (slippage_bps costs)) (\<lambda>basis_points.
     acc_div basis_points (dec_of_int 10000))"

definition market_rejection_reason ::
    "side \<Rightarrow> string option \<Rightarrow> dec option \<Rightarrow> dec \<Rightarrow> dec \<Rightarrow> string option" where
  "market_rejection_reason side state raw_open upper lower =
     (if state = Some ''full_session_suspension'' then Some ''suspension''
      else if state = Some ''data_unavailable'' then Some ''data_unavailable''
      else case raw_open of
          None \<Rightarrow> None
        | Some raw \<Rightarrow>
            if side = Buy \<and> dle upper raw then Some ''upper_limit_buy''
            else if side = Sell \<and> dle raw lower then Some ''lower_limit_sell''
            else None)"

text \<open>
  \<open>is_affordable\<close> runs after its \<open>with accounting_context()\<close> block has closed, so the
  notional of the order, the sum of the child costs and the final sum are computed in the
  default context; only \<open>money\<close> and \<open>transaction_cost\<close> enter the accounting context.
\<close>

definition child_cost :: "dec \<Rightarrow> costs \<Rightarrow> int \<Rightarrow> py_error + dec" where
  "child_cost execution_price costs child =
     bindE (def_mul (dec_of_int child) execution_price) (\<lambda>product.
     bindE (money product) (\<lambda>notional. transaction_cost notional Buy costs))"

definition buy_outlay :: "string \<Rightarrow> dec \<Rightarrow> costs \<Rightarrow> int \<Rightarrow> py_error + dec" where
  "buy_outlay board execution_price costs candidate =
     bindE (split_child_orders board candidate False) (\<lambda>children.
     bindE (def_mul (dec_of_int candidate) execution_price) (\<lambda>product.
     bindE (money product) (\<lambda>notional.
     bindE (foldE (\<lambda>child total. bindE (child_cost execution_price costs child) (def_add total))
              children dzero) (\<lambda>total_cost.
     def_add notional total_cost))))"

definition is_affordable :: "string \<Rightarrow> dec \<Rightarrow> costs \<Rightarrow> dec \<Rightarrow> int \<Rightarrow> py_error + bool" where
  "is_affordable board execution_price costs net_cash candidate =
     bindE (buy_outlay board execution_price costs candidate) (\<lambda>outlay. Inr (dle outlay net_cash))"

function search_units :: "(int \<Rightarrow> py_error + bool) \<Rightarrow> int \<Rightarrow> int \<Rightarrow> py_error + int" where
  "search_units test low high =
     (if low < high then
        let middle = (low + high + 1) div 2
        in bindE (test middle) (\<lambda>ok.
             if ok then search_units test middle high else search_units test low (middle - 1))
      else Inr low)"
  by pat_completeness auto
termination
  by (relation "measure (\<lambda>(test, low, high). nat (high - low))") auto

declare search_units.simps [simp del]

definition lot_step :: "string \<Rightarrow> int" where
  "lot_step board = (if board = ''star'' then 1 else 100)"

definition lot_minimum :: "string \<Rightarrow> int" where
  "lot_minimum board = (if board = ''star'' then 200 else 100)"

definition lot_quantity :: "string \<Rightarrow> int \<Rightarrow> int" where
  "lot_quantity board units = lot_minimum board + (units - 1) * lot_step board"

definition affordable_quantity :: "string \<Rightarrow> int \<Rightarrow> dec \<Rightarrow> dec \<Rightarrow> costs \<Rightarrow> py_error + int" where
  "affordable_quantity board quantity raw_open net_cash costs =
     bindE (execution_price_factor Buy costs) (\<lambda>factor.
     bindE (acc_mul raw_open factor) (\<lambda>execution_price.
     if quantity < lot_minimum board then Inr 0
     else
       bindE (search_units (\<lambda>units. is_affordable board execution_price costs net_cash (lot_quantity board units))
                0 ((quantity - lot_minimum board) div lot_step board + 1)) (\<lambda>low_units.
       Inr (if low_units = 0 then 0 else lot_quantity board low_units))))"

section \<open>Child orders\<close>

lemma take_caps_result:
  assumes "0 < cap" "0 \<le> q" "take_caps cap cs q = (ds, r)"
  shows "\<exists>n. ds = cs @ replicate n cap \<and> q = int n * cap + r \<and> 0 \<le> r \<and> r \<le> cap \<and> (0 < n \<longrightarrow> 0 < r)"
  using assms
proof (induction cap cs q rule: take_caps.induct)
  case (1 cap cs q)
  show ?case
  proof (cases "cap < q")
    case True
    then have "take_caps cap (cs @ [cap]) (q - cap) = (ds, r)"
      using 1 by (subst (asm) take_caps.simps) simp
    with True "1.IH" "1.prems" obtain n where
      n: "ds = (cs @ [cap]) @ replicate n cap" "q - cap = int n * cap + r" "0 \<le> r" "r \<le> cap" "0 < n \<longrightarrow> 0 < r"
      by force
    have "0 < r" using n True "1.prems"(1) by (cases n) auto
    with n show ?thesis by (intro exI [of _ "Suc n"]) (simp add: distrib_right)
  next
    case False
    with 1 have "ds = cs" "r = q" by (subst (asm) take_caps.simps; simp)+
    with False 1 show ?thesis by (intro exI [of _ 0]) simp
  qed
qed

text \<open>What a board requires of one child order.\<close>

definition child_ok :: "string \<Rightarrow> bool \<Rightarrow> int \<Rightarrow> bool" where
  "child_ok board complete_liquidation c \<longleftrightarrow>
     0 < c \<and> (\<exists>cap. map_of child_caps board = Some cap \<and> c \<le> cap) \<and>
     (\<not> complete_liquidation \<longrightarrow> lot_minimum board \<le> c \<and> lot_step board dvd c)"

lemma boards: "map_of child_caps board = Some cap \<Longrightarrow>
  board = ''main'' \<and> cap = 1000000 \<or> board = ''chinext'' \<and> cap = 300000 \<or> board = ''star'' \<and> cap = 100000"
  by (auto simp: child_caps_def split: if_splits)

lemma minimum_of_board: "map_of child_caps board = Some cap \<Longrightarrow> map_of child_minimums board = Some (lot_minimum board)"
  by (auto dest!: boards simp: child_minimums_def lot_minimum_def)

lemma split_eq:
  assumes "map_of child_caps board = Some cap" "complete_liquidation \<or> lot_step board dvd q"
    and "take_caps cap [] q = (ks, r)"
  shows "split_child_orders board q complete_liquidation = Inr
    (if r = 0 then ks else if complete_liquidation then ks @ [r]
     else if ks \<noteq> [] \<and> r < lot_minimum board
       then butlast ks @ [last ks - (lot_minimum board - r), r + (lot_minimum board - r)]
     else ks @ [r])"
  using assms minimum_of_board [OF assms(1)]
  by (auto simp: split_child_orders_def Let_def lot_step_def dvd_eq_mod_eq_0)

lemma split_not_lot: "board = ''main'' \<or> board = ''chinext'' \<Longrightarrow> q mod 100 \<noteq> 0 \<Longrightarrow>
  split_child_orders board q False = Inl (StrategyCalculationError ''non-liquidation child order is not a board lot'' [])"
  by (auto simp: split_child_orders_def child_caps_def child_minimums_def)

lemma split_known: "split_child_orders board q complete_liquidation = Inr cs \<Longrightarrow> \<exists>cap. map_of child_caps board = Some cap"
  by (auto simp: split_child_orders_def split: option.splits)

text \<open>The list the splitter builds, for any cap above the minimum.\<close>

lemma split_list:
  fixes complete_liquidation :: bool and q minimum cap step :: int
  assumes cap: "minimum < cap" "0 < minimum" and q: "0 \<le> q" and t: "take_caps cap [] q = (ks, r)"
  defines "cs \<equiv> (if r = 0 then ks else if complete_liquidation then ks @ [r]
       else if ks \<noteq> [] \<and> r < minimum then butlast ks @ [last ks - (minimum - r), r + (minimum - r)]
       else ks @ [r])"
  shows "sum_list cs = q" and "\<forall>c\<in>set cs. 0 < c \<and> c \<le> cap"
    and "\<not> complete_liquidation \<Longrightarrow> q = 0 \<or> minimum \<le> q \<Longrightarrow> 2 * minimum \<le> cap \<Longrightarrow> \<forall>c\<in>set cs. minimum \<le> c"
    and "int (length cs) = (q + cap - 1) div cap"
    and "step dvd cap \<Longrightarrow> step dvd q \<Longrightarrow> step dvd minimum \<Longrightarrow> \<forall>c\<in>set cs. step dvd c"
proof -
  obtain n where n: "ks = replicate n cap" "q = int n * cap + r" "0 \<le> r" "r \<le> cap" "0 < n \<longrightarrow> 0 < r"
    using take_caps_result [OF _ q t] cap by auto
  have last: "butlast ks @ [last ks - d, e] = replicate (n - 1) cap @ [cap - d, e]" if "ks \<noteq> []" for d e
    using that n(1) by (cases n) (auto simp: butlast_append simp flip: replicate_append_same)
  have pred: "int (n - 1) * cap = int n * cap - cap" if "ks \<noteq> []"
    using that n(1) by (cases n) (auto simp: distrib_right)
  have sum: "sum_list (replicate k cap) = int k * cap" for k by (simp add: sum_list_replicate)
  have cs: "cs = (if r = 0 then ks else if complete_liquidation then ks @ [r]
       else if ks \<noteq> [] \<and> r < minimum then replicate (n - 1) cap @ [cap - (minimum - r), minimum]
       else ks @ [r])"
    unfolding cs_def using last by simp
  show "sum_list cs = q"
    unfolding cs using n(2) sum pred by (auto simp: n(1))
  show "\<forall>c\<in>set cs. 0 < c \<and> c \<le> cap"
    unfolding cs using n cap by (auto simp: set_replicate_conv_if split: if_splits)
  show "\<forall>c\<in>set cs. minimum \<le> c" if "\<not> complete_liquidation" "q = 0 \<or> minimum \<le> q" "2 * minimum \<le> cap"
    unfolding cs using n cap that by (auto simp: set_replicate_conv_if split: if_splits)
  have len: "int (length cs) = (if r = 0 then int n else int n + 1)"
    unfolding cs using n(1) by (cases n) auto
  have "(q + cap - 1) div cap = int n + (r + cap - 1) div cap"
    using cap unfolding n(2) by (metis add.assoc add_diff_eq div_mult_self3 less_irrefl order_less_trans)
  moreover have "(r + cap - 1) div cap = (if r = 0 then 0 else 1)"
  proof (cases "r = 0")
    case False
    then have "(r + cap - 1) div cap = (r - 1 + 1 * cap) div cap" by (simp add: algebra_simps)
    also have "\<dots> = (r - 1) div cap + 1" using cap by (subst div_mult_self1) auto
    finally show ?thesis using False n(3,4) by simp
  qed (use cap in simp)
  ultimately show "int (length cs) = (q + cap - 1) div cap" using len by simp
  show "\<forall>c\<in>set cs. step dvd c" if "step dvd cap" "step dvd q" "step dvd minimum"
  proof -
    have "step dvd r" using that n(2) by (metis dvd_add_right_iff dvd_mult)
    with that show ?thesis unfolding cs n(1) by (auto simp: set_replicate_conv_if)
  qed
qed

text \<open>
  The splitter on every board: what it returns for a lot that is legal there, and that it
  returns at all.
\<close>

definition splits_into :: "string \<Rightarrow> bool \<Rightarrow> int \<Rightarrow> int list \<Rightarrow> bool" where
  "splits_into board complete_liquidation q cs \<longleftrightarrow>
     sum_list cs = q \<and> (\<forall>c\<in>set cs. child_ok board complete_liquidation c) \<and>
     (\<exists>cap. map_of child_caps board = Some cap \<and> int (length cs) = (q + cap - 1) div cap)"

lemma split_lots:
  assumes q: "0 \<le> q" and board: "map_of child_caps board = Some cap"
    and legal: "complete_liquidation \<or> (q = 0 \<or> lot_minimum board \<le> q) \<and> lot_step board dvd q"
  shows "\<exists>cs. split_child_orders board q complete_liquidation = Inr cs \<and> splits_into board complete_liquidation q cs"
proof -
  obtain ks r where t: "take_caps cap [] q = (ks, r)" by fastforce
  have c: "lot_minimum board < cap" "0 < lot_minimum board" "2 * lot_minimum board \<le> cap"
    "lot_step board dvd cap" "lot_step board dvd lot_minimum board"
    using boards [OF board] by (auto simp: lot_minimum_def lot_step_def)
  have "complete_liquidation \<or> lot_step board dvd q" using legal by blast
  note eq = split_eq [OF board this t]
  note l = split_list [OF c(1,2) q t, where complete_liquidation = complete_liquidation]
  show ?thesis
    unfolding eq splits_into_def child_ok_def board
    using l(1,2,4) l(3) [OF _ _ c(3)] l(5) [OF c(4) _ c(5)] legal by fast
qed

section \<open>The interface of the splitter\<close>

text \<open>
  What the execution of an order relies on: children are positive and add up to the order.
  Its client lemma is the reason why the fill loop of \<open>execute_order\<close> may recognise the
  last child by comparing the running quantity with the total.
\<close>

locale order_split =
  fixes split_order :: "string \<Rightarrow> int \<Rightarrow> bool \<Rightarrow> py_error + int list"
  assumes split_sum: "0 \<le> q \<Longrightarrow> split_order board q c = Inr cs \<Longrightarrow> sum_list cs = q"
    and split_positive: "0 \<le> q \<Longrightarrow> split_order board q c = Inr cs \<Longrightarrow> x \<in> set cs \<Longrightarrow> 0 < x"
begin

lemma sum_positive: "\<forall>x\<in>set xs. 0 < (x::int) \<Longrightarrow> xs \<noteq> [] \<Longrightarrow> 0 < sum_list xs"
  by (cases xs) (simp_all add: add_pos_nonneg sum_list_nonneg less_imp_le)

lemma running_total_last:
  assumes "0 \<le> q" "split_order board q c = Inr cs" "i \<le> length cs"
  shows "sum_list (take i cs) = q \<longleftrightarrow> i = length cs"
proof
  assume sum: "sum_list (take i cs) = q"
  have "sum_list (take i cs) + sum_list (drop i cs) = q"
    using split_sum [OF assms(1,2)] by (metis append_take_drop_id sum_list_append)
  then have "sum_list (drop i cs) = 0" using sum by simp
  moreover have "\<forall>x\<in>set (drop i cs). 0 < x"
    using split_positive [OF assms(1,2)] by (meson in_set_dropD)
  ultimately have "drop i cs = []" using sum_positive by fastforce
  then show "i = length cs" using assms(3) by simp
next
  assume "i = length cs"
  then show "sum_list (take i cs) = q" using split_sum [OF assms(1,2)] by simp
qed

end

lemma split_success:
  assumes q: "0 \<le> q" and r: "split_child_orders board q complete_liquidation = Inr cs"
  shows "sum_list cs = q" and "\<forall>x\<in>set cs. 0 < x"
proof -
  obtain cap where cap: "map_of child_caps board = Some cap" using split_known [OF r] by blast
  obtain ks rest where t: "take_caps cap [] q = (ks, rest)" by fastforce
  have c: "lot_minimum board < cap" "0 < lot_minimum board"
    using boards [OF cap] by (auto simp: lot_minimum_def)
  have "complete_liquidation \<or> lot_step board dvd q"
    using r split_not_lot [of board q] boards [OF cap] by (cases complete_liquidation) (auto simp: lot_step_def dvd_eq_mod_eq_0)
  note eq = split_eq [OF cap this t]
  note l = split_list [OF c q t, where complete_liquidation = complete_liquidation]
  show "sum_list cs = q" using l(1) r unfolding eq by simp
  show "\<forall>x\<in>set cs. 0 < x" using l(2) r unfolding eq by fast
qed

interpretation child_orders: order_split split_child_orders
  by unfold_locales (use split_success in blast)+

section \<open>The affordable quantity\<close>

lemma search_units_result:
  assumes "search_units test low high = Inr r" "low \<le> high"
  shows "low \<le> r \<and> r \<le> high \<and> (r = low \<or> test r = Inr True) \<and> (r = high \<or> test (r + 1) = Inr False)"
  using assms
proof (induction test low high rule: search_units.induct)
  case (1 test low high)
  show ?case
  proof (cases "low < high")
    case True
    define m where "m = (low + high + 1) div 2"
    have m: "low < m" "m \<le> high" using True unfolding m_def by auto
    obtain ok where ok: "test m = Inr ok"
      "(if ok then search_units test m high else search_units test low (m - 1)) = Inr r"
      using 1(3) True unfolding m_def by (subst (asm) search_units.simps) (auto simp: Let_def)
    show ?thesis
    proof (cases ok)
      case True
      with 1(1) [OF \<open>low < high\<close> m_def ok(1)] ok m
      have "m \<le> r \<and> r \<le> high \<and> (r = m \<or> test r = Inr True) \<and> (r = high \<or> test (r + 1) = Inr False)" by simp
      with ok True m show ?thesis by auto
    next
      case False
      with 1(2) [OF \<open>low < high\<close> m_def ok(1)] ok m
      have ih: "low \<le> r \<and> r \<le> m - 1 \<and> (r = low \<or> test r = Inr True) \<and> (r = m - 1 \<or> test (r + 1) = Inr False)"
        by simp
      have "test (r + 1) = Inr False"
      proof (cases "r = m - 1")
        case True
        then have "r + 1 = m" by simp
        with ok(1) False show ?thesis by simp
      qed (use ih in blast)
      with ih m show ?thesis by auto
    qed
  next
    case False
    with 1 show ?thesis by (subst (asm) search_units.simps) auto
  qed
qed

lemma search_units_total:
  assumes "\<forall>u. low < u \<and> u \<le> high \<longrightarrow> (\<exists>b. test u = Inr b)"
  shows "\<exists>r. search_units test low high = Inr r"
  using assms
proof (induction test low high rule: search_units.induct)
  case (1 test low high)
  show ?case
  proof (cases "low < high")
    case True
    define m where "m = (low + high + 1) div 2"
    have m: "low < m" "m \<le> high" using True unfolding m_def by auto
    then obtain ok where ok: "test m = Inr ok" using 1(3) by blast
    have "\<exists>r. (if ok then search_units test m high else search_units test low (m - 1)) = Inr r"
      using 1(1) [OF True m_def ok] 1(2) [OF True m_def ok] 1(3) m by (cases ok) auto
    then show ?thesis
      using ok True unfolding m_def by (subst search_units.simps) (simp add: Let_def)
  next
    case False
    then show ?thesis by (subst search_units.simps) simp
  qed
qed

lemma legal_quantity_lot:
  assumes "legal_order_quantity board side t False = Inr q"
  shows "0 \<le> q" and "q = 0 \<or> lot_minimum board \<le> q" and "lot_step board dvd q"
    and "\<exists>cap. map_of child_caps board = Some cap"
proof -
  define m where "m = max 0 t"
  have m: "0 \<le> m" by (simp add: m_def)
  then have lots: "0 \<le> m div 100 * 100" "m div 100 * 100 = 0 \<or> 100 \<le> m div 100 * 100" by presburger+
  consider "board = ''main'' \<or> board = ''chinext''" "q = m div 100 * 100"
    | "board = ''star''" "q = (if 200 \<le> m then m else 0)"
    using assms by (auto simp: legal_order_quantity_def Let_def simp flip: m_def split: if_splits)
  then have "0 \<le> q \<and> (q = 0 \<or> lot_minimum board \<le> q) \<and> lot_step board dvd q \<and>
    (\<exists>cap. map_of child_caps board = Some cap)"
  proof cases
    case 1
    then show ?thesis using lots unfolding lot_minimum_def lot_step_def child_caps_def by auto
  next
    case 2
    then show ?thesis using m unfolding lot_minimum_def lot_step_def child_caps_def by auto
  qed
  then show "0 \<le> q" "q = 0 \<or> lot_minimum board \<le> q" "lot_step board dvd q"
    "\<exists>cap. map_of child_caps board = Some cap" by blast+
qed

definition buy_price :: "dec \<Rightarrow> costs \<Rightarrow> py_error + dec" where
  "buy_price raw_open costs = bindE (execution_price_factor Buy costs) (acc_mul raw_open)"

lemma affordable_quantity_result:
  assumes a: "affordable_quantity board quantity raw_open net_cash costs = Inr q"
    and legal: "legal_order_quantity board Buy target False = Inr quantity"
    and price: "buy_price raw_open costs = Inr price"
  shows "0 \<le> q" and "q \<le> quantity" and "q = 0 \<or> lot_minimum board \<le> q" and "lot_step board dvd q"
    and "q = 0 \<or> is_affordable board price costs net_cash q = Inr True"
    and "q = quantity \<or> is_affordable board price costs net_cash
           (if q = 0 then lot_minimum board else q + lot_step board) = Inr False"
proof -
  note lot = legal_quantity_lot [OF legal]
  let ?min = "lot_minimum board" and ?step = "lot_step board"
  have s: "0 < ?step" "?step dvd ?min" "0 < ?min" by (auto simp: lot_step_def lot_minimum_def)
  have "0 \<le> q \<and> q \<le> quantity \<and> (q = 0 \<or> ?min \<le> q) \<and> ?step dvd q \<and>
    (q = 0 \<or> is_affordable board price costs net_cash q = Inr True) \<and>
    (q = quantity \<or> is_affordable board price costs net_cash (if q = 0 then ?min else q + ?step) = Inr False)"
  proof (cases "quantity < ?min")
    case True
    then have "q = 0" "quantity = 0" using a price lot by (auto simp: affordable_quantity_def buy_price_def)
    then show ?thesis by simp
  next
    case False
    let ?high = "(quantity - ?min) div ?step + 1"
    let ?test = "\<lambda>units. is_affordable board price costs net_cash (lot_quantity board units)"
    obtain r where r: "search_units ?test 0 ?high = Inr r" "q = (if r = 0 then 0 else lot_quantity board r)"
      using a price False by (auto simp: affordable_quantity_def buy_price_def)
    have "?step dvd quantity - ?min" using s lot(3) by (intro dvd_diff)
    then have top: "lot_quantity board ?high = quantity" by (simp add: lot_quantity_def)
    have high: "0 \<le> (quantity - ?min) div ?step" using False s by (intro div_int_pos_iff [THEN iffD2]) simp
    then have pos: "?high \<noteq> 0" by linarith
    from high have res: "0 \<le> r \<and> r \<le> ?high \<and> (r = 0 \<or> ?test r = Inr True) \<and> (r = ?high \<or> ?test (r + 1) = Inr False)"
      by (intro search_units_result [OF r(1)]) simp
    have "lot_quantity board r \<le> lot_quantity board ?high"
      using res s unfolding lot_quantity_def by (intro add_left_mono mult_right_mono) auto
    moreover have "lot_quantity board (r + 1) = (if r = 0 then ?min else lot_quantity board r + ?step)"
      by (simp add: lot_quantity_def algebra_simps)
    moreover have "0 < r \<Longrightarrow> ?min \<le> lot_quantity board r" using s by (simp add: lot_quantity_def)
    moreover have "?step dvd lot_quantity board r" using s by (simp add: lot_quantity_def)
    ultimately show ?thesis using res r(2) top s(3) pos lot(1) by (cases "r = 0") auto
  qed
  then show "0 \<le> q" "q \<le> quantity" "q = 0 \<or> ?min \<le> q" "?step dvd q"
    "q = 0 \<or> is_affordable board price costs net_cash q = Inr True"
    "q = quantity \<or> is_affordable board price costs net_cash (if q = 0 then ?min else q + ?step) = Inr False"
    by blast+
qed

section \<open>Costs and prices\<close>

lemma dsum_rounds_nonneg:
  "dsum ctx a xs = Inr r \<Longrightarrow> ctx_ok ctx \<Longrightarrow> 0 \<le> dval a \<Longrightarrow> \<forall>x\<in>set xs. 0 \<le> dval x \<Longrightarrow> 0 \<le> dval r"
proof (induction xs arbitrary: a)
  case (Cons x xs)
  then obtain b where b: "dec_add ctx a x = Inr b" "dsum ctx b xs = Inr r" by auto
  then have "0 \<le> dval b" using Cons.prems by (intro rounds_nonneg [OF dec_add_rounds [OF _ b(1)]]) auto
  with b Cons show ?case by auto
qed simp

definition costs_ok :: "costs \<Rightarrow> bool" where
  "costs_ok costs \<longleftrightarrow>
     dle dzero (commission_rate_all_in costs) \<and> dle dzero (commission_min_cny costs) \<and>
     dle dzero (stamp_duty_sell_rate costs) \<and> dle dzero (transfer_fee_rate costs) \<and>
     dle dzero (slippage_bps costs) \<and> dlt (slippage_bps costs) (dec_of_int 10000)"

lemma transaction_cost_parts_result:
  assumes "transaction_cost_parts notional side costs = Inr parts"
  shows "rounds_to ACCOUNTING_CONTEXT (dval notional * dval (transfer_fee_rate costs)) (dval (transfer_fee_cny parts))"
    and "\<exists>rated. rounds_to ACCOUNTING_CONTEXT (dval notional * dval (commission_rate_all_in costs)) rated \<and>
           dval (commission_cny parts) = max rated (dval (commission_min_cny costs))"
    and "if side = Sell then rounds_to ACCOUNTING_CONTEXT (dval notional * dval (stamp_duty_sell_rate costs)) (dval (stamp_duty_cny parts))
         else stamp_duty_cny parts = dzero"
proof -
  obtain x y z where p: "acc_mul notional (commission_rate_all_in costs) = Inr x"
    "(if side = Sell then acc_mul notional (stamp_duty_sell_rate costs) else Inr dzero) = Inr y"
    "acc_mul notional (transfer_fee_rate costs) = Inr z"
    "parts = \<lparr>commission_cny = dmax x (commission_min_cny costs), stamp_duty_cny = y, transfer_fee_cny = z\<rparr>"
    using assms by (auto simp: transaction_cost_parts_def)
  note round = dec_mul_rounds [OF ctx_ok_ACCOUNTING]
  show "rounds_to ACCOUNTING_CONTEXT (dval notional * dval (transfer_fee_rate costs)) (dval (transfer_fee_cny parts))"
    using round [OF p(3)] p(4) by simp
  show "\<exists>rated. rounds_to ACCOUNTING_CONTEXT (dval notional * dval (commission_rate_all_in costs)) rated \<and>
      dval (commission_cny parts) = max rated (dval (commission_min_cny costs))"
    using round [OF p(1)] p(4) by (intro exI [of _ "dval x"]) simp
  show "if side = Sell then rounds_to ACCOUNTING_CONTEXT (dval notional * dval (stamp_duty_sell_rate costs)) (dval (stamp_duty_cny parts))
      else stamp_duty_cny parts = dzero"
    using round [of _ _ y] p(2,4) by (cases side) auto
qed

lemma transaction_cost_nonneg:
  assumes "costs_ok costs" "0 \<le> dval notional" "transaction_cost notional side costs = Inr cost"
  shows "0 \<le> dval cost"
proof -
  obtain parts where p: "transaction_cost_parts notional side costs = Inr parts" "sum_parts parts = Inr cost"
    using assms(3) by (auto simp: transaction_cost_def)
  have c: "0 \<le> dval (commission_min_cny costs)" "0 \<le> dval (stamp_duty_sell_rate costs)" "0 \<le> dval (transfer_fee_rate costs)"
    using assms(1) by (auto simp: costs_ok_def dle_val)
  note r = transaction_cost_parts_result [OF p(1)]
  have "0 \<le> dval (commission_cny parts)" using r(2) c(1) by (elim exE conjE) simp
  moreover have "0 \<le> dval (stamp_duty_cny parts)"
    using r(3) rounds_nonneg [OF _ mult_nonneg_nonneg [OF assms(2) c(2)]] by (cases side) simp_all
  moreover have "0 \<le> dval (transfer_fee_cny parts)"
    using rounds_nonneg [OF r(1) mult_nonneg_nonneg [OF assms(2) c(3)]] .
  ultimately show ?thesis
    using dsum_rounds_nonneg [OF p(2) [unfolded sum_parts_def]] by simp
qed

lemma dval_multiple: "dval d \<noteq> 0 \<Longrightarrow> g \<le> expo d \<Longrightarrow> 10 powi g \<le> \<bar>dval d\<bar>"
proof -
  assume "dval d \<noteq> 0" "g \<le> expo d"
  then have "(1::rat) \<le> of_int \<bar>coeff d\<bar>" by (simp add: dval_def)
  then have "1 * (10::rat) powi expo d \<le> of_int \<bar>coeff d\<bar> * 10 powi expo d"
    by (intro mult_right_mono) (auto simp: less_imp_le)
  moreover have "(10::rat) powi g \<le> 10 powi expo d" using \<open>g \<le> expo d\<close> by (rule ten_powi_mono)
  ultimately have "(10::rat) powi g \<le> of_int \<bar>coeff d\<bar> * 10 powi expo d" by linarith
  then show ?thesis by (simp add: dval_def abs_mult)
qed

lemma power_fits: "ctx_ok ctx \<Longrightarrow> etiny ctx \<le> g \<Longrightarrow> fits ctx (10 powi g)"
  unfolding fits_def by (intro exI [of _ 1] exI [of _ g]) (simp add: ctx_ok_def)

lemma rounds_pos: "ctx_ok ctx \<Longrightarrow> rounds_to ctx v x \<Longrightarrow> etiny ctx \<le> g \<Longrightarrow> 10 powi g \<le> v \<Longrightarrow> 10 powi g \<le> x"
  by (rule fits_le_rounded [OF _ _ power_fits]) (auto simp: less_imp_le)

lemma ten_thousand: "(10::rat) powi 4 = 10000" "(10::rat) powi (- 4) = 1 / 10000"
  by (simp_all add: power_int_def divide_simps)

lemma small_powers: "(10::rat) powi 8 \<le> 10 powi (emax ACCOUNTING_CONTEXT)"
  by (rule ten_powi_mono) (simp add: ACCOUNTING_CONTEXT_def)

lemma below_range: "(20000::rat) < 10 powi (emax ACCOUNTING_CONTEXT)"
proof -
  have "(10::rat) powi 8 = 100000000" by (simp add: power_int_def)
  with small_powers show ?thesis by linarith
qed

lemma etiny_ACCOUNTING: "etiny ACCOUNTING_CONTEXT = - 6176"
  by (simp add: ACCOUNTING_CONTEXT_def etiny_def)

lemma fits_int: "\<bar>n\<bar> < 10 ^ 34 \<Longrightarrow> fits ACCOUNTING_CONTEXT (of_int n)"
  unfolding fits_def etiny_ACCOUNTING
  by (rule exI [of _ n], rule exI [of _ 0]) (simp add: ACCOUNTING_CONTEXT_def)

text \<open>Dividing basis points by ten thousand keeps the sign and the order of the factor.\<close>

lemma basis_points_quotient:
  assumes pos: "10 powi g \<le> dval p" "etiny ACCOUNTING_CONTEXT \<le> g - 4" and le: "dval p \<le> 20000"
  shows "\<exists>f. acc_div p (dec_of_int 10000) = Inr f \<and> 0 < dval f \<and>
    (dval p \<le> 10000 \<longrightarrow> dval f \<le> 1) \<and> (10000 \<le> dval p \<longrightarrow> 1 \<le> dval f)"
proof -
  have p0: "0 < dval p" using pos(1) by (rule order_less_le_trans [OF ten_powi_pos])
  have "2 * \<bar>dval p / dval (dec_of_int 10000)\<bar> \<le> 20000" using le p0 by simp
  then have "2 * \<bar>dval p / dval (dec_of_int 10000)\<bar> < 10 powi (emax ACCOUNTING_CONTEXT)"
    using below_range by (rule order_le_less_trans)
  moreover have nz: "coeff (dec_of_int 10000) \<noteq> 0" by (simp add: dec_of_int_def)
  ultimately obtain f where f: "acc_div p (dec_of_int 10000) = Inr f"
    using dec_div_total [of ACCOUNTING_CONTEXT "dec_of_int 10000" p] by auto
  have r: "rounds_to ACCOUNTING_CONTEXT (dval p / 10000) (dval f)"
    using dec_div_rounds(2) [OF ctx_ok_ACCOUNTING f] by simp
  have "(10::rat) powi (g - 4) = 10 powi g / 10000"
    using ten_thousand(1) by (simp add: power_int_diff)
  then have "10 powi (g - 4) \<le> dval p / 10000" using pos(1) by simp
  then have "10 powi (g - 4) \<le> dval f" by (rule rounds_pos [OF ctx_ok_ACCOUNTING r pos(2)])
  then have "0 < dval f" by (rule order_less_le_trans [OF ten_powi_pos])
  moreover have one: "fits ACCOUNTING_CONTEXT 1"
    using power_fits [OF ctx_ok_ACCOUNTING, of 0] by (simp add: etiny_ACCOUNTING)
  moreover have "dval p \<le> 10000 \<longrightarrow> dval f \<le> 1"
    using rounded_le_fits [OF r one] p0 by simp
  moreover have "10000 \<le> dval p \<longrightarrow> 1 \<le> dval f"
    using fits_le_rounded [OF ctx_ok_ACCOUNTING r one] by simp
  ultimately show ?thesis using f by blast
qed

section \<open>Properties\<close>

text \<open>
  C1: Every quantity \<open>legal_order_quantity\<close> allows on a board can be submitted: the splitter
  returns child orders that add up to it, none above the board's cap, each a lot of at least the
  board's minimum unless the holding is liquidated completely, and as few of them as the cap
  allows.
\<close>

theorem legal_orders_split:
  assumes "legal_order_quantity board side target complete_liquidation = Inr quantity"
    and "map_of child_caps board = Some cap"
  shows "\<exists>children. split_child_orders board quantity complete_liquidation = Inr children \<and>
    sum_list children = quantity \<and>
    (\<forall>c\<in>set children. 0 < c \<and> c \<le> cap \<and>
       (\<not> complete_liquidation \<longrightarrow> lot_minimum board \<le> c \<and> lot_step board dvd c)) \<and>
    int (length children) = (quantity + cap - 1) div cap"
proof -
  have "0 \<le> quantity \<and> (complete_liquidation \<or> (quantity = 0 \<or> lot_minimum board \<le> quantity) \<and> lot_step board dvd quantity)"
    using assms(1) legal_quantity_lot [of board side target quantity]
    by (cases complete_liquidation) (auto simp: legal_order_quantity_def)
  then show ?thesis
    using split_lots [OF _ assms(2), of quantity complete_liquidation] assms(2)
    by (auto simp: splits_into_def child_ok_def)
qed

lemma legal_orders_split_witness:
  "\<exists>children. split_child_orders ''star'' 200050 False = Inr children \<and>
    sum_list children = 200050 \<and>
    (\<forall>c\<in>set children. 0 < c \<and> c \<le> 100000 \<and>
       (\<not> False \<longrightarrow> lot_minimum ''star'' \<le> c \<and> lot_step ''star'' dvd c)) \<and>
    int (length children) = (200050 + 100000 - 1) div 100000"
  by (rule legal_orders_split [of "''star''" Buy 200050])
    (simp_all add: legal_order_quantity_def child_caps_def)

text \<open>
  C2: The buy quantity the account submits is the largest affordable one on the path of the
  search: it is a legal lot not above the wanted quantity, its outlay including every child's
  cost fits the net cash, and one lot more does not, unless the whole wanted quantity was taken.
\<close>

theorem affordable_quantity_correct:
  assumes "affordable_quantity board quantity raw_open net_cash costs = Inr q"
    and "legal_order_quantity board Buy target False = Inr quantity"
    and "buy_price raw_open costs = Inr price"
  shows "(q = 0 \<or> lot_minimum board \<le> q) \<and> q \<le> quantity \<and> lot_step board dvd q \<and>
    (q = 0 \<or> is_affordable board price costs net_cash q = Inr True) \<and>
    (q = quantity \<or> is_affordable board price costs net_cash
       (if q = 0 then lot_minimum board else q + lot_step board) = Inr False)"
  using affordable_quantity_result [OF assms] by blast

definition sample_costs :: costs where
  "sample_costs = \<lparr>commission_rate_all_in = Dec 3 (- 4), commission_min_cny = Dec 5 0,
     stamp_duty_sell_rate = Dec 5 (- 4), transfer_fee_rate = Dec 1 (- 5), slippage_bps = Dec 5 0\<rparr>"

lemma affordable_quantity_correct_witness:
  "(400 = (0::int) \<or> lot_minimum ''main'' \<le> 400) \<and> 400 \<le> (1000::int) \<and> lot_step ''main'' dvd 400 \<and>
    (400 = (0::int) \<or> is_affordable ''main'' (Dec 10005000 (- 6)) sample_costs (Dec 5000 0) 400 = Inr True) \<and>
    (400 = (1000::int) \<or> is_affordable ''main'' (Dec 10005000 (- 6)) sample_costs (Dec 5000 0)
       (if 400 = (0::int) then lot_minimum ''main'' else 400 + lot_step ''main'') = Inr False)"
proof (rule affordable_quantity_correct)
  show "affordable_quantity ''main'' 1000 (Dec 1000 (- 2)) (Dec 5000 0) sample_costs = Inr 400" by code_simp
  show "legal_order_quantity ''main'' Buy 1000 False = Inr 1000" by code_simp
  show "buy_price (Dec 1000 (- 2)) sample_costs = Inr (Dec 10005000 (- 6))" by code_simp
qed

text \<open>
  C3: With the slippage the run definition admits (non-negative and below 10000 basis points)
  the execution factor always exists; a buy never executes below the open and a sale executes
  above zero and never above the open. Subtracting before dividing is what keeps a slippage close
  to 10000 positive.
\<close>

theorem execution_price_factor_bounds:
  assumes "dle dzero (slippage_bps costs)" "dlt (slippage_bps costs) (dec_of_int 10000)"
    and "- 6000 \<le> expo (slippage_bps costs)"
  shows "\<exists>factor. execution_price_factor side costs = Inr factor \<and> 0 < dval factor \<and>
    (if side = Buy then 1 \<le> dval factor else dval factor \<le> 1)"
proof -
  let ?A = ACCOUNTING_CONTEXT and ?s = "slippage_bps costs" and ?k = "dec_of_int 10000"
  have s: "0 \<le> dval ?s" "dval ?s < 10000" using assms by (simp_all add: dle_val dlt_val)
  note big = below_range
  have fit: "fits ?A 10000" "fits ?A 20000"
    using fits_int [of 10000] fits_int [of 20000] by simp_all
  obtain g :: int where "g = - 6000" by blast
  then have g: "etiny ?A \<le> g" "etiny ?A \<le> g - 4" "g \<le> expo ?s" "g \<le> 0"
    using assms(3) by (simp_all add: etiny_ACCOUNTING)
  have tiny: "(10::rat) powi g \<le> 1" using ten_powi_mono [OF g(4)] by simp
  show ?thesis
  proof (cases side)
    case Buy
    obtain p where p: "acc_add ?k ?s = Inr p"
      using dec_add_total [of ?A ?k ?s] s big by auto
    then have r: "rounds_to ?A (10000 + dval ?s) (dval p)"
      using dec_add_rounds [OF ctx_ok_ACCOUNTING p] by simp
    have "10000 \<le> dval p" by (rule fits_le_rounded [OF ctx_ok_ACCOUNTING r fit(1)]) (use s in auto)
    moreover have "dval p \<le> 20000" by (rule rounded_le_fits [OF r fit(2)]) (use s in auto)
    ultimately show ?thesis
      using basis_points_quotient [of g p] g(2) tiny p Buy
      by (fastforce simp: execution_price_factor_def)
  next
    case Sell
    obtain p where p: "acc_sub ?k ?s = Inr p"
      using dec_sub_total [of ?A ?k ?s] s big by auto
    then have r: "rounds_to ?A (10000 - dval ?s) (dval p)"
      using dec_sub_rounds [OF ctx_ok_ACCOUNTING p] by simp
    let ?e = "min 0 (expo ?s)"
    have diff: "dval (Dec (align ?e ?k - align ?e ?s) ?e) = 10000 - dval ?s"
      using align_val [of ?e ?k] align_val [of ?e ?s] by (simp add: left_diff_distrib dec_of_int_def)
    have "10 powi g \<le> \<bar>dval (Dec (align ?e ?k - align ?e ?s) ?e)\<bar>"
      by (rule dval_multiple) (use g s diff in auto)
    then have low: "10 powi g \<le> 10000 - dval ?s" unfolding diff using s by simp
    have "10 powi g \<le> dval p" by (rule rounds_pos [OF ctx_ok_ACCOUNTING r g(1) low])
    moreover have "dval p \<le> 10000" by (rule rounded_le_fits [OF r fit(1)]) (use s in auto)
    ultimately show ?thesis
      using basis_points_quotient [of g p] g(2) p Sell
      by (fastforce simp: execution_price_factor_def)
  qed
qed

lemma execution_price_factor_bounds_witness:
  "\<exists>factor. execution_price_factor Sell (sample_costs\<lparr>slippage_bps := Dec 99999999 (- 4)\<rparr>) = Inr factor \<and>
    0 < dval factor \<and> (if Sell = Buy then 1 \<le> dval factor else dval factor \<le> 1)"
  by (rule execution_price_factor_bounds) (simp_all add: dle_def dlt_def dzero_def align_def dec_of_int_def)

end
