(* ===== verification/Account.thy ===== *)
theory Account
  imports Orders
begin

text \<open>
  The simulated account of \<open>research_kernel/strategy.py\<close>: positions, their Open and Close
  marks, and \<open>execute_order\<close> with its order, child, fill and rejection rows.

  Lookups in the market data are partial functions; \<open>instruments\<close>, \<open>execution_prices\<close>,
  \<open>trading_states\<close> and \<open>price_limits\<close> are the mappings of the source with their decimal
  texts read. Identifiers made by \<open>strategy_event_id\<close> are SHA-256 digests of canonical JSON;
  the model keeps the hashed value itself, so two identifiers are equal when their identities are.
  Decimal texts in rows are \<open>canon\<close> values (see \<open>Numeric\<close>).
\<close>

section \<open>State and rows\<close>

datatype ident = IdStr string | IdInt int | IdEvent string "ident list"

definition strategy_event_id :: "string \<Rightarrow> ident list \<Rightarrow> ident" where
  "strategy_event_id kind identity = IdEvent kind identity"

record position =
  execution_shares :: int
  adjusted_units :: dec
  last_adjusted_price :: dec
  remaining_acquisition_cost_cny :: dec
  holding_cycle_started_session :: string
  holding_age :: int
  last_close_adjusted_price :: "dec option"

type_synonym positions = "(string \<times> position) list"
type_synonym marks = "(string \<times> dec) list"

record execution_price =
  price_raw_open :: dec
  price_adjusted_open :: dec

record price_limit =
  limit_upper :: dec
  limit_lower :: dec

record instrument_profile =
  profile_board :: string
  profile_listed_to :: "string option"

record market =
  instruments :: "string \<rightharpoonup> instrument_profile"
  execution_prices :: "string \<times> string \<rightharpoonup> execution_price"
  trading_states :: "string \<times> string \<rightharpoonup> string"
  price_limits :: "string \<times> string \<rightharpoonup> price_limit"
  close_field :: "string \<times> string \<rightharpoonup> pydec"

record event_context =
  ctx_target_id :: ident
  ctx_decision_session :: string
  ctx_reason :: string

record order_row =
  order_context :: event_context
  order_rejection :: "string option"
  order_ident :: ident
  order_session :: string
  order_instrument :: string
  order_side :: side
  order_intended_value :: dec
  order_unrounded :: "int option"
  order_legal :: "int option"

record rejection_row =
  rej_order :: ident
  rej_session :: string
  rej_instrument :: string
  rej_side :: side
  rej_quantity :: "int option"
  rej_intended_value :: dec
  rej_reason :: string

record child_row =
  child_context :: event_context
  child_ident :: ident
  child_order :: ident
  child_session :: string
  child_instrument :: string
  child_side :: side
  child_quantity :: int

record fill_draft =
  fill_ident :: ident
  fill_context :: event_context
  fill_child :: ident
  fill_order :: ident
  fill_session :: string
  fill_instrument :: string
  fill_side :: side
  fill_quantity :: int
  fill_raw_open :: dec
  fill_execution_price :: dec
  fill_price_slippage :: dec
  fill_fees :: fee_parts
  fill_raw_notional :: dec
  fill_cost :: dec

text \<open>\<open>fill.update(...)\<close> completes a fill once the order has changed the account.\<close>

record fill_row = fill_draft +
  fill_adjusted_open :: dec
  fill_research_settlement :: dec
  fill_gross_cash_delta :: dec
  fill_net_cash_delta :: dec
  fill_cash_rounding_delta :: dec
  fill_execution_shares_delta :: int
  fill_adjusted_units_delta :: dec

record valuation_event =
  ve_session :: string
  ve_instrument :: string
  ve_type :: string
  ve_adjustment :: ident
  ve_execution_shares_delta :: int
  ve_adjusted_units_delta :: dec
  ve_net_cash_delta :: dec
  ve_gross_cash_delta :: dec
  ve_valuation_delta :: dec
  ve_last_adjusted_price :: dec

record book =
  positions :: positions
  gross_cash :: dec
  net_cash :: dec
  orders :: "order_row list"
  child_orders :: "child_row list"
  fills :: "fill_row list"
  rejections :: "rejection_row list"

section \<open>Marks\<close>

definition suspended_or_unavailable :: "string option \<Rightarrow> bool" where
  "suspended_or_unavailable state \<longleftrightarrow>
     state = Some ''full_session_suspension'' \<or> state = Some ''data_unavailable''"

definition listing_ended :: "instrument_profile \<Rightarrow> string \<Rightarrow> bool" where
  "listing_ended profile session =
     (case profile_listed_to profile of None \<Rightarrow> False | Some d \<Rightarrow> d \<noteq> [] \<and> d \<le> session)"

definition profileE :: "market \<Rightarrow> string \<Rightarrow> py_error + instrument_profile" where
  "profileE mkt instrument_id =
     (case instruments mkt instrument_id of None \<Rightarrow> Inl (KeyError instrument_id) | Some p \<Rightarrow> Inr p)"

definition adjustment_event :: "string \<Rightarrow> string \<Rightarrow> string \<Rightarrow> int \<Rightarrow> dec \<Rightarrow> dec \<Rightarrow> dec \<Rightarrow> valuation_event" where
  "adjustment_event session instrument_id kind shares units valuation price =
     \<lparr>ve_session = session, ve_instrument = instrument_id, ve_type = kind,
      ve_adjustment = strategy_event_id ''adjustment'' [IdStr session, IdStr instrument_id, IdStr kind],
      ve_execution_shares_delta = shares, ve_adjusted_units_delta = units,
      ve_net_cash_delta = dzero, ve_gross_cash_delta = dzero, ve_valuation_delta = valuation,
      ve_last_adjusted_price = price\<rparr>"

text \<open>
  One step of the loop over \<open>list(positions)\<close>: the loop state is the dictionary of positions,
  from which a delisted holding is popped, the marks and the events. The valuation delta of a
  write-off is computed in the default context, and the unary minus rounds there too.
\<close>

definition mark_position :: "string \<Rightarrow> market \<Rightarrow> string \<Rightarrow> positions \<times> marks \<times> valuation_event list
    \<Rightarrow> py_error + positions \<times> marks \<times> valuation_event list" where
  "mark_position session mkt instrument_id s =
     (case s of (ps, marks, events) \<Rightarrow>
      bindE (lookupE ps instrument_id (KeyError instrument_id)) (\<lambda>p.
      case execution_prices mkt (session, instrument_id) of
        Some price \<Rightarrow>
          Inr (AList.update instrument_id (p\<lparr>last_adjusted_price := price_adjusted_open price\<rparr>) ps,
               AList.update instrument_id (price_adjusted_open price) marks, events)
      | None \<Rightarrow>
          if suspended_or_unavailable (trading_states mkt (session, instrument_id)) then
            Inr (ps, AList.update instrument_id (last_adjusted_price p) marks,
                 events @ [adjustment_event session instrument_id ''valuation_carry'' 0 dzero dzero
                             (canon (last_adjusted_price p))])
          else
            bindE (profileE mkt instrument_id) (\<lambda>profile.
            if listing_ended profile session then
              bindE (dec_fix DEFAULT_CONTEXT (copy_negate (adjusted_units p))) (\<lambda>minus_units.
              bindE (def_mul minus_units (last_adjusted_price p)) (\<lambda>valuation.
              Inr (AList.delete instrument_id ps, marks,
                   events @ [adjustment_event session instrument_id ''terminal_delisting_writeoff''
                               (- execution_shares p) (canon (copy_negate (adjusted_units p)))
                               (canon valuation) (canon (last_adjusted_price p))])))
            else Inl (StrategyCalculationError ''unexplained missing Open for held instrument''
                        [instrument_id, session]))))"

definition mark_positions :: "string \<Rightarrow> market \<Rightarrow> positions
    \<Rightarrow> py_error + positions \<times> marks \<times> valuation_event list" where
  "mark_positions session mkt ps = foldE (mark_position session mkt) (map fst ps) (ps, [], [])"

definition mark_close :: "string \<Rightarrow> market \<Rightarrow> string \<times> position \<Rightarrow> positions \<times> marks
    \<Rightarrow> py_error + positions \<times> marks" where
  "mark_close session mkt item s =
     (case item of (instrument_id, p) \<Rightarrow> case s of (ps, marks) \<Rightarrow>
      let keep = (\<lambda>m. Inr (AList.update instrument_id (p\<lparr>last_close_adjusted_price := Some m\<rparr>) ps,
                            AList.update instrument_id m marks));
          carry = (if trading_states mkt (session, instrument_id) = Some ''full_session_suspension''
                   then last_close_adjusted_price p else None);
          missing = Inl (StrategyCalculationError ''unexplained missing Close for held instrument''
                           [instrument_id, session]);
          invalid = Inl (StrategyCalculationError ''invalid Close for held instrument''
                           [instrument_id, session]);
          carried = (case carry of None \<Rightarrow> missing
                       | Some m \<Rightarrow> Inr (ps, AList.update instrument_id m marks))
      in case close_field mkt (session, instrument_id) of
           None \<Rightarrow> carried
         | Some NaN \<Rightarrow> carried
         | Some Infinite \<Rightarrow> invalid
         | Some (Finite m) \<Rightarrow> if dle m dzero then invalid else keep m)"

definition mark_close_positions :: "string \<Rightarrow> market \<Rightarrow> positions \<Rightarrow> py_error + positions \<times> marks" where
  "mark_close_positions session mkt ps = foldE (mark_close session mkt) ps (ps, [])"

definition sum_position_values :: "positions \<Rightarrow> marks \<Rightarrow> py_error + dec" where
  "sum_position_values ps marks =
     bindE (foldE (\<lambda>item total. case item of (instrument_id, p) \<Rightarrow>
              bindE (lookupE marks instrument_id (KeyError instrument_id)) (\<lambda>mark.
              mapErr (\<lambda>_. StrategyCalculationError ''invalid accounting result'' [])
                (bindE (acc_mul (adjusted_units p) mark) (acc_add total))))
            (sort_key fst ps) dzero)
       money"

definition account_weights :: "dec \<Rightarrow> dec \<Rightarrow> positions \<Rightarrow> marks \<Rightarrow> py_error + (string \<times> rat) list" where
  "account_weights cash nav ps marks =
     (if deq nav dzero then Inr []
      else
        bindE (bindE (def_div cash nav) (\<lambda>r. float_of (dval r))) (\<lambda>cash_weight.
        bindE (mapE (\<lambda>(instrument_id, p).
            bindE (lookupE marks instrument_id (KeyError instrument_id)) (\<lambda>mark.
            bindE (def_mul (adjusted_units p) mark) (\<lambda>value.
            bindE (def_div value nav) (\<lambda>r.
            bindE (float_of (dval r)) (\<lambda>w. Inr (instrument_id, w)))))) ps) (\<lambda>items.
        Inr (foldl (\<lambda>d (k, v). AList.update k v d) [(''cash'', cash_weight)] items))))"

text \<open>\<open>math.fsum\<close> rounds the exact sum once, so the order of the set of assets does not matter.\<close>

definition weight_turnover :: "(string \<times> rat) list \<Rightarrow> (string \<times> rat) list \<Rightarrow> py_error + rat" where
  "weight_turnover old new =
     (let weight = (\<lambda>d asset. case map_of d asset of None \<Rightarrow> 0 | Some w \<Rightarrow> w)
      in bindE (mapE (\<lambda>asset. bindE (float_of (weight new asset - weight old asset)) (\<lambda>d. Inr \<bar>d\<bar>))
                  (remdups (map fst old @ map fst new))) (\<lambda>ds.
         bindE (float_of (sum_list ds)) (\<lambda>total. float_of (1 / 2 * total))))"

fun unique_from :: "(string \<times> string \<times> string) list \<Rightarrow> valuation_event list \<Rightarrow> valuation_event list" where
  "unique_from seen [] = []"
| "unique_from seen (e # es) =
     (let identity = (ve_session e, ve_instrument e, ve_type e)
      in if List.member seen identity then unique_from seen es
         else e # unique_from (identity # seen) es)"

definition unique_events :: "valuation_event list \<Rightarrow> valuation_event list" where
  "unique_events events = unique_from [] events"

section \<open>Executing one order\<close>

text \<open>
  The loop over the child orders. Its state is the running total cost and quantity, the child
  rows and the fills written so far.
\<close>

definition execute_child :: "costs \<Rightarrow> event_context \<Rightarrow> ident \<Rightarrow> string \<Rightarrow> string \<Rightarrow> side
    \<Rightarrow> dec \<Rightarrow> dec \<Rightarrow> dec \<Rightarrow> int \<Rightarrow> dec \<times> int \<times> child_row list \<times> fill_draft list
    \<Rightarrow> py_error + dec \<times> int \<times> child_row list \<times> fill_draft list" where
  "execute_child costs context order_id session instrument_id side raw price slippage child s =
     (case s of (total_cost, total_quantity, children, drafts) \<Rightarrow>
      let child_id = strategy_event_id ''child''
            [order_id, IdInt total_quantity, IdInt (total_quantity + child)] in
      bindE (def_mul (dec_of_int child) price) (\<lambda>product.
      bindE (money product) (\<lambda>raw_notional.
      bindE (transaction_cost_parts raw_notional side costs) (\<lambda>fees.
      bindE (sum_parts fees) (\<lambda>cost.
      bindE (def_add total_cost cost) (\<lambda>sum_cost.
      bindE (money sum_cost) (\<lambda>new_cost.
      Inr (new_cost, total_quantity + child,
           children @ [\<lparr>child_context = context, child_ident = child_id, child_order = order_id,
             child_session = session, child_instrument = instrument_id, child_side = side,
             child_quantity = child\<rparr>],
           drafts @ [\<lparr>fill_ident = strategy_event_id ''fill'' [child_id], fill_context = context,
             fill_child = child_id, fill_order = order_id, fill_session = session,
             fill_instrument = instrument_id, fill_side = side, fill_quantity = child,
             fill_raw_open = canon raw, fill_execution_price = canon price,
             fill_price_slippage = canon slippage,
             fill_fees = \<lparr>commission_cny = canon (commission_cny fees),
               stamp_duty_cny = canon (stamp_duty_cny fees),
               transfer_fee_cny = canon (transfer_fee_cny fees)\<rparr>,
             fill_raw_notional = canon raw_notional, fill_cost = canon cost\<rparr>]))))))))"

definition settle_buy :: "string \<Rightarrow> string \<Rightarrow> dec \<Rightarrow> dec \<Rightarrow> dec \<Rightarrow> int \<Rightarrow> dec \<Rightarrow> book \<Rightarrow> py_error + book" where
  "settle_buy session instrument_id raw adjusted price total_quantity total_cost b =
     bindE (def_mul (dec_of_int total_quantity) price) (\<lambda>product.
     bindE (money product) (\<lambda>raw_notional.
     bindE (acc_div adjusted raw) (\<lambda>factor.
     bindE (acc_div (dec_of_int total_quantity) factor) (\<lambda>added_units.
     bindE (case map_of (positions b) instrument_id of
              None \<Rightarrow>
                bindE (def_add raw_notional total_cost) (\<lambda>c.
                bindE (money c) (\<lambda>acquisition.
                Inr \<lparr>execution_shares = total_quantity, adjusted_units = added_units,
                     last_adjusted_price = adjusted, remaining_acquisition_cost_cny = acquisition,
                     holding_cycle_started_session = session, holding_age = 0,
                     last_close_adjusted_price = None\<rparr>))
            | Some p \<Rightarrow>
                bindE (def_add (remaining_acquisition_cost_cny p) raw_notional) (\<lambda>c1.
                bindE (def_add c1 total_cost) (\<lambda>c2.
                bindE (money c2) (\<lambda>acquisition.
                bindE (def_add (adjusted_units p) added_units) (\<lambda>u.
                bindE (money u) (\<lambda>units.
                Inr (p\<lparr>remaining_acquisition_cost_cny := acquisition,
                       execution_shares := execution_shares p + total_quantity,
                       adjusted_units := units, last_adjusted_price := adjusted\<rparr>))))))) (\<lambda>p.
     bindE (def_sub (gross_cash b) raw_notional) (\<lambda>g.
     bindE (money g) (\<lambda>gross.
     bindE (def_sub (net_cash b) raw_notional) (\<lambda>n1.
     bindE (def_sub n1 total_cost) (\<lambda>n2.
     bindE (money n2) (\<lambda>net.
     Inr (b\<lparr>positions := AList.update instrument_id p (positions b),
            gross_cash := gross, net_cash := net\<rparr>)))))))))))"

definition settle_sell :: "string \<Rightarrow> dec \<Rightarrow> dec \<Rightarrow> int \<Rightarrow> dec \<Rightarrow> book \<Rightarrow> py_error + book" where
  "settle_sell instrument_id adjusted factor total_quantity total_cost b =
     bindE (lookupE (positions b) instrument_id (KeyError instrument_id)) (\<lambda>p.
     let before_shares = execution_shares p; complete = (total_quantity = before_shares) in
     bindE (if complete then Inr (adjusted_units p)
            else bindE (acc_mul (adjusted_units p) (dec_of_int total_quantity)) (\<lambda>x.
                 acc_div x (dec_of_int before_shares))) (\<lambda>removed_units.
     bindE (acc_mul removed_units adjusted) (\<lambda>x.
     bindE (acc_mul x factor) (\<lambda>settlement.
     bindE (def_add (gross_cash b) settlement) (\<lambda>g.
     bindE (money g) (\<lambda>gross.
     bindE (def_add (net_cash b) settlement) (\<lambda>n1.
     bindE (def_sub n1 total_cost) (\<lambda>n2.
     bindE (money n2) (\<lambda>net.
     if complete then
       Inr (b\<lparr>positions := AList.delete instrument_id (positions b), gross_cash := gross, net_cash := net\<rparr>)
     else
       bindE (acc_mul (remaining_acquisition_cost_cny p) (dec_of_int (before_shares - total_quantity))) (\<lambda>c1.
       bindE (acc_div c1 (dec_of_int before_shares)) (\<lambda>c2.
       bindE (money c2) (\<lambda>acquisition.
       bindE (def_sub (adjusted_units p) removed_units) (\<lambda>u.
       bindE (money u) (\<lambda>units.
       Inr (b\<lparr>positions := AList.update instrument_id
                 (p\<lparr>remaining_acquisition_cost_cny := acquisition,
                    execution_shares := before_shares - total_quantity,
                    adjusted_units := units, last_adjusted_price := adjusted\<rparr>) (positions b),
              gross_cash := gross, net_cash := net\<rparr>)))))))))))))))"

text \<open>
  The second loop over the fills allocates the changes of the order to its fills. All of it runs
  in the accounting context; the loop state is the previous cumulative triple, the cumulative net
  change, the cumulative quantity and the completed rows.
\<close>

definition acc_abs :: "dec \<Rightarrow> py_error + dec" where
  "acc_abs d = dec_fix ACCOUNTING_CONTEXT (Dec \<bar>coeff d\<bar> (expo d))"

definition scaled :: "int \<Rightarrow> int \<Rightarrow> dec \<Rightarrow> py_error + dec" where
  "scaled quantity whole d = bindE (acc_mul d (dec_of_int quantity)) (\<lambda>x. acc_div x (dec_of_int whole))"

definition allocate_fill :: "dec \<Rightarrow> side \<Rightarrow> int \<Rightarrow> dec \<times> dec \<times> dec \<Rightarrow> fill_draft
    \<Rightarrow> (dec \<times> dec \<times> dec) \<times> dec \<times> int \<times> fill_row list
    \<Rightarrow> py_error + (dec \<times> dec \<times> dec) \<times> dec \<times> int \<times> fill_row list" where
  "allocate_fill adjusted side total_quantity deltas draft s =
     (case deltas of (d_gross, d_net, d_units) \<Rightarrow>
      case s of ((p_gross, p_net, p_units), cumulative_net, cumulative_quantity, rows) \<Rightarrow>
      let quantity = cumulative_quantity + fill_quantity draft; last = (quantity = total_quantity) in
      bindE (if last then Inr deltas
             else bindE (scaled quantity total_quantity d_gross) (\<lambda>x.
                  bindE (scaled quantity total_quantity d_net) (\<lambda>y.
                  bindE (scaled quantity total_quantity d_units) (\<lambda>z. Inr (x, y, z))))) (\<lambda>(c_gross, c_net, c_units).
      bindE (acc_sub c_gross p_gross) (\<lambda>gross_delta.
      bindE (acc_sub c_net p_net) (\<lambda>_.
      bindE (acc_sub c_units p_units) (\<lambda>units_delta.
      bindE (if last then acc_sub d_net cumulative_net else acc_sub gross_delta (fill_cost draft)) (\<lambda>net_delta.
      bindE (acc_add cumulative_net net_delta) (\<lambda>new_net.
      bindE (acc_abs gross_delta) (\<lambda>settlement.
      bindE (acc_sub net_delta gross_delta) (\<lambda>r1.
      bindE (acc_add r1 (fill_cost draft)) (\<lambda>rounding.
      Inr ((c_gross, c_net, c_units), new_net, quantity,
           rows @ [fill_draft.extend draft (fill_row.fields (canon adjusted) (canon settlement)
             (canon gross_delta) (canon net_delta) (canon rounding)
             (fill_quantity draft * (if side = Buy then 1 else - 1)) (canon units_delta))])))))))))))"

definition allocate_fills :: "dec \<Rightarrow> side \<Rightarrow> int \<Rightarrow> dec \<times> dec \<times> dec \<Rightarrow> fill_draft list \<Rightarrow> py_error + fill_row list" where
  "allocate_fills adjusted side total_quantity deltas drafts =
     bindE (foldE (allocate_fill adjusted side total_quantity deltas) drafts
              ((dzero, dzero, dzero), dzero, 0, [])) (\<lambda>(_, _, _, rows). Inr rows)"

definition units_held :: "positions \<Rightarrow> string \<Rightarrow> dec" where
  "units_held ps instrument_id =
     (case map_of ps instrument_id of None \<Rightarrow> dzero | Some p \<Rightarrow> adjusted_units p)"

text \<open>The part of \<open>execute_order\<close> after the rejection branch.\<close>

definition fill_order :: "market \<Rightarrow> costs \<Rightarrow> event_context \<Rightarrow> ident \<Rightarrow> string \<Rightarrow> string \<Rightarrow> side \<Rightarrow> int
    \<Rightarrow> execution_price \<Rightarrow> book \<Rightarrow> py_error + book \<times> dec" where
  "fill_order mkt costs context order_id session instrument_id side quantity quote b =
     (let raw = price_raw_open quote; adjusted = price_adjusted_open quote in
      bindE (execution_price_factor side costs) (\<lambda>factor.
      bindE (acc_mul raw factor) (\<lambda>price.
      bindE (acc_sub price raw) (\<lambda>slippage.
      bindE (profileE mkt instrument_id) (\<lambda>profile.
      let complete_liquidation = (side = Sell \<and>
            (case map_of (positions b) instrument_id of None \<Rightarrow> False
               | Some p \<Rightarrow> execution_shares p = quantity)) in
      bindE (split_child_orders (profile_board profile) quantity complete_liquidation) (\<lambda>children.
      bindE (foldE (execute_child costs context order_id session instrument_id side raw price slippage)
               children (dzero, 0, [], [])) (\<lambda>(total_cost, total_quantity, rows, drafts).
      bindE (if side = Buy
             then settle_buy session instrument_id raw adjusted price total_quantity total_cost b
             else settle_sell instrument_id adjusted factor total_quantity total_cost b) (\<lambda>after.
      bindE (acc_sub (gross_cash after) (gross_cash b)) (\<lambda>d_gross.
      bindE (acc_sub (net_cash after) (net_cash b)) (\<lambda>d_net.
      bindE (acc_sub (units_held (positions after) instrument_id) (units_held (positions b) instrument_id)) (\<lambda>d_units.
      bindE (allocate_fills adjusted side total_quantity (d_gross, d_net, d_units) drafts) (\<lambda>fill_rows.
      Inr (after\<lparr>child_orders := child_orders after @ rows, fills := fills after @ fill_rows\<rparr>,
           total_cost)))))))))))))"

definition execute_order :: "market \<Rightarrow> costs \<Rightarrow> event_context \<Rightarrow> string \<Rightarrow> string \<Rightarrow> side \<Rightarrow> int
    \<Rightarrow> dec \<Rightarrow> int \<Rightarrow> book \<Rightarrow> py_error + book \<times> dec" where
  "execute_order mkt costs context session instrument_id side quantity intended unrounded b =
     (let quote = execution_prices mkt (session, instrument_id);
          limit = price_limits mkt (session, instrument_id);
          state = trading_states mkt (session, instrument_id);
          raw_open = map_option price_raw_open quote in
      if limit = None \<and> \<not> suspended_or_unavailable state then
        Inl (StrategyCalculationError ''missing price limit'' [instrument_id, session])
      else
        let upper = (case limit of None \<Rightarrow> dzero | Some l \<Rightarrow> limit_upper l);
            lower = (case limit of None \<Rightarrow> dzero | Some l \<Rightarrow> limit_lower l);
            rejection = market_rejection_reason side state raw_open upper lower;
            order_id = strategy_event_id ''order''
              [ctx_target_id context, IdStr session, IdStr instrument_id,
               IdStr (if side = Buy then ''buy'' else ''sell'')];
            b1 = b\<lparr>orders := orders b @ [\<lparr>order_context = context, order_rejection = rejection,
              order_ident = order_id, order_session = session, order_instrument = instrument_id,
              order_side = side, order_intended_value = canon intended,
              order_unrounded = Some unrounded, order_legal = Some quantity\<rparr>]\<rparr>
        in case rejection of
             Some reason \<Rightarrow>
               Inr (b1\<lparr>rejections := rejections b1 @ [\<lparr>rej_order = order_id, rej_session = session,
                      rej_instrument = instrument_id, rej_side = side, rej_quantity = Some quantity,
                      rej_intended_value = canon intended, rej_reason = reason\<rparr>]\<rparr>, dzero)
           | None \<Rightarrow>
               (case quote of
                  None \<Rightarrow> Inl (StrategyCalculationError ''unexplained executable Open'' [instrument_id])
                | Some q \<Rightarrow> fill_order mkt costs context order_id session instrument_id side quantity q b1))"

section \<open>Marks at the open\<close>

lemma mark_position_cases:
  assumes "mark_position session mkt i (ps, marks, ev) = Inr (ps', marks', ev')"
  obtains p m where "map_of ps i = Some p" and "ps' = AList.update i (p\<lparr>last_adjusted_price := m\<rparr>) ps"
      and "marks' = AList.update i m marks" and "ev' = ev"
    | p e where "map_of ps i = Some p" and "ps' = ps" and "marks' = AList.update i (last_adjusted_price p) marks"
      and "ev' = ev @ [e]"
    | p e where "map_of ps i = Some p" and "ps' = AList.delete i ps" and "marks' = marks" and "ev' = ev @ [e]"
      and "ve_instrument e = i" and "ve_type e = ''terminal_delisting_writeoff''"
      and "ve_execution_shares_delta e = - execution_shares p"
      and "\<exists>profile. instruments mkt i = Some profile \<and> listing_ended profile session"
      and "execution_prices mkt (session, i) = None"
proof -
  obtain p where p: "map_of ps i = Some p" using assms by (auto simp: mark_position_def)
  show thesis
  proof (cases "execution_prices mkt (session, i)")
    case (Some q)
    with assms p show ?thesis by (intro that(1) [of p "price_adjusted_open q"]) (auto simp: mark_position_def lookupE_def)
  next
    case None
    show ?thesis
    proof (cases "suspended_or_unavailable (trading_states mkt (session, i))")
      case True
      with None assms p show ?thesis by (intro that(2) [of p]) (auto simp: mark_position_def lookupE_def)
    next
      case False
      with None assms p show ?thesis
        by (auto simp: mark_position_def lookupE_def profileE_def adjustment_event_def
            split: option.splits if_splits elim!: that(3))
    qed
  qed
qed

text \<open>What marking promises for one holding.\<close>

definition marked_from :: "string \<Rightarrow> market \<Rightarrow> string \<Rightarrow> position \<Rightarrow> position option \<Rightarrow> dec option
    \<Rightarrow> valuation_event list \<Rightarrow> bool" where
  "marked_from session mkt i p after mark ev \<longleftrightarrow>
     (case after of
        Some p' \<Rightarrow> mark = Some (last_adjusted_price p') \<and>
          p' = p\<lparr>last_adjusted_price := last_adjusted_price p'\<rparr>
      | None \<Rightarrow> mark = None \<and> execution_prices mkt (session, i) = None \<and>
          (\<exists>profile. instruments mkt i = Some profile \<and> listing_ended profile session) \<and>
          (\<exists>e\<in>set ev. ve_instrument e = i \<and> ve_type e = ''terminal_delisting_writeoff'' \<and>
             ve_execution_shares_delta e = - execution_shares p))"

lemma marked_from_more: "marked_from session mkt i p a m ev \<Longrightarrow> marked_from session mkt i p a m (ev @ es)"
  by (auto simp: marked_from_def split: option.splits)

lemma mark_position_result:
  assumes "mark_position session mkt i (ps, marks, ev) = Inr (ps', marks', ev')" "map_of marks i = None"
  shows "\<exists>p. map_of ps i = Some p \<and> marked_from session mkt i p (map_of ps' i) (map_of marks' i) ev'"
    and "\<forall>j. j \<noteq> i \<longrightarrow> map_of ps' j = map_of ps j \<and> map_of marks' j = map_of marks j"
    and "\<exists>es. ev' = ev @ es"
  using assms(1) by (rule mark_position_cases; use assms(2) in \<open>auto simp: marked_from_def\<close>)+

lemma mark_positions_loop:
  assumes "foldE (mark_position session mkt) ks (ps, marks, ev) = Inr (ps', marks', ev')"
    and "distinct ks" "\<forall>i\<in>set ks. map_of marks i = None"
  shows "(\<forall>i\<in>set ks. \<exists>p. map_of ps i = Some p \<and> marked_from session mkt i p (map_of ps' i) (map_of marks' i) ev') \<and>
    (\<forall>j. j \<notin> set ks \<longrightarrow> map_of ps' j = map_of ps j \<and> map_of marks' j = map_of marks j) \<and>
    (\<exists>es. ev' = ev @ es)"
  using assms
proof (induction ks arbitrary: ps marks ev)
  case Nil
  then show ?case by auto
next
  case (Cons i ks)
  obtain ps1 m1 ev1 where s: "mark_position session mkt i (ps, marks, ev) = Inr (ps1, m1, ev1)"
    "foldE (mark_position session mkt) ks (ps1, m1, ev1) = Inr (ps', marks', ev')"
    using Cons.prems(1) by (auto simp: bindE_Inr_iff)
  note r = mark_position_result [OF s(1)]
  have i: "map_of marks i = None" "i \<notin> set ks" using Cons.prems by auto
  have "\<forall>j\<in>set ks. map_of m1 j = None" using r(2) [OF i(1)] Cons.prems i(2) by force
  with Cons.IH [OF s(2)] Cons.prems have
    ih: "\<forall>j\<in>set ks. \<exists>p. map_of ps1 j = Some p \<and> marked_from session mkt j p (map_of ps' j) (map_of marks' j) ev'"
      "\<forall>j. j \<notin> set ks \<longrightarrow> map_of ps' j = map_of ps1 j \<and> map_of marks' j = map_of m1 j" "\<exists>es. ev' = ev1 @ es"
    by auto
  have "\<exists>p. map_of ps i = Some p \<and> marked_from session mkt i p (map_of ps' i) (map_of marks' i) ev'"
    using r(1) [OF i(1)] ih(2,3) i(2) marked_from_more by fastforce
  moreover have "\<forall>j\<in>set ks. map_of ps1 j = map_of ps j" using r(2) [OF i(1)] i(2) by metis
  ultimately show ?case using ih r(2,3) [OF i(1)] by force
qed

section \<open>Loops over the child orders\<close>

lemma execute_child_step:
  assumes "execute_child costs context oid session i side raw price slip c (cost, q, rows, drafts) = Inr t"
  shows "\<exists>cost' r d. t = (cost', q + c, rows @ [r], drafts @ [d]) \<and> fill_quantity d = c \<and> child_quantity r = c"
  using assms unfolding execute_child_def Let_def prod.case
  by (elim bindE_InrE) auto

lemma extend_quantity: "fill_quantity (fill_draft.extend d m) = fill_quantity d"
  by (simp add: fill_draft.defs)

lemma extend_shares: "fill_execution_shares_delta (fill_draft.extend d (fill_row.fields a b c e f g h)) = g"
  by (simp add: fill_draft.defs fill_row.defs)

lemma allocate_fill_step:
  assumes "allocate_fill adjusted side tq deltas d (prior, n, q, rows) = Inr t"
  shows "\<exists>prior' n' r. t = (prior', n', q + fill_quantity d, rows @ [r]) \<and> fill_quantity r = fill_quantity d \<and>
    fill_execution_shares_delta r = fill_quantity d * (if side = Buy then 1 else - 1)"
proof -
  obtain dg dn du where del: "deltas = (dg, dn, du)" by (cases deltas)
  obtain pg pn pu where pri: "prior = (pg, pn, pu)" by (cases prior)
  show ?thesis
    using assms unfolding allocate_fill_def Let_def del pri prod.case
    by (elim bindE_InrE) (auto simp: extend_quantity extend_shares split: prod.splits)
qed

lemma execute_children:
  assumes "foldE (execute_child costs context oid session i side raw price slip) cs (cost, q, rows, drafts)
      = Inr (cost', q', rows', drafts')"
  shows "q' = q + sum_list cs" and "\<exists>ds. drafts' = drafts @ ds \<and> map fill_quantity ds = cs"
    and "\<exists>rs. rows' = rows @ rs \<and> map child_quantity rs = cs"
proof -
  have "q' = q + sum_list cs \<and> (\<exists>ds. drafts' = drafts @ ds \<and> map fill_quantity ds = cs) \<and>
    (\<exists>rs. rows' = rows @ rs \<and> map child_quantity rs = cs)"
    using assms
  proof (induction cs arbitrary: cost q rows drafts)
    case (Cons c cs)
    then obtain t where t: "execute_child costs context oid session i side raw price slip c (cost, q, rows, drafts) = Inr t"
      "foldE (execute_child costs context oid session i side raw price slip) cs t = Inr (cost', q', rows', drafts')"
      by auto
    then obtain cost1 d r where
      "foldE (execute_child costs context oid session i side raw price slip) cs (cost1, q + c, rows @ [r], drafts @ [d])
        = Inr (cost', q', rows', drafts')" "fill_quantity d = c" "child_quantity r = c"
      using execute_child_step [OF t(1)] by auto
    with Cons.IH [OF this(1)] show ?case by force
  qed simp
  then show "q' = q + sum_list cs" "\<exists>ds. drafts' = drafts @ ds \<and> map fill_quantity ds = cs"
    "\<exists>rs. rows' = rows @ rs \<and> map child_quantity rs = cs" by auto
qed

lemma allocate_fills_rows:
  assumes "foldE (allocate_fill adjusted side tq deltas) drafts (prior, n, q, rows) = Inr (prior', n', q', rows')"
  shows "\<exists>rs. rows' = rows @ rs \<and> map fill_quantity rs = map fill_quantity drafts \<and>
    map fill_execution_shares_delta rs = map (\<lambda>d. fill_quantity d * (if side = Buy then 1 else - 1)) drafts"
  using assms
proof (induction drafts arbitrary: prior n q rows)
  case (Cons d ds)
  obtain t where t: "allocate_fill adjusted side tq deltas d (prior, n, q, rows) = Inr t"
    "foldE (allocate_fill adjusted side tq deltas) ds t = Inr (prior', n', q', rows')"
    using Cons.prems by auto
  obtain prior1 n1 q1 r where
    r: "foldE (allocate_fill adjusted side tq deltas) ds (prior1, n1, q1, rows @ [r]) = Inr (prior', n', q', rows')"
      "fill_quantity r = fill_quantity d"
      "fill_execution_shares_delta r = fill_quantity d * (if side = Buy then 1 else - 1)"
    using t(2) allocate_fill_step [OF t(1)] by auto
  from Cons.IH [OF r(1)] r(2,3) show ?case by force
qed simp

section \<open>What an order changes\<close>

definition shares_held :: "positions \<Rightarrow> string \<Rightarrow> int" where
  "shares_held ps i = (case map_of ps i of None \<Rightarrow> 0 | Some p \<Rightarrow> execution_shares p)"

text \<open>The rows of a book, which settling does not touch.\<close>

definition same_rows :: "book \<Rightarrow> book \<Rightarrow> bool" where
  "same_rows b c \<longleftrightarrow> orders c = orders b \<and> child_orders c = child_orders b \<and> fills c = fills b \<and>
     rejections c = rejections b"

lemma settle_buy_result:
  assumes "settle_buy session i raw adjusted price q cost b = Inr c"
  shows "same_rows b c" and "shares_held (positions c) i = shares_held (positions b) i + q"
    and "\<forall>j. j \<noteq> i \<longrightarrow> map_of (positions c) j = map_of (positions b) j"
    and "\<exists>p. map_of (positions c) i = Some p \<and> last_adjusted_price p = adjusted"
    and "map_of (positions b) i = None \<Longrightarrow> \<exists>p. map_of (positions c) i = Some p \<and>
      holding_cycle_started_session p = session \<and> holding_age p = 0"
  using assms unfolding settle_buy_def
  by (elim bindE_InrE; force simp: same_rows_def shares_held_def split: option.splits)+

lemma settle_buy_cash:
  assumes "settle_buy session i raw adjusted price q cost b = Inr c"
  obtains product notional g n1 n2 where "def_mul (dec_of_int q) price = Inr product"
    and "money product = Inr notional"
    and "def_sub (gross_cash b) notional = Inr g" and "money g = Inr (gross_cash c)"
    and "def_sub (net_cash b) notional = Inr n1" and "def_sub n1 cost = Inr n2" and "money n2 = Inr (net_cash c)"
  using assms unfolding settle_buy_def by (elim bindE_InrE) auto

lemma settle_sell_result:
  assumes "settle_sell i adjusted factor q cost b = Inr c"
  shows "same_rows b c" and "shares_held (positions c) i = shares_held (positions b) i - q"
    and "\<forall>j. j \<noteq> i \<longrightarrow> map_of (positions c) j = map_of (positions b) j"
    and "map_of (positions c) i = None \<longleftrightarrow> shares_held (positions b) i = q"
proof -
  obtain p where p: "map_of (positions b) i = Some p" using assms by (auto simp: settle_sell_def)
  have "same_rows b c \<and> shares_held (positions c) i = shares_held (positions b) i - q \<and>
    (\<forall>j. j \<noteq> i \<longrightarrow> map_of (positions c) j = map_of (positions b) j) \<and>
    (map_of (positions c) i = None \<longleftrightarrow> shares_held (positions b) i = q)"
  proof (cases "q = execution_shares p")
    case True
    with assms p show ?thesis
      by (auto simp: settle_sell_def Let_def lookupE_def same_rows_def shares_held_def)
  next
    case False
    with assms p show ?thesis
      by (auto simp: settle_sell_def Let_def lookupE_def same_rows_def shares_held_def)
  qed
  then show "same_rows b c" "shares_held (positions c) i = shares_held (positions b) i - q"
    "\<forall>j. j \<noteq> i \<longrightarrow> map_of (positions c) j = map_of (positions b) j"
    "map_of (positions c) i = None \<longleftrightarrow> shares_held (positions b) i = q" by blast+
qed

lemma fill_order_result:
  assumes q: "0 \<le> q" and r: "fill_order mkt costs context oid session i side q quote b = Inr (c, cost)"
  shows "orders c = orders b" and "rejections c = rejections b"
    and "shares_held (positions c) i = shares_held (positions b) i + (if side = Buy then q else - q)"
    and "\<forall>j. j \<noteq> i \<longrightarrow> map_of (positions c) j = map_of (positions b) j"
    and "\<exists>rows. fills c = fills b @ rows \<and> sum_list (map fill_quantity rows) = q \<and>
      (\<forall>f\<in>set rows. 0 < fill_quantity f \<and>
        fill_execution_shares_delta f = fill_quantity f * (if side = Buy then 1 else - 1))"
    and "\<exists>rows. child_orders c = child_orders b @ rows \<and> sum_list (map child_quantity rows) = q"
proof -
  obtain factor price slip and profile :: instrument_profile and cs st where
    split: "split_child_orders (profile_board profile) q
      (side = Sell \<and> (case map_of (positions b) i of None \<Rightarrow> False | Some p \<Rightarrow> execution_shares p = q)) = Inr cs"
    and loop': "foldE (execute_child costs context oid session i side (price_raw_open quote) price slip) cs
      (dzero, 0, [], []) = Inr st"
    and rest: "(case st of (total_cost, total_quantity, rows, drafts) \<Rightarrow>
      bindE (if side = Buy
             then settle_buy session i (price_raw_open quote) (price_adjusted_open quote) price total_quantity total_cost b
             else settle_sell i (price_adjusted_open quote) factor total_quantity total_cost b) (\<lambda>after.
      bindE (acc_sub (gross_cash after) (gross_cash b)) (\<lambda>d_gross.
      bindE (acc_sub (net_cash after) (net_cash b)) (\<lambda>d_net.
      bindE (acc_sub (units_held (positions after) i) (units_held (positions b) i)) (\<lambda>d_units.
      bindE (allocate_fills (price_adjusted_open quote) side total_quantity (d_gross, d_net, d_units) drafts) (\<lambda>fill_rows.
      Inr (after\<lparr>child_orders := child_orders after @ rows, fills := fills after @ fill_rows\<rparr>,
           total_cost))))))) = Inr (c, cost)"
    using r unfolding fill_order_def Let_def by (elim bindE_InrE) (rule that)
  obtain total_cost tq rows drafts where st: "st = (total_cost, tq, rows, drafts)" by (cases st)
  note loop = loop' [unfolded st]
  obtain after d fs where
    settle: "(if side = Buy then settle_buy session i (price_raw_open quote) (price_adjusted_open quote) price tq total_cost b
      else settle_sell i (price_adjusted_open quote) factor tq total_cost b) = Inr after"
    and alloc: "allocate_fills (price_adjusted_open quote) side tq d drafts = Inr fs"
    and c': "Inr (after\<lparr>child_orders := child_orders after @ rows, fills := fills after @ fs\<rparr>, total_cost) = (Inr (c, cost) :: py_error + book \<times> dec)"
    using rest unfolding st prod.case by (elim bindE_InrE) (rule that)
  have c: "c = after\<lparr>child_orders := child_orders after @ rows, fills := fills after @ fs\<rparr>" using c' by simp
  have cs: "sum_list cs = q" "\<forall>x\<in>set cs. 0 < x"
    using child_orders.split_sum [OF q split] child_orders.split_positive [OF q split] by auto
  note ch = execute_children [OF loop]
  have tq: "tq = q" using ch(1) cs(1) by simp
  obtain pr n qq where "foldE (allocate_fill (price_adjusted_open quote) side tq d) drafts
      ((dzero, dzero, dzero), dzero, 0, []) = Inr (pr, n, qq, fs)"
    using alloc unfolding allocate_fills_def by (elim bindE_InrE) (auto split: prod.splits)
  from allocate_fills_rows [OF this] have fs: "map fill_quantity fs = map fill_quantity drafts"
    "map fill_execution_shares_delta fs = map (\<lambda>d. fill_quantity d * (if side = Buy then 1 else - 1)) drafts" by auto
  have res: "same_rows b after \<and>
    shares_held (positions after) i = shares_held (positions b) i + (if side = Buy then q else - q) \<and>
    (\<forall>j. j \<noteq> i \<longrightarrow> map_of (positions after) j = map_of (positions b) j)"
  proof (cases side)
    case Buy
    then have "settle_buy session i (price_raw_open quote) (price_adjusted_open quote) price q total_cost b = Inr after"
      using settle tq by simp
    from settle_buy_result(1,2,3) [OF this] Buy show ?thesis by simp
  next
    case Sell
    then have "settle_sell i (price_adjusted_open quote) factor q total_cost b = Inr after"
      using settle tq by simp
    from settle_sell_result(1,2,3) [OF this] Sell show ?thesis by simp
  qed
  then have rows: "same_rows b after" and
    shares: "shares_held (positions after) i = shares_held (positions b) i + (if side = Buy then q else - q)" and
    others: "\<forall>j. j \<noteq> i \<longrightarrow> map_of (positions after) j = map_of (positions b) j"
    by blast+
  have drafts: "map fill_quantity drafts = cs" using ch(2) by auto
  have delta: "fill_execution_shares_delta f = fill_quantity f * (if side = Buy then 1 else - 1)" if f: "f \<in> set fs" for f
  proof -
    obtain n where n: "n < length fs" "fs ! n = f" using f unfolding in_set_conv_nth by blast
    have len: "length fs = length drafts" using fs(1) by (rule map_eq_imp_length_eq)
    have "fill_quantity (fs ! n) = fill_quantity (drafts ! n)"
      using arg_cong [OF fs(1), of "\<lambda>xs. xs ! n"] n(1) len by simp
    moreover have "fill_execution_shares_delta (fs ! n) = fill_quantity (drafts ! n) * (if side = Buy then 1 else - 1)"
      using arg_cong [OF fs(2), of "\<lambda>xs. xs ! n"] n(1) len by simp
    ultimately show ?thesis unfolding n(2) by simp
  qed
  have pos: "0 < fill_quantity f" if "f \<in> set fs" for f
  proof -
    have "fill_quantity f \<in> set (map fill_quantity fs)" using that by simp
    then show ?thesis using cs(2) unfolding fs(1) drafts by blast
  qed
  show "orders c = orders b" "rejections c = rejections b" using rows by (simp_all add: c same_rows_def)
  show "shares_held (positions c) i = shares_held (positions b) i + (if side = Buy then q else - q)"
    using shares by (simp add: c)
  show "\<forall>j. j \<noteq> i \<longrightarrow> map_of (positions c) j = map_of (positions b) j" using others by (simp add: c)
  show "\<exists>rows. fills c = fills b @ rows \<and> sum_list (map fill_quantity rows) = q \<and>
      (\<forall>f\<in>set rows. 0 < fill_quantity f \<and>
        fill_execution_shares_delta f = fill_quantity f * (if side = Buy then 1 else - 1))"
    using rows delta pos fs(1) drafts cs(1) by (intro exI [of _ fs]) (simp add: c same_rows_def)
  show "\<exists>rows. child_orders c = child_orders b @ rows \<and> sum_list (map child_quantity rows) = q"
    using rows ch(3) cs(1) by (intro exI [of _ rows]) (auto simp: c same_rows_def)
qed

lemma execute_order_cases:
  assumes "execute_order mkt costs context session i side q intended unrounded b = Inr (c, cost)"
  obtains (rejected) row rejection where
      "c = b\<lparr>orders := orders b @ [row], rejections := rejections b @ [rejection]\<rparr>"
      and "cost = dzero" and "order_rejection row = Some (rej_reason rejection)" and "rej_order rejection = order_ident row" and "order_side row = side"
    | (filled) row oid quote where "fill_order mkt costs context oid session i side q quote
          (b\<lparr>orders := orders b @ [row]\<rparr>) = Inr (c, cost)"
      and "order_rejection row = None" and "order_ident row = oid" and "execution_prices mkt (session, i) = Some quote" and "order_side row = side"
proof -
  show thesis
  proof (cases "market_rejection_reason side (trading_states mkt (session, i))
      (map_option price_raw_open (execution_prices mkt (session, i)))
      (case price_limits mkt (session, i) of None \<Rightarrow> dzero | Some l \<Rightarrow> limit_upper l)
      (case price_limits mkt (session, i) of None \<Rightarrow> dzero | Some l \<Rightarrow> limit_lower l)")
    case None
    then show thesis
      using assms filled unfolding execute_order_def Let_def
      by (auto split: if_splits option.splits)
  next
    case (Some reason)
    define oid where "oid = strategy_event_id ''order'' [ctx_target_id context, IdStr session, IdStr i,
      IdStr (if side = Buy then ''buy'' else ''sell'')]"
    let ?row = "\<lparr>order_context = context, order_rejection = Some reason, order_ident = oid,
      order_session = session, order_instrument = i, order_side = side, order_intended_value = canon intended,
      order_unrounded = Some unrounded, order_legal = Some q\<rparr>"
    let ?rejection = "\<lparr>rej_order = oid, rej_session = session, rej_instrument = i, rej_side = side,
      rej_quantity = Some q, rej_intended_value = canon intended, rej_reason = reason\<rparr>"
    have "c = b\<lparr>orders := orders b @ [?row], rejections := rejections b @ [?rejection]\<rparr> \<and> cost = dzero"
      using assms Some unfolding execute_order_def Let_def oid_def by (simp split: if_splits)
    then show thesis by (intro rejected [where row = ?row and rejection = ?rejection]) simp_all
  qed
qed

section \<open>Sample data\<close>

text \<open>Concrete data: one main board instrument with the given open.\<close>

definition sample_market :: "dec \<Rightarrow> market" where
  "sample_market open_price =
     \<lparr>instruments = [''600000.SH'' \<mapsto> \<lparr>profile_board = ''main'', profile_listed_to = None\<rparr>],
      execution_prices = [(''2024-01-03'', ''600000.SH'') \<mapsto> \<lparr>price_raw_open = open_price, price_adjusted_open = open_price\<rparr>],
      trading_states = Map.empty,
      price_limits = [(''2024-01-03'', ''600000.SH'') \<mapsto> \<lparr>limit_upper = Dec 1100 (- 2), limit_lower = Dec 90 (- 2)\<rparr>],
      close_field = Map.empty\<rparr>"

definition sample_book :: "dec \<Rightarrow> positions \<Rightarrow> book" where
  "sample_book cash ps = \<lparr>positions = ps, gross_cash = cash, net_cash = cash, orders = [],
     child_orders = [], fills = [], rejections = []\<rparr>"

definition sample_context :: event_context where
  "sample_context = \<lparr>ctx_target_id = IdStr ''t'', ctx_decision_session = ''2024-01-02'', ctx_reason = ''r''\<rparr>"

definition one_share :: position where
  "one_share = \<lparr>execution_shares = 1, adjusted_units = Dec 1 0, last_adjusted_price = Dec 3 0,
     remaining_acquisition_cost_cny = Dec 3 0, holding_cycle_started_session = ''2024-01-02'',
     holding_age = 1, last_close_adjusted_price = Some (Dec 3 0)\<rparr>"

section \<open>Properties\<close>

text \<open>
  C4: Marking at the open gives every holding that stays exactly one mark, its last adjusted
  price, and changes nothing else of it; a holding disappears only when there is no price and its
  listing has ended, and then a write-off event records the shares it removes.
\<close>

theorem mark_positions_correct:
  assumes "mark_positions session mkt ps = Inr (after, marks, events)"
    and "distinct (map fst ps)" and "map_of ps i = Some p"
  shows "case map_of after i of
      Some q \<Rightarrow> map_of marks i = Some (last_adjusted_price q) \<and> q = p\<lparr>last_adjusted_price := last_adjusted_price q\<rparr>
    | None \<Rightarrow> map_of marks i = None \<and> execution_prices mkt (session, i) = None \<and>
        (\<exists>profile. instruments mkt i = Some profile \<and> listing_ended profile session) \<and>
        (\<exists>e\<in>set events. ve_instrument e = i \<and> ve_type e = ''terminal_delisting_writeoff'' \<and>
           ve_execution_shares_delta e = - execution_shares p)"
proof -
  have "i \<in> set (map fst ps)" using assms(3) map_of_SomeD by force
  then show ?thesis
    using mark_positions_loop [OF assms(1) [unfolded mark_positions_def] assms(2)] assms(3)
    by (auto simp: marked_from_def)
qed

definition ended_market :: market where
  "ended_market = (sample_market (Dec 3 0))\<lparr>execution_prices := Map.empty,
     instruments := [''600000.SH'' \<mapsto> \<lparr>profile_board = ''main'', profile_listed_to = Some ''2024-01-02''\<rparr>]\<rparr>"

lemma mark_positions_correct_witness:
  "execution_prices ended_market (''2024-01-03'', ''600000.SH'') = None \<and>
   (\<exists>e\<in>set [adjustment_event ''2024-01-03'' ''600000.SH'' ''terminal_delisting_writeoff'' (- 1)
       (Dec (- 1) 0) (Dec (- 3) 0) (Dec 3 0)].
     ve_instrument e = ''600000.SH'' \<and> ve_execution_shares_delta e = - 1)"
proof -
  have "mark_positions ''2024-01-03'' ended_market [(''600000.SH'', one_share)] =
      Inr ([], [], [adjustment_event ''2024-01-03'' ''600000.SH'' ''terminal_delisting_writeoff'' (- 1) (Dec (- 1) 0) (Dec (- 3) 0) (Dec 3 0)])"
    by code_simp
  from mark_positions_correct [OF this, of "''600000.SH''" one_share] show ?thesis
    by (simp add: one_share_def)
qed

text \<open>
  C5: An order that the market rejects changes nothing but the record: one order and one
  rejection naming it are appended, and cash, positions, fills and children stay. An order that
  is not rejected moves exactly its quantity of shares of its own instrument; its children and
  its fills each add up to the quantity, and every fill carries its signed share of the change.
\<close>

theorem execute_order_correct:
  assumes "execute_order mkt costs context session i side q intended unrounded b = Inr (c, cost)"
    and "0 \<le> q"
  shows "(rejections c \<noteq> rejections b \<longrightarrow> cost = dzero \<and> (\<exists>row rejection.
      c = b\<lparr>orders := orders b @ [row], rejections := rejections b @ [rejection]\<rparr> \<and>
      order_rejection row = Some (rej_reason rejection) \<and> rej_order rejection = order_ident row)) \<and>
    (rejections c = rejections b \<longrightarrow>
      shares_held (positions c) i = shares_held (positions b) i + (if side = Buy then q else - q) \<and>
      (\<forall>j. j \<noteq> i \<longrightarrow> map_of (positions c) j = map_of (positions b) j) \<and>
      (\<exists>rows. child_orders c = child_orders b @ rows \<and> sum_list (map child_quantity rows) = q) \<and>
      (\<exists>rows. fills c = fills b @ rows \<and> sum_list (map fill_quantity rows) = q \<and>
        (\<forall>f\<in>set rows. 0 < fill_quantity f \<and>
          fill_execution_shares_delta f = fill_quantity f * (if side = Buy then 1 else - 1))))"
  using assms(1)
proof (cases rule: execute_order_cases)
  case (rejected row rejection)
  then have "rejections c \<noteq> rejections b" by simp
  with rejected show ?thesis by blast
next
  case (filled row oid quote)
  from fill_order_result [OF assms(2) filled(1)] show ?thesis by simp
qed

definition sold_share :: "book \<times> dec" where
  "sold_share = projr (execute_order (sample_market (Dec 9 0)) sample_costs sample_context ''2024-01-03'' ''600000.SH'' Sell 1
     (Dec 9 0) 1 (sample_book dzero [(''600000.SH'', one_share)]))"

lemma execute_order_correct_witness:
  "shares_held (positions (fst sold_share)) ''600000.SH'' = 0 \<and>
   (\<exists>rows. fills (fst sold_share) = rows \<and> sum_list (map fill_quantity rows) = 1)"
proof -
  let ?b = "sample_book dzero [(''600000.SH'', one_share)]"
  let ?run = "execute_order (sample_market (Dec 9 0)) sample_costs sample_context ''2024-01-03'' ''600000.SH'' Sell 1 (Dec 9 0) 1 ?b"
  have "\<not> isl ?run" by code_simp
  then have "?run = Inr (fst sold_share, snd sold_share)"
    unfolding sold_share_def prod.collapse by (rule sum.collapse(2) [symmetric])
  note correct = execute_order_correct [OF this]
  have "rejections (fst sold_share) = []" by code_simp
  moreover have "rejections ?b = []" "fills ?b = []" "shares_held (positions ?b) ''600000.SH'' = 1"
    by (simp_all add: sample_book_def shares_held_def one_share_def)
  ultimately show ?thesis using correct by simp
qed

end
