(* ===== verification/Targets.thy ===== *)
theory Targets
  imports Numeric "HOL-Library.Product_Lexorder"
begin

text \<open>
  Pending targets: \<open>research_kernel/terminal_state_schema.py\<close> (target weights, allocations,
  pending targets, framework state and the terminal boundary) and \<open>program_target\<close> of
  \<open>strategy_decision.py\<close>.

  The models are pydantic classes. Their field types are the types of the records here; the field
  constraints (\<open>ge\<close>, \<open>le\<close>, lengths, literals) and the validators of the classes are the
  functions named \<open>validate\<close>, which raise \<open>ValueError\<close> as pydantic's error does.
  An exposure is a JSON float: it is only compared and turned into \<open>Decimal(str(x))\<close>, so it is the
  decimal of its shortest text (or infinite or NaN), which orders like the float.
\<close>

section \<open>Ratios\<close>

text \<open>\<open>[1-9][0-9]{0,127}\<close> and \<open>_TARGET_RATIO.fullmatch\<close>.\<close>

definition ratio_digits :: "string \<Rightarrow> bool" where
  "ratio_digits s \<longleftrightarrow> s \<noteq> [] \<and> hd s \<noteq> CHR ''0'' \<and> length s \<le> 128 \<and> list_all is_digit s"

definition target_ratio :: "string \<Rightarrow> (int \<times> int) option" where
  "target_ratio s =
     (let n = takeWhile (\<lambda>c. c \<noteq> CHR ''/'') s; rest = dropWhile (\<lambda>c. c \<noteq> CHR ''/'') s in
      case rest of
        [] \<Rightarrow> if ratio_digits n then Some (int_of_digits n, 1) else None
      | _ # d \<Rightarrow> if ratio_digits n \<and> ratio_digits d then Some (int_of_digits n, int_of_digits d) else None)"

definition str_fraction :: "rat \<Rightarrow> string" where
  "str_fraction r =
     (case quotient_of r of (n, d) \<Rightarrow>
        canonical_integer n @ (if d = 1 then [] else ''/'' @ str_nat d))"

definition fraction_of_text :: "string \<Rightarrow> rat" where
  "fraction_of_text s = (case target_ratio s of None \<Rightarrow> 0 | Some (n, d) \<Rightarrow> of_int n / of_int d)"

definition denominator_of :: "rat \<Rightarrow> int" where
  "denominator_of r = snd (quotient_of r)"

fun common_denominator :: "int \<Rightarrow> rat list \<Rightarrow> py_error + int" where
  "common_denominator d [] = Inr d"
| "common_denominator d (r # rs) =
     (let e = lcm d (denominator_of r)
      in if 4096 < bit_length e
         then Inl (ValueError ''Target weights exceed the common denominator size limit'')
         else common_denominator e rs)"

type_synonym weights = "(string \<times> string) list"

definition validate_target_weights :: "string list \<Rightarrow> weights \<Rightarrow> py_error + unit" where
  "validate_target_weights selected weights =
     (let texts = map snd weights; ratios = map fraction_of_text texts in
      bindE (raiseIf (\<not> distinct selected \<or> set (map fst weights) \<noteq> set selected)
               (ValueError ''Pending target weights do not match the unique selection'')) (\<lambda>_.
      bindE (raiseIf (\<exists>t\<in>set texts. target_ratio t = None)
               (ValueError ''Target weights must be canonical positive ratios of at most 128 digits'')) (\<lambda>_.
      bindE (raiseIf (\<exists>t\<in>set texts. str_fraction (fraction_of_text t) \<noteq> t \<or>
                 \<not> (0 < fraction_of_text t \<and> fraction_of_text t \<le> 1))
               (ValueError ''Target weights must be canonical positive ratios'')) (\<lambda>_.
      bindE (common_denominator 1 ratios) (\<lambda>_.
      raiseIf (selected \<noteq> [] \<and> sum_list ratios \<noteq> 1) (ValueError ''Target weights must sum to one''))))))"

section \<open>Allocations and pending targets\<close>

record target_allocation =
  alloc_mode :: string
  alloc_instrument_ids :: "string list"
  alloc_relative_weights :: weights
  alloc_exposure :: pydec
  alloc_retained :: "string list"

definition unit_interval :: "pydec \<Rightarrow> bool" where
  "unit_interval v = (case v of Finite d \<Rightarrow> dle dzero d \<and> dle d (dec_of_int 1) | _ \<Rightarrow> False)"

definition validate_allocation :: "target_allocation \<Rightarrow> py_error + unit" where
  "validate_allocation a =
     bindE (raiseIf (alloc_mode a \<notin> {''rebalance'', ''reduce'', ''increase''})
              (ValueError ''literal_error: mode'')) (\<lambda>_.
     bindE (validate_target_weights (alloc_instrument_ids a) (alloc_relative_weights a)) (\<lambda>_.
     bindE (raiseIf (\<not> distinct (alloc_retained a) \<or> set (alloc_retained a) \<inter> set (alloc_instrument_ids a) \<noteq> {})
              (ValueError ''Retained holdings must be unique and separate from weighted targets'')) (\<lambda>_.
     raiseIf (\<not> unit_interval (alloc_exposure a))
       (ValueError ''Pending Exposure must be finite and between zero and one''))))"

record pending_target =
  pt_decision_session :: string
  pt_execution :: string
  pt_contract_checksum :: string
  pt_reason :: string
  pt_allocation :: "target_allocation option"
  pt_position_limits :: "(string \<times> int) list"
  pt_maximum_stock_exposure :: "pydec option"

definition validate_pending_target :: "pending_target \<Rightarrow> py_error + unit" where
  "validate_pending_target t =
     bindE (raiseIf (pt_execution t \<noteq> ''next_research_session_open'') (ValueError ''literal_error: execution'')) (\<lambda>_.
     bindE (raiseIf (pt_reason t = [] \<or> 512 < length (pt_reason t)) (ValueError ''string length: reason'')) (\<lambda>_.
     bindE (case pt_allocation t of None \<Rightarrow> Inr () | Some a \<Rightarrow> validate_allocation a) (\<lambda>_.
     bindE (raiseIf (\<exists>m\<in>set (map snd (pt_position_limits t)). m < 0)
              (ValueError ''greater_than_equal: position_limits'')) (\<lambda>_.
     bindE (raiseIf (case pt_maximum_stock_exposure t of None \<Rightarrow> False | Some x \<Rightarrow> \<not> unit_interval x)
              (ValueError ''maximum_stock_exposure'')) (\<lambda>_.
     raiseIf (pt_allocation t = None \<and> pt_position_limits t = [] \<and> pt_maximum_stock_exposure t = None)
       (ValueError ''Empty target must be NoUpdate''))))))"

definition pt_instrument_ids :: "pending_target \<Rightarrow> string list" where
  "pt_instrument_ids t = map fst (pt_position_limits t) @
     (case pt_allocation t of None \<Rightarrow> [] | Some a \<Rightarrow> alloc_instrument_ids a @ alloc_retained a)"

section \<open>Program output\<close>

text \<open>
  The output of a program is a JSON object (\<open>None\<close> is no update, and anything that is no object
  is refused): the names it has and the fields the model reads.
\<close>

record program_output =
  out_is_dict :: bool
  out_keys :: "string list"
  out_reason :: string
  out_allocation :: "target_allocation option"
  out_position_limits :: "(string \<times> int) list"
  out_maximum_stock_exposure :: "pydec option"

record program_context =
  pc_session :: string
  pc_holdings :: "(string \<times> int) list"
  pc_candidates :: "string list"

definition program_target :: "program_output option \<Rightarrow> program_context \<Rightarrow> string \<Rightarrow> py_error + pending_target option" where
  "program_target output context contract_checksum =
     (case output of None \<Rightarrow> Inr None
      | Some out \<Rightarrow>
          bindE (raiseIf (\<not> out_is_dict out
                    \<or> \<not> {''reason'', ''allocation'', ''position_limits''} \<subseteq> set (out_keys out)
                    \<or> \<not> set (out_keys out) \<subseteq> {''reason'', ''allocation'', ''position_limits'', ''maximum_stock_exposure''})
                   (ValueError ''Strategy output requires reason, allocation, position_limits'')) (\<lambda>_.
          let target = \<lparr>pt_decision_session = pc_session context,
                pt_execution = ''next_research_session_open'', pt_contract_checksum = contract_checksum,
                pt_reason = out_reason out, pt_allocation = out_allocation out,
                pt_position_limits = out_position_limits out,
                pt_maximum_stock_exposure =
                  (if ''maximum_stock_exposure'' \<in> set (out_keys out) then out_maximum_stock_exposure out else None)\<rparr>;
              holdings = pc_holdings context
          in bindE (validate_pending_target target) (\<lambda>_.
             bindE (raiseIf (\<not> set (pt_instrument_ids target) \<subseteq> set (map fst holdings @ pc_candidates context))
                      (ValueError ''Strategy target contains an unknown or unavailable instrument'')) (\<lambda>_.
             bindE (raiseIf (\<exists>(item, maximum)\<in>set (pt_position_limits target).
                        case map_of holdings item of None \<Rightarrow> True | Some shares \<Rightarrow> shares < maximum)
                      (ValueError ''Strategy local target must reduce an actual holding'')) (\<lambda>_.
             Inr (Some target))))))"

section \<open>Retained state and the terminal boundary\<close>

record target_selection =
  sel_signal_session :: string
  sel_instrument_ids :: "string list"
  sel_relative_weights :: weights
  sel_exclusions :: "(string \<times> int) list"
  sel_signal_checksum :: string
  sel_contract_checksum :: string

record builtin_state =
  bs_selection :: target_selection
  bs_exposure :: pydec

record active_signal =
  sig_instrument_id :: string
  sig_value :: dec
  sig_created_session :: string
  sig_created_session_number :: int
  sig_valid_for_sessions :: int

definition FRAMEWORK_STATE_BYTES :: int where
  "FRAMEWORK_STATE_BYTES = 3 * 1024 * 1024"

definition MAX_ACTIVE_SIGNALS :: nat where
  "MAX_ACTIVE_SIGNALS = 3000"

definition MAX_SIGNAL_VALIDITY_SESSIONS :: int where
  "MAX_SIGNAL_VALIDITY_SESSIONS = 252"

definition validate_selection :: "target_selection \<Rightarrow> py_error + unit" where
  "validate_selection s =
     bindE (raiseIf (\<exists>n\<in>set (map snd (sel_exclusions s)). n \<le> 0) (ValueError ''greater_than: eligibility_exclusions'')) (\<lambda>_.
     validate_target_weights (sel_instrument_ids s) (sel_relative_weights s))"

definition validate_builtin_state :: "builtin_state \<Rightarrow> py_error + unit" where
  "validate_builtin_state s =
     bindE (validate_selection (bs_selection s)) (\<lambda>_.
     raiseIf (\<not> unit_interval (bs_exposure s)) (ValueError ''exposure''))"

definition validate_selection_boundary :: "builtin_state \<Rightarrow> string \<Rightarrow> string \<Rightarrow> py_error + unit" where
  "validate_selection_boundary s session contract_checksum =
     bindE (raiseIf (session < sel_signal_session (bs_selection s))
              (ValueError ''Retained Selection cannot come from the future'')) (\<lambda>_.
     raiseIf (sel_contract_checksum (bs_selection s) \<noteq> contract_checksum)
       (ValueError ''Retained Selection differs from the Strategy contract''))"

text \<open>The state of the framework modules; the JSON states of the modules are opaque.\<close>

record 'j framework_state =
  fs_contract_checksum :: string
  fs_selection_interval :: "int option"
  fs_module_states :: "(string \<times> 'j) list"
  fs_universe :: "string list"
  fs_signals :: "active_signal list"
  fs_retained_proposal :: "pending_target option"
  fs_portfolio :: "builtin_state option"

definition validate_signal :: "active_signal \<Rightarrow> py_error + unit" where
  "validate_signal s =
     raiseIf (sig_created_session_number s < 1 \<or> sig_valid_for_sessions s < 1 \<or>
              MAX_SIGNAL_VALIDITY_SESSIONS < sig_valid_for_sessions s) (ValueError ''active signal'')"

text \<open>
  \<open>encoded\<close> is the size \<open>encode_program_json\<close> measures, a parameter. \<open>builtin_portfolio\<close>
  is the validated state of the portfolio module when the interval says it is the builtin one.
\<close>

definition builtin_portfolio :: "'j framework_state \<Rightarrow> builtin_state option" where
  "builtin_portfolio s = (if fs_selection_interval s = None then None else fs_portfolio s)"

definition validate_framework_state ::
    "('j \<Rightarrow> int) \<Rightarrow> ('j framework_state \<Rightarrow> int) \<Rightarrow> int \<Rightarrow> 'j framework_state \<Rightarrow> py_error + unit" where
  "validate_framework_state encoded encoded_state state_bytes s =
     bindE (raiseIf (case fs_selection_interval s of None \<Rightarrow> False | Some n \<Rightarrow> n < 1 \<or> 20 < n)
              (ValueError ''selection_interval'')) (\<lambda>_.
     bindE (raiseIf (3000 < length (fs_universe s) \<or> MAX_ACTIVE_SIGNALS < length (fs_signals s))
              (ValueError ''too_long'')) (\<lambda>_.
     bindE (foldE (\<lambda>x _. validate_signal x) (fs_signals s) ()) (\<lambda>_.
     bindE (case fs_retained_proposal s of None \<Rightarrow> Inr () | Some t \<Rightarrow> validate_pending_target t) (\<lambda>_.
     bindE (raiseIf (set (map fst (fs_module_states s)) \<noteq>
                {''universe_selection'', ''alpha'', ''portfolio_construction'', ''risk_management''})
              (ValueError ''Framework state requires all four module states'')) (\<lambda>_.
     let signal_ids = map sig_instrument_id (fs_signals s) in
     bindE (raiseIf (\<not> distinct (fs_universe s) \<or> \<not> distinct signal_ids \<or> \<not> set signal_ids \<subseteq> set (fs_universe s))
              (ValueError ''Framework Universe and signals must be unique and aligned'')) (\<lambda>_.
     bindE (raiseIf (case fs_retained_proposal s of None \<Rightarrow> False
                       | Some t \<Rightarrow> pt_contract_checksum t \<noteq> fs_contract_checksum s)
              (ValueError ''Retained proposal differs from the Framework contract'')) (\<lambda>_.
     bindE (case builtin_portfolio s of None \<Rightarrow> Inr () | Some p \<Rightarrow> validate_builtin_state p) (\<lambda>_.
     bindE (raiseIf (case builtin_portfolio s of None \<Rightarrow> False
                       | Some p \<Rightarrow> sel_contract_checksum (bs_selection p) \<noteq> fs_contract_checksum s)
              (ValueError ''Retained Selection differs from the Strategy contract'')) (\<lambda>_.
     bindE (raiseIf (\<exists>j\<in>set (map snd (fs_module_states s)). state_bytes < encoded j)
              (ValueError ''module state exceeds its size limit'')) (\<lambda>_.
     raiseIf (FRAMEWORK_STATE_BYTES < encoded_state s)
       (ValueError ''Framework state exceeds its size limit'')))))))))))"

definition signal_expired :: "int \<Rightarrow> active_signal \<Rightarrow> bool" where
  "signal_expired completed_sessions s \<longleftrightarrow>
     sig_created_session_number s + sig_valid_for_sessions s \<le> completed_sessions"

definition validate_boundary :: "string \<Rightarrow> int \<Rightarrow> 'j framework_state \<Rightarrow> py_error + unit" where
  "validate_boundary session completed_sessions s =
     bindE (case builtin_portfolio s of None \<Rightarrow> Inr ()
            | Some p \<Rightarrow> validate_selection_boundary p session (fs_contract_checksum s)) (\<lambda>_.
     bindE (raiseIf (\<exists>x\<in>set (fs_signals s). session < sig_created_session x \<or>
                completed_sessions < sig_created_session_number x \<or> signal_expired completed_sessions x)
              (ValueError ''Framework signals do not match the completed Session boundary'')) (\<lambda>_.
     raiseIf (case fs_retained_proposal s of None \<Rightarrow> False | Some t \<Rightarrow> session < pt_decision_session t)
       (ValueError ''Retained proposal cannot come from the future'')))"

datatype 'j decision_state =
    FrameworkDecision builtin_state int
  | ModulesDecision "'j framework_state"
  | DirectDecision string 'j

record 'j terminal_state =
  ts_session :: string
  ts_contract_checksum :: string
  ts_report_session_count :: int
  ts_decision :: "'j decision_state"
  ts_pending_target :: "pending_target option"
  ts_last_daily_session :: string
  ts_metric_last_session :: string
  ts_metric_session_count :: int

definition validate_terminal_state :: "'j terminal_state \<Rightarrow> py_error + unit" where
  "validate_terminal_state s =
     bindE (case ts_decision s of
              FrameworkDecision b _ \<Rightarrow> validate_selection_boundary b (ts_session s) (ts_contract_checksum s)
            | ModulesDecision f \<Rightarrow>
                bindE (raiseIf (fs_contract_checksum f \<noteq> ts_contract_checksum s)
                         (ValueError ''Framework modules differ from the Strategy contract'')) (\<lambda>_.
                validate_boundary (ts_session s) (ts_report_session_count s) f)
            | DirectDecision _ _ \<Rightarrow> Inr ()) (\<lambda>_.
     bindE (raiseIf (case ts_pending_target s of None \<Rightarrow> False
                       | Some t \<Rightarrow> pt_contract_checksum t \<noteq> ts_contract_checksum s)
              (ValueError ''Pending target differs from the Strategy contract'')) (\<lambda>_.
     raiseIf (ts_last_daily_session s \<noteq> ts_session s \<or> ts_metric_last_session s \<noteq> ts_session s \<or>
              ts_report_session_count s \<noteq> ts_metric_session_count s \<or>
              (case ts_pending_target s of None \<Rightarrow> False | Some t \<Rightarrow> pt_decision_session t \<noteq> ts_session s))
       (ValueError ''Terminal continuation sessions do not match'')))"

end
