(* ===== verification/Rebalance.thy ===== *)
theory Rebalance
  imports Solvency Targets
begin

text \<open>
  \<open>_execute_strategy\<close> of \<open>research_kernel/strategy.py\<close>: one session of the shared account (open
  marks, target values of the pending target, sales, purchases, the daily row, the decision of the
  program) and the run over the report sessions, from the start or from a continuation.

  The program that decides at each Close (\<open>prepare_daily_strategy(...).decide\<close>) is the argument
  \<open>decide\<close>; its state and framework evidence are opaque. The contract checksum is an opaque
  string. The optional observers and the ledger copy of the rows are left out: they read the same
  values and change nothing.

  Where the code writes an arithmetic expression outside \<open>accounting_context()\<close>, the model uses
  the operations of the default context.
\<close>

section \<open>State\<close>

datatype diagnostic =
    InsufficientCandidates string
  | BelowBoardLot string string side int
  | InsufficientCash string string int
  | Ineligible string string
  | ProgramDiagnostic string string

record constraint_row =
  con_ident :: ident
  con_target_id :: ident
  con_decision_session :: string
  con_session :: string
  con_instrument :: string
  con_side :: side
  con_mode :: string
  con_decision_reason :: string
  con_reason :: string
  con_intended_value :: dec
  con_unrounded :: int
  con_legal :: int
  con_submitted :: int
  con_available_cash :: dec
  con_order :: "ident option"

record intended_order =
  int_instrument :: string
  int_side :: side
  int_value :: dec
  int_unrounded :: "int option"
  int_legal :: "int option"

record rebalance_event =
  reb_session :: string
  reb_signal_session :: string
  reb_side_order :: "side list"
  reb_fill_count :: int
  reb_turnover :: rat
  reb_target_weights :: "(string \<times> rat) list"
  reb_actual_weights :: "(string \<times> rat) list"

record daily_row =
  day_session :: string
  day_rebalance :: bool
  day_pre_gross_nav :: dec
  day_pre_net_nav :: dec
  day_gross_nav :: dec
  day_net_nav :: dec
  day_close_risk_nav :: dec
  day_gross_return :: rat
  day_net_return :: rat
  day_gross_cash :: dec
  day_net_cash :: dec
  day_cumulative_cost :: dec
  day_holdings :: int
  day_max_weight :: rat
  day_cash_ratio :: rat
  day_residual :: dec
  day_valuation_events :: "valuation_event list"

record account_view =
  view_cash :: dec
  view_post_open_net_nav :: dec
  view_close_risk_nav :: dec
  view_positions :: positions

record ('s, 'f) daily_decision =
  dec_state :: 's
  dec_target :: "pending_target option"
  dec_diagnostics :: "diagnostic list"
  dec_framework :: "'f option"

record ('s, 'f) strategy_state =
  st_book :: book
  st_cumulative_cost :: dec
  st_daily :: "daily_row list"
  st_diagnostics :: "diagnostic list"
  st_constraints :: "constraint_row list"
  st_rebalances :: "rebalance_event list"
  st_turnovers :: "(string \<times> rat) list"
  st_decision :: "'s option"
  st_pending :: "pending_target option"
  st_target_events :: "(ident \<times> pending_target) list"
  st_framework_events :: "(ident \<times> string \<times> ident option \<times> 'f) list"

text \<open>What stays fixed over a run.\<close>

record engine =
  en_market :: market
  en_calendar :: "string list"
  en_origin_index :: int
  en_costs :: costs
  en_checksum :: string

section \<open>Small pieces\<close>

fun index_of :: "string list \<Rightarrow> string \<Rightarrow> py_error + int" where
  "index_of [] x = Inl (ValueError ''is not in list'')"
| "index_of (y # ys) x = (if x = y then Inr 0 else bindE (index_of ys x) (\<lambda>i. Inr (i + 1)))"

definition py_nth :: "'a list \<Rightarrow> int \<Rightarrow> 'a" where
  "py_nth xs i = (if i < 0 then xs ! nat (int (length xs) + i) else xs ! nat i)"

definition decimal_of_float :: "pydec \<Rightarrow> dec" where
  "decimal_of_float v = (case v of Finite d \<Rightarrow> d | _ \<Rightarrow> dzero)"

definition value_at :: "position \<Rightarrow> marks \<Rightarrow> string \<Rightarrow> py_error + dec" where
  "value_at p marks item =
     bindE (lookupE marks item (KeyError item)) (\<lambda>mark. bindE (def_mul (adjusted_units p) mark) money)"

definition default_sum :: "dec list \<Rightarrow> py_error + dec" where
  "default_sum xs = dsum DEFAULT_CONTEXT dzero xs"

definition position_payload :: "positions \<Rightarrow> py_error + positions" where
  "position_payload ps =
     mapE (\<lambda>(i, p). case last_close_adjusted_price p of
              None \<Rightarrow> Inl (NumericContractError ''decimal value must be finite'')
            | Some c \<Rightarrow> Inr (i, p\<lparr>adjusted_units := canon (adjusted_units p),
                last_adjusted_price := canon (last_adjusted_price p),
                last_close_adjusted_price := Some (canon c),
                remaining_acquisition_cost_cny := canon (remaining_acquisition_cost_cny p)\<rparr>))
          (sort_key fst ps)"

definition execution_constraint :: "event_context \<Rightarrow> string \<Rightarrow> string \<Rightarrow> side \<Rightarrow> string \<Rightarrow> string
    \<Rightarrow> dec \<Rightarrow> int \<Rightarrow> int \<Rightarrow> int \<Rightarrow> dec \<Rightarrow> constraint_row" where
  "execution_constraint context session item side mode reason intended unrounded legal submitted cash =
     (let side_text = (if side = Buy then ''buy'' else ''sell'') in
      \<lparr>con_ident = strategy_event_id ''constraint''
         [ctx_target_id context, IdStr session, IdStr item, IdStr side_text, IdStr reason],
       con_target_id = ctx_target_id context, con_decision_session = ctx_decision_session context,
       con_session = session, con_instrument = item, con_side = side, con_mode = mode,
       con_decision_reason = ctx_reason context, con_reason = reason,
       con_intended_value = canon intended, con_unrounded = unrounded, con_legal = legal,
       con_submitted = submitted, con_available_cash = canon cash,
       con_order = (if submitted \<noteq> 0 then Some (strategy_event_id ''order''
         [ctx_target_id context, IdStr session, IdStr item, IdStr side_text]) else None)\<rparr>)"

section \<open>Target values\<close>

text \<open>The frozen target of one session, valued at its open.\<close>

record target_plan =
  tp_context :: event_context
  tp_mode :: string
  tp_candidates :: "string list"
  tp_limits :: "(string \<times> int) list"
  tp_exposure_cap :: "dec option"
  tp_capital :: dec
  tp_values :: marks
  tp_monetary :: marks
  tp_deficits :: marks

definition check_pending :: "engine \<Rightarrow> positions \<Rightarrow> pending_target \<Rightarrow> py_error + unit" where
  "check_pending en ps t =
     bindE (validate_pending_target t) (\<lambda>_.
     bindE (raiseIf (\<exists>i\<in>set (pt_instrument_ids t). instruments (en_market en) i = None)
              (StrategyCalculationError ''Pending decision contains unknown instruments'' [])) (\<lambda>_.
     raiseIf (\<exists>(item, maximum)\<in>set (pt_position_limits t).
                case map_of ps item of None \<Rightarrow> True | Some p \<Rightarrow> execution_shares p < maximum)
       (StrategyCalculationError ''Local target must reduce an actual holding'' [])))"

definition target_capital :: "pending_target \<Rightarrow> dec \<Rightarrow> py_error + dec" where
  "target_capital t pre_net_nav =
     (case pt_allocation t of
        None \<Rightarrow> Inr dzero
      | Some a \<Rightarrow>
          bindE (bindE (def_mul pre_net_nav (decimal_of_float (alloc_exposure a))) money) (\<lambda>capital.
          case pt_maximum_stock_exposure t of
            None \<Rightarrow> Inr capital
          | Some cap \<Rightarrow>
              bindE (bindE (def_mul pre_net_nav (decimal_of_float cap)) money) (\<lambda>bound.
              Inr (dmin capital bound))))"

definition retained_values :: "string list \<Rightarrow> positions \<Rightarrow> marks \<Rightarrow> py_error + marks" where
  "retained_values retained ps marks =
     foldE (\<lambda>item d. case map_of ps item of None \<Rightarrow> Inr d
       | Some p \<Rightarrow> bindE (value_at p marks item) (\<lambda>v. Inr (AList.update item v d))) retained []"

definition candidate_values :: "target_allocation option \<Rightarrow> dec \<Rightarrow> py_error + marks" where
  "candidate_values allocation available =
     (case allocation of None \<Rightarrow> Inr []
      | Some a \<Rightarrow> foldE (\<lambda>item d.
          bindE (lookupE (alloc_relative_weights a) item (KeyError item)) (\<lambda>weight.
          case quotient_of (fraction_of_text weight) of (n, q) \<Rightarrow>
          bindE (def_mul available (dec_of_int n)) (\<lambda>x.
          bindE (def_div x (dec_of_int q)) (\<lambda>y.
          bindE (money y) (\<lambda>v. Inr (AList.update item v d)))))) (alloc_instrument_ids a) [])"

definition reduced_values :: "positions \<Rightarrow> marks \<Rightarrow> marks \<Rightarrow> dec \<Rightarrow> dec \<Rightarrow> py_error + marks" where
  "reduced_values ps marks retained available actual =
     bindE (if deq actual dzero then Inr dzero
            else bindE (def_div available actual) (\<lambda>r. Inr (dmin (dec_of_int 1) r))) (\<lambda>ratio.
     foldE (\<lambda>(item, p) d.
         if item \<in> set (map fst retained) then Inr d
         else
           bindE (lookupE marks item (KeyError item)) (\<lambda>mark.
           bindE (def_mul (adjusted_units p) mark) (\<lambda>x.
           bindE (def_mul x ratio) (\<lambda>y.
           bindE (money y) (\<lambda>v. Inr (AList.update item v d)))))) ps [])"

definition keep_actual :: "positions \<Rightarrow> marks \<Rightarrow> marks \<Rightarrow> py_error + marks" where
  "keep_actual ps marks values =
     foldE (\<lambda>(item, p) d.
         bindE (value_at p marks item) (\<lambda>actual.
         Inr (AList.update item
                (dmax (case map_of d item of None \<Rightarrow> actual | Some v \<Rightarrow> v) actual) d))) ps values"

definition cap_positions :: "(string \<times> int) list \<Rightarrow> positions \<Rightarrow> marks \<Rightarrow> marks \<Rightarrow> py_error + marks" where
  "cap_positions limits ps marks values =
     foldE (\<lambda>(item, maximum) d. case map_of ps item of
         None \<Rightarrow> Inr d
       | Some p \<Rightarrow>
           bindE (lookupE marks item (KeyError item)) (\<lambda>mark.
           bindE (def_mul (adjusted_units p) mark) (\<lambda>x.
           bindE (def_mul x (dec_of_int maximum)) (\<lambda>y.
           bindE (def_div y (dec_of_int (execution_shares p))) (\<lambda>z.
           bindE (money z) (\<lambda>capped.
           Inr (AList.update item
                  (dmin (case map_of d item of None \<Rightarrow> dzero | Some v \<Rightarrow> v) capped) d))))))) limits values"

definition cap_exposure :: "dec option \<Rightarrow> dec \<Rightarrow> marks \<times> marks \<Rightarrow> py_error + marks \<times> marks" where
  "cap_exposure cap pre_net_nav vs =
     (case cap of None \<Rightarrow> Inr vs
      | Some c \<Rightarrow>
          bindE (bindE (def_mul pre_net_nav c) money) (\<lambda>stock_capital.
          bindE (default_sum (map snd (fst vs))) (\<lambda>proposed.
          if dlt stock_capital proposed then
            bindE (acc_div stock_capital proposed) (\<lambda>ratio.
            bindE (mapE (\<lambda>(item, v). bindE (bindE (acc_mul v ratio) money) (\<lambda>m. Inr (item, m))) (fst vs)) (\<lambda>scaled.
            Inr (scaled, scaled)))
          else Inr vs)))"

definition buy_deficit :: "positions \<Rightarrow> marks \<Rightarrow> marks \<Rightarrow> string \<Rightarrow> py_error + string \<times> dec" where
  "buy_deficit ps marks values item =
     bindE (lookupE values item (KeyError item)) (\<lambda>target.
     bindE (case map_of ps item of None \<Rightarrow> Inr dzero | Some p \<Rightarrow> value_at p marks item) (\<lambda>held.
     bindE (def_sub target held) (\<lambda>d. Inr (item, d))))"

definition plan_target :: "engine \<Rightarrow> string \<Rightarrow> pending_target \<Rightarrow> positions \<Rightarrow> marks \<Rightarrow> dec \<Rightarrow> py_error + target_plan" where
  "plan_target en signal_session t ps marks pre_net_nav =
     (let allocation = pt_allocation t;
          mode = (case allocation of None \<Rightarrow> ''local'' | Some a \<Rightarrow> alloc_mode a);
          candidates = (case allocation of None \<Rightarrow> [] | Some a \<Rightarrow> alloc_instrument_ids a);
          retained = (case allocation of None \<Rightarrow> [] | Some a \<Rightarrow> alloc_retained a);
          cap = map_option decimal_of_float (pt_maximum_stock_exposure t) in
      bindE (target_capital t pre_net_nav) (\<lambda>capital.
      bindE (retained_values retained ps marks) (\<lambda>kept.
      bindE (default_sum (map snd kept)) (\<lambda>kept_sum.
      bindE (def_sub capital kept_sum) (\<lambda>rest.
      let available = dmax dzero rest in
      bindE (candidate_values allocation available) (\<lambda>weighted.
      bindE (sum_position_values ps marks) (\<lambda>stock.
      bindE (default_sum (map snd kept)) (\<lambda>kept_again.
      bindE (def_sub stock kept_again) (\<lambda>actual.
      bindE (if mode = ''reduce'' then reduced_values ps marks kept available actual else Inr weighted) (\<lambda>values0.
      let values1 = foldl (\<lambda>d (k, v). AList.update k v d) values0 kept in
      bindE (if mode = ''local'' \<or> mode = ''increase'' then keep_actual ps marks values1 else Inr values1) (\<lambda>values2.
      bindE (cap_positions (pt_position_limits t) ps marks values2) (\<lambda>values3.
      bindE (cap_exposure cap pre_net_nav (values3, values2)) (\<lambda>(values, monetary).
      bindE (mapE (buy_deficit ps marks values) (if mode = ''reduce'' then [] else candidates)) (\<lambda>deficits.
      Inr \<lparr>tp_context = \<lparr>ctx_target_id = strategy_event_id ''target'' [IdStr (en_checksum en), IdStr signal_session],
             ctx_decision_session = signal_session, ctx_reason = pt_reason t\<rparr>,
           tp_mode = mode, tp_candidates = candidates, tp_limits = pt_position_limits t,
           tp_exposure_cap = cap, tp_capital = capital, tp_values = values, tp_monetary = monetary,
           tp_deficits = deficits\<rparr>))))))))))))))"

section \<open>Sales and purchases\<close>

text \<open>What the two trading loops of a session update.\<close>

record frame =
  fr_book :: book
  fr_cost :: dec
  fr_constraints :: "constraint_row list"
  fr_diagnostics :: "diagnostic list"
  fr_intended :: "intended_order list"
  fr_sides :: "side list"
  fr_budget :: dec

definition unrounded_sale :: "engine \<Rightarrow> target_plan \<Rightarrow> string \<Rightarrow> position \<Rightarrow> dec \<Rightarrow> dec \<Rightarrow> py_error + int" where
  "unrounded_sale en tp item p current desired =
     bindE (if deq desired dzero then Inr (execution_shares p)
            else
              bindE (def_sub current (case map_of (tp_monetary tp) item of None \<Rightarrow> dzero | Some v \<Rightarrow> v)) (\<lambda>gap.
              bindE (execution_price_factor Sell (en_costs en)) (\<lambda>factor.
              bindE (acc_mul current factor) (\<lambda>settlement.
              bindE (acc_mul (dec_of_int (execution_shares p)) (dmax dzero gap)) (\<lambda>x.
              bindE (acc_div x settlement) (\<lambda>y.
              Inr (min (execution_shares p) (dec_to_int y)))))))) (\<lambda>unrounded.
     Inr (case map_of (tp_limits tp) item of None \<Rightarrow> unrounded
          | Some limit \<Rightarrow> max unrounded (execution_shares p - limit)))"

text \<open>What a sale whose quantities are known does: too small to submit, or one order.\<close>

definition submit_sale :: "engine \<Rightarrow> string \<Rightarrow> target_plan \<Rightarrow> string \<Rightarrow> dec \<Rightarrow> int \<Rightarrow> int \<Rightarrow> frame \<Rightarrow> py_error + frame" where
  "submit_sale en session tp item intended unrounded quantity f =
     (let f1 = f\<lparr>fr_intended := fr_intended f @ [\<lparr>int_instrument = item, int_side = Sell,
            int_value = canon intended, int_unrounded = Some unrounded, int_legal = Some quantity\<rparr>]\<rparr> in
      if quantity \<le> 0 then
        Inr (f1\<lparr>fr_constraints := fr_constraints f1 @ [execution_constraint (tp_context tp) session item Sell
                  (tp_mode tp) ''below_board_lot'' intended unrounded 0 0 (net_cash (fr_book f1))],
                fr_diagnostics := fr_diagnostics f1 @ [BelowBoardLot session item Sell unrounded]\<rparr>)
      else
        bindE (execute_order (en_market en) (en_costs en) (tp_context tp) session item Sell quantity
                 intended unrounded (fr_book f1)) (\<lambda>(b, cost).
        bindE (bindE (def_add (fr_cost f1) cost) money) (\<lambda>cumulative.
        Inr (f1\<lparr>fr_book := b, fr_cost := cumulative, fr_sides := fr_sides f1 @ [Sell]\<rparr>))))"

definition sell_step :: "engine \<Rightarrow> string \<Rightarrow> target_plan \<Rightarrow> marks \<Rightarrow> string \<Rightarrow> frame \<Rightarrow> py_error + frame" where
  "sell_step en session tp marks item f =
     (if tp_mode tp = ''increase'' \<and> map_of (tp_limits tp) item = None \<and> tp_exposure_cap tp = None then Inr f
      else
        bindE (lookupE (positions (fr_book f)) item (KeyError item)) (\<lambda>p.
        bindE (value_at p marks item) (\<lambda>current.
        let desired = (case map_of (tp_values tp) item of None \<Rightarrow> dzero | Some v \<Rightarrow> v) in
        if dle current desired then Inr f
        else
          bindE (unrounded_sale en tp item p current desired) (\<lambda>unrounded.
          bindE (profileE (en_market en) item) (\<lambda>profile.
          bindE (legal_order_quantity (profile_board profile) Sell unrounded (unrounded = execution_shares p)) (\<lambda>quantity.
          bindE (def_sub current desired) (\<lambda>intended.
          submit_sale en session tp item intended unrounded quantity f)))))))"

text \<open>
  The quantities of one purchase: the unrounded, the legal and the affordable one.
\<close>

definition buy_quantities :: "engine \<Rightarrow> string \<Rightarrow> execution_price \<Rightarrow> dec \<Rightarrow> dec \<Rightarrow> py_error + int \<times> int \<times> int" where
  "buy_quantities en item quote deficit cash =
     (let raw = price_raw_open quote in
      bindE (execution_price_factor Buy (en_costs en)) (\<lambda>factor.
      bindE (acc_mul raw factor) (\<lambda>price.
      bindE (if dlt dzero deficit then bindE (acc_div deficit price) (\<lambda>q. Inr (dec_to_int q)) else Inr 0) (\<lambda>unrounded.
      bindE (profileE (en_market en) item) (\<lambda>profile.
      bindE (if dlt dzero raw then legal_order_quantity (profile_board profile) Buy unrounded False else Inr 0) (\<lambda>legal.
      bindE (affordable_quantity (profile_board profile) legal raw cash (en_costs en)) (\<lambda>quantity.
      Inr (unrounded, legal, quantity))))))))"

definition unpriced_buy :: "engine \<Rightarrow> string \<Rightarrow> target_plan \<Rightarrow> string \<Rightarrow> dec \<Rightarrow> frame \<Rightarrow> py_error + frame" where
  "unpriced_buy en session tp item deficit f =
     (if dle deficit dzero then Inr f
      else
        let f1 = f\<lparr>fr_intended := fr_intended f @ [\<lparr>int_instrument = item, int_side = Buy,
               int_value = canon deficit, int_unrounded = None, int_legal = None\<rparr>]\<rparr>;
            state = trading_states (en_market en) (session, item) in
        bindE (profileE (en_market en) item) (\<lambda>profile.
        if suspended_or_unavailable state then
          let reason = (if state = Some ''full_session_suspension'' then ''suspension'' else ''data_unavailable'');
              order_id = strategy_event_id ''order''
                [ctx_target_id (tp_context tp), IdStr session, IdStr item, IdStr ''buy''];
              b = fr_book f1
          in Inr (f1\<lparr>fr_book := b\<lparr>orders := orders b @ [\<lparr>order_context = tp_context tp,
                   order_rejection = Some reason, order_ident = order_id, order_session = session,
                   order_instrument = item, order_side = Buy, order_intended_value = canon deficit,
                   order_unrounded = None, order_legal = None\<rparr>],
                 rejections := rejections b @ [\<lparr>rej_order = order_id, rej_session = session,
                   rej_instrument = item, rej_side = Buy, rej_quantity = None,
                   rej_intended_value = canon deficit, rej_reason = reason\<rparr>]\<rparr>,
               fr_sides := fr_sides f1 @ [Buy]\<rparr>)
        else if listing_ended profile session then
          Inr (f1\<lparr>fr_diagnostics := fr_diagnostics f1 @ [Ineligible session item]\<rparr>)
        else Inl (StrategyCalculationError ''unexplained executable Open'' [item, session])))"

text \<open>A purchase whose quantities are known.\<close>

definition submit_buy :: "engine \<Rightarrow> string \<Rightarrow> target_plan \<Rightarrow> string \<Rightarrow> dec \<Rightarrow> int \<Rightarrow> int \<Rightarrow> int \<Rightarrow> frame
    \<Rightarrow> py_error + frame" where
  "submit_buy en session tp item deficit unrounded legal quantity f =
     (let f1 = (if dlt dzero deficit then
                  f\<lparr>fr_intended := fr_intended f @ [\<lparr>int_instrument = item, int_side = Buy,
                     int_value = canon deficit, int_unrounded = Some unrounded, int_legal = Some legal\<rparr>]\<rparr>
                else f);
          f2 = (if dlt dzero deficit \<and> (legal = 0 \<or> quantity < legal) then
                  f1\<lparr>fr_constraints := fr_constraints f1 @ [execution_constraint (tp_context tp) session item Buy
                       (tp_mode tp) (if legal = 0 then ''below_board_lot'' else ''insufficient_cash'')
                       deficit unrounded legal quantity (net_cash (fr_book f1))]\<rparr>
                else f1)
      in if quantity \<le> 0 then
           Inr (if legal \<le> 0 \<and> 0 < unrounded then
                  f2\<lparr>fr_diagnostics := fr_diagnostics f2 @ [BelowBoardLot session item Buy unrounded]\<rparr>
                else if 0 < legal then
                  f2\<lparr>fr_diagnostics := fr_diagnostics f2 @ [InsufficientCash session item legal]\<rparr>
                else f2)
         else
           bindE (execute_order (en_market en) (en_costs en) (tp_context tp) session item Buy quantity
                    deficit unrounded (fr_book f2)) (\<lambda>(b, cost).
           bindE (bindE (def_add (fr_cost f2) cost) money) (\<lambda>cumulative.
           let f3 = f2\<lparr>fr_book := b, fr_cost := cumulative, fr_sides := fr_sides f2 @ [Buy]\<rparr> in
           if tp_mode tp = ''increase'' then
             bindE (def_sub (net_cash (fr_book f2)) (net_cash b)) (\<lambda>x.
             bindE (def_sub x cost) (\<lambda>y.
             bindE (def_sub (fr_budget f3) y) (\<lambda>z.
             Inr (f3\<lparr>fr_budget := dmax dzero z\<rparr>))))
           else Inr f3)))"

definition buy_step :: "engine \<Rightarrow> string \<Rightarrow> target_plan \<Rightarrow> string \<Rightarrow> frame \<Rightarrow> py_error + frame" where
  "buy_step en session tp item f =
     bindE (lookupE (tp_deficits tp) item (KeyError item)) (\<lambda>wanted.
     let deficit = (if tp_mode tp = ''increase'' then dmin wanted (fr_budget f) else wanted) in
     case execution_prices (en_market en) (session, item) of
       None \<Rightarrow> unpriced_buy en session tp item deficit f
     | Some quote \<Rightarrow>
         bindE (buy_quantities en item quote deficit (net_cash (fr_book f))) (\<lambda>(unrounded, legal, quantity).
         submit_buy en session tp item deficit unrounded legal quantity f))"

text \<open>
  The trading part of a session: sales over the sorted holdings, new marks, the budget of an
  increase, then purchases in the order of the candidates.
\<close>

definition rebalance :: "engine \<Rightarrow> string \<Rightarrow> target_plan \<Rightarrow> marks \<Rightarrow> frame
    \<Rightarrow> py_error + frame \<times> valuation_event list" where
  "rebalance en session tp marks f =
     bindE (foldE (sell_step en session tp marks) (sort (map fst (positions (fr_book f)))) f) (\<lambda>sold.
     bindE (mark_positions session (en_market en) (positions (fr_book sold))) (\<lambda>(ps, marks2, events).
     bindE (sum_position_values ps marks2) (\<lambda>stock.
     bindE (def_sub (tp_capital tp) stock) (\<lambda>room.
     let ready = sold\<lparr>fr_book := (fr_book sold)\<lparr>positions := ps\<rparr>, fr_budget := dmax dzero room\<rparr> in
     bindE (foldE (buy_step en session tp) (map fst (tp_deficits tp)) ready) (\<lambda>bought.
     Inr (bought, events))))))"

section \<open>One session\<close>

definition event_weights :: "target_plan \<Rightarrow> dec \<Rightarrow> py_error + (string \<times> rat) list" where
  "event_weights tp pre_net_nav =
     mapE (\<lambda>(item, v).
        if deq pre_net_nav dzero then Inr (item, 0)
        else bindE (def_div v pre_net_nav) (\<lambda>r. bindE (float_of (dval r)) (\<lambda>w. Inr (item, w)))) (tp_values tp)"

definition execute_target :: "engine \<Rightarrow> string \<Rightarrow> int \<Rightarrow> int \<Rightarrow> pending_target \<Rightarrow> marks \<Rightarrow> dec \<Rightarrow> (string \<times> rat) list
    \<Rightarrow> ('s, 'f) strategy_state \<Rightarrow> py_error + ('s, 'f) strategy_state \<times> marks \<times> valuation_event list" where
  "execute_target en session global_index report_index t marks pre_net_nav pre_weights s =
     bindE (raiseIf (report_index \<le> 0)
              (StrategyCalculationError ''Initial baseline cannot execute a prior target'' [])) (\<lambda>_.
     let signal_session = py_nth (en_calendar en) (global_index - 1) in
     bindE (raiseIf (pt_decision_session t \<noteq> signal_session)
              (StrategyCalculationError ''Open target is not from the preceding Close'' [])) (\<lambda>_.
     bindE (plan_target en signal_session t (positions (st_book s)) marks pre_net_nav) (\<lambda>tp.
     let empty = (case pt_allocation t of None \<Rightarrow> False
                    | Some a \<Rightarrow> alloc_instrument_ids a = [] \<and> alloc_retained a = []);
         start = \<lparr>fr_book = st_book s, fr_cost = st_cumulative_cost s, fr_constraints = st_constraints s,
                  fr_diagnostics = st_diagnostics s @ (if empty then [InsufficientCandidates session] else []),
                  fr_intended = [], fr_sides = [], fr_budget = dzero\<rparr> in
     bindE (rebalance en session tp marks start) (\<lambda>(f, events1).
     bindE (mark_positions session (en_market en) (positions (fr_book f))) (\<lambda>(ps, post_marks, events2).
     let b = (fr_book f)\<lparr>positions := ps\<rparr> in
     bindE (sum_position_values ps post_marks) (\<lambda>stock.
     bindE (bindE (def_add (net_cash b) stock) money) (\<lambda>post_net_nav.
     bindE (account_weights (net_cash b) post_net_nav ps post_marks) (\<lambda>post_weights.
     bindE (weight_turnover pre_weights post_weights) (\<lambda>turnover.
     bindE (event_weights tp pre_net_nav) (\<lambda>target_weights.
     Inr (s\<lparr>st_book := b, st_cumulative_cost := fr_cost f, st_constraints := fr_constraints f,
            st_diagnostics := fr_diagnostics f,
            st_turnovers := st_turnovers s @ [(session, turnover)],
            st_rebalances := st_rebalances s @ [\<lparr>reb_session = session, reb_signal_session = signal_session,
              reb_side_order = fr_sides f,
              reb_fill_count = int (length (fills b)) - int (length (fills (st_book s))),
              reb_turnover = turnover, reb_target_weights = target_weights,
              reb_actual_weights = filter (\<lambda>(k, _). k \<noteq> ''cash'') post_weights\<rparr>]\<rparr>,
          post_marks, events1 @ events2)))))))))))"

text \<open>The end of a session: its daily row, then the decision at its Close.\<close>

definition ratio_return :: "dec \<Rightarrow> dec \<Rightarrow> py_error + rat" where
  "ratio_return nav previous =
     (if deq previous dzero then Inr 0
      else bindE (def_div nav previous) (\<lambda>r. bindE (def_sub r (dec_of_int 1)) (\<lambda>x. float_of (dval x))))"

definition close_session :: "engine \<Rightarrow> string \<Rightarrow> bool \<Rightarrow> dec \<Rightarrow> dec \<Rightarrow> marks \<Rightarrow> valuation_event list
    \<Rightarrow> ('s, 'f) strategy_state \<Rightarrow> py_error + ('s, 'f) strategy_state" where
  "close_session en session rebalanced pre_gross_nav pre_net_nav marks events s =
     (let b = st_book s in
      bindE (sum_position_values (positions b) marks) (\<lambda>stock.
      bindE (bindE (def_add (gross_cash b) stock) money) (\<lambda>gross_nav.
      bindE (bindE (def_add (net_cash b) stock) money) (\<lambda>net_nav.
      bindE (raiseIf (dlt (net_cash b) dzero) (StrategyCalculationError ''Net Cash became negative'' [])) (\<lambda>_.
      let aged = map (\<lambda>(i, p). (i, p\<lparr>holding_age := holding_age p + 1\<rparr>)) (positions b) in
      bindE (mapE (\<lambda>(i, p). bindE (value_at p marks i) (\<lambda>v. Inr (i, v))) aged) (\<lambda>values.
      bindE (if values \<noteq> [] \<and> \<not> deq net_nav dzero
             then bindE (mapE (\<lambda>(i, v). bindE (def_div v net_nav) (\<lambda>r. float_of (dval r))) values) (\<lambda>ws.
                  Inr (Max (set ws)))
             else Inr 0) (\<lambda>max_weight.
      bindE (if deq net_nav dzero then Inr 0
             else bindE (def_div (net_cash b) net_nav) (\<lambda>r. float_of (dval r))) (\<lambda>cash_ratio.
      bindE (def_sub gross_nav net_nav) (\<lambda>x.
      bindE (bindE (def_sub x (st_cumulative_cost s)) money) (\<lambda>residual.
      bindE (mark_close_positions session (en_market en) aged) (\<lambda>(ps, close_marks).
      bindE (sum_position_values ps close_marks) (\<lambda>close_stock.
      bindE (bindE (def_add (net_cash b) close_stock) money) (\<lambda>close_risk_nav.
      bindE (ratio_return gross_nav (if st_daily s = [] then gross_nav else day_gross_nav (last (st_daily s)))) (\<lambda>gross_return.
      bindE (ratio_return net_nav (if st_daily s = [] then net_nav else day_net_nav (last (st_daily s)))) (\<lambda>net_return.
      Inr (s\<lparr>st_book := b\<lparr>positions := ps\<rparr>,
             st_daily := st_daily s @ [\<lparr>day_session = session, day_rebalance = rebalanced,
               day_pre_gross_nav = canon pre_gross_nav, day_pre_net_nav = canon pre_net_nav,
               day_gross_nav = canon gross_nav, day_net_nav = canon net_nav,
               day_close_risk_nav = canon close_risk_nav, day_gross_return = gross_return,
               day_net_return = net_return, day_gross_cash = canon (gross_cash b),
               day_net_cash = canon (net_cash b), day_cumulative_cost = canon (st_cumulative_cost s),
               day_holdings = int (length (positions b)), day_max_weight = max_weight,
               day_cash_ratio = cash_ratio, day_residual = canon residual,
               day_valuation_events = unique_events events\<rparr>]\<rparr>))))))))))))))))"

end
