(* ===== verification/Trading.thy ===== *)
theory Trading
  imports Rebalance
begin

text \<open>
  What the trading part of a session does to the account: every sale and purchase is an order row,
  fills belong to orders that were not rejected, shares move by exactly the fills, and the
  positions stay a proper dictionary of positive holdings.
\<close>

section \<open>Relations between books\<close>

definition positions_ok :: "positions \<Rightarrow> bool" where
  "positions_ok ps \<longleftrightarrow> distinct (map fst ps) \<and> (\<forall>(i, p)\<in>set ps. 0 < execution_shares p)"

abbreviation account_ok :: "book \<Rightarrow> bool" where
  "account_ok b \<equiv> positions_ok (positions b)"

lemma positions_ok_update:
  "positions_ok ps \<Longrightarrow> 0 < execution_shares p \<Longrightarrow> positions_ok (AList.update i p ps)"
  unfolding positions_ok_def by (rule conjI, rule distinct_update, simp, induction ps) auto

lemma positions_ok_delete: "positions_ok ps \<Longrightarrow> positions_ok (AList.delete i ps)"
  unfolding positions_ok_def by (rule conjI, rule distinct_delete, simp) (auto simp: AList.delete_eq)

lemma positions_ok_held: "positions_ok ps \<Longrightarrow> map_of ps i = Some p \<Longrightarrow> 0 < execution_shares p"
  by (auto simp: positions_ok_def dest!: map_of_SomeD)

definition fill_delta :: "string \<Rightarrow> fill_row list \<Rightarrow> int" where
  "fill_delta i fs = sum_list (map fill_execution_shares_delta (filter (\<lambda>f. fill_instrument f = i) fs))"

lemma fill_delta_append [simp]: "fill_delta i (fs @ gs) = fill_delta i fs + fill_delta i gs"
  by (simp add: fill_delta_def)

lemma fill_delta_Nil [simp]: "fill_delta i [] = 0"
  by (simp add: fill_delta_def)

text \<open>A fill belongs to an order of the same session that the market did not reject.\<close>

definition fill_of :: "market \<Rightarrow> string \<Rightarrow> order_row list \<Rightarrow> fill_row \<Rightarrow> bool" where
  "fill_of mkt session os f \<longleftrightarrow> fill_session f = session \<and>
     execution_prices mkt (session, fill_instrument f) \<noteq> None \<and>
     (\<exists>r\<in>set os. fill_draft.fill_order f = order_ident r \<and> order_rejection r = None)"

definition trades :: "market \<Rightarrow> string \<Rightarrow> order_row list \<Rightarrow> fill_row list \<Rightarrow> book \<Rightarrow> book \<Rightarrow> bool" where
  "trades mkt session os fs b c \<longleftrightarrow>
     orders c = orders b @ os \<and> fills c = fills b @ fs \<and>
     (\<forall>i. shares_held (positions c) i = shares_held (positions b) i + fill_delta i fs) \<and>
     (\<forall>f\<in>set fs. fill_of mkt session os f)"

lemma trades_refl: "trades mkt session [] [] b b"
  by (simp add: trades_def)

lemma fill_of_more: "fill_of mkt session os f \<Longrightarrow> set os \<subseteq> set os' \<Longrightarrow> fill_of mkt session os' f"
  by (auto simp: fill_of_def)

lemma trades_trans:
  assumes "trades mkt session os fs b c" "trades mkt session os' fs' c d"
  shows "trades mkt session (os @ os') (fs @ fs') b d"
proof -
  have "\<forall>f\<in>set (fs @ fs'). fill_of mkt session (os @ os') f"
    using assms fill_of_more [of mkt session os _ "os @ os'"] fill_of_more [of mkt session os' _ "os @ os'"]
    by (auto simp: trades_def)
  with assms show ?thesis by (simp add: trades_def)
qed

section \<open>One order\<close>

lemma settle_buy_ok:
  assumes "settle_buy session i raw adjusted price q cost b = Inr c" "0 < q" "account_ok b"
  shows "account_ok c"
proof -
  obtain p where c: "positions c = AList.update i p (positions b)" and
    p: "execution_shares p = (case map_of (positions b) i of None \<Rightarrow> q | Some x \<Rightarrow> execution_shares x + q)"
    using assms(1) unfolding settle_buy_def by (elim bindE_InrE) (auto split: option.splits)
  have "0 < execution_shares p"
    using p assms(2) positions_ok_held [OF assms(3), of i] by (cases "map_of (positions b) i") auto
  then show ?thesis using c assms(3) by (simp add: positions_ok_update)
qed

lemma settle_sell_ok:
  assumes "settle_sell i adjusted factor q cost b = Inr c" "q \<le> shares_held (positions b) i" "account_ok b"
  shows "account_ok c"
proof -
  obtain x where x: "map_of (positions b) i = Some x" using assms(1) by (auto simp: settle_sell_def)
  show ?thesis
  proof (cases "q = execution_shares x")
    case True
    then have "positions c = AList.delete i (positions b)"
      using assms(1) x by (auto simp: settle_sell_def Let_def lookupE_def)
    then show ?thesis using assms(3) by (simp add: positions_ok_delete)
  next
    case False
    then obtain p where c: "positions c = AList.update i p (positions b)" and p: "execution_shares p = execution_shares x - q"
      using assms(1) x by (auto simp: settle_sell_def Let_def lookupE_def)
    have "0 < execution_shares p" using p False assms(2) x by (simp add: shares_held_def)
    then show ?thesis using assms(3) c by (simp add: positions_ok_update)
  qed
qed

text \<open>The fills of an order carry its identity, session and instrument.\<close>

definition draft_of :: "ident \<Rightarrow> string \<Rightarrow> string \<Rightarrow> ('a) fill_draft_scheme \<Rightarrow> bool" where
  "draft_of oid session i d \<longleftrightarrow>
     fill_draft.fill_order d = oid \<and> fill_session d = session \<and> fill_instrument d = i"

lemma execute_child_draft:
  assumes "execute_child costs context oid session i side raw price slip c (cost, q, rows, drafts) = Inr t"
  shows "\<exists>cost' q' r d. t = (cost', q', rows @ [r], drafts @ [d]) \<and> draft_of oid session i d"
  using assms unfolding execute_child_def Let_def prod.case
  by (elim bindE_InrE) (auto simp: draft_of_def)

lemma execute_children_drafts:
  assumes "foldE (execute_child costs context oid session i side raw price slip) cs (cost, q, rows, drafts)
      = Inr (cost', q', rows', drafts')" "\<forall>d\<in>set drafts. draft_of oid session i d"
  shows "\<forall>d\<in>set drafts'. draft_of oid session i d"
  using assms
proof (induction cs arbitrary: cost q rows drafts)
  case (Cons c cs)
  obtain t where t: "execute_child costs context oid session i side raw price slip c (cost, q, rows, drafts) = Inr t"
    "foldE (execute_child costs context oid session i side raw price slip) cs t = Inr (cost', q', rows', drafts')"
    using Cons.prems(1) by auto
  obtain cost1 q1 r d where u: "t = (cost1, q1, rows @ [r], drafts @ [d])" "draft_of oid session i d"
    using execute_child_draft [OF t(1)] by blast
  show ?case by (rule Cons.IH [OF t(2) [unfolded u(1)]]) (use u(2) Cons.prems(2) in auto)
qed simp

lemma allocate_fill_draft:
  assumes "allocate_fill adjusted side tq deltas d (prior, n, q, rows) = Inr t" "draft_of oid session i d"
  shows "\<exists>prior' n' q' r. t = (prior', n', q', rows @ [r]) \<and> draft_of oid session i r"
proof -
  obtain dg dn du where del: "deltas = (dg, dn, du)" by (cases deltas)
  obtain pg pn pu where pri: "prior = (pg, pn, pu)" by (cases prior)
  show ?thesis
    using assms unfolding allocate_fill_def Let_def del pri prod.case
    by (elim bindE_InrE) (auto simp: draft_of_def fill_draft.defs split: prod.splits)
qed

lemma allocate_fills_drafts:
  assumes "foldE (allocate_fill adjusted side tq deltas) drafts (prior, n, q, rows) = Inr (prior', n', q', rows')"
    "\<forall>d\<in>set drafts. draft_of oid session i d" "\<forall>r\<in>set rows. draft_of oid session i r"
  shows "\<forall>r\<in>set rows'. draft_of oid session i r"
  using assms
proof (induction drafts arbitrary: prior n q rows)
  case (Cons d ds)
  obtain t where t: "allocate_fill adjusted side tq deltas d (prior, n, q, rows) = Inr t"
    "foldE (allocate_fill adjusted side tq deltas) ds t = Inr (prior', n', q', rows')"
    using Cons.prems(1) by auto
  have d: "draft_of oid session i d" using Cons.prems(2) by simp
  obtain prior1 n1 q1 r where u: "t = (prior1, n1, q1, rows @ [r])" "draft_of oid session i r"
    using allocate_fill_draft [OF t(1) d] by blast
  show ?case by (rule Cons.IH [OF t(2) [unfolded u(1)]]) (use u(2) Cons.prems(2,3) in auto)
qed simp

text \<open>The steps of a filled order, with what they compute.\<close>

lemma fill_order_pieces:
  assumes "fill_order mkt costs context oid session i side q quote b = Inr (c, cost)" "0 \<le> q"
  obtains factor price rows drafts after fs total_cost d p_slip where
    "foldE (execute_child costs context oid session i side (price_raw_open quote) price p_slip)
       (map child_quantity rows) (dzero, 0, [], []) = Inr (total_cost, q, rows, drafts)"
    and "(if side = Buy then settle_buy session i (price_raw_open quote) (price_adjusted_open quote) price q total_cost b
      else settle_sell i (price_adjusted_open quote) factor q total_cost b) = Inr after"
    and "allocate_fills (price_adjusted_open quote) side q d drafts = Inr fs"
    and "c = after\<lparr>child_orders := child_orders after @ rows, fills := fills after @ fs\<rparr>"
    and "cost = total_cost"
proof -
  obtain factor price slip and profile :: instrument_profile and cs st where
    split: "split_child_orders (profile_board profile) q
      (side = Sell \<and> (case map_of (positions b) i of None \<Rightarrow> False | Some p \<Rightarrow> execution_shares p = q)) = Inr cs"
    and loop': "foldE (execute_child costs context oid session i side (price_raw_open quote) price slip) cs
      (dzero, 0, [], []) = Inr st"
    and rest: "(case st of (total_cost, total_quantity, rows, drafts) \<Rightarrow>
      bindE (if side = Buy
             then settle_buy session i (price_raw_open quote) (price_adjusted_open quote) price total_quantity total_cost b
             else settle_sell i (price_adjusted_open quote) factor total_quantity total_cost b) (\<lambda>after.
      bindE (acc_sub (gross_cash after) (gross_cash b)) (\<lambda>d_gross.
      bindE (acc_sub (net_cash after) (net_cash b)) (\<lambda>d_net.
      bindE (acc_sub (units_held (positions after) i) (units_held (positions b) i)) (\<lambda>d_units.
      bindE (allocate_fills (price_adjusted_open quote) side total_quantity (d_gross, d_net, d_units) drafts) (\<lambda>fill_rows.
      Inr (after\<lparr>child_orders := child_orders after @ rows, fills := fills after @ fill_rows\<rparr>,
           total_cost))))))) = Inr (c, cost)"
    using assms(1) unfolding fill_order_def Let_def by (elim bindE_InrE) (rule that)
  obtain total_cost tq rows drafts where st: "st = (total_cost, tq, rows, drafts)" by (cases st)
  note loop = loop' [unfolded st]
  obtain after d fs where
    settle: "(if side = Buy then settle_buy session i (price_raw_open quote) (price_adjusted_open quote) price tq total_cost b
      else settle_sell i (price_adjusted_open quote) factor tq total_cost b) = Inr after"
    and alloc: "allocate_fills (price_adjusted_open quote) side tq d drafts = Inr fs"
    and c': "Inr (after\<lparr>child_orders := child_orders after @ rows, fills := fills after @ fs\<rparr>, total_cost) = (Inr (c, cost) :: py_error + book \<times> dec)"
    using rest unfolding st prod.case by (elim bindE_InrE) (rule that)
  have "sum_list cs = q" using child_orders.split_sum [OF assms(2) split] by auto
  then have tq: "tq = q" and cs: "map child_quantity rows = cs" using execute_children [OF loop] by auto
  show thesis
    by (rule that [OF loop [unfolded tq, folded cs] settle [unfolded tq] alloc [unfolded tq]]) (use c' in simp_all)
qed

lemma fill_order_rows:
  assumes "fill_order mkt costs context oid session i side q quote b = Inr (c, cost)" "0 \<le> q"
  shows "\<exists>rows. fills c = fills b @ rows \<and> (\<forall>f\<in>set rows. draft_of oid session i f)"
  using assms
proof (cases rule: fill_order_pieces)
  case (1 factor price rows drafts after fs total_cost d p_slip)
  have "same_rows b after"
    using 1(2) by (cases side) (auto dest: settle_buy_result(1) settle_sell_result(1))
  then have "fills c = fills b @ fs" using 1(4) by (simp add: same_rows_def)
  moreover have ds: "\<forall>d\<in>set drafts. draft_of oid session i d" by (rule execute_children_drafts [OF 1(1)]) simp
  obtain prior n q' where "foldE (allocate_fill (price_adjusted_open quote) side q d) drafts
      ((dzero, dzero, dzero), dzero, 0, []) = Inr (prior, n, q', fs)"
    using 1(3) unfolding allocate_fills_def by (elim bindE_InrE) (auto split: prod.splits)
  from allocate_fills_drafts [OF this ds] have "\<forall>f\<in>set fs. draft_of oid session i f" by simp
  ultimately show ?thesis by blast
qed

lemma fill_order_ok:
  assumes "fill_order mkt costs context oid session i side q quote b = Inr (c, cost)" "0 < q"
    and "side = Sell \<Longrightarrow> q \<le> shares_held (positions b) i" "account_ok b"
  shows "account_ok c"
  using assms(1) less_imp_le [OF assms(2)]
proof (cases rule: fill_order_pieces)
  case (1 factor price rows drafts after fs total_cost d p_slip)
  have "account_ok after"
  proof (cases side)
    case Buy
    then have "settle_buy session i (price_raw_open quote) (price_adjusted_open quote) price q total_cost b = Inr after"
      using 1(2) by simp
    then show ?thesis using assms(2,4) by (rule settle_buy_ok)
  next
    case Sell
    then have "settle_sell i (price_adjusted_open quote) factor q total_cost b = Inr after" using 1(2) by simp
    then show ?thesis by (rule settle_sell_ok) (use Sell assms(3,4) in simp_all)
  qed
  then show ?thesis using 1(4) by simp
qed

lemma execute_order_trades:
  assumes "execute_order mkt costs context session i side q intended unrounded b = Inr (c, cost)" "0 < q"
    and "side = Sell \<Longrightarrow> q \<le> shares_held (positions b) i"
  obtains row fs where "trades mkt session [row] fs b c" and "order_side row = side"
    and "account_ok b \<Longrightarrow> account_ok c"
  using assms(1)
proof (cases rule: execute_order_cases)
  case (rejected row rejection)
  show thesis
    by (rule that [of row "[]"]) (use rejected in \<open>simp_all add: trades_def\<close>)
next
  case (filled row oid quote)
  let ?b = "b\<lparr>orders := orders b @ [row]\<rparr>"
  note res = fill_order_result [OF less_imp_le [OF assms(2)] filled(1)]
  obtain rows where rows: "fills c = fills b @ rows" "sum_list (map fill_quantity rows) = q"
    "\<forall>f\<in>set rows. fill_execution_shares_delta f = fill_quantity f * (if side = Buy then 1 else - 1)"
    using res(5) by auto
  have of: "\<forall>f\<in>set rows. draft_of oid session i f"
    using fill_order_rows [OF filled(1) less_imp_le [OF assms(2)]] rows(1) by auto
  have "sum_list (map fill_execution_shares_delta rows) = (if side = Buy then q else - q)"
    using rows(2,3) uminus_sum_list_map [of fill_quantity rows] by (cases side) (simp_all add: o_def cong: map_cong)
  moreover have "filter (\<lambda>f. fill_instrument f = j) rows = (if j = i then rows else [])" for j
    using of by (auto simp: draft_of_def filter_empty_conv intro: filter_True)
  ultimately have delta: "fill_delta j rows = (if j = i then (if side = Buy then q else - q) else 0)" for j
    by (simp add: fill_delta_def)
  have held: "shares_held (positions c) j = shares_held (positions b) j + fill_delta j rows" for j
    using res(3,4) delta by (cases "j = i") (simp_all add: shares_held_def)
  have fo: "\<forall>f\<in>set rows. fill_of mkt session [row] f"
    using of filled(2,3,4) by (auto simp: fill_of_def draft_of_def)
  show thesis
  proof (rule that)
    show "trades mkt session [row] rows b c" using res(1) rows(1) held fo by (simp add: trades_def)
    show "order_side row = side" by (rule filled(5))
    show "account_ok c" if "account_ok b"
      by (rule fill_order_ok [OF filled(1) assms(2)]) (use that assms(3) in simp_all)
  qed
qed

section \<open>The two loops\<close>

text \<open>
  What a step of a trading loop does: its orders all have the side of the loop and are the sides
  the event reports.
\<close>

definition moves :: "market \<Rightarrow> string \<Rightarrow> side \<Rightarrow> frame \<Rightarrow> frame \<Rightarrow> bool" where
  "moves mkt session side f g \<longleftrightarrow>
     (\<exists>os fs. trades mkt session os fs (fr_book f) (fr_book g) \<and>
        fr_sides g = fr_sides f @ map order_side os \<and> (\<forall>r\<in>set os. order_side r = side)) \<and>
     (account_ok (fr_book f) \<longrightarrow> account_ok (fr_book g))"

lemma moves_refl: "moves mkt session side f f"
  unfolding moves_def by (auto intro!: exI [of _ "[]"] trades_refl)

lemma moves_same:
  "fr_book g = fr_book f \<Longrightarrow> fr_sides g = fr_sides f \<Longrightarrow> moves mkt session side f g"
  unfolding moves_def by (auto intro!: exI [of _ "[]"] trades_refl)

lemma moves_trans:
  assumes "moves mkt session side f g" "moves mkt session side g h"
  shows "moves mkt session side f h"
proof -
  obtain os fs where 1: "trades mkt session os fs (fr_book f) (fr_book g)"
    "fr_sides g = fr_sides f @ map order_side os" "\<forall>r\<in>set os. order_side r = side"
    using assms(1) unfolding moves_def by blast
  obtain os' fs' where 2: "trades mkt session os' fs' (fr_book g) (fr_book h)"
    "fr_sides h = fr_sides g @ map order_side os'" "\<forall>r\<in>set os'. order_side r = side"
    using assms(2) unfolding moves_def by blast
  have "\<exists>os fs. trades mkt session os fs (fr_book f) (fr_book h) \<and>
        fr_sides h = fr_sides f @ map order_side os \<and> (\<forall>r\<in>set os. order_side r = side)"
    using trades_trans [OF 1(1) 2(1)] 1(2,3) 2(2,3) by (intro exI [of _ "os @ os'"] exI [of _ "fs @ fs'"]) auto
  with assms show ?thesis unfolding moves_def by blast
qed

lemma moves_order:
  assumes "execute_order mkt costs context session i side q intended unrounded (fr_book f) = Inr (b, cost)" "0 < q"
    and "side = Sell \<Longrightarrow> q \<le> shares_held (positions (fr_book f)) i"
    and "fr_book g = b" "fr_sides g = fr_sides f @ [side]"
  shows "moves mkt session side f g"
proof (rule execute_order_trades [OF assms(1,2,3)])
  fix row fs assume "trades mkt session [row] fs (fr_book f) b" "order_side row = side"
    "account_ok (fr_book f) \<Longrightarrow> account_ok b"
  then show ?thesis using assms(4,5) unfolding moves_def by (auto intro!: exI [of _ "[row]"] exI [of _ fs])
qed

lemma legal_le: "legal_order_quantity board side n whole = Inr q \<Longrightarrow> q \<le> max 0 n"
  by (auto simp: legal_order_quantity_def Let_def split: if_splits)

lemma unrounded_sale_le:
  assumes "unrounded_sale en tp i p current desired = Inr n" "\<forall>m\<in>snd ` set (tp_limits tp). 0 \<le> m"
  shows "n \<le> execution_shares p"
proof -
  obtain u where u: "(if deq desired dzero then Inr (execution_shares p)
            else
              bindE (def_sub current (case map_of (tp_monetary tp) i of None \<Rightarrow> dzero | Some v \<Rightarrow> v)) (\<lambda>gap.
              bindE (execution_price_factor Sell (en_costs en)) (\<lambda>factor.
              bindE (acc_mul current factor) (\<lambda>settlement.
              bindE (acc_mul (dec_of_int (execution_shares p)) (dmax dzero gap)) (\<lambda>x.
              bindE (acc_div x settlement) (\<lambda>y.
              Inr (min (execution_shares p) (dec_to_int y)))))))) = Inr u"
    and n: "n = (case map_of (tp_limits tp) i of None \<Rightarrow> u | Some limit \<Rightarrow> max u (execution_shares p - limit))"
    using assms(1) unfolding unrounded_sale_def by (elim bindE_InrE) simp
  have "u \<le> execution_shares p"
  proof (cases "deq desired dzero")
    case False
    with u show ?thesis by (simp only: if_False, elim bindE_InrE) simp
  qed (use u in simp)
  moreover have "0 \<le> m" if "map_of (tp_limits tp) i = Some m" for m
    using assms(2) map_of_SomeD [OF that] by force
  ultimately show ?thesis using n by (auto split: option.splits)
qed

lemma submit_sale_moves:
  assumes "submit_sale en session tp i intended unrounded q f = Inr g"
    and "q \<le> max 0 (shares_held (positions (fr_book f)) i)"
  shows "moves (en_market en) session Sell f g"
proof (cases "q \<le> 0")
  case True
  then show ?thesis using assms(1) by (auto simp: submit_sale_def intro!: moves_same)
next
  case False
  then obtain b cost where r: "execute_order (en_market en) (en_costs en) (tp_context tp) session i Sell q
      intended unrounded (fr_book f) = Inr (b, cost)" "fr_book g = b" "fr_sides g = fr_sides f @ [Sell]"
    using assms(1) by (auto simp: submit_sale_def Let_def)
  show ?thesis by (rule moves_order [OF r(1) _ _ r(2,3)]) (use False assms(2) in auto)
qed

lemma sell_step_moves:
  assumes "sell_step en session tp marks i f = Inr g" "\<forall>m\<in>snd ` set (tp_limits tp). 0 \<le> m"
  shows "moves (en_market en) session Sell f g"
proof (cases "tp_mode tp = ''increase'' \<and> map_of (tp_limits tp) i = None \<and> tp_exposure_cap tp = None")
  case True
  then show ?thesis using assms(1) by (simp add: sell_step_def moves_refl)
next
  case False
  let ?desired = "case map_of (tp_values tp) i of None \<Rightarrow> dzero | Some v \<Rightarrow> v"
  obtain p current where p: "map_of (positions (fr_book f)) i = Some p" and
    r: "(if dle current ?desired then Inr f
        else
          bindE (unrounded_sale en tp i p current ?desired) (\<lambda>unrounded.
          bindE (profileE (en_market en) i) (\<lambda>profile.
          bindE (legal_order_quantity (profile_board profile) Sell unrounded (unrounded = execution_shares p)) (\<lambda>quantity.
          bindE (def_sub current ?desired) (\<lambda>intended.
          submit_sale en session tp i intended unrounded quantity f))))) = Inr g"
    using assms(1) unfolding sell_step_def Let_def if_not_P [OF False] lookupE_Inr_iff
    by (elim bindE_InrE) (simp add: that)
  show ?thesis
  proof (cases "dle current ?desired")
    case True
    then show ?thesis using r by (simp add: moves_refl)
  next
    case sell: False
    obtain u q intended and profile :: instrument_profile where u: "unrounded_sale en tp i p current ?desired = Inr u"
      and q: "legal_order_quantity (profile_board profile) Sell u (u = execution_shares p) = Inr q"
      and s: "submit_sale en session tp i intended u q f = Inr g"
      using r [unfolded if_not_P [OF sell]] by (elim bindE_InrE) (rule that)
    have "q \<le> max 0 (shares_held (positions (fr_book f)) i)"
      using legal_le [OF q] unrounded_sale_le [OF u assms(2)] p by (simp add: shares_held_def)
    with s show ?thesis by (rule submit_sale_moves)
  qed
qed

lemma unpriced_buy_moves:
  assumes "unpriced_buy en session tp i deficit f = Inr g"
  shows "moves mkt session Buy f g"
proof -
  have "\<exists>os. orders (fr_book g) = orders (fr_book f) @ os \<and> fr_sides g = fr_sides f @ map order_side os \<and>
    (\<forall>r\<in>set os. order_side r = Buy) \<and> positions (fr_book g) = positions (fr_book f) \<and>
    fills (fr_book g) = fills (fr_book f)"
    using assms unfolding unpriced_buy_def Let_def
    by (auto simp: profileE_def split: if_splits option.splits)
  then obtain os where os: "orders (fr_book g) = orders (fr_book f) @ os" "fr_sides g = fr_sides f @ map order_side os"
    "\<forall>r\<in>set os. order_side r = Buy" "positions (fr_book g) = positions (fr_book f)"
    "fills (fr_book g) = fills (fr_book f)" by blast
  then have "trades mkt session os [] (fr_book f) (fr_book g)" by (simp add: trades_def)
  with os(2-4) show ?thesis unfolding moves_def by (auto intro!: exI [of _ os])
qed

lemma submit_buy_moves:
  assumes "submit_buy en session tp i deficit unrounded legal q f = Inr g"
  shows "moves (en_market en) session Buy f g"
proof (cases "q \<le> 0")
  case True
  then show ?thesis using assms
    by (auto simp: submit_buy_def Let_def intro!: moves_same split: if_splits)
next
  case False
  obtain b cost where r: "execute_order (en_market en) (en_costs en) (tp_context tp) session i Buy q
      deficit unrounded (fr_book f) = Inr (b, cost)" "fr_book g = b" "fr_sides g = fr_sides f @ [Buy]"
    using assms unfolding submit_buy_def Let_def if_not_P [OF False]
    by (auto split: if_splits)
  show ?thesis by (rule moves_order [OF r(1) _ _ r(2,3)]) (use False in auto)
qed

lemma buy_step_moves:
  assumes "buy_step en session tp i f = Inr g"
  shows "moves (en_market en) session Buy f g"
  using assms unfolding buy_step_def Let_def
  by (auto split: option.splits intro: unpriced_buy_moves submit_buy_moves)

text \<open>Both loops are runs of such steps.\<close>

definition limits_ok :: "target_plan \<Rightarrow> bool" where
  "limits_ok tp \<longleftrightarrow> (\<forall>m\<in>snd ` set (tp_limits tp). 0 \<le> m)"

interpretation sales: loop_relation "sell_step en session tp marks"
  "\<lambda>f g. limits_ok tp \<longrightarrow> moves (en_market en) session Sell f g" for en session tp marks
  by unfold_locales (auto simp: limits_ok_def intro: moves_refl moves_trans sell_step_moves)

interpretation purchases: loop_relation "buy_step en session tp"
  "moves (en_market en) session Buy" for en session tp
  by unfold_locales (auto intro: moves_refl moves_trans buy_step_moves)

section \<open>Marks and write-offs\<close>

definition written_off :: "string \<Rightarrow> valuation_event list \<Rightarrow> bool" where
  "written_off i ev \<longleftrightarrow> (\<exists>e\<in>set ev. ve_instrument e = i \<and> ve_type e = ''terminal_delisting_writeoff'')"

lemma written_off_append [simp]: "written_off i (ev @ ev') \<longleftrightarrow> written_off i ev \<or> written_off i ev'"
  by (auto simp: written_off_def)

lemma written_off_Nil [simp]: "\<not> written_off i []"
  by (simp add: written_off_def)

text \<open>
  The state of the marking loop: it is a dictionary of positive holdings, with the shares of the
  start but for those written off, which are gone and have no price in the session.
\<close>

definition marked_state :: "market \<Rightarrow> string \<Rightarrow> positions \<Rightarrow> positions \<times> marks \<times> valuation_event list \<Rightarrow> bool" where
  "marked_state mkt session ps0 s \<longleftrightarrow> (case s of (ps, marks, ev) \<Rightarrow>
     positions_ok ps \<and>
     (\<forall>i. shares_held ps i = (if written_off i ev then 0 else shares_held ps0 i)) \<and>
     (\<forall>i. written_off i ev \<longrightarrow> execution_prices mkt (session, i) = None \<and> map_of ps i = None))"

lemma mark_position_state:
  assumes "mark_position session mkt i s = Inr t" "marked_state mkt session ps0 s"
  shows "marked_state mkt session ps0 t"
proof -
  obtain ps marks ev where s: "s = (ps, marks, ev)" by (cases s)
  obtain p where p: "map_of ps i = Some p" using assms(1) by (auto simp: mark_position_def s)
  have ok: "positions_ok ps" "\<not> written_off i ev"
    "\<And>j. shares_held ps j = (if written_off j ev then 0 else shares_held ps0 j)"
    "\<And>j. written_off j ev \<Longrightarrow> execution_prices mkt (session, j) = None \<and> map_of ps j = None"
    using assms(2) p by (auto simp: marked_state_def s)
  show ?thesis
  proof (cases "execution_prices mkt (session, i)")
    case (Some q)
    let ?p = "p\<lparr>last_adjusted_price := price_adjusted_open q\<rparr>"
    have t: "t = (AList.update i ?p ps, AList.update i (price_adjusted_open q) marks, ev)"
      using assms(1) Some p by (simp add: mark_position_def s lookupE_def)
    have "shares_held (AList.update i ?p ps) j = shares_held ps j" for j
      using p by (simp add: shares_held_def)
    moreover have "positions_ok (AList.update i ?p ps)"
      using positions_ok_held [OF ok(1) p] ok(1) by (intro positions_ok_update) simp_all
    ultimately show ?thesis using ok(2-4) by (auto simp: marked_state_def t)
  next
    case None
    show ?thesis
    proof (cases "suspended_or_unavailable (trading_states mkt (session, i))")
      case True
      obtain e where t: "t = (ps, AList.update i (last_adjusted_price p) marks, ev @ [e])"
        "ve_type e = ''valuation_carry''"
        using assms(1) None True p by (auto simp: mark_position_def s lookupE_def adjustment_event_def)
      then have "written_off j (ev @ [e]) = written_off j ev" for j by (simp add: written_off_def)
      then show ?thesis using ok by (simp add: marked_state_def t(1))
    next
      case False
      obtain e where t: "t = (AList.delete i ps, marks, ev @ [e])" and
        e: "ve_type e = ''terminal_delisting_writeoff''" "ve_instrument e = i"
        using assms(1) None False p
        by (auto simp: mark_position_def s lookupE_def adjustment_event_def profileE_def split: option.splits if_splits)
      have "written_off j (ev @ [e]) \<longleftrightarrow> j = i \<or> written_off j ev" for j using e by (auto simp: written_off_def)
      moreover have "shares_held (AList.delete i ps) j = (if j = i then 0 else shares_held ps j)" for j
        by (simp add: shares_held_def)
      ultimately show ?thesis using ok None positions_ok_delete [OF ok(1)] by (auto simp: marked_state_def t)
    qed
  qed
qed

interpretation marking: loop_invariant "mark_position session mkt" "\<lambda>_. True" "marked_state mkt session ps0"
  for session mkt ps0
  by unfold_locales (rule mark_position_state)

lemma mark_positions_state:
  assumes "mark_positions session mkt ps = Inr (ps', marks, ev)" "positions_ok ps"
  shows "positions_ok ps'" and "shares_held ps' i = (if written_off i ev then 0 else shares_held ps i)"
    and "written_off i ev \<Longrightarrow> execution_prices mkt (session, i) = None"
proof -
  have "marked_state mkt session ps (ps', marks, ev)"
    by (rule marking.loop_keeps [OF _ _ assms(1) [unfolded mark_positions_def]])
      (use assms(2) in \<open>simp_all add: marked_state_def\<close>)
  then show "positions_ok ps'" "shares_held ps' i = (if written_off i ev then 0 else shares_held ps i)"
    "written_off i ev \<Longrightarrow> execution_prices mkt (session, i) = None"
    by (simp_all add: marked_state_def)
qed

section \<open>A session on the account\<close>

definition session_trades :: "market \<Rightarrow> string \<Rightarrow> order_row list \<Rightarrow> fill_row list \<Rightarrow> valuation_event list
    \<Rightarrow> book \<Rightarrow> book \<Rightarrow> bool" where
  "session_trades mkt session os fs ev b c \<longleftrightarrow>
     orders c = orders b @ os \<and> fills c = fills b @ fs \<and> account_ok c \<and>
     (\<forall>i. shares_held (positions c) i =
        (if written_off i ev then 0 else shares_held (positions b) i) + fill_delta i fs) \<and>
     (\<forall>i. written_off i ev \<longrightarrow> execution_prices mkt (session, i) = None) \<and>
     (\<forall>f\<in>set fs. fill_of mkt session os f)"

lemma no_price_no_fill:
  assumes "\<forall>f\<in>set fs. fill_of mkt session os f" "execution_prices mkt (session, i) = None"
  shows "fill_delta i fs = 0"
proof -
  have "filter (\<lambda>f. fill_instrument f = i) fs = []" using assms by (auto simp: filter_empty_conv fill_of_def)
  then show ?thesis by (simp add: fill_delta_def)
qed

lemma session_trades_trans:
  assumes 1: "session_trades mkt session os fs ev b c" and 2: "session_trades mkt session os' fs' ev' c d"
  shows "session_trades mkt session (os @ os') (fs @ fs') (ev @ ev') b d"
proof -
  have fo: "\<forall>f\<in>set (fs @ fs'). fill_of mkt session (os @ os') f"
    using assms fill_of_more [of mkt session os _ "os @ os'"] fill_of_more [of mkt session os' _ "os @ os'"]
    by (auto simp: session_trades_def)
  have "fill_delta i fs = 0 \<and> fill_delta i fs' = 0" if "written_off i ev \<or> written_off i ev'" for i
    using that assms no_price_no_fill [of fs] no_price_no_fill [of fs'] unfolding session_trades_def by meson
  then have "shares_held (positions d) i =
      (if written_off i (ev @ ev') then 0 else shares_held (positions b) i) + fill_delta i (fs @ fs')" for i
    using assms by (auto simp: session_trades_def)
  with assms fo show ?thesis by (auto simp: session_trades_def)
qed

lemma moves_session:
  assumes "moves mkt session side f g" "account_ok (fr_book f)"
  obtains os fs where "session_trades mkt session os fs [] (fr_book f) (fr_book g)"
    and "fr_sides g = fr_sides f @ map order_side os" and "\<forall>r\<in>set os. order_side r = side"
  using assms unfolding moves_def session_trades_def trades_def by auto

lemma marks_session:
  assumes "mark_positions session mkt (positions b) = Inr (ps, marks, ev)" "account_ok b"
  shows "session_trades mkt session [] [] ev b (b\<lparr>positions := ps\<rparr>)"
  using mark_positions_state [OF assms] by (auto simp: session_trades_def)

lemma rebalance_session:
  assumes "rebalance en session tp marks f = Inr (g, ev)" "account_ok (fr_book f)" "limits_ok tp"
  obtains sells buys fs where
    "session_trades (en_market en) session (sells @ buys) fs ev (fr_book f) (fr_book g)"
    and "fr_sides g = fr_sides f @ map order_side (sells @ buys)"
    and "\<forall>r\<in>set sells. order_side r = Sell" and "\<forall>r\<in>set buys. order_side r = Buy"
proof -
  obtain sold st where
    s: "foldE (sell_step en session tp marks) (sort (map fst (positions (fr_book f)))) f = Inr sold"
    and m: "mark_positions session (en_market en) (positions (fr_book sold)) = Inr st"
    and rest: "(case st of (ps, marks2, events) \<Rightarrow>
     bindE (sum_position_values ps marks2) (\<lambda>stock.
     bindE (def_sub (tp_capital tp) stock) (\<lambda>room.
     bindE (foldE (buy_step en session tp) (map fst (tp_deficits tp))
       (sold\<lparr>fr_book := (fr_book sold)\<lparr>positions := ps\<rparr>, fr_budget := dmax dzero room\<rparr>)) (\<lambda>bought.
     Inr (bought, events))))) = Inr (g, ev)"
    using assms(1) unfolding rebalance_def Let_def by (elim bindE_InrE) (rule that)
  obtain ps marks2 ev' where st': "st = (ps, marks2, ev')" by (cases st)
  obtain ready where r: "fr_book ready = (fr_book sold)\<lparr>positions := ps\<rparr>" "fr_sides ready = fr_sides sold"
      "foldE (buy_step en session tp) (map fst (tp_deficits tp)) ready = Inr g" and ev: "ev' = ev"
  proof -
    from rest obtain room where "foldE (buy_step en session tp) (map fst (tp_deficits tp))
       (sold\<lparr>fr_book := (fr_book sold)\<lparr>positions := ps\<rparr>, fr_budget := dmax dzero room\<rparr>) = Inr g" "ev' = ev"
      unfolding st' prod.case by (elim bindE_InrE) simp
    then show thesis by (intro that) simp_all
  qed
  note st = st' [unfolded ev]
  have "moves (en_market en) session Sell f sold" using sales.loop_rel [OF s] assms(3) by blast
  from moves_session [OF this assms(2)] obtain sells fs1 where
    1: "session_trades (en_market en) session sells fs1 [] (fr_book f) (fr_book sold)"
      "fr_sides sold = fr_sides f @ map order_side sells" "\<forall>r\<in>set sells. order_side r = Sell" .
  have 2: "session_trades (en_market en) session [] [] ev (fr_book sold) (fr_book ready)"
    using marks_session [OF m [unfolded st]] 1(1) r by (simp add: st session_trades_def)
  have "moves (en_market en) session Buy ready g" using purchases.loop_rel [OF r(3)] .
  from moves_session [OF this] obtain buys fs2 where
    3: "session_trades (en_market en) session buys fs2 [] (fr_book ready) (fr_book g)"
      "fr_sides g = fr_sides ready @ map order_side buys" "\<forall>r\<in>set buys. order_side r = Buy"
    using 2 unfolding session_trades_def by blast
  from session_trades_trans [OF session_trades_trans [OF 1(1) 2] 3(1)] show thesis
    by (intro that [of sells buys "fs1 @ fs2"]) (use 1 3 r st in simp_all)
qed

end
