(* ===== verification/Session.thy ===== *)
theory Session
  imports Trading
begin

text \<open>
  The run of \<open>_execute_strategy\<close> (\<open>research_kernel/strategy.py\<close>): its start from the origin or
  from a continuation, one session after another, and the payload it returns.
\<close>

section \<open>One session\<close>

type_synonym ('s, 'f) program =
  "string \<Rightarrow> int \<Rightarrow> account_view \<Rightarrow> fill_row list \<Rightarrow> rejection_row list \<Rightarrow> 's option
     \<Rightarrow> py_error + ('s, 'f) daily_decision"

text \<open>\<open>except StrategyProgramError: raise\<close>; any other \<open>ValueError\<close> becomes a calculation error.\<close>

definition decide_error :: "py_error \<Rightarrow> py_error" where
  "decide_error e = (case e of ValueError m \<Rightarrow> StrategyCalculationError m [] | _ \<Rightarrow> e)"

definition decide_session :: "('s, 'f) program \<Rightarrow> engine \<Rightarrow> string \<Rightarrow> int \<Rightarrow> int \<Rightarrow> int
    \<Rightarrow> ('s, 'f) strategy_state \<Rightarrow> py_error + ('s, 'f) strategy_state" where
  "decide_session decide en session report_index fill_start rejection_start s =
     (let b = st_book s; row = last (st_daily s) in
      bindE (position_payload (positions b)) (\<lambda>ps.
      bindE (mapErr decide_error (decide session report_index
               \<lparr>view_cash = day_net_cash row, view_post_open_net_nav = day_net_nav row,
                view_close_risk_nav = day_close_risk_nav row, view_positions = ps\<rparr>
               (drop (nat fill_start) (fills b)) (drop (nat rejection_start) (rejections b))
               (st_decision s))) (\<lambda>d.
      let target_id = strategy_event_id ''target'' [IdStr (en_checksum en), IdStr session] in
      Inr (s\<lparr>st_decision := Some (dec_state d), st_pending := dec_target d,
             st_diagnostics := st_diagnostics s @ dec_diagnostics d,
             st_framework_events := st_framework_events s @
               (case dec_framework d of None \<Rightarrow> []
                | Some f \<Rightarrow> [(strategy_event_id ''framework'' [IdStr (en_checksum en), IdStr session], session,
                             map_option (\<lambda>_. target_id) (dec_target d), f)]),
             st_target_events := st_target_events s @
               (case dec_target d of None \<Rightarrow> [] | Some t \<Rightarrow> [(target_id, t)])\<rparr>))))"

text \<open>The trades of a session, when there is a pending target, between its two valuations.\<close>

definition trade_session :: "engine \<Rightarrow> string \<Rightarrow> ('s, 'f) strategy_state
    \<Rightarrow> py_error + int \<times> ('s, 'f) strategy_state" where
  "trade_session en session s =
     bindE (case st_pending s of None \<Rightarrow> Inr () | Some t \<Rightarrow> check_pending en (positions (st_book s)) t) (\<lambda>_.
     bindE (index_of (en_calendar en) session) (\<lambda>global_index.
     let report_index = global_index - en_origin_index en in
     bindE (mark_positions session (en_market en) (positions (st_book s))) (\<lambda>(ps, marks, events).
     let b = (st_book s)\<lparr>positions := ps\<rparr>; s1 = s\<lparr>st_book := b\<rparr> in
     bindE (sum_position_values ps marks) (\<lambda>stock.
     bindE (bindE (def_add (gross_cash b) stock) money) (\<lambda>pre_gross_nav.
     bindE (bindE (def_add (net_cash b) stock) money) (\<lambda>pre_net_nav.
     bindE (account_weights (net_cash b) pre_net_nav ps marks) (\<lambda>pre_weights.
     bindE (case st_pending s of
              None \<Rightarrow> Inr (s1, marks, [])
            | Some t \<Rightarrow> execute_target en session global_index report_index t marks pre_net_nav pre_weights s1)
       (\<lambda>(s2, post_marks, more).
     bindE (close_session en session (st_pending s \<noteq> None) pre_gross_nav pre_net_nav post_marks (events @ more) s2)
       (\<lambda>s3. Inr (report_index, s3))))))))))"

definition session_step :: "('s, 'f) program \<Rightarrow> engine \<Rightarrow> string \<Rightarrow> ('s, 'f) strategy_state
    \<Rightarrow> py_error + ('s, 'f) strategy_state" where
  "session_step decide en session s =
     bindE (trade_session en session s) (\<lambda>(report_index, t).
     decide_session decide en session report_index (int (length (fills (st_book s))))
       (int (length (rejections (st_book s)))) t)"

definition run_sessions :: "('s, 'f) program \<Rightarrow> engine \<Rightarrow> string list \<Rightarrow> ('s, 'f) strategy_state
    \<Rightarrow> py_error + ('s, 'f) strategy_state" where
  "run_sessions decide en = foldE (session_step decide en)"

section \<open>Start, continuation and payload\<close>

text \<open>
  \<open>definition\<close> as the code reads it: the decimals of the initial cash and of the costs.
\<close>

record raw_costs =
  raw_commission_rate :: pydec
  raw_commission_min :: pydec
  raw_stamp_duty :: pydec
  raw_transfer_fee :: pydec
  raw_slippage :: pydec

definition check_initial_cash :: "pydec \<Rightarrow> py_error + dec" where
  "check_initial_cash v =
     (case v of
        Finite d \<Rightarrow>
          if dle d dzero \<or> dlt MAX_INITIAL_CASH_CNY d \<or> expo d < -2
          then Inl (StrategyCalculationError ''invalid Initial Cash'' []) else Inr d
      | _ \<Rightarrow> Inl (StrategyCalculationError ''invalid Initial Cash'' []))"

definition check_cost :: "pydec \<Rightarrow> py_error + dec" where
  "check_cost v =
     (case v of
        Finite d \<Rightarrow> if dlt d dzero
          then Inl (StrategyCalculationError ''Simulation costs must be finite and non-negative'' []) else Inr d
      | _ \<Rightarrow> Inl (StrategyCalculationError ''Simulation costs must be finite and non-negative'' []))"

definition check_costs :: "raw_costs \<Rightarrow> py_error + costs" where
  "check_costs r =
     bindE (check_cost (raw_commission_rate r)) (\<lambda>a.
     bindE (check_cost (raw_commission_min r)) (\<lambda>b.
     bindE (check_cost (raw_stamp_duty r)) (\<lambda>c.
     bindE (check_cost (raw_transfer_fee r)) (\<lambda>d.
     bindE (check_cost (raw_slippage r)) (\<lambda>e.
     bindE (raiseIf (dle (dec_of_int 10000) e)
              (StrategyCalculationError ''Price slippage must be less than 10000 basis points'' [])) (\<lambda>_.
     Inr \<lparr>commission_rate_all_in = a, commission_min_cny = b, stamp_duty_sell_rate = c,
          transfer_fee_rate = d, slippage_bps = e\<rparr>))))))"

text \<open>
  The rows a run returns, which is also what a continuation holds. The metric state is the
  subject of \<open>Metrics\<close>; here only its initial cash and whether it is there matter.
\<close>

record ('s, 'f) payload =
  pay_decision :: "'s option"
  pay_checksum :: string
  pay_pending :: "pending_target option"
  pay_initial_cash :: dec
  pay_daily :: "daily_row list"
  pay_positions :: positions
  pay_target_events :: "(ident \<times> pending_target) list"
  pay_framework_events :: "(ident \<times> string \<times> ident option \<times> 'f) list"
  pay_orders :: "order_row list"
  pay_children :: "child_row list"
  pay_fills :: "fill_row list"
  pay_rebalances :: "rebalance_event list"
  pay_rejections :: "rejection_row list"
  pay_diagnostics :: "diagnostic list"
  pay_constraints :: "constraint_row list"

record ('s, 'f) continuation =
  co_payload :: "('s, 'f) payload"
  co_report_sessions :: "int option"
  co_turnovers :: "(string \<times> rat) list"
  co_metric_initial_cash :: "dec option"

definition run_payload :: "string \<Rightarrow> dec \<Rightarrow> ('s, 'f) strategy_state \<Rightarrow> py_error + ('s, 'f) payload" where
  "run_payload checksum initial_cash s =
     bindE (position_payload (positions (st_book s))) (\<lambda>ps.
     Inr \<lparr>pay_decision = st_decision s, pay_checksum = checksum, pay_pending = st_pending s,
          pay_initial_cash = canon initial_cash, pay_daily = st_daily s, pay_positions = ps,
          pay_target_events = st_target_events s, pay_framework_events = st_framework_events s,
          pay_orders = orders (st_book s), pay_children = child_orders (st_book s),
          pay_fills = fills (st_book s), pay_rebalances = st_rebalances s,
          pay_rejections = rejections (st_book s), pay_diagnostics = st_diagnostics s,
          pay_constraints = st_constraints s\<rparr>)"

definition fresh_state :: "dec \<Rightarrow> ('s, 'f) strategy_state" where
  "fresh_state initial_cash =
     \<lparr>st_book = \<lparr>positions = [], gross_cash = initial_cash, net_cash = initial_cash, orders = [],
        child_orders = [], fills = [], rejections = []\<rparr>,
      st_cumulative_cost = dzero, st_daily = [], st_diagnostics = [], st_constraints = [],
      st_rebalances = [], st_turnovers = [], st_decision = None, st_pending = None,
      st_target_events = [], st_framework_events = []\<rparr>"

text \<open>Positions are read back into a dictionary, row after row.\<close>

definition resumed_state :: "('s, 'f) continuation \<Rightarrow> ('s, 'f) strategy_state" where
  "resumed_state c =
     (let p = co_payload c; row = last (pay_daily p) in
      \<lparr>st_book = \<lparr>positions = foldl (\<lambda>d (i, x). AList.update i x d) [] (pay_positions p),
         gross_cash = day_gross_cash row, net_cash = day_net_cash row, orders = pay_orders p,
         child_orders = pay_children p, fills = pay_fills p, rejections = pay_rejections p\<rparr>,
       st_cumulative_cost = day_cumulative_cost row, st_daily = pay_daily p,
       st_diagnostics = pay_diagnostics p, st_constraints = pay_constraints p,
       st_rebalances = pay_rebalances p,
       st_turnovers = (if co_metric_initial_cash c = None then co_turnovers c else []),
       st_decision = pay_decision p, st_pending = pay_pending p,
       st_target_events = pay_target_events p, st_framework_events = pay_framework_events p\<rparr>)"

text \<open>Where the report starts: \<open>processing_start\<close> and \<open>origin_index\<close>.\<close>

definition report_start :: "string list \<Rightarrow> string option \<Rightarrow> ('s, 'f) continuation option \<Rightarrow> py_error + int \<times> int" where
  "report_start calendar origin cont =
     (case cont of
        None \<Rightarrow>
          (case origin of
             None \<Rightarrow> Inl (StrategyCalculationError ''Strategy requires an explicit origin session'' [])
           | Some o1 \<Rightarrow> bindE (index_of calendar o1) (\<lambda>i. Inr (i, i)))
      | Some c \<Rightarrow>
          (let daily = pay_daily (co_payload c) in
           bindE (raiseIf (daily = [])
                    (StrategyCalculationError ''continuation has no Strategy history'' [])) (\<lambda>_.
           bindE (index_of calendar (day_session (last daily))) (\<lambda>i.
           let count = (case co_report_sessions c of None \<Rightarrow> int (length daily) | Some n \<Rightarrow> n) in
           bindE (raiseIf (count < int (length daily))
                    (StrategyCalculationError ''continuation report session count is invalid'' [])) (\<lambda>_.
           Inr (i + 1, i + 1 - count))))))"

definition start_state :: "string \<Rightarrow> dec \<Rightarrow> ('s, 'f) continuation option \<Rightarrow> py_error + ('s, 'f) strategy_state" where
  "start_state checksum initial_cash cont =
     (case cont of
        None \<Rightarrow> Inr (fresh_state initial_cash)
      | Some c \<Rightarrow>
          bindE (raiseIf (pay_checksum (co_payload c) \<noteq> checksum)
                   (StrategyCalculationError ''Continuation differs from Strategy contract'' [])) (\<lambda>_.
          bindE (case pay_pending (co_payload c) of
                   None \<Rightarrow> Inr ()
                 | Some t \<Rightarrow>
                     bindE (validate_pending_target t) (\<lambda>_.
                     raiseIf (pt_contract_checksum t \<noteq> checksum)
                       (StrategyCalculationError ''Pending decision differs from Strategy contract'' []))) (\<lambda>_.
          Inr (resumed_state c))))"

text \<open>
  The whole of \<open>_execute_strategy\<close>. The program is the one \<open>prepare_daily_strategy\<close> returns.
\<close>

definition execute_strategy :: "('s, 'f) program \<Rightarrow> market \<Rightarrow> string list \<Rightarrow> string \<Rightarrow> pydec \<Rightarrow> raw_costs
    \<Rightarrow> string option \<Rightarrow> ('s, 'f) continuation option
    \<Rightarrow> py_error + ('s, 'f) payload \<times> ('s, 'f) strategy_state" where
  "execute_strategy decide mkt calendar checksum initial raw origin cont =
     bindE (report_start calendar origin cont) (\<lambda>(processing_start, origin_index).
     bindE (check_initial_cash initial) (\<lambda>initial_cash.
     bindE (case cont of None \<Rightarrow> Inr ()
            | Some c \<Rightarrow>
                raiseIf (\<not> deq (case co_metric_initial_cash c of None \<Rightarrow> pay_initial_cash (co_payload c) | Some m \<Rightarrow> m)
                             initial_cash)
                  (StrategyCalculationError ''continuation Initial Cash differs from account baseline'' [])) (\<lambda>_.
     bindE (check_costs raw) (\<lambda>costs.
     bindE (start_state checksum initial_cash cont) (\<lambda>s.
     let en = \<lparr>en_market = mkt, en_calendar = calendar, en_origin_index = origin_index,
               en_costs = costs, en_checksum = checksum\<rparr> in
     bindE (run_sessions decide en (drop (nat processing_start) calendar) s) (\<lambda>t.
     bindE (run_payload checksum initial_cash t) (\<lambda>p. Inr (p, t))))))))"

section \<open>What a session does to the account\<close>

lemma plan_target_limits:
  assumes "plan_target en signal t ps marks nav = Inr tp"
  shows "tp_limits tp = pt_position_limits t"
  using assms unfolding plan_target_def Let_def
  by (elim bindE_InrE) (simp split: prod.splits, elim bindE_InrE, auto)

lemma check_pending_limits:
  assumes "check_pending en ps t = Inr u"
  shows "\<forall>m\<in>snd ` set (pt_position_limits t). 0 \<le> m"
  using assms by (force simp: check_pending_def validate_pending_target_def)

lemma execute_target_session:
  assumes "execute_target en session gi ri t marks nav weights s = Inr (s', marks', ev)"
    and "account_ok (st_book s)" "\<forall>m\<in>snd ` set (pt_position_limits t). 0 \<le> m"
  obtains sells buys fs row where
    "session_trades (en_market en) session (sells @ buys) fs ev (st_book s) (st_book s')"
    and "st_rebalances s' = st_rebalances s @ [row]" and "st_daily s' = st_daily s" and "st_pending s' = st_pending s"
    and "reb_side_order row = map order_side (sells @ buys)" and "reb_fill_count row = int (length fs)"
    and "\<forall>r\<in>set sells. order_side r = Sell" and "\<forall>r\<in>set buys. order_side r = Buy"
proof -
  let ?start = "\<lambda>tp. \<lparr>fr_book = st_book s, fr_cost = st_cumulative_cost s, fr_constraints = st_constraints s,
      fr_diagnostics = st_diagnostics s @ (if (case pt_allocation t of None \<Rightarrow> False
                    | Some a \<Rightarrow> alloc_instrument_ids a = [] \<and> alloc_retained a = [])
         then [InsufficientCandidates session] else []),
      fr_intended = [], fr_sides = [], fr_budget = dzero\<rparr>"
  obtain tp st where tp: "plan_target en (py_nth (en_calendar en) (gi - 1)) t (positions (st_book s)) marks nav = Inr tp"
    and r: "rebalance en session tp marks (?start tp) = Inr st"
    and rest: "(case st of (f, events1) \<Rightarrow>
      bindE (mark_positions session (en_market en) (positions (fr_book f))) (\<lambda>(ps, post_marks, events2).
      bindE (sum_position_values ps post_marks) (\<lambda>stock.
      bindE (bindE (def_add (net_cash ((fr_book f)\<lparr>positions := ps\<rparr>)) stock) money) (\<lambda>post_net_nav.
      bindE (account_weights (net_cash ((fr_book f)\<lparr>positions := ps\<rparr>)) post_net_nav ps post_marks) (\<lambda>post_weights.
      bindE (weight_turnover weights post_weights) (\<lambda>turnover.
      bindE (event_weights tp nav) (\<lambda>target_weights.
      Inr (s\<lparr>st_book := (fr_book f)\<lparr>positions := ps\<rparr>, st_cumulative_cost := fr_cost f, st_constraints := fr_constraints f,
            st_diagnostics := fr_diagnostics f,
            st_turnovers := st_turnovers s @ [(session, turnover)],
            st_rebalances := st_rebalances s @ [\<lparr>reb_session = session,
              reb_signal_session = py_nth (en_calendar en) (gi - 1),
              reb_side_order = fr_sides f,
              reb_fill_count = int (length (fills ((fr_book f)\<lparr>positions := ps\<rparr>))) - int (length (fills (st_book s))),
              reb_turnover = turnover, reb_target_weights = target_weights,
              reb_actual_weights = filter (\<lambda>(k, _). k \<noteq> ''cash'') post_weights\<rparr>]\<rparr>,
          post_marks, events1 @ events2)))))))) = Inr (s', marks', ev)"
    using assms(1) unfolding execute_target_def Let_def by (elim bindE_InrE) (rule that)
  obtain f e1 where st: "st = (f, e1)" by (cases st)
  obtain st2 where m: "mark_positions session (en_market en) (positions (fr_book f)) = Inr st2"
    and rest2: "(case st2 of (ps, post_marks, events2) \<Rightarrow> ev = e1 @ events2 \<and> (\<exists>turnover weights actual.
      s' = s\<lparr>st_book := (fr_book f)\<lparr>positions := ps\<rparr>, st_cumulative_cost := fr_cost f, st_constraints := fr_constraints f,
            st_diagnostics := fr_diagnostics f, st_turnovers := st_turnovers s @ [(session, turnover)],
            st_rebalances := st_rebalances s @ [\<lparr>reb_session = session,
              reb_signal_session = py_nth (en_calendar en) (gi - 1), reb_side_order = fr_sides f,
              reb_fill_count = int (length (fills (fr_book f))) - int (length (fills (st_book s))),
              reb_turnover = turnover, reb_target_weights = weights, reb_actual_weights = actual\<rparr>]\<rparr>))"
    using rest unfolding st prod.case
    by (elim bindE_InrE) (auto split: prod.splits elim!: bindE_InrE intro: that)
  obtain ps pm e2 where st2: "st2 = (ps, pm, e2)" by (cases st2)
  have lim: "limits_ok tp" using assms(3) plan_target_limits [OF tp] by (simp add: limits_ok_def)
  obtain sells buys fs where
    1: "session_trades (en_market en) session (sells @ buys) fs e1 (st_book s) (fr_book f)"
      "fr_sides f = map order_side (sells @ buys)"
      "\<forall>r\<in>set sells. order_side r = Sell" "\<forall>r\<in>set buys. order_side r = Buy"
    using rebalance_session [OF r [unfolded st] _ lim] assms(2) by auto
  have 2: "session_trades (en_market en) session [] [] e2 (fr_book f) ((fr_book f)\<lparr>positions := ps\<rparr>)"
    using marks_session [OF m [unfolded st2]] 1(1) by (simp add: session_trades_def)
  have "fills (fr_book f) = fills (st_book s) @ fs" using 1(1) by (simp add: session_trades_def)
  then have n: "int (length (fills (fr_book f))) - int (length (fills (st_book s))) = int (length fs)" by simp
  obtain turnover weights actual where ev: "ev = e1 @ e2" and
    s': "s' = s\<lparr>st_book := (fr_book f)\<lparr>positions := ps\<rparr>, st_cumulative_cost := fr_cost f, st_constraints := fr_constraints f,
            st_diagnostics := fr_diagnostics f, st_turnovers := st_turnovers s @ [(session, turnover)],
            st_rebalances := st_rebalances s @ [\<lparr>reb_session = session,
              reb_signal_session = py_nth (en_calendar en) (gi - 1), reb_side_order = map order_side (sells @ buys),
              reb_fill_count = int (length fs),
              reb_turnover = turnover, reb_target_weights = weights, reb_actual_weights = actual\<rparr>]\<rparr>"
    using rest2 unfolding st2 prod.case n 1(2) by blast
  show thesis
    by (rule that [OF _ _ _ _ _ _ 1(3,4), where row = "\<lparr>reb_session = session,
              reb_signal_session = py_nth (en_calendar en) (gi - 1), reb_side_order = map order_side (sells @ buys),
              reb_fill_count = int (length fs),
              reb_turnover = turnover, reb_target_weights = weights, reb_actual_weights = actual\<rparr>" and fs = fs])
      (use session_trades_trans [OF 1(1) 2] in \<open>simp_all add: s' ev\<close>)
qed

text \<open>The end of a session leaves rows and shares alone.\<close>

lemma close_shares:
  assumes "foldE (mark_close session mkt) items (ps, marks) = Inr (ps', marks')"
    and "\<forall>(i, p)\<in>set items. shares_held ps i = execution_shares p" "positions_ok ps"
    and "\<forall>(i, p)\<in>set items. 0 < execution_shares p"
  shows "shares_held ps' = shares_held ps \<and> positions_ok ps' \<and> (map fst ps' = map fst ps)"
  using assms
proof (induction items arbitrary: ps marks)
  case (Cons item items)
  obtain i p where i: "item = (i, p)" by (cases item)
  obtain ps1 m1 where s: "mark_close session mkt item (ps, marks) = Inr (ps1, m1)"
    "foldE (mark_close session mkt) items (ps1, m1) = Inr (ps', marks')"
    using Cons.prems(1) by auto
  have held: "shares_held ps i = execution_shares p" "0 < execution_shares p" using Cons.prems(2,4) i by auto
  have "ps1 = ps \<or> (\<exists>m. ps1 = AList.update i (p\<lparr>last_close_adjusted_price := Some m\<rparr>) ps)"
    using s(1) by (auto simp: mark_close_def i Let_def split: option.splits pydec.splits if_splits)
  then have "shares_held ps1 = shares_held ps \<and> positions_ok ps1 \<and> map fst ps1 = map fst ps"
  proof (elim disjE exE)
    fix m assume u: "ps1 = AList.update i (p\<lparr>last_close_adjusted_price := Some m\<rparr>) ps"
    have "i \<in> fst ` set ps"
    proof (rule ccontr)
      assume "i \<notin> fst ` set ps"
      then have "map_of ps i = None" by (simp add: map_of_eq_None_iff)
      then show False using held by (simp add: shares_held_def)
    qed
    then show ?thesis using u held Cons.prems(3)
      by (auto simp: shares_held_def fun_eq_iff keys_update_present positions_ok_update)
  qed (use Cons.prems in simp)
  with Cons.IH [OF s(2)] Cons.prems show ?case by auto
qed simp

lemma close_positions:
  assumes "mark_close_positions session mkt ps = Inr (ps', marks)" "positions_ok ps"
  shows "shares_held ps' = shares_held ps" and "positions_ok ps'" and "map fst ps' = map fst ps"
proof -
  have "\<forall>(i, p)\<in>set ps. shares_held ps i = execution_shares p" "\<forall>(i, p)\<in>set ps. 0 < execution_shares p"
    using assms(2) by (auto simp: shares_held_def positions_ok_def)
  from close_shares [OF assms(1) [unfolded mark_close_positions_def] this(1) assms(2) this(2)]
  show "shares_held ps' = shares_held ps" "positions_ok ps'" "map fst ps' = map fst ps" by simp_all
qed

lemma aged_positions:
  fixes ps :: positions
  defines "aged \<equiv> map (\<lambda>(i, p). (i, p\<lparr>holding_age := holding_age p + 1\<rparr>)) ps"
  shows "positions_ok aged = positions_ok ps" and "shares_held aged = shares_held ps"
proof -
  have "map_of aged i = map_option (\<lambda>p. p\<lparr>holding_age := holding_age p + 1\<rparr>) (map_of ps i)" for i
    unfolding aged_def by (induction ps) auto
  then show "shares_held aged = shares_held ps" by (auto simp: shares_held_def fun_eq_iff split: option.splits)
  show "positions_ok aged = positions_ok ps"
    unfolding aged_def positions_ok_def by (auto simp: o_def case_prod_beta)
qed

lemma unique_from_keys:
  "(\<lambda>e. (ve_session e, ve_instrument e, ve_type e)) ` set (unique_from seen ev) =
   (\<lambda>e. (ve_session e, ve_instrument e, ve_type e)) ` set ev - set seen"
  by (induction seen ev rule: unique_from.induct) (auto simp: Let_def List.member_iff)

lemma written_off_unique [simp]: "written_off i (unique_events ev) = written_off i ev"
proof -
  have "written_off i es \<longleftrightarrow> (\<exists>s. (s, i, ''terminal_delisting_writeoff'') \<in>
      (\<lambda>e. (ve_session e, ve_instrument e, ve_type e)) ` set es)" for es
    by (auto simp: written_off_def image_iff) metis
  then show ?thesis by (simp add: unique_events_def unique_from_keys)
qed

lemma close_session_result:
  assumes "close_session en session reb gross net marks ev s = Inr t" "account_ok (st_book s)"
  obtains ps row where "st_book t = (st_book s)\<lparr>positions := ps\<rparr>"
    and "shares_held ps = shares_held (positions (st_book s))" and "positions_ok ps"
    and "st_daily t = st_daily s @ [row]" and "day_session row = session" and "day_rebalance row = reb"
    and "day_net_cash row = canon (net_cash (st_book s))" and "0 \<le> dval (net_cash (st_book s))"
    and "day_valuation_events row = unique_events ev"
    and "st_rebalances t = st_rebalances s" and "st_pending t = st_pending s"
proof -
  let ?aged = "map (\<lambda>(i, p). (i, p\<lparr>holding_age := holding_age p + 1\<rparr>)) (positions (st_book s))"
  obtain st gross_nav net_nav max_weight cash_ratio residual u where
    m: "mark_close_positions session (en_market en) ?aged = Inr st"
    and c: "raiseIf (dlt (net_cash (st_book s)) dzero)
      (StrategyCalculationError ''Net Cash became negative'' []) = Inr u"
    and rest: "(case st of (ps, close_marks) \<Rightarrow>
      bindE (sum_position_values ps close_marks) (\<lambda>close_stock.
      bindE (bindE (def_add (net_cash (st_book s)) close_stock) money) (\<lambda>close_risk_nav.
      bindE (ratio_return gross_nav (if st_daily s = [] then gross_nav else day_gross_nav (last (st_daily s)))) (\<lambda>gross_return.
      bindE (ratio_return net_nav (if st_daily s = [] then net_nav else day_net_nav (last (st_daily s)))) (\<lambda>net_return.
      Inr (s\<lparr>st_book := (st_book s)\<lparr>positions := ps\<rparr>,
             st_daily := st_daily s @ [\<lparr>day_session = session, day_rebalance = reb,
               day_pre_gross_nav = canon gross, day_pre_net_nav = canon net,
               day_gross_nav = canon gross_nav, day_net_nav = canon net_nav,
               day_close_risk_nav = canon close_risk_nav, day_gross_return = gross_return,
               day_net_return = net_return, day_gross_cash = canon (gross_cash (st_book s)),
               day_net_cash = canon (net_cash (st_book s)), day_cumulative_cost = canon (st_cumulative_cost s),
               day_holdings = int (length (positions (st_book s))), day_max_weight = max_weight,
               day_cash_ratio = cash_ratio, day_residual = canon residual,
               day_valuation_events = unique_events ev\<rparr>]\<rparr>)))))) = Inr t"
    using assms(1) unfolding close_session_def Let_def by (elim bindE_InrE) (rule that)
  obtain ps marks' where st: "st = (ps, marks')" by (cases st)
  have ps: "shares_held ps = shares_held (positions (st_book s))" "positions_ok ps"
    using close_positions [OF m [unfolded st]] assms(2) aged_positions [of "positions (st_book s)"] by auto
  have "0 \<le> dval (net_cash (st_book s))" using c by (simp add: dlt_val not_less)
  obtain risk gross_return net_return where "s\<lparr>st_book := (st_book s)\<lparr>positions := ps\<rparr>,
             st_daily := st_daily s @ [\<lparr>day_session = session, day_rebalance = reb,
               day_pre_gross_nav = canon gross, day_pre_net_nav = canon net,
               day_gross_nav = canon gross_nav, day_net_nav = canon net_nav,
               day_close_risk_nav = canon risk, day_gross_return = gross_return,
               day_net_return = net_return, day_gross_cash = canon (gross_cash (st_book s)),
               day_net_cash = canon (net_cash (st_book s)), day_cumulative_cost = canon (st_cumulative_cost s),
               day_holdings = int (length (positions (st_book s))), day_max_weight = max_weight,
               day_cash_ratio = cash_ratio, day_residual = canon residual,
               day_valuation_events = unique_events ev\<rparr>]\<rparr> = t"
    using rest unfolding st prod.case by (elim bindE_InrE) simp
  note t = this [symmetric]
  show thesis using ps \<open>0 \<le> dval (net_cash (st_book s))\<close>
    by (intro that [where ps = ps and row = "last (st_daily t)"]) (simp_all add: t)
qed

section \<open>One session: properties\<close>

lemma session_trades_unique: "session_trades mkt session os fs (unique_events ev) b c = session_trades mkt session os fs ev b c"
  by (simp add: session_trades_def)

lemma trade_session_result:
  assumes "trade_session en session s = Inr (ri, t)" "account_ok (st_book s)"
  obtains sells buys fs row where
    "session_trades (en_market en) session (sells @ buys) fs (day_valuation_events row) (st_book s) (st_book t)"
    and "st_daily t = st_daily s @ [row]" and "day_session row = session"
    and "day_rebalance row = (st_pending s \<noteq> None)"
    and "day_net_cash row = canon (net_cash (st_book t))" and "0 \<le> dval (net_cash (st_book t))"
    and "\<forall>r\<in>set sells. order_side r = Sell" and "\<forall>r\<in>set buys. order_side r = Buy"
    and "if st_pending s = None
      then sells = [] \<and> buys = [] \<and> fs = [] \<and> net_cash (st_book t) = net_cash (st_book s) \<and>
        gross_cash (st_book t) = gross_cash (st_book s) \<and> st_rebalances t = st_rebalances s
      else \<exists>e. st_rebalances t = st_rebalances s @ [e] \<and> reb_side_order e = map order_side (sells @ buys) \<and>
        reb_fill_count e = int (length fs)"
proof -
  obtain u gi st where c: "(case st_pending s of None \<Rightarrow> Inr () | Some t \<Rightarrow> check_pending en (positions (st_book s)) t) = Inr u"
    and m: "mark_positions session (en_market en) (positions (st_book s)) = Inr st"
    and rest: "(case st of (ps, marks, events) \<Rightarrow>
     bindE (sum_position_values ps marks) (\<lambda>stock.
     bindE (bindE (def_add (gross_cash ((st_book s)\<lparr>positions := ps\<rparr>)) stock) money) (\<lambda>pre_gross_nav.
     bindE (bindE (def_add (net_cash ((st_book s)\<lparr>positions := ps\<rparr>)) stock) money) (\<lambda>pre_net_nav.
     bindE (account_weights (net_cash ((st_book s)\<lparr>positions := ps\<rparr>)) pre_net_nav ps marks) (\<lambda>pre_weights.
     bindE (case st_pending s of
              None \<Rightarrow> Inr (s\<lparr>st_book := (st_book s)\<lparr>positions := ps\<rparr>\<rparr>, marks, [])
            | Some t \<Rightarrow> execute_target en session gi (gi - en_origin_index en) t marks pre_net_nav pre_weights
                (s\<lparr>st_book := (st_book s)\<lparr>positions := ps\<rparr>\<rparr>))
       (\<lambda>(s2, post_marks, ev2).
     bindE (close_session en session (st_pending s \<noteq> None) pre_gross_nav pre_net_nav post_marks (events @ ev2) s2)
       (\<lambda>s3. Inr (gi - en_origin_index en, s3)))))))) = Inr (ri, t)"
    using assms(1) unfolding trade_session_def Let_def by (elim bindE_InrE) (rule that)
  obtain ps marks ev1 where st: "st = (ps, marks, ev1)" by (cases st)
  let ?b = "(st_book s)\<lparr>positions := ps\<rparr>"
  note 1 = marks_session [OF m [unfolded st] assms(2)]
  obtain pre_gross pre_net weights st2 where
    e: "(case st_pending s of
              None \<Rightarrow> Inr (s\<lparr>st_book := ?b\<rparr>, marks, [])
            | Some t \<Rightarrow> execute_target en session gi (gi - en_origin_index en) t marks pre_net weights
                (s\<lparr>st_book := ?b\<rparr>)) = Inr st2"
    and rest2: "(case st2 of (s2, post_marks, ev2) \<Rightarrow>
     bindE (close_session en session (st_pending s \<noteq> None) pre_gross pre_net post_marks (ev1 @ ev2) s2)
       (\<lambda>s3. Inr (gi - en_origin_index en, s3))) = Inr (ri, t)"
    using rest unfolding st prod.case by (elim bindE_InrE) (rule that)
  obtain s2 post ev2 where st2: "st2 = (s2, post, ev2)" by (cases st2)
  have cl: "close_session en session (st_pending s \<noteq> None) pre_gross pre_net post (ev1 @ ev2) s2 = Inr t"
    using rest2 unfolding st2 prod.case by auto
  obtain sells buys fs where 2: "session_trades (en_market en) session (sells @ buys) fs ev2 ?b (st_book s2)"
    "st_daily s2 = st_daily s" "\<forall>r\<in>set sells. order_side r = Sell" "\<forall>r\<in>set buys. order_side r = Buy"
    "if st_pending s = None
      then sells = [] \<and> buys = [] \<and> fs = [] \<and> net_cash (st_book s2) = net_cash (st_book s) \<and>
        gross_cash (st_book s2) = gross_cash (st_book s) \<and> st_rebalances s2 = st_rebalances s
      else \<exists>e. st_rebalances s2 = st_rebalances s @ [e] \<and> reb_side_order e = map order_side (sells @ buys) \<and>
        reb_fill_count e = int (length fs)"
  proof (cases "st_pending s")
    case None
    then have s2: "s2 = s\<lparr>st_book := ?b\<rparr>" "ev2 = []" using e by (simp_all add: st2)
    show thesis
      by (rule that [of "[]" "[]" "[]"]) (use None 1 in \<open>simp_all add: s2 session_trades_def\<close>)
  next
    case (Some target)
    have x: "execute_target en session gi (gi - en_origin_index en) target marks pre_net weights (s\<lparr>st_book := ?b\<rparr>)
        = Inr (s2, post, ev2)" using e by (simp add: Some st2)
    have "account_ok (st_book (s\<lparr>st_book := ?b\<rparr>))" using 1 by (simp add: session_trades_def)
    from execute_target_session [OF x this check_pending_limits [OF c [unfolded Some option.case]]]
    obtain sells buys fs row where
      "session_trades (en_market en) session (sells @ buys) fs ev2 (st_book (s\<lparr>st_book := ?b\<rparr>)) (st_book s2)"
      "st_rebalances s2 = st_rebalances (s\<lparr>st_book := ?b\<rparr>) @ [row]" "st_daily s2 = st_daily (s\<lparr>st_book := ?b\<rparr>)"
      "reb_side_order row = map order_side (sells @ buys)" "reb_fill_count row = int (length fs)"
      "\<forall>r\<in>set sells. order_side r = Sell" "\<forall>r\<in>set buys. order_side r = Buy" by metis
    then show thesis by (intro that [of sells buys fs]) (simp_all add: Some)
  qed
  note tr = session_trades_trans [OF 1 2(1), unfolded append_Nil]
  have "account_ok (st_book s2)" using tr by (simp add: session_trades_def)
  from close_session_result [OF cl this] obtain ps' row where
    3: "st_book t = (st_book s2)\<lparr>positions := ps'\<rparr>" "shares_held ps' = shares_held (positions (st_book s2))"
      "positions_ok ps'" "st_daily t = st_daily s2 @ [row]" "day_session row = session"
      "day_rebalance row = (st_pending s \<noteq> None)" "day_net_cash row = canon (net_cash (st_book s2))"
      "0 \<le> dval (net_cash (st_book s2))" "day_valuation_events row = unique_events (ev1 @ ev2)"
      "st_rebalances t = st_rebalances s2" by metis
  have "session_trades (en_market en) session (sells @ buys) fs (day_valuation_events row) (st_book s) (st_book t)"
    unfolding 3(9) session_trades_unique using tr 3(1-3) by (simp add: session_trades_def)
  moreover have "if st_pending s = None
      then sells = [] \<and> buys = [] \<and> fs = [] \<and> net_cash (st_book t) = net_cash (st_book s) \<and>
        gross_cash (st_book t) = gross_cash (st_book s) \<and> st_rebalances t = st_rebalances s
      else \<exists>e. st_rebalances t = st_rebalances s @ [e] \<and> reb_side_order e = map order_side (sells @ buys) \<and>
        reb_fill_count e = int (length fs)"
  proof (cases "st_pending s = None")
    case True
    then show ?thesis using 2(5) 3(1,10) by simp
  next
    case False
    show ?thesis using 2(5) unfolding 3(10) if_not_P [OF False] .
  qed
  ultimately show thesis by (intro that [of sells buys fs row]) (use 2(2-4) 3 in simp_all)
qed

text \<open>The state of a run: a proper account and rows that end with non-negative cash.\<close>

definition run_ok :: "('s, 'f) strategy_state \<Rightarrow> bool" where
  "run_ok s \<longleftrightarrow> account_ok (st_book s) \<and> (\<forall>row\<in>set (st_daily s). 0 \<le> dval (day_net_cash row))"

lemma decide_session_keeps:
  assumes "decide_session decide en session ri a b s = Inr t"
  shows "st_book t = st_book s" and "st_daily t = st_daily s"
  using assms unfolding decide_session_def Let_def by (auto elim!: bindE_InrE)

lemma session_step_rows:
  assumes "session_step decide en session s = Inr t" "run_ok s"
  shows "run_ok t" and "map day_session (st_daily t) = map day_session (st_daily s) @ [session]"
proof -
  obtain ri u where u: "trade_session en session s = Inr (ri, u)"
    and d: "decide_session decide en session ri (int (length (fills (st_book s))))
       (int (length (rejections (st_book s)))) u = Inr t"
    using assms(1) by (auto simp: session_step_def)
  have "account_ok (st_book s)" using assms(2) by (simp add: run_ok_def)
  from trade_session_result [OF u this] obtain sells buys fs row where
    r: "session_trades (en_market en) session (sells @ buys) fs (day_valuation_events row) (st_book s) (st_book u)"
      "st_daily u = st_daily s @ [row]" "day_session row = session"
      "day_net_cash row = canon (net_cash (st_book u))" "0 \<le> dval (net_cash (st_book u))" by metis
  with decide_session_keeps [OF d] assms(2)
  show "run_ok t" "map day_session (st_daily t) = map day_session (st_daily s) @ [session]"
    by (auto simp: run_ok_def session_trades_def)
qed

interpretation daily_run: loop_invariant "session_step decide en" "\<lambda>_. True" run_ok for decide en
  by unfold_locales (rule session_step_rows(1))

lemma run_sessions_rows:
  "run_sessions decide en sessions s = Inr t \<Longrightarrow> run_ok s \<Longrightarrow>
   map day_session (st_daily t) = map day_session (st_daily s) @ sessions"
  unfolding run_sessions_def
proof (induction sessions arbitrary: s)
  case (Cons x xs)
  then obtain u where "session_step decide en x s = Inr u" "foldE (session_step decide en) xs u = Inr t" by auto
  with Cons.IH [OF this(2)] Cons.prems(2) session_step_rows show ?case by fastforce
qed simp

section \<open>Sample runs\<close>

text \<open>Two sessions: the first decides to hold one instrument with half of the account, the second buys it.\<close>

definition sample_allocation :: target_allocation where
  "sample_allocation = \<lparr>alloc_mode = ''rebalance'', alloc_instrument_ids = [''600000.SH''],
     alloc_relative_weights = [(''600000.SH'', ''1'')], alloc_exposure = Finite (Dec 5 (- 1)), alloc_retained = []\<rparr>"

definition sample_target :: pending_target where
  "sample_target = \<lparr>pt_decision_session = ''2024-01-02'', pt_execution = ''next_research_session_open'',
     pt_contract_checksum = ''c'', pt_reason = ''r'', pt_allocation = Some sample_allocation,
     pt_position_limits = [], pt_maximum_stock_exposure = None\<rparr>"

definition sample_program :: "(unit, unit) program" where
  "sample_program session ri account fs rs previous =
     Inr \<lparr>dec_state = (), dec_target = (if session = ''2024-01-02'' then Some sample_target else None),
          dec_diagnostics = [], dec_framework = None\<rparr>"

definition sample_days :: "string list" where
  "sample_days = [''2023-12-29'', ''2024-01-02'', ''2024-01-03'']"

definition closing_market :: market where
  "closing_market = (sample_market (Dec 10 0))\<lparr>close_field := [(''2024-01-03'', ''600000.SH'') \<mapsto> Finite (Dec 101 (- 1))]\<rparr>"

definition sample_raw_costs :: raw_costs where
  "sample_raw_costs = \<lparr>raw_commission_rate = Finite (Dec 3 (- 4)), raw_commission_min = Finite (Dec 5 0),
     raw_stamp_duty = Finite (Dec 5 (- 4)), raw_transfer_fee = Finite (Dec 1 (- 5)), raw_slippage = Finite (Dec 5 0)\<rparr>"

definition sample_run :: "(unit, unit) payload \<times> (unit, unit) strategy_state" where
  "sample_run = projr (execute_strategy sample_program closing_market sample_days ''c'' (Finite (Dec 10000 0))
     sample_raw_costs (Some ''2024-01-02'') None)"

text \<open>A session that sells the one held share under a local target.\<close>

definition local_target :: pending_target where
  "local_target = \<lparr>pt_decision_session = ''2024-01-02'', pt_execution = ''next_research_session_open'',
     pt_contract_checksum = ''c'', pt_reason = ''r'', pt_allocation = None,
     pt_position_limits = [(''600000.SH'', 0)], pt_maximum_stock_exposure = None\<rparr>"

definition sample_engine :: engine where
  "sample_engine = \<lparr>en_market = sample_market (Dec 9 0), en_calendar = sample_days, en_origin_index = 1,
     en_costs = sample_costs\<lparr>slippage_bps := dzero\<rparr>, en_checksum = ''c''\<rparr>"

definition held_state :: "(unit, unit) strategy_state" where
  "held_state = (fresh_state (Dec 27 0))\<lparr>st_book := sample_book (Dec 27 0) [(''600000.SH'', one_share)],
     st_pending := Some local_target\<rparr>"

definition sold_session :: "int \<times> (unit, unit) strategy_state" where
  "sold_session = projr (trade_session sample_engine ''2024-01-03'' held_state)"



lemma sold_session: "trade_session sample_engine ''2024-01-03'' held_state = Inr (fst sold_session, snd sold_session)"
proof -
  have "\<not> isl (trade_session sample_engine ''2024-01-03'' held_state)" by code_simp
  then show ?thesis unfolding sold_session_def prod.collapse by (rule sum.collapse(2) [symmetric])
qed

lemma held_state: "account_ok (st_book held_state)" "orders (st_book held_state) = []" "fills (st_book held_state) = []"
    "st_pending held_state \<noteq> None" "shares_held (positions (st_book held_state)) ''600000.SH'' = 1"
    "st_rebalances held_state = []" "st_daily held_state = []"
  by (simp_all add: fresh_state_def held_state_def sample_book_def positions_ok_def one_share_def shares_held_def)

definition first_day :: "(unit, unit) payload \<times> (unit, unit) strategy_state" where
  "first_day = projr (execute_strategy sample_program closing_market [''2023-12-29'', ''2024-01-02''] ''c''
     (Finite (Dec 10000 0)) sample_raw_costs (Some ''2024-01-02'') None)"

lemma first_day: "execute_strategy sample_program closing_market [''2023-12-29'', ''2024-01-02''] ''c''
     (Finite (Dec 10000 0)) sample_raw_costs (Some ''2024-01-02'') None = Inr (fst first_day, snd first_day)"
proof -
  have "\<not> isl (execute_strategy sample_program closing_market [''2023-12-29'', ''2024-01-02''] ''c''
     (Finite (Dec 10000 0)) sample_raw_costs (Some ''2024-01-02'') None)" by code_simp
  then show ?thesis unfolding first_day_def prod.collapse by (rule sum.collapse(2) [symmetric])
qed

section \<open>Properties\<close>

text \<open>
  C9: A session changes the shares of an instrument by exactly the share changes of its new fills,
  after removing what its valuation events write off; every new fill belongs to an order of the
  same session that the market did not reject; and the positions stay a dictionary of positive
  holdings.
\<close>

theorem session_conserves_shares:
  assumes "trade_session en session s = Inr (ri, t)" and "account_ok (st_book s)"
  shows "\<exists>os fs row. orders (st_book t) = orders (st_book s) @ os \<and> fills (st_book t) = fills (st_book s) @ fs \<and>
    st_daily t = st_daily s @ [row] \<and> account_ok (st_book t) \<and>
    (\<forall>i. shares_held (positions (st_book t)) i =
       (if written_off i (day_valuation_events row) then 0 else shares_held (positions (st_book s)) i) + fill_delta i fs) \<and>
    (\<forall>f\<in>set fs. fill_session f = session \<and>
       (\<exists>r\<in>set os. fill_draft.fill_order f = order_ident r \<and> order_rejection r = None))"
proof (rule trade_session_result [OF assms])
  fix sells buys fs row
  assume "session_trades (en_market en) session (sells @ buys) fs (day_valuation_events row) (st_book s) (st_book t)"
    "st_daily t = st_daily s @ [row]"
  then show ?thesis
    by (intro exI [of _ "sells @ buys"] exI [of _ fs] exI [of _ row]) (simp add: session_trades_def fill_of_def)
qed

lemma session_conserves_shares_witness:
  "\<exists>fs row. fills (st_book (snd sold_session)) = fs \<and> st_daily (snd sold_session) = [row] \<and>
     list_all (\<lambda>f. fill_session f = ''2024-01-03'') fs \<and>
     shares_held (positions (st_book (snd sold_session))) ''600000.SH'' =
       (if written_off ''600000.SH'' (day_valuation_events row) then 0 else 1) + fill_delta ''600000.SH'' fs"
  using session_conserves_shares [OF sold_session held_state(1)]
  by (elim exE conjE) (simp add: held_state list_all_iff)


text \<open>
  C10: A session with a pending target records one rebalance event whose side order lists the sides
  of exactly the orders of the session, all sales before all purchases; a session without one
  submits nothing, fills nothing and leaves both cash balances as they were.
\<close>

theorem sales_precede_purchases:
  assumes "trade_session en session s = Inr (ri, t)" and "account_ok (st_book s)"
  shows "if st_pending s = None
    then orders (st_book t) = orders (st_book s) \<and> fills (st_book t) = fills (st_book s) \<and>
      net_cash (st_book t) = net_cash (st_book s) \<and> gross_cash (st_book t) = gross_cash (st_book s) \<and>
      st_rebalances t = st_rebalances s
    else \<exists>sells buys e. orders (st_book t) = orders (st_book s) @ sells @ buys \<and>
      (\<forall>r\<in>set sells. order_side r = Sell) \<and> (\<forall>r\<in>set buys. order_side r = Buy) \<and>
      st_rebalances t = st_rebalances s @ [e] \<and> reb_side_order e = map order_side (sells @ buys) \<and>
      reb_fill_count e = int (length (fills (st_book t))) - int (length (fills (st_book s)))"
proof (rule trade_session_result [OF assms])
  fix sells buys fs row
  assume "session_trades (en_market en) session (sells @ buys) fs (day_valuation_events row) (st_book s) (st_book t)"
  then have r: "orders (st_book t) = orders (st_book s) @ sells @ buys" "fills (st_book t) = fills (st_book s) @ fs"
    by (simp_all add: session_trades_def)
  assume sides: "\<forall>r\<in>set sells. order_side r = Sell" "\<forall>r\<in>set buys. order_side r = Buy"
  assume e: "if st_pending s = None
      then sells = [] \<and> buys = [] \<and> fs = [] \<and> net_cash (st_book t) = net_cash (st_book s) \<and>
        gross_cash (st_book t) = gross_cash (st_book s) \<and> st_rebalances t = st_rebalances s
      else \<exists>e. st_rebalances t = st_rebalances s @ [e] \<and> reb_side_order e = map order_side (sells @ buys) \<and>
        reb_fill_count e = int (length fs)"
  show ?thesis
  proof (cases "st_pending s = None")
    case True
    show ?thesis using e r unfolding if_P [OF True] by simp
  next
    case False
    have "int (length (fills (st_book t))) - int (length (fills (st_book s))) = int (length fs)" by (simp add: r)
    then show ?thesis using e r(1) sides unfolding if_not_P [OF False] by metis
  qed
qed

lemma sales_precede_purchases_witness:
  "\<exists>sells buys e. orders (st_book (snd sold_session)) = sells @ buys \<and>
     list_all (\<lambda>r. order_side r = Sell) sells \<and> list_all (\<lambda>r. order_side r = Buy) buys \<and>
     st_rebalances (snd sold_session) = [e] \<and> reb_side_order e = map order_side (sells @ buys)"
  using sales_precede_purchases [OF sold_session held_state(1)] unfolding if_not_P [OF held_state(4)]
  by (elim exE conjE) (auto simp: held_state list_all_iff)


text \<open>
  C11: A run from an origin returns one daily row per research session from the origin on, in
  order, never with negative net cash, and leaves a dictionary of positive holdings.
\<close>

theorem run_reports_every_session:
  assumes "execute_strategy decide mkt calendar checksum initial raw (Some origin) None = Inr (p, t)"
  shows "map day_session (pay_daily p) = dropWhile (\<lambda>x. x \<noteq> origin) calendar \<and>
    (\<forall>row\<in>set (pay_daily p). 0 \<le> dval (day_net_cash row)) \<and> positions_ok (positions (st_book t))"
proof -
  obtain i en cash where i: "index_of calendar origin = Inr i"
    and r: "run_sessions decide en (drop (nat i) calendar) (fresh_state cash) = Inr t"
    and p: "run_payload checksum cash t = Inr p"
    using assms unfolding execute_strategy_def Let_def
    by (auto simp: report_start_def start_state_def)
  have d: "drop (nat i) calendar = dropWhile (\<lambda>x. x \<noteq> origin) calendar \<and> 0 \<le> i"
    using i
  proof (induction calendar arbitrary: i)
    case (Cons y ys)
    show ?case
    proof (cases "y = origin")
      case False
      with Cons obtain j where "index_of ys origin = Inr j" "i = j + 1" by auto
      with Cons.IH [OF this(1)] False show ?thesis by (simp add: nat_add_distrib)
    qed (use Cons.prems in simp)
  qed simp
  have ok: "run_ok (fresh_state cash)" by (simp add: run_ok_def fresh_state_def positions_ok_def)
  have "pay_daily p = st_daily t" using p by (auto simp: run_payload_def)
  moreover have "run_ok t" by (rule daily_run.loop_keeps [OF _ ok r [unfolded run_sessions_def]]) simp
  ultimately show ?thesis
    using run_sessions_rows [OF r ok] d by (auto simp: run_ok_def fresh_state_def)
qed

lemma run_reports_every_session_witness:
  "map day_session (pay_daily (fst first_day)) = [''2024-01-02''] \<and>
   list_all (\<lambda>row. 0 \<le> dval (day_net_cash row)) (pay_daily (fst first_day))"
  using run_reports_every_session [OF first_day] by (simp add: list_all_iff)

end
