(* ===== verification/Boundaries.thy ===== *)
theory Boundaries
  imports Session
begin

text \<open>
  Where the components meet: a target a program returns is executable at the next Open, and a
  stored terminal state resumes at the session after it.
\<close>

section \<open>Program targets at the Open\<close>

text \<open>The account a program sees lists the shares of its holdings.\<close>

definition shown_holdings :: "positions \<Rightarrow> (string \<times> int) list" where
  "shown_holdings ps = map (\<lambda>(i, p). (i, execution_shares p)) ps"

lemma shown_holdings_of: "map_of (shown_holdings ps) i = map_option execution_shares (map_of ps i)"
  unfolding shown_holdings_def by (induction ps) auto

lemma program_target_checks:
  assumes "program_target out ctx checksum = Inr (Some t)"
  shows "validate_pending_target t = Inr ()" and "pt_contract_checksum t = checksum"
    and "pt_decision_session t = pc_session ctx"
    and "set (pt_instrument_ids t) \<subseteq> set (map fst (pc_holdings ctx) @ pc_candidates ctx)"
    and "\<forall>(i, m)\<in>set (pt_position_limits t). \<exists>n. map_of (pc_holdings ctx) i = Some n \<and> m \<le> n"
proof -
  obtain o1 where o1: "out = Some o1" using assms by (cases out) (simp_all add: program_target_def)
  have *: "validate_pending_target t = Inr () \<and> pt_contract_checksum t = checksum \<and>
    pt_decision_session t = pc_session ctx \<and>
    set (pt_instrument_ids t) \<subseteq> set (map fst (pc_holdings ctx) @ pc_candidates ctx) \<and>
    \<not> (\<exists>(i, m)\<in>set (pt_position_limits t). case map_of (pc_holdings ctx) i of None \<Rightarrow> True | Some shares \<Rightarrow> shares < m)"
    using assms unfolding program_target_def Let_def o1 option.case
    by (elim bindE_InrE) (simp only: raiseIf_Inr_iff not_not, auto)
  then show "validate_pending_target t = Inr ()" "pt_contract_checksum t = checksum"
    "pt_decision_session t = pc_session ctx"
    "set (pt_instrument_ids t) \<subseteq> set (map fst (pc_holdings ctx) @ pc_candidates ctx)" by blast+
  show "\<forall>(i, m)\<in>set (pt_position_limits t). \<exists>n. map_of (pc_holdings ctx) i = Some n \<and> m \<le> n"
    using * by (fastforce split: option.splits simp: not_less)
qed

section \<open>Positions in the calendar\<close>

lemma index_of_bounds: "index_of xs x = Inr i \<Longrightarrow> 0 \<le> i \<and> nat i < length xs \<and> xs ! nat i = x"
proof (induction xs arbitrary: i)
  case (Cons y ys)
  show ?case
  proof (cases "x = y")
    case False
    with Cons.prems obtain j where "index_of ys x = Inr j" "i = j + 1" by auto
    with Cons.IH [OF this(1)] show ?thesis by (simp add: nat_add_distrib)
  qed (use Cons.prems in auto)
qed simp

lemma index_of_nth: "distinct xs \<Longrightarrow> n < length xs \<Longrightarrow> index_of xs (xs ! n) = Inr (int n)"
proof (induction xs arbitrary: n)
  case (Cons y ys)
  then show ?case by (cases n) auto
qed simp

section \<open>Properties\<close>


definition shown_context :: program_context where
  "shown_context = \<lparr>pc_session = ''2024-01-02'', pc_holdings = [(''600000.SH'', 1)], pc_candidates = []\<rparr>"

definition sell_output :: program_output where
  "sell_output = \<lparr>out_is_dict = True, out_keys = [''reason'', ''allocation'', ''position_limits''],
     out_reason = ''r'', out_allocation = None, out_position_limits = [(''600000.SH'', 0)],
     out_maximum_stock_exposure = None\<rparr>"

definition sample_payload :: "pending_target \<Rightarrow> (unit, unit) payload" where
  "sample_payload t = \<lparr>pay_decision = None, pay_checksum = ''c'', pay_pending = Some t, pay_initial_cash = Dec 27 0,
     pay_daily = [], pay_positions = [(''600000.SH'', one_share)], pay_target_events = [],
     pay_framework_events = [], pay_orders = [], pay_children = [], pay_fills = [], pay_rebalances = [],
     pay_rejections = [], pay_diagnostics = [], pay_constraints = []\<rparr>"



definition sample_row :: daily_row where
  "sample_row = \<lparr>day_session = ''2024-01-02'', day_rebalance = False, day_pre_gross_nav = Dec 36 0,
     day_pre_net_nav = Dec 36 0, day_gross_nav = Dec 36 0, day_net_nav = Dec 36 0, day_close_risk_nav = Dec 36 0,
     day_gross_return = 0, day_net_return = 0, day_gross_cash = Dec 27 0, day_net_cash = Dec 27 0,
     day_cumulative_cost = dzero, day_holdings = 1, day_max_weight = 1 / 4, day_cash_ratio = 3 / 4,
     day_residual = dzero, day_valuation_events = []\<rparr>"

definition sample_terminal :: "unit terminal_state" where
  "sample_terminal = \<lparr>ts_session = ''2024-01-02'', ts_contract_checksum = ''c'', ts_report_session_count = 1,
     ts_decision = DirectDecision ''p'' (), ts_pending_target = Some local_target,
     ts_last_daily_session = ''2024-01-02'', ts_metric_last_session = ''2024-01-02'', ts_metric_session_count = 1\<rparr>"

definition sample_continuation :: "(unit, unit) continuation" where
  "sample_continuation = \<lparr>co_payload = (sample_payload local_target)\<lparr>pay_daily := [sample_row]\<rparr>,
     co_report_sessions = None, co_turnovers = [], co_metric_initial_cash = None\<rparr>"


end
