(* ===== verification/Floats.thy ===== *)
theory Floats
  imports Numeric
begin

text \<open>
  Binary64 arithmetic over \<open>float_of\<close>, which rounds a rational to the nearest float: quotient and
  product, the integer square root with a sticky last bit and the correctly rounded root of a
  rational, and the sample deviation of \<open>statistics\<close> and of \<open>research_kernel/strategy.py\<close>. The
  lemmas bound the rounding of positive numbers and show that small integers are floats.
\<close>

section \<open>Floats\<close>

function isqrt :: "int \<Rightarrow> int" where
  "isqrt n = (if n < 1 then 0 else let r = 2 * isqrt (n div 4) in if (r + 1) * (r + 1) \<le> n then r + 1 else r)"
  by pat_completeness auto
termination
  by (relation "measure nat") auto

declare isqrt.simps [simp del]

definition integer_sqrt_fraction_round_to_odd :: "int \<Rightarrow> int \<Rightarrow> int" where
  "integer_sqrt_fraction_round_to_odd numerator denominator =
     (let root = isqrt (numerator div denominator)
      in if root * root * denominator \<noteq> numerator \<and> root mod 2 = 0 then root + 1 else root)"

text \<open>
  The square root of a rational: the second half of \<open>_sample_stdev_from_exact_moments\<close>, and
  \<open>_float_sqrt_of_frac\<close> of the \<open>statistics\<close> module, which is the same algorithm.
\<close>

definition sqrt_fraction :: "rat \<Rightarrow> py_error + rat" where
  "sqrt_fraction variance =
     (case quotient_of variance of (numerator, denominator) \<Rightarrow>
      let bit_shift = (bit_length numerator - bit_length denominator - 109) div 2 in
      if 0 \<le> bit_shift then
        float_of (of_int (integer_sqrt_fraction_round_to_odd numerator (denominator * 2 ^ nat (2 * bit_shift))
                   * 2 ^ nat bit_shift))
      else
        float_of (of_int (integer_sqrt_fraction_round_to_odd (numerator * 2 ^ nat (- 2 * bit_shift)) denominator)
                   / of_int (2 ^ nat (- bit_shift))))"

definition sample_stdev_from_exact_moments :: "int \<Rightarrow> rat \<Rightarrow> rat \<Rightarrow> py_error + rat" where
  "sample_stdev_from_exact_moments count sum1 sum2 =
     bindE (raiseIf (count < 2)
              (StrategyCalculationError ''sample standard deviation requires two observations'' [])) (\<lambda>_.
     sqrt_fraction ((of_int count * sum2 - sum1 * sum1) / of_int count / (of_int count - 1)))"

text \<open>\<open>statistics.stdev\<close>: the exact sample variance about the exact mean, then the same root.\<close>

definition stdev :: "rat list \<Rightarrow> py_error + rat" where
  "stdev xs =
     (let mean = sum_list xs / of_int (int (length xs))
      in sqrt_fraction (sum_list (map (\<lambda>x. (x - mean)\<^sup>2) xs) / (of_int (int (length xs)) - 1)))"

definition fdiv :: "rat \<Rightarrow> rat \<Rightarrow> py_error + rat" where
  "fdiv a b = (if b = 0 then Inl ZeroDivisionError else float_of (a / b))"

definition fmul :: "rat \<Rightarrow> rat \<Rightarrow> py_error + rat" where
  "fmul a b = float_of (a * b)"

text \<open>\<open>math.sqrt(252)\<close>\<close>

definition sqrt_252 :: "py_error + rat" where
  "sqrt_252 = sqrt_fraction 252"

section \<open>Square roots\<close>

lemma isqrt_bounds: "0 \<le> n \<Longrightarrow> 0 \<le> isqrt n \<and> isqrt n * isqrt n \<le> n \<and> n < (isqrt n + 1) * (isqrt n + 1)"
proof (induction n rule: isqrt.induct)
  case (1 n)
  show ?case
  proof (cases "n < 1")
    case True
    then show ?thesis using 1(2) by (simp add: isqrt.simps [of n])
  next
    case False
    define q where "q = isqrt (n div 4)"
    have q: "0 \<le> q" "q * q \<le> n div 4" "n div 4 < (q + 1) * (q + 1)"
      using 1(1) False by (simp_all add: q_def)
    have n: "isqrt n = (if (2 * q + 1) * (2 * q + 1) \<le> n then 2 * q + 1 else 2 * q)"
      using False by (simp add: isqrt.simps [of n] q_def Let_def)
    have "4 * (n div 4) \<le> n" "n < 4 * (n div 4) + 4" by presburger+
    then have "4 * (q * q) \<le> n" "n < 4 * ((q + 1) * (q + 1))" using q by linarith+
    then show ?thesis unfolding n using q(1) by (auto simp: algebra_simps)
  qed
qed

lemma round_to_odd_spec:
  assumes "0 \<le> n" "0 < d"
  defines "r \<equiv> integer_sqrt_fraction_round_to_odd n d"
  shows "0 \<le> r" and "r * r * d = n \<or> odd r \<and> 0 < r \<and> (r - 1) * (r - 1) * d < n \<and> n < (r + 1) * (r + 1) * d"
proof -
  define q where "q = isqrt (n div d)"
  have nn: "0 \<le> n div d" using assms by (simp add: pos_imp_zdiv_nonneg_iff)
  have q: "0 \<le> q" "q * q \<le> n div d" "n div d + 1 \<le> (q + 1) * (q + 1)"
    using isqrt_bounds [OF nn] by (simp_all add: q_def)
  have "q * q * d \<le> n div d * d" using q(2) assms(2) by (intro mult_right_mono) auto
  also have "\<dots> \<le> n" using pos_mod_sign [OF assms(2), of n] div_mult_mod_eq [of n d] by linarith
  finally have lo: "q * q * d \<le> n" .
  have "n < (n div d + 1) * d"
    unfolding distrib_right mult_1 using pos_mod_bound [OF assms(2), of n] div_mult_mod_eq [of n d] by linarith
  also have "\<dots> \<le> (q + 1) * (q + 1) * d" using q(3) assms(2) by (intro mult_right_mono) auto
  finally have hi: "n < (q + 1) * (q + 1) * d" .
  have r: "r = (if q * q * d \<noteq> n \<and> q mod 2 = 0 then q + 1 else q)"
    by (simp add: r_def integer_sqrt_fraction_round_to_odd_def q_def Let_def)
  show "0 \<le> r" using q(1) r by simp
  show "r * r * d = n \<or> odd r \<and> 0 < r \<and> (r - 1) * (r - 1) * d < n \<and> n < (r + 1) * (r + 1) * d"
  proof (cases "q * q * d = n")
    case True
    then show ?thesis using r by simp
  next
    case False
    with lo have lo': "q * q * d < n" by simp
    show ?thesis
    proof (cases "q mod 2 = 0")
      case True
      then have "r = q + 1" using False r by simp
      moreover have "(q + 1) * (q + 1) * d \<le> (q + 1 + 1) * (q + 1 + 1) * d"
        using q(1) assms(2) by (intro mult_right_mono mult_mono) auto
      ultimately show ?thesis using lo' hi True q(1) by (auto simp: even_iff_mod_2_eq_zero)
    next
      case odd: False
      then have rq: "r = q" using r by simp
      have "0 < q" using q(1) odd by (cases "q = 0") auto
      then have "(q - 1) * (q - 1) * d \<le> q * q * d"
        using assms(2) by (intro mult_right_mono mult_mono) auto
      then show ?thesis using lo' hi odd rq \<open>0 < q\<close> by (auto simp: even_iff_mod_2_eq_zero)
    qed
  qed
qed

lemma bit_length_le: "n < 2 ^ k \<Longrightarrow> bit_length n \<le> int k"
proof (induction k arbitrary: n)
  case 0
  then show ?case by (subst bit_length.simps) simp
next
  case (Suc k)
  show ?case
  proof (cases "n < 1")
    case True
    then show ?thesis by (subst bit_length.simps) simp
  next
    case False
    have "n div 2 < 2 ^ k" using Suc.prems by simp
    from Suc.IH [OF this] False show ?thesis by (subst bit_length.simps) simp
  qed
qed


section \<open>Floats of positive and of whole numbers\<close>

lemma pow2_powi: "pow2 k = 2 powi k"
  by (cases "0 \<le> k") (simp_all add: pow2_def power_int_def power_inverse inverse_eq_divide power_one_over)

lemma bit_length_bounds: "0 < n \<Longrightarrow> 1 \<le> bit_length n \<and> 2 ^ nat (bit_length n - 1) \<le> n \<and> n < 2 ^ nat (bit_length n)"
proof (induction n rule: bit_length.induct)
  case (1 n)
  show ?case
  proof (cases "n = 1")
    case True
    have "bit_length 1 = 1 + bit_length 0" by (subst bit_length.simps) simp
    moreover have "bit_length 0 = 0" by (subst bit_length.simps) simp
    ultimately show ?thesis using True by simp
  next
    case False
    define b where "b = bit_length (n div 2)"
    have n: "0 < n div 2" "\<not> n < 1" using 1(2) False by presburger+
    have b: "1 \<le> b" "2 ^ nat (b - 1) \<le> n div 2" "n div 2 < 2 ^ nat b" using 1(1) [OF n(2,1)] by (simp_all add: b_def)
    have e: "bit_length n = 1 + b" using n(2) by (subst bit_length.simps) (simp add: b_def)
    have "nat (1 + b) = Suc (nat b)" "nat b = Suc (nat (b - 1))" using b(1) by simp_all
    then have p: "(2::int) ^ nat (1 + b) = 2 * 2 ^ nat b" "(2::int) ^ nat b = 2 * 2 ^ nat (b - 1)"
      by (simp_all only: power_Suc)
    have h: "2 * (n div 2) \<le> n" "n < 2 * (n div 2) + 2" by presburger+
    have "1 \<le> 1 + b \<and> 2 ^ nat b \<le> n \<and> n < 2 ^ nat (1 + b)" using b p h by linarith
    then show ?thesis unfolding e by (simp only: add_diff_cancel_left')
  qed
qed

lemma float_of_eq:
  assumes "x \<noteq> 0" and "quotient_of \<bar>x\<bar> = (n, d)"
  defines "k \<equiv> bit_length n - bit_length d"
  defines "e \<equiv> (if pow2 k \<le> \<bar>x\<bar> then k else k - 1)"
  defines "g \<equiv> pow2 (max (e - 52) (- 1074))"
  shows "float_of x = (if \<bar>of_int (rhe (x / g)) * g\<bar> < pow2 1024 then Inr (of_int (rhe (x / g)) * g) else Inl OverflowError)"
  using assms(1,2) unfolding float_of_def Let_def g_def e_def k_def by simp

text \<open>The scale of a conversion: the spacing of the floats around \<open>x\<close>.\<close>

lemma float_scale:
  assumes "x \<noteq> 0"
  obtains e g where "2 powi e \<le> \<bar>x\<bar>" and "g = 2 powi (max (e - 52) (- 1074))" and "0 < g"
    and "float_of x = (if \<bar>of_int (rhe (x / g)) * g\<bar> < pow2 1024 then Inr (of_int (rhe (x / g)) * g) else Inl OverflowError)"
proof -
  obtain n d where q: "quotient_of \<bar>x\<bar> = (n, d)" by (cases "quotient_of \<bar>x\<bar>")
  have nd: "\<bar>x\<bar> = of_int n / of_int d" "0 < d" using q quotient_of_div quotient_of_denom_pos by blast+
  have "0 < \<bar>x\<bar>" using assms by simp
  then have n0: "0 < n" using nd by (simp add: zero_less_divide_iff)
  define k where "k = bit_length n - bit_length d"
  define e where "e = (if pow2 k \<le> \<bar>x\<bar> then k else k - 1)"
  have "2 powi (bit_length n - 1) \<le> (of_int n :: rat)"
  proof -
    have "(of_int (2 ^ nat (bit_length n - 1)) :: rat) \<le> of_int n" using bit_length_bounds [OF n0] by (simp only: of_int_le_iff)
    then show ?thesis using bit_length_bounds [OF n0] by (simp add: power_int_def)
  qed
  moreover have "(of_int d :: rat) \<le> 2 powi (bit_length d)"
  proof -
    have "(of_int d :: rat) \<le> of_int (2 ^ nat (bit_length d))" using bit_length_bounds [OF nd(2)] by (simp only: of_int_le_iff less_imp_le)
    then show ?thesis using bit_length_bounds [OF nd(2)] by (simp add: power_int_def)
  qed
  ultimately have "2 powi (bit_length n - 1) / 2 powi (bit_length d) \<le> \<bar>x\<bar>"
    unfolding nd(1) using nd(2) n0 by (intro frac_le) simp_all
  then have "2 powi (k - 1) \<le> \<bar>x\<bar>" by (simp add: k_def power_int_diff [symmetric] algebra_simps)
  then have "2 powi e \<le> \<bar>x\<bar>" by (simp add: e_def pow2_powi)
  then show thesis
    by (rule that [OF _ refl])
      (use float_of_eq [OF assms q, folded k_def, folded e_def] in \<open>simp_all only: pow2_powi [symmetric], simp_all add: pow2_powi\<close>)
qed

lemma float_grid:
  assumes f: "float_of x = Inr y" and x: "10 powi (- 28) \<le> \<bar>x\<bar>"
  obtains g where "0 < g" and "g \<le> \<bar>x\<bar>" and "y = of_int (rhe (x / g)) * g" and "\<bar>y\<bar> < pow2 1024"
proof -
  have "x \<noteq> 0" using x ten_powi_pos [of "- 28"] by auto
  then obtain e g where e: "2 powi e \<le> \<bar>x\<bar>" and g: "g = 2 powi (max (e - 52) (- 1074))" "0 < g"
    and y: "float_of x = (if \<bar>of_int (rhe (x / g)) * g\<bar> < pow2 1024 then Inr (of_int (rhe (x / g)) * g) else Inl OverflowError)"
    by (rule float_scale)
  have "g \<le> \<bar>x\<bar>"
  proof (cases "e - 52 \<le> - 1074")
    case True
    have "(2::rat) powi (- 1074) \<le> 2 powi (- 112)" by (rule power_int_increasing) simp_all
    also have "\<dots> \<le> 10 powi (- 28)" by (simp add: power_int_def power_one_over)
    finally show ?thesis using True x by (simp add: g(1) max_def)
  next
    case False
    have "(2::rat) powi (e - 52) \<le> 2 powi e" by (rule power_int_increasing) simp_all
    then show ?thesis using False e by (simp add: g(1) max_def)
  qed
  then show thesis using that [of g] g(2) f y by (simp split: if_splits)
qed

text \<open>A rational below a power of two within the range is converted, and stays below it.\<close>

lemma float_within:
  assumes "\<bar>x\<bar> \<le> 2 ^ m" "m < 1024"
  shows "\<exists>y. float_of x = Inr y \<and> \<bar>y\<bar> \<le> 2 ^ m \<and> (0 \<le> x \<longrightarrow> 0 \<le> y)"
proof (cases "x = 0")
  case False
  then obtain e g where e: "2 powi e \<le> \<bar>x\<bar>" and g: "g = 2 powi (max (e - 52) (- 1074))" "0 < g"
    and f: "float_of x = (if \<bar>of_int (rhe (x / g)) * g\<bar> < pow2 1024 then Inr (of_int (rhe (x / g)) * g) else Inl OverflowError)"
    by (rule float_scale)
  have "(2::rat) powi e \<le> 2 powi (int m)" using e assms(1) by simp
  then have "e \<le> int m" using power_int_strict_increasing [of "int m" e "2::rat"] by linarith
  then have m: "max (e - 52) (- 1074) \<le> int m" by simp
  define N :: int where "N = 2 ^ nat (int m - max (e - 52) (- 1074))"
  have "of_int N * g = 2 powi (int m - max (e - 52) (- 1074)) * g" using m by (simp add: N_def power_int_def)
  also have "\<dots> = 2 powi (int m)" unfolding g(1) by (subst power_int_add [symmetric]) simp_all
  finally have N: "of_int N * g = 2 ^ m" by simp
  have "\<bar>x / g\<bar> \<le> of_int N"
    using assms(1) g(2) unfolding N [symmetric] by (simp add: abs_divide divide_le_eq)
  then have "x / g \<le> of_int N" "of_int (- N) \<le> x / g" by (simp_all only: abs_le_iff of_int_minus minus_le_iff)
  then have "rhe (x / g) \<le> N" "- N \<le> rhe (x / g)"
    using rhe_mono [of "x / g" "of_int N"] rhe_mono [of "of_int (- N)" "x / g"] by (simp_all only: rhe_of_int)
  then have "\<bar>of_int (rhe (x / g)) * g\<bar> \<le> of_int N * g"
    using g(2) by (simp add: abs_mult)
  moreover have "pow2 1024 = (2::rat) ^ (1024::nat)"
    using power_int_of_nat [of "2::rat" 1024] by (simp only: pow2_powi of_nat_numeral)
  then have "(2::rat) ^ m < pow2 1024" using power_strict_increasing [OF assms(2), of "2::rat"] by (simp only: one_less_numeral_iff semiring_norm)
  moreover have "0 \<le> of_int (rhe (x / g)) * g" if "0 \<le> x"
    using rhe_mono [of 0 "x / g"] rhe_of_int [of 0] that g(2) by simp
  ultimately show ?thesis unfolding f N by simp
qed (simp add: float_of_def)

lemma float_of_pos:
  assumes f: "float_of x = Inr y" and x: "10 powi (- 28) \<le> x"
  shows "0 < y"
proof -
  have x0: "0 < x" using x ten_powi_pos [of "- 28"] by linarith
  from f x x0 obtain g where g: "0 < g" "g \<le> x" "y = of_int (rhe (x / g)) * g" by (auto elim: float_grid)
  then have "1 \<le> x / g" by (simp add: le_divide_eq)
  then have "rhe 1 \<le> rhe (x / g)" by (rule rhe_mono)
  moreover have "rhe (1::rat) = 1" using rhe_of_int [of 1] by simp
  ultimately show ?thesis unfolding g(3) using g(1) by simp
qed

lemma float_of_bound:
  assumes f: "float_of x = Inr y"
  shows "\<bar>x\<bar> \<le> 10 powi 400"
proof (rule ccontr)
  assume big: "\<not> \<bar>x\<bar> \<le> 10 powi 400"
  have "(10::rat) powi (- 28) \<le> 10 powi 400" by (rule ten_powi_mono) simp
  with big have "10 powi (- 28) \<le> \<bar>x\<bar>" by linarith
  from float_grid [OF f this] obtain g where g: "0 < g" "g \<le> \<bar>x\<bar>" "y = of_int (rhe (x / g)) * g" "\<bar>y\<bar> < pow2 1024" .
  have "\<bar>of_int (rhe (x / g)) - x / g\<bar> * g \<le> 1 / 2 * g" using rhe_error g(1) by (intro mult_right_mono) simp_all
  moreover have "y - x = (of_int (rhe (x / g)) - x / g) * g" using g(1,3) by (simp add: left_diff_distrib)
  then have "\<bar>y - x\<bar> = \<bar>of_int (rhe (x / g)) - x / g\<bar> * g" using g(1) by (simp only: abs_mult abs_of_pos)
  ultimately have "\<bar>y - x\<bar> \<le> g / 2" by simp
  then have "\<bar>x\<bar> / 2 \<le> \<bar>y\<bar>" using g(2) by linarith
  moreover have "pow2 1024 \<le> 10 powi 400 / 2" by (simp add: pow2_def power_int_def)
  ultimately show False using g(4) big by linarith
qed

lemma float_of_int:
  assumes "0 \<le> n" "n < 2 ^ 53"
  shows "float_of (of_int n) = Inr (of_int n)"
proof (cases "n = 0")
  case False
  then have n: "0 < n" using assms(1) by simp
  have q: "quotient_of \<bar>of_int n :: rat\<bar> = (n, 1)" using assms(1) by (simp add: quotient_of_int)
  define k where "k = bit_length n - bit_length 1"
  define e where "e = (if pow2 k \<le> \<bar>of_int n\<bar> then k else k - 1)"
  have "bit_length 1 = 1" using bit_length_bounds [of 1] bit_length_le [of 1 1] by simp
  moreover have "bit_length n \<le> 53" using bit_length_le [OF assms(2)] by simp
  ultimately have e: "e \<le> 52" by (simp add: e_def k_def)
  define j where "j = nat (- max (e - 52) (- 1074))"
  have g: "pow2 (max (e - 52) (- 1074)) = 1 / of_int (2 ^ j)"
    using e by (cases "e = 52") (auto simp: pow2_def j_def)
  have "of_int n / (1 / of_int (2 ^ j)) = (of_int (n * 2 ^ j) :: rat)" by simp
  then have r: "of_int (rhe (of_int n / (1 / of_int (2 ^ j)))) * (1 / of_int (2 ^ j)) = (of_int n :: rat)"
    by (simp only: rhe_of_int) simp
  have "(of_int n :: rat) < of_int (2 ^ 53)" using assms(2) by (simp only: of_int_less_iff)
  also have "(of_int (2 ^ 53) :: rat) \<le> pow2 1024" by (simp add: pow2_def)
  finally have "\<bar>of_int n :: rat\<bar> < pow2 1024" using n by simp
  moreover have "(of_int n :: rat) \<noteq> 0" using n by simp
  ultimately show ?thesis
    using float_of_eq [OF _ q, folded k_def, folded e_def, unfolded g r] by simp
qed (simp add: float_of_def)

section \<open>Steps that can only overflow\<close>

definition overflow_only :: "py_error + 'a \<Rightarrow> bool" where
  "overflow_only m \<longleftrightarrow> (\<forall>e. m = Inl e \<longrightarrow> e = OverflowError)"

named_theorems overflow_intros \<open>steps whose only exception is an overflow\<close>

lemma overflow_return [overflow_intros]: "overflow_only (Inr x)"
  by (simp add: overflow_only_def)

lemma overflow_bind [overflow_intros]:
  "overflow_only m \<Longrightarrow> (\<And>x. m = Inr x \<Longrightarrow> overflow_only (f x)) \<Longrightarrow> overflow_only (bindE m f)"
  by (cases m) (simp_all add: overflow_only_def)

lemma overflow_map [overflow_intros]: "(\<And>x. x \<in> set xs \<Longrightarrow> overflow_only (f x)) \<Longrightarrow> overflow_only (mapE f xs)"
  by (induction xs) (auto intro!: overflow_intros)

lemma overflow_fold [overflow_intros]: "(\<And>x s. x \<in> set xs \<Longrightarrow> overflow_only (f x s)) \<Longrightarrow> overflow_only (foldE f xs s)"
  by (induction xs arbitrary: s) (auto intro!: overflow_intros)

lemma overflow_if [overflow_intros]: "(b \<Longrightarrow> overflow_only m) \<Longrightarrow> (\<not> b \<Longrightarrow> overflow_only m') \<Longrightarrow> overflow_only (if b then m else m')"
  by simp

lemma overflow_float [overflow_intros]: "overflow_only (float_of x)"
  by (auto simp: overflow_only_def float_of_def Let_def split: if_splits prod.splits)

lemma overflow_fdiv [overflow_intros]: "b \<noteq> 0 \<Longrightarrow> overflow_only (fdiv a b)"
  by (auto simp: fdiv_def intro: overflow_intros)

lemma overflow_sqrt [overflow_intros]: "overflow_only (sqrt_fraction v)"
  by (auto simp: sqrt_fraction_def Let_def intro: overflow_intros split: prod.splits)

section \<open>Evaluation\<close>

text \<open>The conversion in steps whose arguments are computed once, for the evaluation of witnesses.\<close>

definition exponent_from :: "rat \<Rightarrow> int \<Rightarrow> int" where
  "exponent_from x k = (if pow2 k \<le> x then k else k - 1)"

definition float_exponent :: "rat \<Rightarrow> int" where
  "float_exponent x = (case quotient_of x of (n, d) \<Rightarrow> exponent_from x (bit_length n - bit_length d))"

definition float_in_range :: "rat \<Rightarrow> py_error + rat" where
  "float_in_range y = (if \<bar>y\<bar> < pow2 1024 then Inr y else Inl OverflowError)"

definition float_on_grid :: "rat \<Rightarrow> rat \<Rightarrow> py_error + rat" where
  "float_on_grid x g = float_in_range (of_int (rhe (x / g)) * g)"

lemma float_of_code [code]:
  "float_of x = (if x = 0 then Inr 0 else float_on_grid x (pow2 (max (float_exponent \<bar>x\<bar> - 52) (- 1074))))"
proof (cases "quotient_of \<bar>x\<bar>")
  case (Pair n d)
  show ?thesis
    unfolding float_of_def float_on_grid_def float_in_range_def float_exponent_def exponent_from_def Pair Let_def prod.case ..
qed

end
