(* ===== verification/Metrics.thy ===== *)
theory Metrics
  imports Rebalance Floats
begin

text \<open>
  The metrics of \<open>research_kernel/strategy.py\<close>, twice as in the code: over the whole list of daily
  rows (\<open>strategy_metrics\<close>, \<open>maximum_drawdown\<close>) and from the state a run carries from chunk to
  chunk (\<open>advance_strategy_metric_state\<close>, \<open>strategy_metrics_from_state\<close>).

  The state is a dictionary of the code. Its keys for the rows appear with the first row, so they
  are one optional record here, absent while \<open>session_count\<close> is 0; a sum that is not stored yet
  reads as 0. Numerator and denominator pairs are rationals. Decimals stored as \<open>str(value)\<close>
  read back as the same value.

  Reported floats are the rationals they denote: \<open>math.fsum\<close> rounds the exact sum once, and the
  quotient, product or difference of two floats is the rounded exact one. The fpow of
  \<open>cagr\<close> (the C library's \<open>pow\<close>) is the argument \<open>fpow\<close>.
\<close>

section \<open>Rows and results\<close>

record drawdown =
  dd_value :: rat
  dd_peak_session :: string
  dd_trough_session :: string
  dd_recovery_session :: "string option"
  dd_unrecovered :: bool
  dd_series :: "(string \<times> rat) list"

record metrics =
  mt_gross_cumulative :: rat
  mt_net_cumulative :: rat
  mt_gross_cagr :: "rat option"
  mt_net_cagr :: "rat option"
  mt_drawdown :: drawdown
  mt_volatility :: "rat option"
  mt_sharpe :: "rat option"
  mt_calmar :: "rat option"
  mt_turnover_events :: "(string \<times> rat) list"
  mt_turnover_average :: "rat option"
  mt_turnover_annualized :: "rat option"
  mt_cost_amount :: rat
  mt_cost_ratio :: rat
  mt_return_drag :: rat
  mt_holdings_daily :: "int list"
  mt_holdings_mean :: rat
  mt_holdings_minimum :: int
  mt_holdings_maximum :: int
  mt_holdings_ending :: int
  mt_weight_daily :: "rat list"
  mt_weight_maximum :: rat
  mt_weight_maximum_session :: string
  mt_weight_ending :: rat
  mt_cash_daily :: "rat list"
  mt_cash_mean :: rat
  mt_cash_maximum :: rat
  mt_cash_maximum_session :: string
  mt_cash_ending :: rat
  mt_upper_rejections :: int
  mt_lower_rejections :: int
  mt_suspensions :: int

section \<open>Pieces of the formulas\<close>

definition cagr :: "(rat \<Rightarrow> rat \<Rightarrow> py_error + rat) \<Rightarrow> dec \<Rightarrow> int \<Rightarrow> py_error + rat option" where
  "cagr fpow wealth intervals =
     (if intervals \<le> 0 \<or> dle wealth dzero then Inr None
      else bindE (float_of (dval wealth)) (\<lambda>w.
           bindE (fdiv 252 (of_int intervals)) (\<lambda>e.
           bindE (fpow w e) (\<lambda>p. bindE (float_of (p - 1)) (\<lambda>r. Inr (Some r))))))"

definition cumulative_return :: "dec \<Rightarrow> dec \<Rightarrow> py_error + rat" where
  "cumulative_return nav initial_cash =
     bindE (def_div nav initial_cash) (\<lambda>r. bindE (def_sub r (dec_of_int 1)) (\<lambda>x. float_of (dval x)))"

definition wealth_cagr :: "(rat \<Rightarrow> rat \<Rightarrow> py_error + rat) \<Rightarrow> dec \<Rightarrow> dec \<Rightarrow> int \<Rightarrow> py_error + rat option" where
  "wealth_cagr fpow nav initial_cash intervals =
     bindE (def_div nav initial_cash) (\<lambda>w. cagr fpow w intervals)"

definition annual_volatility :: "py_error + rat \<Rightarrow> int \<Rightarrow> py_error + rat option" where
  "annual_volatility deviation count =
     (if 2 \<le> count then bindE deviation (\<lambda>s. bindE sqrt_252 (\<lambda>q. bindE (fmul s q) (\<lambda>v. Inr (Some v))))
      else Inr None)"

definition mean_of :: "rat \<Rightarrow> int \<Rightarrow> py_error + rat option" where
  "mean_of acc count =
     (if count = 0 then Inr None
      else bindE (float_of acc) (\<lambda>s. bindE (fdiv s (of_int count)) (\<lambda>m. Inr (Some m))))"

definition float_mean :: "rat \<Rightarrow> int \<Rightarrow> py_error + rat" where
  "float_mean acc count = bindE (float_of acc) (\<lambda>s. fdiv s (of_int count))"

definition cost_ratio :: "dec \<Rightarrow> dec \<Rightarrow> py_error + rat" where
  "cost_ratio cost initial_cash = bindE (def_div cost initial_cash) (\<lambda>r. float_of (dval r))"

definition sharpe_ratio :: "rat option \<Rightarrow> rat option \<Rightarrow> py_error + rat option" where
  "sharpe_ratio volatility mean =
     (case (volatility, mean) of
        (Some v, Some m) \<Rightarrow>
          if v = 0 then Inr None
          else bindE sqrt_252 (\<lambda>q. bindE (fdiv v q) (\<lambda>d. bindE (fdiv m d) (\<lambda>x.
               bindE (fmul x q) (\<lambda>s. Inr (Some s)))))
      | _ \<Rightarrow> Inr None)"

definition calmar_ratio :: "rat option \<Rightarrow> rat \<Rightarrow> py_error + rat option" where
  "calmar_ratio growth drawdown_value =
     (case growth of None \<Rightarrow> Inr None
      | Some g \<Rightarrow> if drawdown_value = 0 then Inr None
                 else bindE (fdiv g \<bar>drawdown_value\<bar>) (\<lambda>c. Inr (Some c)))"

definition annual_turnover :: "rat \<Rightarrow> int \<Rightarrow> py_error + rat option" where
  "annual_turnover acc intervals =
     (if intervals = 0 then Inr None
      else bindE (float_of acc) (\<lambda>s. bindE (fmul s 252) (\<lambda>x. bindE (fdiv x (of_int intervals)) (\<lambda>a. Inr (Some a)))))"

definition net_drawdown :: "dec \<Rightarrow> dec \<Rightarrow> py_error + dec" where
  "net_drawdown nav peak = bindE (def_div nav peak) (\<lambda>r. def_sub (dec_of_int 1) r)"

section \<open>Over all rows\<close>

text \<open>\<open>maximum_drawdown\<close>: the loop over the values, the recovery and the series.\<close>

definition drawdown_step :: "dec list \<Rightarrow> nat \<Rightarrow> nat \<times> dec \<times> nat \<times> nat \<Rightarrow> py_error + nat \<times> dec \<times> nat \<times> nat" where
  "drawdown_step navs index s =
     (case s of (peak_index, worst_value, worst_peak, worst_trough) \<Rightarrow>
      let peak = (if dlt (navs ! peak_index) (navs ! index) then index else peak_index) in
      bindE (net_drawdown (navs ! index) (navs ! peak)) (\<lambda>d.
      if dlt worst_value d then Inr (peak, d, peak, index)
      else Inr (peak, worst_value, worst_peak, worst_trough)))"

definition recovery_index :: "dec list \<Rightarrow> dec \<Rightarrow> nat \<Rightarrow> nat \<Rightarrow> nat option" where
  "recovery_index navs worst_value worst_peak worst_trough =
     List.find (\<lambda>i. dlt dzero worst_value \<and> dle (navs ! worst_peak) (navs ! i))
       [worst_trough + 1 ..< length navs]"

definition running_peak :: "dec list \<Rightarrow> dec" where
  "running_peak navs = foldl dmax (hd navs) (tl navs)"

definition drawdown_series :: "daily_row list \<Rightarrow> dec list \<Rightarrow> py_error + (string \<times> rat) list" where
  "drawdown_series rows navs =
     mapE (\<lambda>i. bindE (net_drawdown (navs ! i) (running_peak (take (i + 1) navs))) (\<lambda>d.
               bindE (float_of (dval d)) (\<lambda>x. Inr (day_session (rows ! i), x)))) [0..<length navs]"

definition maximum_drawdown :: "daily_row list \<Rightarrow> dec list \<Rightarrow> py_error + drawdown" where
  "maximum_drawdown rows navs =
     bindE (foldE (drawdown_step navs) [0..<length navs] (0, dzero, 0, 0)) (\<lambda>(_, worst_value, worst_peak, worst_trough).
     let recovery = recovery_index navs worst_value worst_peak worst_trough in
     bindE (raiseIf (rows = []) IndexError) (\<lambda>_.
     bindE (float_of (dval worst_value)) (\<lambda>value.
     bindE (drawdown_series rows navs) (\<lambda>series.
     Inr \<lparr>dd_value = value, dd_peak_session = day_session (rows ! worst_peak),
          dd_trough_session = day_session (rows ! worst_trough),
          dd_recovery_session = map_option (\<lambda>i. day_session (rows ! i)) recovery,
          dd_unrecovered = (recovery = None \<and> dlt dzero worst_value), dd_series = series\<rparr>))))"

fun entry_index :: "daily_row list \<Rightarrow> int \<Rightarrow> int option" where
  "entry_index [] i = None"
| "entry_index (row # rows) i = (if day_rebalance row then Some i else entry_index rows (i + 1))"

text \<open>\<open>max(range(len(values)), key=values.__getitem__)\<close>: the first index of the maximum.\<close>

definition max_index :: "rat list \<Rightarrow> nat" where
  "max_index xs = foldl (\<lambda>best i. if xs ! best < xs ! i then i else best) 0 [1..<length xs]"

definition net_returns :: "dec list \<Rightarrow> py_error + rat list" where
  "net_returns navs = mapE (\<lambda>i. ratio_return (navs ! i) (navs ! (i - 1))) [1..<length navs]"

definition rejection_count :: "string \<Rightarrow> string list \<Rightarrow> int" where
  "rejection_count reason reasons = int (length (filter (\<lambda>r. r = reason) reasons))"

definition strategy_metrics :: "(rat \<Rightarrow> rat \<Rightarrow> py_error + rat) \<Rightarrow> dec \<Rightarrow> daily_row list
    \<Rightarrow> (string \<times> rat) list \<Rightarrow> dec \<Rightarrow> string list \<Rightarrow> py_error + metrics" where
  "strategy_metrics fpow initial_cash rows turnover_events cumulative_cost reasons =
     (let gross = map day_gross_nav rows; net = map day_net_nav rows; count = int (length rows);
          entry = (case entry_index rows 0 of None \<Rightarrow> count - 1 | Some i \<Rightarrow> i);
          investment_intervals = count - entry - 1; report_intervals = count - 1;
          turnover_values = map snd turnover_events; holdings = map day_holdings rows;
          weights = map day_max_weight rows; cash = map day_cash_ratio rows in
      bindE (raiseIf (rows = []) IndexError) (\<lambda>_.
      bindE (cumulative_return (last gross) initial_cash) (\<lambda>gross_cumulative.
      bindE (cumulative_return (last net) initial_cash) (\<lambda>net_cumulative.
      bindE (wealth_cagr fpow (last gross) initial_cash investment_intervals) (\<lambda>gross_cagr.
      bindE (wealth_cagr fpow (last net) initial_cash investment_intervals) (\<lambda>net_cagr.
      bindE (net_returns net) (\<lambda>returns.
      bindE (annual_volatility (stdev returns) (int (length returns))) (\<lambda>volatility.
      bindE (mean_of (sum_list returns) (int (length returns))) (\<lambda>return_mean.
      bindE (sharpe_ratio volatility return_mean) (\<lambda>sharpe.
      bindE (maximum_drawdown rows net) (\<lambda>drawdown.
      bindE (calmar_ratio net_cagr (dd_value drawdown)) (\<lambda>calmar.
      bindE (mean_of (sum_list turnover_values) (int (length turnover_values))) (\<lambda>average.
      bindE (annual_turnover (sum_list turnover_values) report_intervals) (\<lambda>annualized.
      bindE (float_of (dval cumulative_cost)) (\<lambda>amount.
      bindE (cost_ratio cumulative_cost initial_cash) (\<lambda>ratio.
      bindE (float_of (gross_cumulative - net_cumulative)) (\<lambda>drag.
      bindE (float_mean (sum_list (map of_int holdings)) count) (\<lambda>holdings_mean.
      bindE (float_mean (sum_list cash) count) (\<lambda>cash_mean.
      Inr \<lparr>mt_gross_cumulative = gross_cumulative, mt_net_cumulative = net_cumulative,
           mt_gross_cagr = gross_cagr, mt_net_cagr = net_cagr, mt_drawdown = drawdown,
           mt_volatility = volatility, mt_sharpe = sharpe, mt_calmar = calmar,
           mt_turnover_events = turnover_events, mt_turnover_average = average,
           mt_turnover_annualized = annualized, mt_cost_amount = amount, mt_cost_ratio = ratio,
           mt_return_drag = drag, mt_holdings_daily = holdings, mt_holdings_mean = holdings_mean,
           mt_holdings_minimum = Min (set holdings), mt_holdings_maximum = Max (set holdings),
           mt_holdings_ending = last holdings, mt_weight_daily = weights,
           mt_weight_maximum = weights ! max_index weights,
           mt_weight_maximum_session = day_session (rows ! max_index weights),
           mt_weight_ending = last weights, mt_cash_daily = cash, mt_cash_mean = cash_mean,
           mt_cash_maximum = cash ! max_index cash,
           mt_cash_maximum_session = day_session (rows ! max_index cash), mt_cash_ending = last cash,
           mt_upper_rejections = rejection_count ''upper_limit_buy'' reasons,
           mt_lower_rejections = rejection_count ''lower_limit_sell'' reasons,
           mt_suspensions = rejection_count ''suspension'' reasons\<rparr>)))))))))))))))))))"

section \<open>From chunk to chunk\<close>

record row_metrics =
  rm_entry :: "(string \<times> int) option"
  rm_first_gross_nav :: dec
  rm_first_net_nav :: dec
  rm_return_count :: int
  rm_return_sum :: rat
  rm_return_square_sum :: rat
  rm_peak_net_nav :: dec
  rm_peak_session :: string
  rm_worst_drawdown :: dec
  rm_worst_peak_nav :: dec
  rm_worst_peak_session :: string
  rm_worst_trough_session :: string
  rm_worst_recovery_session :: "string option"
  rm_holdings_sum :: int
  rm_holdings_minimum :: int
  rm_holdings_maximum :: int
  rm_holdings_ending :: int
  rm_weight_maximum :: rat
  rm_weight_maximum_session :: string
  rm_weight_ending :: rat
  rm_cash_sum :: rat
  rm_cash_maximum :: rat
  rm_cash_maximum_session :: string
  rm_cash_ending :: rat
  rm_session_count :: int
  rm_last_gross_nav :: dec
  rm_last_net_nav :: dec
  rm_last_session :: string

record metric_state =
  ms_initial_cash :: dec
  ms_rows :: "row_metrics option"
  ms_turnover_sum :: rat
  ms_turnover_count :: int
  ms_cumulative_cost :: dec
  ms_upper_rejections :: int
  ms_lower_rejections :: int
  ms_suspensions :: int

text \<open>The first row sets the keys; \<open>finish_row\<close> is what every row does after that.\<close>

definition first_row :: "daily_row \<Rightarrow> row_metrics" where
  "first_row row =
     \<lparr>rm_entry = None, rm_first_gross_nav = day_gross_nav row, rm_first_net_nav = day_net_nav row,
      rm_return_count = 0, rm_return_sum = 0, rm_return_square_sum = 0,
      rm_peak_net_nav = day_net_nav row, rm_peak_session = day_session row,
      rm_worst_drawdown = dzero, rm_worst_peak_nav = day_net_nav row,
      rm_worst_peak_session = day_session row, rm_worst_trough_session = day_session row,
      rm_worst_recovery_session = None, rm_holdings_sum = 0, rm_holdings_minimum = day_holdings row,
      rm_holdings_maximum = day_holdings row, rm_holdings_ending = 0,
      rm_weight_maximum = day_max_weight row, rm_weight_maximum_session = day_session row,
      rm_weight_ending = 0, rm_cash_sum = 0, rm_cash_maximum = day_cash_ratio row,
      rm_cash_maximum_session = day_session row, rm_cash_ending = 0, rm_session_count = 0,
      rm_last_gross_nav = day_gross_nav row, rm_last_net_nav = day_net_nav row,
      rm_last_session = day_session row\<rparr>"

definition finish_row :: "daily_row \<Rightarrow> row_metrics \<Rightarrow> row_metrics" where
  "finish_row row r =
     r\<lparr>rm_entry := (if day_rebalance row \<and> rm_entry r = None
                   then Some (day_session row, rm_session_count r + 1) else rm_entry r),
       rm_session_count := rm_session_count r + 1, rm_last_gross_nav := day_gross_nav row,
       rm_last_net_nav := day_net_nav row, rm_last_session := day_session row,
       rm_holdings_sum := rm_holdings_sum r + day_holdings row, rm_holdings_ending := day_holdings row,
       rm_weight_ending := day_max_weight row, rm_cash_sum := rm_cash_sum r + day_cash_ratio row,
       rm_cash_ending := day_cash_ratio row\<rparr>"

text \<open>The drawdown keys of a later row: recovery, peak, then a new worst drawdown.\<close>

definition drawdown_row :: "daily_row \<Rightarrow> row_metrics \<Rightarrow> py_error + row_metrics" where
  "drawdown_row row r =
     (let nav = day_net_nav row;
          r1 = (if dlt dzero (rm_worst_drawdown r) \<and> rm_worst_recovery_session r = None \<and>
                   dle (rm_worst_peak_nav r) nav
                then r\<lparr>rm_worst_recovery_session := Some (day_session row)\<rparr> else r);
          r2 = (if dlt (rm_peak_net_nav r1) nav
                then r1\<lparr>rm_peak_net_nav := nav, rm_peak_session := day_session row\<rparr> else r1) in
      bindE (net_drawdown nav (rm_peak_net_nav r2)) (\<lambda>d.
      Inr (if dlt (rm_worst_drawdown r2) d
           then r2\<lparr>rm_worst_drawdown := d, rm_worst_peak_nav := rm_peak_net_nav r2,
                  rm_worst_peak_session := rm_peak_session r2, rm_worst_trough_session := day_session row,
                  rm_worst_recovery_session := None\<rparr>
           else r2)))"

definition later_row :: "daily_row \<Rightarrow> row_metrics \<Rightarrow> py_error + row_metrics" where
  "later_row row r =
     bindE (ratio_return (day_net_nav row) (rm_last_net_nav r)) (\<lambda>net_return.
     bindE (drawdown_row row (r\<lparr>rm_return_count := rm_return_count r + 1,
         rm_return_sum := rm_return_sum r + net_return,
         rm_return_square_sum := rm_return_square_sum r + net_return\<^sup>2\<rparr>)) (\<lambda>r1.
     let r2 = r1\<lparr>rm_holdings_minimum := min (rm_holdings_minimum r1) (day_holdings row),
            rm_holdings_maximum := max (rm_holdings_maximum r1) (day_holdings row)\<rparr>;
         r3 = (if rm_weight_maximum r2 < day_max_weight row
               then r2\<lparr>rm_weight_maximum := day_max_weight row, rm_weight_maximum_session := day_session row\<rparr> else r2)
     in Inr (if rm_cash_maximum r3 < day_cash_ratio row
             then r3\<lparr>rm_cash_maximum := day_cash_ratio row, rm_cash_maximum_session := day_session row\<rparr> else r3)))"

definition advance_row :: "daily_row \<Rightarrow> row_metrics option \<Rightarrow> py_error + row_metrics option" where
  "advance_row row rows =
     bindE (case rows of None \<Rightarrow> Inr (first_row row) | Some r \<Rightarrow> later_row row r) (\<lambda>r.
     Inr (Some (finish_row row r)))"

definition empty_metric_state :: "dec \<Rightarrow> metric_state" where
  "empty_metric_state initial_cash =
     \<lparr>ms_initial_cash = initial_cash, ms_rows = None, ms_turnover_sum = 0, ms_turnover_count = 0,
      ms_cumulative_cost = dzero, ms_upper_rejections = 0, ms_lower_rejections = 0, ms_suspensions = 0\<rparr>"

definition advance_strategy_metric_state :: "metric_state option \<Rightarrow> dec \<Rightarrow> daily_row list
    \<Rightarrow> (string \<times> rat) list \<Rightarrow> dec \<Rightarrow> string list \<Rightarrow> py_error + metric_state" where
  "advance_strategy_metric_state prior_state initial_cash rows turnover_events cumulative_cost reasons =
     bindE (raiseIf (case prior_state of None \<Rightarrow> False | Some s \<Rightarrow> \<not> deq (ms_initial_cash s) initial_cash)
              (StrategyCalculationError ''continuation Initial Cash differs from account baseline'' [])) (\<lambda>_.
     let s = (case prior_state of None \<Rightarrow> empty_metric_state initial_cash | Some s \<Rightarrow> s) in
     bindE (foldE advance_row rows (ms_rows s)) (\<lambda>rows_state.
     bindE (raiseIf (rows_state = None)
              (StrategyCalculationError ''Strategy metric state has no observations'' [])) (\<lambda>_.
     Inr \<lparr>ms_initial_cash = canon initial_cash, ms_rows = rows_state,
          ms_turnover_sum = ms_turnover_sum s + sum_list (map snd turnover_events),
          ms_turnover_count = ms_turnover_count s + int (length turnover_events),
          ms_cumulative_cost = canon cumulative_cost,
          ms_upper_rejections = ms_upper_rejections s + rejection_count ''upper_limit_buy'' reasons,
          ms_lower_rejections = ms_lower_rejections s + rejection_count ''lower_limit_sell'' reasons,
          ms_suspensions = ms_suspensions s + rejection_count ''suspension'' reasons\<rparr>)))"

definition strategy_metrics_from_state :: "(rat \<Rightarrow> rat \<Rightarrow> py_error + rat) \<Rightarrow> metric_state \<Rightarrow> py_error + metrics" where
  "strategy_metrics_from_state fpow s =
     (let initial_cash = ms_initial_cash s in
      bindE (raiseIf (dle initial_cash dzero)
               (StrategyCalculationError ''invalid Initial Cash in metric state'' [])) (\<lambda>_.
      case ms_rows s of
        None \<Rightarrow> Inl (KeyError ''session_count'')
      | Some r \<Rightarrow>
      let count = rm_session_count r; report_intervals = count - 1;
          investment_intervals = (case rm_entry r of None \<Rightarrow> report_intervals | Some (_, ordinal) \<Rightarrow> count - ordinal) in
      bindE (cumulative_return (rm_last_gross_nav r) initial_cash) (\<lambda>gross_cumulative.
      bindE (cumulative_return (rm_last_net_nav r) initial_cash) (\<lambda>net_cumulative.
      bindE (wealth_cagr fpow (rm_last_gross_nav r) initial_cash investment_intervals) (\<lambda>gross_cagr.
      bindE (wealth_cagr fpow (rm_last_net_nav r) initial_cash investment_intervals) (\<lambda>net_cagr.
      bindE (annual_volatility (sample_stdev_from_exact_moments (rm_return_count r) (rm_return_sum r)
               (rm_return_square_sum r)) (rm_return_count r)) (\<lambda>volatility.
      bindE (mean_of (rm_return_sum r) (rm_return_count r)) (\<lambda>return_mean.
      bindE (sharpe_ratio volatility return_mean) (\<lambda>sharpe.
      bindE (float_of (dval (rm_worst_drawdown r))) (\<lambda>value.
      bindE (calmar_ratio net_cagr value) (\<lambda>calmar.
      bindE (mean_of (ms_turnover_sum s) (ms_turnover_count s)) (\<lambda>average.
      bindE (annual_turnover (ms_turnover_sum s) report_intervals) (\<lambda>annualized.
      bindE (float_of (dval (ms_cumulative_cost s))) (\<lambda>amount.
      bindE (cost_ratio (ms_cumulative_cost s) initial_cash) (\<lambda>ratio.
      bindE (float_of (gross_cumulative - net_cumulative)) (\<lambda>drag.
      bindE (fdiv (of_int (rm_holdings_sum r)) (of_int count)) (\<lambda>holdings_mean.
      bindE (float_mean (rm_cash_sum r) count) (\<lambda>cash_mean.
      Inr \<lparr>mt_gross_cumulative = gross_cumulative, mt_net_cumulative = net_cumulative,
           mt_gross_cagr = gross_cagr, mt_net_cagr = net_cagr,
           mt_drawdown = \<lparr>dd_value = value, dd_peak_session = rm_worst_peak_session r,
             dd_trough_session = rm_worst_trough_session r, dd_recovery_session = rm_worst_recovery_session r,
             dd_unrecovered = (rm_worst_recovery_session r = None \<and> 0 < value), dd_series = []\<rparr>,
           mt_volatility = volatility, mt_sharpe = sharpe, mt_calmar = calmar,
           mt_turnover_events = [], mt_turnover_average = average,
           mt_turnover_annualized = annualized, mt_cost_amount = amount, mt_cost_ratio = ratio,
           mt_return_drag = drag, mt_holdings_daily = [], mt_holdings_mean = holdings_mean,
           mt_holdings_minimum = rm_holdings_minimum r, mt_holdings_maximum = rm_holdings_maximum r,
           mt_holdings_ending = rm_holdings_ending r, mt_weight_daily = [],
           mt_weight_maximum = rm_weight_maximum r,
           mt_weight_maximum_session = rm_weight_maximum_session r,
           mt_weight_ending = rm_weight_ending r, mt_cash_daily = [], mt_cash_mean = cash_mean,
           mt_cash_maximum = rm_cash_maximum r, mt_cash_maximum_session = rm_cash_maximum_session r,
           mt_cash_ending = rm_cash_ending r, mt_upper_rejections = ms_upper_rejections s,
           mt_lower_rejections = ms_lower_rejections s, mt_suspensions = ms_suspensions s\<rparr>))))))))))))))))))"

end
