(* ===== verification/Weights.thy ===== *)
theory Weights
  imports Targets Floats
begin

text \<open>
  \<open>research_kernel/portfolio_weighting.py\<close>: selection of the best candidates and their weights.

  A candidate's value is \<open>Decimal(str(value))\<close> of a float, at most 17 digits, so the unary minus
  of the sort key is exact and candidates are ordered by value, highest first, then by instrument.
  \<open>nsmallest\<close> is documented to be the prefix of the stable sort. The population volatility needs
  \<open>Decimal\<close> powers and square roots; it is a parameter of the inverse volatility selection.
\<close>

section \<open>Definitions\<close>

record candidate =
  cand_instrument_id :: string
  cand_value :: dec

definition candidate_order :: "candidate \<Rightarrow> rat \<times> string" where
  "candidate_order c = (- dval (cand_value c), cand_instrument_id c)"

definition sorted_candidates :: "candidate list \<Rightarrow> candidate list" where
  "sorted_candidates cs = sort_key candidate_order cs"

function group_by_value :: "candidate list \<Rightarrow> candidate list list" where
  "group_by_value [] = []"
| "group_by_value (c # cs) =
     (c # takeWhile (\<lambda>x. deq (cand_value x) (cand_value c)) cs)
       # group_by_value (dropWhile (\<lambda>x. deq (cand_value x) (cand_value c)) cs)"
  by pat_completeness auto
termination
  by (relation "measure length") (auto simp: le_imp_less_Suc length_dropWhile_le)

definition rank_weight :: "int \<Rightarrow> int \<Rightarrow> int \<Rightarrow> rat" where
  "rank_weight count offset tied =
     of_int (2 * count - 2 * offset - tied + 1) / of_int (count * (count + 1))"

fun rank_weights :: "int \<Rightarrow> int \<Rightarrow> candidate list list \<Rightarrow> weights \<Rightarrow> weights" where
  "rank_weights count offset [] w = w"
| "rank_weights count offset (g # gs) w =
     (let weight = str_fraction (rank_weight count offset (int (length g)))
      in rank_weights count (offset + int (length g)) gs
           (foldl (\<lambda>d c. AList.update (cand_instrument_id c) weight d) w g))"

definition select_portfolio :: "candidate list \<Rightarrow> int \<Rightarrow> string \<Rightarrow> py_error + candidate list \<times> weights" where
  "select_portfolio candidates holdings_count weighting =
     (if weighting \<noteq> ''equal_weight'' \<and> weighting \<noteq> ''rank_weight''
      then Inl (ValueError ''Unsupported portfolio weighting'')
      else
        let selected = take (nat holdings_count) (sorted_candidates candidates); count = int (length selected)
        in if count = 0 then Inr (selected, [])
           else if weighting = ''equal_weight'' then
             Inr (selected, foldl (\<lambda>d c. AList.update (cand_instrument_id c) (str_fraction (1 / of_int count)) d) [] selected)
           else Inr (selected, rank_weights count 0 (group_by_value selected) []))"

definition VOLATILITY_CONTEXT :: dctx where
  "VOLATILITY_CONTEXT = DEFAULT_CONTEXT\<lparr>prec := 34\<rparr>"

text \<open>One turn of the selection loop; \<open>done\<close> is the \<open>break\<close>.\<close>

record volatility_scan =
  vs_selected :: "candidate list"
  vs_raw :: "(string \<times> rat) list"
  vs_excluded :: "(string \<times> string) list"

definition finite_close :: "pydec \<Rightarrow> dec option" where
  "finite_close v = (case v of Finite d \<Rightarrow> if dle d dzero then None else Some d | _ \<Rightarrow> None)"

definition consider_candidate :: "(dec list \<Rightarrow> py_error + dec) \<Rightarrow> int \<Rightarrow> (string \<times> pydec list) list \<Rightarrow> int
    \<Rightarrow> candidate \<Rightarrow> volatility_scan \<Rightarrow> py_error + volatility_scan" where
  "consider_candidate volatility holdings_count close_windows window item s =
     (if holdings_count \<le> int (length (vs_selected s)) then Inr s
      else
        let instrument_id = cand_instrument_id item in
        bindE (lookupE close_windows instrument_id (KeyError instrument_id)) (\<lambda>history.
        if int (length history) < window + 1 then
          Inr (s\<lparr>vs_excluded := vs_excluded s @ [(instrument_id, ''insufficient_history'')]\<rparr>)
        else
          let closes = map finite_close (drop (length history - nat (window + 1)) history) in
          if None \<in> set closes then
            Inr (s\<lparr>vs_excluded := vs_excluded s @ [(instrument_id, ''unavailable_return'')]\<rparr>)
          else
            bindE (volatility (map the closes)) (\<lambda>sigma.
            if deq sigma dzero then
              Inr (s\<lparr>vs_excluded := vs_excluded s @ [(instrument_id, ''zero_volatility'')]\<rparr>)
            else
              bindE (dec_div VOLATILITY_CONTEXT (dec_of_int 1) sigma) (\<lambda>inverse.
              Inr (s\<lparr>vs_selected := vs_selected s @ [item],
                     vs_raw := AList.update instrument_id (dval inverse) (vs_raw s)\<rparr>)))))"

definition inverse_volatility_selection :: "(dec list \<Rightarrow> py_error + dec) \<Rightarrow> candidate list \<Rightarrow> int
    \<Rightarrow> (string \<times> pydec list) list \<Rightarrow> int \<Rightarrow> py_error + candidate list \<times> weights \<times> (string \<times> string) list" where
  "inverse_volatility_selection volatility candidates holdings_count close_windows window =
     bindE (raiseIf (window < 1 \<or> 252 < window) (ValueError ''Invalid volatility window'')) (\<lambda>_.
     bindE (foldE (consider_candidate volatility holdings_count close_windows window) (sorted_candidates candidates)
              \<lparr>vs_selected = [], vs_raw = [], vs_excluded = []\<rparr>) (\<lambda>s.
     let whole = sum_list (map snd (vs_raw s))
     in Inr (vs_selected s, map (\<lambda>(name, value). (name, str_fraction (value / whole))) (vs_raw s), vs_excluded s)))"

section \<open>Ratio texts\<close>

lemma str_nat_first: "0 < n \<Longrightarrow> hd (str_nat n) \<noteq> CHR ''0'' \<and> int (length (str_nat n)) \<le> n \<and> str_nat n \<noteq> []"
proof (induction n rule: str_nat.induct)
  case (1 n)
  show ?case
  proof (cases "n < 10")
    case True
    then have "n \<in> {1, 2, 3, 4, 5, 6, 7, 8, 9}" using 1(2) by auto
    then have "digit_char n \<noteq> CHR ''0''"
      by (elim insertE emptyE; hypsubst; simp add: digit_char_def)
    with True 1(2) show ?thesis by (subst (1 2 3) str_nat.simps) auto
  next
    case False
    with 1 have ih: "hd (str_nat (n div 10)) \<noteq> CHR ''0''" "int (length (str_nat (n div 10))) \<le> n div 10"
      "str_nat (n div 10) \<noteq> []" by auto
    have "str_nat n = str_nat (n div 10) @ [digit_char (n mod 10)]"
      using False by (subst str_nat.simps) simp
    moreover have "n div 10 + 1 \<le> n" using False by linarith
    ultimately show ?thesis using ih by (simp add: hd_append)
  qed
qed

lemma str_nat_length: "n < 10 ^ k \<Longrightarrow> 0 < k \<Longrightarrow> length (str_nat n) \<le> k"
proof (induction k arbitrary: n)
  case 0
  then show ?case by simp
next
  case (Suc k)
  show ?case
  proof (cases "n < 10")
    case True
    then show ?thesis by (subst str_nat.simps) simp
  next
    case False
    then have "0 < k" using Suc.prems by (cases k) auto
    have "n div 10 < 10 ^ k" using Suc.prems(1) by simp
    from Suc.IH [OF this \<open>0 < k\<close>] False show ?thesis by (subst str_nat.simps) simp
  qed
qed

lemma no_slash: "list_all is_digit s \<Longrightarrow> CHR ''/'' \<notin> set s"
  by (auto simp: list_all_iff is_digit_def digit_value_def)

lemma ratio_digits_nat: "0 < n \<Longrightarrow> n < 10 ^ 128 \<Longrightarrow> ratio_digits (str_nat n)"
  using str_nat_first [of n] str_nat_length [of n 128] str_nat_digits [of n] by (simp add: ratio_digits_def)

text \<open>The text of a positive fraction within the digit limit is read back as that fraction.\<close>

lemma target_ratio_text:
  assumes r: "quotient_of r = (n, d)" "0 < n" "n < 10 ^ 128" "d < 10 ^ 128"
  shows "target_ratio (str_fraction r) = Some (n, d)" and "fraction_of_text (str_fraction r) = r"
proof -
  have d: "0 < d" using r(1) by (rule quotient_of_denom_pos)
  have n': "ratio_digits (str_nat n)" "ratio_digits (str_nat d)" using ratio_digits_nat r d by auto
  have dig: "list_all is_digit (str_nat n)" "int_of_digits (str_nat n) = n" "int_of_digits (str_nat d) = d"
    using str_nat_digits [of n] str_nat_digits [of d] r(2) d by auto
  have span: "takeWhile (\<lambda>c. c \<noteq> CHR ''/'') (str_nat n @ CHR ''/'' # t) = str_nat n"
    "dropWhile (\<lambda>c. c \<noteq> CHR ''/'') (str_nat n @ CHR ''/'' # t) = CHR ''/'' # t"
    "takeWhile (\<lambda>c. c \<noteq> CHR ''/'') (str_nat n) = str_nat n"
    "dropWhile (\<lambda>c. c \<noteq> CHR ''/'') (str_nat n) = []" for t
    using no_slash [OF dig(1)] by (auto simp: takeWhile_append dropWhile_append)
  have int: "canonical_integer n = str_nat n" using r(2) by (simp add: canonical_integer_def)
  show t: "target_ratio (str_fraction r) = Some (n, d)"
    using n' dig by (auto simp: target_ratio_def str_fraction_def r(1) int span Let_def)
  have "fraction_of_text (str_fraction r) = of_int n / of_int d" by (simp add: fraction_of_text_def t)
  also have "\<dots> = r" by (rule quotient_of_div [OF r(1), symmetric])
  finally show "fraction_of_text (str_fraction r) = r" .
qed

section \<open>Accepted weights\<close>

lemma quotient_of_bounds:
  assumes "0 < a" "a \<le> b"
  obtains n d where "quotient_of (of_int a / of_int b) = (n, d)" and "0 < n" and "n \<le> d" and "d dvd b" and "d \<le> b"
proof -
  let ?g = "gcd a b"
  have g: "0 < ?g" using assms by simp
  have q: "quotient_of (of_int a / of_int b) = (a div ?g, b div ?g)"
    using assms by (simp add: Fract_of_int_quotient [symmetric] quotient_of_Fract normalize_def Let_def)
  have "a div ?g * ?g = a" "b div ?g * ?g = b" by simp_all
  then have "0 < a div ?g" "a div ?g \<le> b div ?g"
    using assms g by (metis zero_less_mult_pos2, intro zdiv_mono1)
  moreover have "b div ?g dvd b" by (metis \<open>b div ?g * ?g = b\<close> dvd_triv_left)
  moreover have "b div ?g \<le> b" using assms by (meson calculation(3) order_less_le_trans zdvd_imp_le)
  ultimately show thesis using q by (intro that)
qed

lemma common_denominator_bounded:
  assumes "d dvd b" "0 < b" "b < 2 ^ 30" "\<forall>r\<in>set rs. denominator_of r dvd b"
  shows "\<exists>e. common_denominator d rs = Inr e"
  using assms(1,4)
proof (induction rs arbitrary: d)
  case (Cons r rs)
  let ?e = "lcm d (denominator_of r)"
  have e: "?e dvd b" using Cons.prems by simp
  then have "?e < 2 ^ 30" using assms(2,3) zdvd_imp_le by fastforce
  then have "bit_length ?e \<le> int 30" by (rule bit_length_le)
  then have "\<not> 4096 < bit_length ?e" by simp
  moreover obtain x where "common_denominator ?e rs = Inr x" using Cons.IH [OF e] Cons.prems by auto
  ultimately show ?case by (simp add: Let_def)
qed simp

text \<open>A list of ratios over a small common denominator that adds up to one is accepted.\<close>

definition ratio_over :: "int \<Rightarrow> rat \<Rightarrow> bool" where
  "ratio_over b r \<longleftrightarrow> (\<exists>a. r = of_int a / of_int b \<and> 0 < a \<and> a \<le> b)"

lemma ratio_over_text:
  assumes b: "0 < b" "b < 2 ^ 30" and r: "ratio_over b r"
  shows "target_ratio (str_fraction r) \<noteq> None" and "fraction_of_text (str_fraction r) = r"
    and "0 < r" and "r \<le> 1" and "denominator_of r dvd b"
proof -
  obtain a where a: "r = of_int a / of_int b" "0 < a" "a \<le> b" using r by (auto simp: ratio_over_def)
  obtain n d where q: "quotient_of r = (n, d)" "0 < n" "n \<le> d" "d dvd b" "d \<le> b"
    using quotient_of_bounds [OF a(2,3)] unfolding a(1) by metis
  have "b < 10 ^ 128" using b(2) by simp
  then have lim: "n < 10 ^ 128" "d < 10 ^ 128" using q by linarith+
  show "target_ratio (str_fraction r) \<noteq> None" using target_ratio_text(1) [OF q(1,2) lim] by simp
  show "fraction_of_text (str_fraction r) = r" by (rule target_ratio_text(2) [OF q(1,2) lim])
  show "0 < r" "r \<le> 1" using a b by simp_all
  show "denominator_of r dvd b" using q by (simp add: denominator_of_def)
qed

lemma accepted_weights:
  assumes b: "0 < b" "b < 2 ^ 30" and r: "\<forall>x\<in>set items. ratio_over b (snd x)"
    and keys: "distinct (map fst items)"
    and one: "items \<noteq> [] \<Longrightarrow> sum_list (map snd items) = 1"
  shows "validate_target_weights (map fst items) (map (\<lambda>(i, x). (i, str_fraction x)) items) = Inr ()"
proof -
  let ?w = "map (\<lambda>(i, x). (i, str_fraction x)) items"
  note t = ratio_over_text [OF b]
  have fst: "map fst ?w = map fst items" by (simp add: case_prod_beta comp_def)
  have snd: "map snd ?w = map (str_fraction \<circ> snd) items" by (simp add: case_prod_beta comp_def)
  have ratios: "map fraction_of_text (map snd ?w) = map snd items"
    unfolding snd using r t(2) by (auto simp: comp_def)
  have texts: "\<forall>x\<in>set (map snd ?w). target_ratio x \<noteq> None \<and> str_fraction (fraction_of_text x) = x \<and>
      0 < fraction_of_text x \<and> fraction_of_text x \<le> 1"
    unfolding snd using r t(1,2,3,4) by fastforce
  obtain e where "common_denominator 1 (map snd items) = Inr e"
    using common_denominator_bounded [of 1 b "map snd items"] b r t(5) by fastforce
  then show ?thesis
    unfolding validate_target_weights_def Let_def ratios fst
    using texts keys one by (auto simp: raiseIf_def)
qed

section \<open>The selected portfolio\<close>

lemma foldl_update_fresh:
  assumes "distinct (map cand_instrument_id cs)" "set (map cand_instrument_id cs) \<inter> set (map fst d) = {}"
  shows "foldl (\<lambda>d c. AList.update (cand_instrument_id c) v d) d cs = d @ map (\<lambda>c. (cand_instrument_id c, v)) cs"
  using assms
proof (induction cs arbitrary: d)
  case (Cons c cs)
  then have "AList.update (cand_instrument_id c) v d = d @ [(cand_instrument_id c, v)]"
    by (intro update_fresh) auto
  with Cons show ?case by simp
qed simp

lemma group_by_value_concat [simp]: "concat (group_by_value cs) = cs"
  by (induction cs rule: group_by_value.induct) simp_all

lemma group_by_value_nonempty: "g \<in> set (group_by_value cs) \<Longrightarrow> g \<noteq> []"
  by (induction cs rule: group_by_value.induct) auto

text \<open>The rank weights as ratios, before they become texts.\<close>

fun rank_ratios :: "int \<Rightarrow> int \<Rightarrow> candidate list list \<Rightarrow> (string \<times> rat) list" where
  "rank_ratios count offset [] = []"
| "rank_ratios count offset (g # gs) =
     map (\<lambda>c. (cand_instrument_id c, rank_weight count offset (int (length g)))) g
       @ rank_ratios count (offset + int (length g)) gs"

lemma rank_weights_ratios:
  assumes "distinct (map cand_instrument_id (concat gs))"
    and "set (map cand_instrument_id (concat gs)) \<inter> set (map fst w) = {}"
  shows "rank_weights count offset gs w = w @ map (\<lambda>(i, x). (i, str_fraction x)) (rank_ratios count offset gs)"
  using assms
proof (induction gs arbitrary: offset w)
  case (Cons g gs)
  let ?t = "str_fraction (rank_weight count offset (int (length g)))"
  have "foldl (\<lambda>d c. AList.update (cand_instrument_id c) ?t d) w g = w @ map (\<lambda>c. (cand_instrument_id c, ?t)) g"
    by (rule foldl_update_fresh) (use Cons.prems in auto)
  moreover have "rank_weights count (offset + int (length g)) gs (w @ map (\<lambda>c. (cand_instrument_id c, ?t)) g) =
      (w @ map (\<lambda>c. (cand_instrument_id c, ?t)) g)
        @ map (\<lambda>(i, x). (i, str_fraction x)) (rank_ratios count (offset + int (length g)) gs)"
  proof (rule Cons.IH)
    show "distinct (map cand_instrument_id (concat gs))" using Cons.prems(1) by simp
    have fst: "map fst (map (\<lambda>c. (cand_instrument_id c, ?t)) g) = map cand_instrument_id g" by simp
    have "set (map cand_instrument_id g) \<inter> set (map cand_instrument_id (concat gs)) = {}"
      using Cons.prems(1) by simp
    moreover have "set (map cand_instrument_id (concat gs)) \<inter> set (map fst w) = {}"
      using Cons.prems(2) by auto
    ultimately show "set (map cand_instrument_id (concat gs)) \<inter>
        set (map fst (w @ map (\<lambda>c. (cand_instrument_id c, ?t)) g)) = {}"
      unfolding map_append set_append fst by blast
  qed
  ultimately show ?case by (simp add: Let_def comp_def)
qed simp

lemma rank_ratios_keys: "map fst (rank_ratios count offset gs) = map cand_instrument_id (concat gs)"
  by (induction gs arbitrary: offset) (simp_all add: comp_def)

lemma rank_ratios_over:
  assumes "0 < count" "0 \<le> offset" "offset + int (length (concat gs)) = count" "\<forall>g\<in>set gs. g \<noteq> []"
  shows "\<forall>x\<in>set (rank_ratios count offset gs). ratio_over (count * (count + 1)) (snd x)"
  using assms
proof (induction gs arbitrary: offset)
  case (Cons g gs)
  let ?n = "int (length g)" and ?a = "2 * count - 2 * offset - int (length g) + 1"
  have n: "0 < ?n" "offset + ?n \<le> count" using Cons.prems by auto
  have "?a \<le> 2 * count" using n Cons.prems(2) by linarith
  also have "2 * count \<le> (count + 1) * count" using Cons.prems(1) by (intro mult_right_mono) auto
  finally have "?a \<le> count * (count + 1)" by (simp add: mult.commute)
  then have "ratio_over (count * (count + 1)) (rank_weight count offset ?n)"
    unfolding ratio_over_def rank_weight_def using n by (intro exI [of _ ?a]) auto
  moreover have "\<forall>x\<in>set (rank_ratios count (offset + ?n) gs). ratio_over (count * (count + 1)) (snd x)"
    using Cons.prems by (intro Cons.IH) auto
  ultimately show ?case by auto
qed simp

lemma rank_ratios_sum:
  assumes "0 < count"
  shows "sum_list (map snd (rank_ratios count offset gs)) * of_int (count * (count + 1)) =
    of_int ((count - offset) * (count - offset + 1)
      - (count - offset - int (length (concat gs))) * (count - offset - int (length (concat gs)) + 1))"
proof (induction gs arbitrary: offset)
  case (Cons g gs)
  let ?n = "int (length g)" and ?m = "int (length (concat gs))"
  let ?b = "of_int (count * (count + 1)) :: rat"
  have b: "?b \<noteq> 0" using assms by simp
  have "rank_weight count offset ?n * ?b = of_int (2 * count - 2 * offset - ?n + 1)"
    using b by (simp add: rank_weight_def)
  then have "of_nat (length g) * rank_weight count offset ?n * ?b
      = of_int (?n * (2 * count - 2 * offset - ?n + 1))"
    by (metis (no_types, lifting) mult.assoc of_int_mult of_int_of_nat_eq)
  moreover have "sum_list (map (snd \<circ> (\<lambda>c. (cand_instrument_id c, rank_weight count offset ?n))) g)
      = of_nat (length g) * rank_weight count offset ?n"
    by (simp add: comp_def sum_list_triv)
  ultimately have "sum_list (map snd (rank_ratios count offset (g # gs))) * ?b
      = of_int (?n * (2 * count - 2 * offset - ?n + 1)
          + ((count - (offset + ?n)) * (count - (offset + ?n) + 1)
             - (count - (offset + ?n) - ?m) * (count - (offset + ?n) - ?m + 1)))"
    using Cons.IH [of "offset + ?n"] by (simp only: rank_ratios.simps map_append sum_list_append distrib_right
        map_map of_int_add)
  also have "?n * (2 * count - 2 * offset - ?n + 1)
          + ((count - (offset + ?n)) * (count - (offset + ?n) + 1)
             - (count - (offset + ?n) - ?m) * (count - (offset + ?n) - ?m + 1))
      = (count - offset) * (count - offset + 1)
        - (count - offset - int (length (concat (g # gs)))) * (count - offset - int (length (concat (g # gs))) + 1)"
    by (simp add: algebra_simps)
  finally show ?case .
qed simp

lemma sorted_ids_distinct:
  "distinct (map cand_instrument_id cs) \<Longrightarrow> distinct (map cand_instrument_id (take n (sorted_candidates cs)))"
  by (simp add: sorted_candidates_def distinct_map take_map [symmetric])

lemma select_portfolio_result:
  assumes r: "select_portfolio candidates holdings_count weighting = Inr (selected, weights)"
    and d: "distinct (map cand_instrument_id candidates)" and n: "holdings_count \<le> 100"
  obtains b items where "0 < b" and "b < 2 ^ 30" and "map fst items = map cand_instrument_id selected"
    and "weights = map (\<lambda>(i, x). (i, str_fraction x)) items"
    and "\<forall>x\<in>set items. ratio_over b (snd x)" and "items \<noteq> [] \<Longrightarrow> sum_list (map snd items) = 1"
proof -
  have w: "weighting = ''equal_weight'' \<or> weighting = ''rank_weight''"
    using r by (auto simp: select_portfolio_def split: if_splits)
  define sel where "sel = take (nat holdings_count) (sorted_candidates candidates)"
  have ids: "distinct (map cand_instrument_id sel)" unfolding sel_def by (rule sorted_ids_distinct [OF d])
  define count where "count = int (length sel)"
  have count: "count \<le> 100" using n by (simp add: count_def sel_def)
  have run: "select_portfolio candidates holdings_count weighting =
    (if count = 0 then Inr (sel, [])
     else if weighting = ''equal_weight'' then
       Inr (sel, foldl (\<lambda>d c. AList.update (cand_instrument_id c) (str_fraction (1 / of_int count)) d) [] sel)
     else Inr (sel, rank_weights count 0 (group_by_value sel) []))"
    using w unfolding select_portfolio_def Let_def sel_def [symmetric] count_def [symmetric] by auto
  show thesis
  proof (cases "sel = []")
    case True
    then have "selected = []" "weights = []" using r unfolding run by (simp_all add: count_def)
    then show thesis by (intro that [of 1 "[]"]) auto
  next
    case False
    then have pos: "0 < count" by (simp add: count_def)
    show thesis
    proof (cases "weighting = ''equal_weight''")
      case True
      then have s: "selected = sel"
        "weights = foldl (\<lambda>d c. AList.update (cand_instrument_id c) (str_fraction (1 / of_int count)) d) [] sel"
        using r pos True unfolding run by auto
      show thesis
      proof (rule that [of count "map (\<lambda>c. (cand_instrument_id c, 1 / of_int count)) sel"])
        show "weights = map (\<lambda>(i, x). (i, str_fraction x)) (map (\<lambda>c. (cand_instrument_id c, 1 / of_int count)) sel)"
          unfolding s(2) using foldl_update_fresh [OF ids, of "[]"] by (simp add: comp_def)
        show "\<forall>x\<in>set (map (\<lambda>c. (cand_instrument_id c, 1 / of_int count)) sel). ratio_over count (snd x)"
          using pos by (auto simp: ratio_over_def intro!: exI [of _ 1])
        show "sum_list (map snd (map (\<lambda>c. (cand_instrument_id c, 1 / of_int count :: rat)) sel)) = 1"
        proof -
          have "(of_nat (length sel) :: rat) \<noteq> 0" using pos by (simp add: count_def)
          then show ?thesis by (simp add: comp_def sum_list_triv count_def)
        qed
      qed (use pos count s in \<open>simp_all add: comp_def\<close>)
    next
      case False
      with w have rank: "weighting = ''rank_weight''" by blast
      then have s: "selected = sel" "weights = rank_weights count 0 (group_by_value sel) []"
        using r pos False unfolding run by auto
      have sq: "count * (count + 1) \<le> 100 * 101" using pos count by (intro mult_mono) auto
      show thesis
      proof (rule that [of "count * (count + 1)" "rank_ratios count 0 (group_by_value sel)"])
        show "0 < count * (count + 1)" using pos by simp
        show "count * (count + 1) < 2 ^ 30" using sq by simp
        show "map fst (rank_ratios count 0 (group_by_value sel)) = map cand_instrument_id selected"
          by (simp add: rank_ratios_keys s)
        show "weights = map (\<lambda>(i, x). (i, str_fraction x)) (rank_ratios count 0 (group_by_value sel))"
          unfolding s(2) using rank_weights_ratios [of "group_by_value sel" "[]"] ids by simp
        show "\<forall>x\<in>set (rank_ratios count 0 (group_by_value sel)). ratio_over (count * (count + 1)) (snd x)"
          by (rule rank_ratios_over) (use pos group_by_value_nonempty in \<open>auto simp: count_def\<close>)
        have "sum_list (map snd (rank_ratios count 0 (group_by_value sel))) * of_int (count * (count + 1))
            = of_int (count * (count + 1))"
          using rank_ratios_sum [OF pos, of 0 "group_by_value sel"] by (simp add: count_def)
        then show "sum_list (map snd (rank_ratios count 0 (group_by_value sel))) = 1"
          using pos by simp
      qed
    qed
  qed
qed

section \<open>Properties\<close>

text \<open>
  C8: Whatever \<open>select_portfolio\<close> returns, with either weighting, passes the validation that a
  target must pass: its weights are canonical positive ratio texts for exactly the selected
  instruments, over a bounded common denominator, and they add up to one. (The framework admits at
  most 100 holdings, and the candidates of a session are distinct instruments.)
\<close>

theorem selected_weights_accepted:
  assumes "select_portfolio candidates holdings_count weighting = Inr (selected, weights)"
    and "distinct (map cand_instrument_id candidates)" "holdings_count \<le> 100"
  shows "validate_target_weights (map cand_instrument_id selected) weights = Inr ()"
proof (rule select_portfolio_result [OF assms])
  fix b :: int and items :: "(string \<times> rat) list"
  assume b: "0 < b" "b < 2 ^ 30" and ids: "map fst items = map cand_instrument_id selected"
    and w: "weights = map (\<lambda>(i, x). (i, str_fraction x)) items"
    and over: "\<forall>x\<in>set items. ratio_over b (snd x)" and one: "items \<noteq> [] \<Longrightarrow> sum_list (map snd items) = 1"
  have "selected = take (nat holdings_count) (sorted_candidates candidates)"
    using assms(1) by (auto simp: select_portfolio_def Let_def split: if_splits)
  then have "distinct (map fst items)" unfolding ids using sorted_ids_distinct [OF assms(2)] by simp
  from accepted_weights [OF b over this one] show ?thesis unfolding ids w .
qed

definition sample_candidates :: "candidate list" where
  "sample_candidates =
     [\<lparr>cand_instrument_id = ''a'', cand_value = Dec 5 (- 1)\<rparr>, \<lparr>cand_instrument_id = ''b'', cand_value = Dec 2 0\<rparr>,
      \<lparr>cand_instrument_id = ''c'', cand_value = Dec 50 (- 2)\<rparr>, \<lparr>cand_instrument_id = ''d'', cand_value = Dec (- 1) 0\<rparr>]"

lemma selected_weights_accepted_witness:
  "validate_target_weights [''b'', ''a'', ''c''] [(''b'', ''1/2''), (''a'', ''1/4''), (''c'', ''1/4'')] = Inr ()"
proof -
  have "select_portfolio sample_candidates 3 ''rank_weight'' =
      Inr ([\<lparr>cand_instrument_id = ''b'', cand_value = Dec 2 0\<rparr>, \<lparr>cand_instrument_id = ''a'', cand_value = Dec 5 (- 1)\<rparr>,
        \<lparr>cand_instrument_id = ''c'', cand_value = Dec 50 (- 2)\<rparr>],
       [(''b'', ''1/2''), (''a'', ''1/4''), (''c'', ''1/4'')])"
    by code_simp
  from selected_weights_accepted [OF this] show ?thesis by (simp add: sample_candidates_def)
qed

end
