(* ===== verification/FloatSums.thy ===== *)
theory FloatSums
  imports Floats
begin

text \<open>
  Exact sums of floats. The error of a float addition is a float, so the partial sums that
  \<open>_advance_statistic\<close> (\<open>research_kernel/research_chunks.py\<close>) carries between chunks add up to the exact
  sum of the observations, as \<open>math.fsum\<close> needs it.
\<close>

section \<open>Representable numbers\<close>

text \<open>Numbers with a significand of 53 bits above the smallest subnormal, of any magnitude.\<close>

definition significand :: "rat \<Rightarrow> int \<Rightarrow> int \<Rightarrow> bool" where
  "significand x m q \<longleftrightarrow> x = of_int m * 2 powi q \<and> \<bar>m\<bar> \<le> 2 ^ 53 \<and> - 1074 \<le> q"

definition representable :: "rat \<Rightarrow> bool" where
  "representable x \<longleftrightarrow> (\<exists>m q. significand x m q)"

lemma representable_zero: "representable 0"
  unfolding representable_def significand_def by (intro exI [of _ 0]) simp

lemma representable_minus: "representable x \<Longrightarrow> representable (- x)"
proof -
  assume "representable x"
  then obtain m q where "significand x m q" by (auto simp: representable_def)
  then have "significand (- x) (- m) q" by (simp add: significand_def)
  then show "representable (- x)" by (auto simp: representable_def)
qed

lemma powi_split: "p \<le> q \<Longrightarrow> (2::rat) powi q = of_int (2 ^ nat (q - p)) * 2 powi p"
proof -
  assume "p \<le> q"
  then have "(2::rat) powi (q - p) = of_int (2 ^ nat (q - p))" by (simp add: power_int_def)
  moreover have "(2::rat) powi (q - p + p) = 2 powi (q - p) * 2 powi p" by (rule power_int_add) simp
  ultimately show "(2::rat) powi q = of_int (2 ^ nat (q - p)) * 2 powi p" by (simp only: diff_add_cancel)
qed

text \<open>A multiple of the grid of a representable number that is no larger than it is representable.\<close>

lemma grid_representable:
  assumes "significand a m q" and "d = of_int k * 2 powi q" and "\<bar>d\<bar> \<le> \<bar>a\<bar>"
  shows "representable d"
proof -
  have "of_int \<bar>k\<bar> * (2::rat) powi q \<le> of_int \<bar>m\<bar> * 2 powi q" using assms by (simp add: significand_def abs_mult)
  then have "(of_int \<bar>k\<bar> :: rat) \<le> of_int \<bar>m\<bar>" by (simp only: mult_le_cancel_right_pos zero_less_power_int zero_less_numeral)
  then have "\<bar>k\<bar> \<le> \<bar>m\<bar>" by (simp only: of_int_le_iff)
  then have "significand d k q" using assms by (simp add: significand_def)
  then show ?thesis by (auto simp: representable_def)
qed

text \<open>The difference of two numbers that is no larger than either of them is representable (Sterbenz).\<close>

lemma representable_difference:
  assumes a: "significand a m q" and b: "significand b n r" and small: "\<bar>a - b\<bar> \<le> \<bar>a\<bar>" "\<bar>a - b\<bar> \<le> \<bar>b\<bar>"
  shows "representable (a - b)"
proof -
  define p where "p = min q r"
  have "a = of_int (m * 2 ^ nat (q - p)) * 2 powi p" "b = of_int (n * 2 ^ nat (r - p)) * 2 powi p"
    using a b powi_split [of p q] powi_split [of p r] by (simp_all add: significand_def p_def mult.assoc)
  then have "a - b = of_int (m * 2 ^ nat (q - p) - n * 2 ^ nat (r - p)) * 2 powi p" by (simp add: algebra_simps)
  then obtain k where k: "a - b = of_int k * 2 powi p" by blast
  have "p = q \<or> p = r" by (auto simp: p_def)
  then show ?thesis using grid_representable [OF a, of "a - b" k] grid_representable [OF b, of "a - b" k] small k by auto
qed

section \<open>The nearest float\<close>

lemma bit_length_powi:
  assumes "0 < n"
  shows "2 powi (bit_length n - 1) \<le> (of_int n :: rat)" and "(of_int n :: rat) < 2 powi (bit_length n)"
proof -
  have b: "1 \<le> bit_length n" "2 ^ nat (bit_length n - 1) \<le> n" "n < 2 ^ nat (bit_length n)" using bit_length_bounds [OF assms] by simp_all
  have "(of_int (2 ^ nat (bit_length n - 1)) :: rat) \<le> of_int n" using b(2) by (simp only: of_int_le_iff)
  then show "2 powi (bit_length n - 1) \<le> (of_int n :: rat)" using b(1) by (simp add: power_int_def)
  have "(of_int n :: rat) < of_int (2 ^ nat (bit_length n))" using b(3) by (simp only: of_int_less_iff)
  then show "(of_int n :: rat) < 2 powi (bit_length n)" using b(1) by (simp add: power_int_def)
qed

lemma float_rounding:
  assumes "x \<noteq> 0"
  obtains e g where "2 powi e \<le> \<bar>x\<bar>" and "\<bar>x\<bar> < 2 powi (e + 1)" and "g = 2 powi (max (e - 52) (- 1074))"
    and "float_of x = float_in_range (of_int (rhe (x / g)) * g)"
proof -
  obtain n d where q: "quotient_of \<bar>x\<bar> = (n, d)" by (cases "quotient_of \<bar>x\<bar>")
  have nd: "\<bar>x\<bar> = of_int n / of_int d" "0 < d" using q quotient_of_div quotient_of_denom_pos by blast+
  have "0 < \<bar>x\<bar>" using assms by simp
  then have n0: "0 < n" using nd by (simp add: zero_less_divide_iff)
  define k where "k = bit_length n - bit_length d"
  have n1: "2 powi (bit_length n - 1) \<le> (of_int n :: rat)" "(of_int n :: rat) < 2 powi (bit_length n)"
    and d1: "2 powi (bit_length d - 1) \<le> (of_int d :: rat)" "(of_int d :: rat) < 2 powi (bit_length d)"
    using bit_length_powi [OF n0] bit_length_powi [OF nd(2)] by simp_all
  have "2 powi (bit_length n - 1) / 2 powi (bit_length d) \<le> \<bar>x\<bar>"
    unfolding nd(1) using nd(2) n0 n1 d1 by (intro frac_le) simp_all
  then have low: "2 powi (k - 1) \<le> \<bar>x\<bar>" by (simp add: k_def power_int_diff [symmetric] algebra_simps)
  have "\<bar>x\<bar> < 2 powi (bit_length n) / 2 powi (bit_length d - 1)"
    unfolding nd(1) using nd(2) n0 n1 d1 by (intro frac_less) simp_all
  then have high: "\<bar>x\<bar> < 2 powi (k + 1)" by (simp add: k_def power_int_diff [symmetric] algebra_simps)
  define e where "e = (if pow2 k \<le> \<bar>x\<bar> then k else k - 1)"
  have "2 powi e \<le> \<bar>x\<bar>" "\<bar>x\<bar> < 2 powi (e + 1)" using low high by (simp_all add: e_def pow2_powi)
  moreover have "float_of x = float_in_range (of_int (rhe (x / 2 powi (max (e - 52) (- 1074)))) * 2 powi (max (e - 52) (- 1074)))"
    using float_of_eq [OF assms q, folded k_def, folded e_def] by (simp only: float_in_range_def pow2_powi)
  ultimately show thesis using that by blast
qed

lemma rhe_nearest: "\<bar>of_int (rhe x) - x\<bar> \<le> \<bar>of_int k - x\<bar>"
proof (cases "rhe x = k")
  case False
  then have "1 \<le> \<bar>rhe x - k\<bar>" by simp
  then have "of_int 1 \<le> (of_int \<bar>rhe x - k\<bar> :: rat)" by (simp only: of_int_le_iff)
  then have "1 \<le> \<bar>of_int (rhe x) - of_int k :: rat\<bar>" by simp
  then show ?thesis using rhe_error [of x] by linarith
qed simp

lemma grid_nearest:
  assumes "0 < g"
  shows "\<bar>of_int (rhe (x / g)) * g - x\<bar> \<le> \<bar>of_int k * g - x\<bar>"
proof -
  have "\<bar>of_int (rhe (x / g)) - x / g\<bar> * g \<le> \<bar>of_int k - x / g\<bar> * g"
    using assms by (intro mult_right_mono rhe_nearest) simp
  moreover have "\<bar>of_int l - x / g\<bar> * g = \<bar>of_int l * g - x\<bar>" for l
    using assms abs_mult [of "of_int l - x / g" g] by (simp add: left_diff_distrib)
  ultimately show ?thesis by simp
qed

lemma float_nearest:
  obtains y where "float_of x = float_in_range y" and "representable y"
    and "\<And>f. representable f \<Longrightarrow> \<bar>y - x\<bar> \<le> \<bar>f - x\<bar>"
    and "\<And>c p. x = of_int c * 2 powi p \<Longrightarrow> - 1074 \<le> p \<Longrightarrow> y = x \<or> (\<exists>l. y = of_int l * 2 powi p)"
proof (cases "x = 0")
  case True
  then have "float_of x = float_in_range 0" by (simp add: float_of_def float_in_range_def pow2_powi)
  then show thesis using True representable_zero by (intro that [of 0]) auto
next
  case False
  then obtain e g where e: "2 powi e \<le> \<bar>x\<bar>" "\<bar>x\<bar> < 2 powi (e + 1)" and g: "g = 2 powi (max (e - 52) (- 1074))"
    and y: "float_of x = float_in_range (of_int (rhe (x / g)) * g)" by (rule float_rounding)
  define q where "q = max (e - 52) (- 1074)"
  have g0: "0 < g" by (simp add: g)
  let ?y = "of_int (rhe (x / g)) * g"
  note near = grid_nearest [OF g0, of x]
  have "\<bar>x / g\<bar> \<le> of_int (2 ^ 53)"
  proof -
    have "\<bar>x\<bar> \<le> 2 powi (e + 1)" using e(2) by simp
    also have "\<dots> \<le> 2 powi (53 + q)" by (rule power_int_increasing) (simp_all add: q_def)
    also have "\<dots> = of_int (2 ^ 53) * g" by (simp add: g q_def [symmetric] power_int_add)
    finally show ?thesis using g0 by (simp add: abs_divide divide_le_eq)
  qed
  then have "x / g \<le> of_int (2 ^ 53)" "of_int (- (2 ^ 53)) \<le> x / g" by (simp_all only: abs_le_iff of_int_minus minus_le_iff)
  then have "rhe (x / g) \<le> 2 ^ 53" "- (2 ^ 53) \<le> rhe (x / g)"
    using rhe_mono [of "x / g" "of_int (2 ^ 53)"] rhe_mono [of "of_int (- (2 ^ 53))" "x / g"] by (simp_all only: rhe_of_int)
  then have rep: "representable ?y"
    unfolding representable_def significand_def by (intro exI [of _ "rhe (x / g)"] exI [of _ q]) (auto simp: g q_def)
  have closest: "\<bar>?y - x\<bar> \<le> \<bar>f - x\<bar>" if "representable f" for f
  proof -
    from that obtain m r where f: "f = of_int m * 2 powi r" "\<bar>m\<bar> \<le> 2 ^ 53" "- 1074 \<le> r"
      by (auto simp: representable_def significand_def)
    show ?thesis
    proof (cases "q \<le> r")
      case True
      then have "f = of_int (m * 2 ^ nat (r - q)) * g" using powi_split [of q r] by (simp add: f(1) g q_def mult.assoc)
      then show ?thesis using near [of "m * 2 ^ nat (r - q)"] by simp
    next
      case False
      then have q: "q = e - 52" "r \<le> e - 53" using f(3) by (auto simp: q_def)
      have "\<bar>f\<bar> = of_int \<bar>m\<bar> * 2 powi r" by (simp add: f(1) abs_mult)
      also have "\<dots> \<le> of_int (2 ^ 53) * 2 powi r" using f(2) by (intro mult_right_mono) (simp_all only: of_int_le_iff, simp_all)
      also have "\<dots> = 2 powi (53 + r)" by (simp add: power_int_add)
      also have "\<dots> \<le> 2 powi e" using q by (intro power_int_increasing) simp_all
      finally have fe: "\<bar>f\<bar> \<le> 2 powi e" .
      have "2 powi e = of_int (2 ^ 52) * g" using power_int_add [of "2::rat" 52 "e - 52"] q by (simp add: g q_def [symmetric])
      then have "\<bar>?y - x\<bar> \<le> \<bar>2 powi e - x\<bar>" "\<bar>?y - x\<bar> \<le> \<bar>- (2 powi e) - x\<bar>"
        using near [of "2 ^ 52"] near [of "- (2 ^ 52)"] by simp_all
      then show ?thesis using fe e(1) by linarith
    qed
  qed
  have multiple: "?y = x \<or> (\<exists>l. ?y = of_int l * 2 powi p)" if x: "x = of_int c * 2 powi p" "- 1074 \<le> p" for c p
  proof (cases "p \<le> q")
    case True
    then have "?y = of_int (rhe (x / g) * 2 ^ nat (q - p)) * 2 powi p" using powi_split [of p q] by (simp add: g q_def mult.assoc)
    then show ?thesis by blast
  next
    case False
    then have "x = of_int (c * 2 ^ nat (p - q)) * 2 powi q" unfolding x(1) using powi_split [of q p] by (simp add: mult.assoc)
    then have "x = of_int (c * 2 ^ nat (p - q)) * g" by (simp only: g q_def)
    then show ?thesis using near [of "c * 2 ^ nat (p - q)"] by simp
  qed
  show thesis by (rule that [OF y rep]) (fact closest multiple)+
qed

section \<open>The error of an addition\<close>

text \<open>\<open>x\<close> is a finite float.\<close>

definition is_float :: "rat \<Rightarrow> bool" where
  "is_float x \<longleftrightarrow> float_of x = Inr x"

lemma is_floatI:
  assumes "representable x" and "\<bar>x\<bar> < pow2 1024"
  shows "is_float x"
proof -
  obtain y where y: "float_of x = float_in_range y" "\<And>f. representable f \<Longrightarrow> \<bar>y - x\<bar> \<le> \<bar>f - x\<bar>" by (rule float_nearest [of x]) blast
  from y(2) [OF assms(1)] have "y = x" by simp
  then show ?thesis using y(1) assms(2) by (simp add: is_float_def float_in_range_def)
qed

lemma float_of_Inr: "float_of x = Inr y \<Longrightarrow> representable y \<and> is_float y \<and> \<bar>y\<bar> < pow2 1024"
proof -
  assume f: "float_of x = Inr y"
  obtain z where z: "float_of x = float_in_range z" "representable z" by (rule float_nearest [of x]) blast
  then show ?thesis using f by (auto simp: float_in_range_def intro: is_floatI split: if_splits)
qed

lemma is_float_representable: "is_float x \<Longrightarrow> representable x \<and> \<bar>x\<bar> < pow2 1024"
  unfolding is_float_def using float_of_Inr by blast

text \<open>What an addition loses is no larger than either argument, and representable.\<close>

lemma addition_error:
  assumes a: "representable a" and b: "representable b" and high: "float_of (a + b) = Inr high"
  shows "representable (a + b - high)" and "\<bar>a + b - high\<bar> \<le> \<bar>a\<bar>" and "\<bar>a + b - high\<bar> \<le> \<bar>b\<bar>"
proof -
  obtain m q where m: "significand a m q" using a by (auto simp: representable_def)
  obtain n r where n: "significand b n r" using b by (auto simp: representable_def)
  obtain y where y: "float_of (a + b) = float_in_range y"
    and near: "\<And>f. representable f \<Longrightarrow> \<bar>y - (a + b)\<bar> \<le> \<bar>f - (a + b)\<bar>"
    and grid: "\<And>c p. a + b = of_int c * 2 powi p \<Longrightarrow> - 1074 \<le> p \<Longrightarrow> y = a + b \<or> (\<exists>l. y = of_int l * 2 powi p)"
    by (rule float_nearest [of "a + b"]) blast
  have y': "y = high" using y high by (simp add: float_in_range_def split: if_splits)
  show A: "\<bar>a + b - high\<bar> \<le> \<bar>a\<bar>" and B: "\<bar>a + b - high\<bar> \<le> \<bar>b\<bar>" using near [OF a] near [OF b] y' by linarith+
  define p where "p = min q r"
  have p: "- 1074 \<le> p" using m n by (simp add: p_def significand_def)
  have ab: "a = of_int (m * 2 ^ nat (q - p)) * 2 powi p" "b = of_int (n * 2 ^ nat (r - p)) * 2 powi p"
    using m n powi_split [of p q] powi_split [of p r] by (simp_all add: significand_def p_def mult.assoc)
  then have "a + b = of_int (m * 2 ^ nat (q - p) + n * 2 ^ nat (r - p)) * 2 powi p" by (simp add: algebra_simps)
  from grid [OF this p] y' have "high = a + b \<or> (\<exists>l. high = of_int l * 2 powi p)" by simp
  then show "representable (a + b - high)"
  proof
    assume "\<exists>l. high = of_int l * 2 powi p"
    then obtain l where "high = of_int l * 2 powi p" by blast
    then have "a + b - high = of_int (m * 2 ^ nat (q - p) + n * 2 ^ nat (r - p) - l) * 2 powi p" using ab by (simp add: algebra_simps)
    then obtain k where k: "a + b - high = of_int k * 2 powi p" by blast
    have "p = q \<or> p = r" by (auto simp: p_def)
    then show ?thesis
    proof
      assume "p = q"
      then show ?thesis using grid_representable [OF m] A k by simp
    next
      assume "p = r"
      then show ?thesis using grid_representable [OF n] B k by simp
    qed
  qed (simp add: representable_zero)
qed

lemma float_of_minus: "float_of (- x) = (case float_of x of Inl e \<Rightarrow> Inl e | Inr y \<Rightarrow> Inr (- y))"
  by (auto simp: float_of_def Let_def rhe_minus split: prod.splits)

text \<open>A representable number from half of \<open>a\<close> on that is not above \<open>s\<close>.\<close>

lemma representable_half:
  assumes m: "significand a m q" and a: "0 < a" and s: "a / 2 < s" and grid: "q = - 1074 \<Longrightarrow> \<exists>k. s = of_int k * 2 powi q"
  shows "\<exists>f. representable f \<and> a / 2 \<le> f \<and> f \<le> s"
proof -
  have pos: "(0::rat) < 2 powi q" by simp
  have am: "a = of_int m * 2 powi q" and m53: "\<bar>m\<bar> \<le> 2 ^ 53" and q: "- 1074 \<le> q" using m by (simp_all add: significand_def)
  have m0: "0 < m" using a pos unfolding am by (simp add: zero_less_mult_iff)
  consider "even m" | "- 1074 < q" | "odd m" "q = - 1074" using q by linarith
  then show ?thesis
  proof cases
    case 1
    then obtain k where k: "m = 2 * k" by (rule evenE)
    then have "\<bar>k\<bar> \<le> 2 ^ 53" using m53 by linarith
    then have "significand (a / 2) k q" using m k by (simp add: significand_def)
    then have "representable (a / 2)" by (auto simp: representable_def)
    then show ?thesis using s by (intro exI [of _ "a / 2"]) simp
  next
    case 2
    have "(2::rat) powi q = 2 powi (q - 1) * 2 powi 1" by (subst power_int_add [symmetric]) simp_all
    then have "significand (a / 2) m (q - 1)" using m 2 by (simp add: significand_def)
    then have "representable (a / 2)" by (auto simp: representable_def)
    then show ?thesis using s by (intro exI [of _ "a / 2"]) simp
  next
    case 3
    from grid [OF 3(2)] obtain k where k: "s = of_int k * 2 powi q" by blast
    have "of_int m * (2::rat) powi q < of_int (2 * k) * 2 powi q" using s unfolding am k by simp
    then have "(of_int m :: rat) < of_int (2 * k)" using pos by (simp only: mult_less_cancel_right_pos)
    then have mk: "m < 2 * k" by (simp only: of_int_less_iff)
    define f where "f = of_int ((m + 1) div 2) * (2::rat) powi q"
    have "representable f" using m53 m0 q unfolding f_def representable_def significand_def
      by (intro exI [of _ "(m + 1) div 2"] exI [of _ q]) auto
    moreover have "(of_int ((m + 1) div 2) :: rat) \<le> of_int k" using mk by (simp only: of_int_le_iff)
    then have "f \<le> s" using pos unfolding f_def k by (intro mult_right_mono) simp_all
    moreover have "(of_int m :: rat) \<le> of_int (2 * ((m + 1) div 2))" by (simp only: of_int_le_iff)
    then have "of_int m * (2::rat) powi q \<le> of_int (2 * ((m + 1) div 2)) * 2 powi q" using pos by (intro mult_right_mono) simp_all
    then have "a / 2 \<le> f" unfolding am f_def by simp
    ultimately show ?thesis by blast
  qed
qed

lemma sum_difference_pos:
  assumes a: "representable a" "0 < a" and b: "representable b" and ba: "\<bar>b\<bar> \<le> a" and high: "float_of (a + b) = Inr high"
  shows "representable (high - a)" and "\<bar>high - a\<bar> \<le> a"
proof -
  obtain m q where m: "significand a m q" using a by (auto simp: representable_def)
  obtain n r where n: "significand b n r" using b by (auto simp: representable_def)
  obtain y where y: "float_of (a + b) = float_in_range y" "representable y"
    and near: "\<And>f. representable f \<Longrightarrow> \<bar>y - (a + b)\<bar> \<le> \<bar>f - (a + b)\<bar>"
    by (rule float_nearest [of "a + b"]) blast
  have y': "y = high" using y high by (simp add: float_in_range_def split: if_splits)
  have "representable (high - a) \<and> \<bar>high - a\<bar> \<le> a"
  proof (cases "b \<le> - (a / 2)")
    case True
    have "significand (- b) (- n) r" using n by (simp add: significand_def)
    then have "representable (a - (- b))" using True ba by (intro representable_difference [OF m]) auto
    then have "high = a + b" using near [of "a + b"] y' by simp
    then show ?thesis using b ba by simp
  next
    case False
    have "significand (2 * a) m (q + 1)" using m by (simp add: significand_def power_int_add)
    then have "representable (2 * a)" by (auto simp: representable_def)
    then have upper: "high \<le> 2 * a" using near [of "2 * a"] y' ba by linarith
    have "\<exists>k. a + b = of_int k * 2 powi q" if "q = - 1074"
    proof -
      have "b = of_int (n * 2 ^ nat (r - q)) * 2 powi q" using n powi_split [of q r] that by (simp add: significand_def mult.assoc)
      then have "a + b = of_int (m + n * 2 ^ nat (r - q)) * 2 powi q" using m by (simp add: significand_def algebra_simps)
      then show ?thesis by blast
    qed
    then obtain f where f: "representable f" "a / 2 \<le> f" "f \<le> a + b"
      using representable_half [OF m a(2), of "a + b"] False by auto
    then have lower: "a / 2 \<le> high" using near [of f] y' by linarith
    obtain k t where k: "significand high k t" using y(2) y' by (auto simp: representable_def)
    show ?thesis using representable_difference [OF k m] upper lower by auto
  qed
  then show "representable (high - a)" and "\<bar>high - a\<bar> \<le> a" by simp_all
qed

text \<open>The subtractions that recover what an addition lost are exact.\<close>

lemma fast_two_sum:
  assumes a: "is_float a" and b: "is_float b" and ba: "\<bar>b\<bar> \<le> \<bar>a\<bar>" and high: "float_of (a + b) = Inr high"
  shows "float_of (high - a) = Inr (high - a)" and "float_of (b - (high - a)) = Inr (a + b - high)"
proof -
  note ra = is_float_representable [OF a] and rb = is_float_representable [OF b]
  have "representable (high - a) \<and> \<bar>high - a\<bar> \<le> \<bar>a\<bar>"
  proof -
    consider "a = 0" | "0 < a" | "a < 0" by linarith
    then show ?thesis
    proof cases
      case 1
      then have "high = 0" using ba high by (simp add: float_of_def)
      then show ?thesis using 1 representable_zero by simp
    next
      case 2
      then show ?thesis using sum_difference_pos [of a b high] ra rb ba high by simp
    next
      case 3
      have "float_of (- a + - b) = Inr (- high)" using float_of_minus [of "a + b"] high by (simp add: algebra_simps)
      then have "representable (- high - (- a))" "\<bar>- high - (- a)\<bar> \<le> - a"
        using sum_difference_pos [of "- a" "- b" "- high"] 3 ra rb ba by (simp_all add: representable_minus)
      then show ?thesis using 3 representable_minus [of "- high - (- a)"] by (simp add: abs_minus_commute)
    qed
  qed
  then show "float_of (high - a) = Inr (high - a)" using is_floatI [of "high - a"] ra by (simp add: is_float_def)
  have "is_float (a + b - high)" using addition_error [OF _ _ high] ra rb by (intro is_floatI) auto
  then show "float_of (b - (high - a)) = Inr (a + b - high)" by (simp add: is_float_def algebra_simps)
qed

section \<open>The partial sums\<close>

definition add_partial :: "rat \<Rightarrow> rat \<times> rat list \<Rightarrow> py_error + rat \<times> rat list" where
  "add_partial partial s =
     (case s of (number, updated) \<Rightarrow>
      let (number, partial) = (if \<bar>number\<bar> < \<bar>partial\<bar> then (partial, number) else (number, partial)) in
      bindE (float_of (number + partial)) (\<lambda>high.
      bindE (float_of (high - number)) (\<lambda>d.
      bindE (float_of (partial - d)) (\<lambda>low.
      Inr (high, if low \<noteq> 0 then updated @ [low] else updated)))))"

definition add_to_partials :: "rat list \<Rightarrow> rat \<Rightarrow> py_error + rat list" where
  "add_to_partials partials number =
     bindE (foldE add_partial partials (number, [])) (\<lambda>(number, updated). Inr (updated @ [number]))"

lemma add_partial_exact:
  assumes "add_partial partial (number, updated) = Inr (number', updated')"
    and "is_float number" "is_float partial" "\<forall>u\<in>set updated. is_float u"
  shows "is_float number'" and "\<forall>u\<in>set updated'. is_float u"
    and "number' + sum_list updated' = number + partial + sum_list updated"
proof -
  define a b where "a = (if \<bar>number\<bar> < \<bar>partial\<bar> then partial else number)" and "b = (if \<bar>number\<bar> < \<bar>partial\<bar> then number else partial)"
  have ab: "is_float a" "is_float b" "\<bar>b\<bar> \<le> \<bar>a\<bar>" "a + b = number + partial" using assms(2,3) by (simp_all add: a_def b_def)
  have swap: "(if \<bar>number\<bar> < \<bar>partial\<bar> then (partial, number) else (number, partial)) = (a, b)" by (simp add: a_def b_def)
  have "bindE (float_of (a + b)) (\<lambda>high. bindE (float_of (high - a)) (\<lambda>d. bindE (float_of (b - d)) (\<lambda>low.
      Inr (high, if low \<noteq> 0 then updated @ [low] else updated)))) = Inr (number', updated')"
    using assms(1) unfolding add_partial_def prod.case swap Let_def .
  then obtain high d low where h: "float_of (a + b) = Inr high" "float_of (high - a) = Inr d" "float_of (b - d) = Inr low"
    and r: "(high, if low \<noteq> 0 then updated @ [low] else updated) = (number', updated')"
    by (elim bindE_InrE) (simp only: sum.inject)
  from r have n: "number' = high" and u: "updated' = (if low \<noteq> 0 then updated @ [low] else updated)" by simp_all
  have "d = high - a" using fast_two_sum(1) [OF ab(1-3) h(1)] h(2) by simp
  then have low: "low = a + b - high" using fast_two_sum(2) [OF ab(1-3) h(1)] h(3) by simp
  show "is_float number'" using float_of_Inr [OF h(1)] n by simp
  show "\<forall>u\<in>set updated'. is_float u" using float_of_Inr [OF h(3)] assms(4) u by auto
  show "number' + sum_list updated' = number + partial + sum_list updated" using ab(4) low n u by auto
qed

lemma add_partials_exact:
  assumes "foldE add_partial partials (number, updated) = Inr (number', updated')"
    and "is_float number" "\<forall>u\<in>set partials. is_float u" "\<forall>u\<in>set updated. is_float u"
  shows "is_float number' \<and> (\<forall>u\<in>set updated'. is_float u) \<and>
    number' + sum_list updated' = number + sum_list partials + sum_list updated"
  using assms
proof (induction partials arbitrary: number updated)
  case (Cons partial partials)
  from Cons.prems(1) obtain t where t: "add_partial partial (number, updated) = Inr t"
    and t': "foldE add_partial partials t = Inr (number', updated')" by (auto elim: bindE_InrE)
  obtain n u where nu: "t = (n, u)" by (cases t)
  note step = t [unfolded nu] and rest = t' [unfolded nu]
  have p: "is_float partial" and ps: "\<forall>u\<in>set partials. is_float u" using Cons.prems(3) by simp_all
  note one = add_partial_exact [OF step Cons.prems(2) p Cons.prems(4)]
  have "is_float number' \<and> (\<forall>u\<in>set updated'. is_float u) \<and> number' + sum_list updated' = n + sum_list partials + sum_list u"
    by (rule Cons.IH [OF rest one(1) ps one(2)])
  then show ?case using one(3) by simp
qed simp

text \<open>The partials are floats whose exact sum grows by the observation.\<close>

lemma add_to_partials_exact:
  assumes "add_to_partials partials number = Inr partials'" and "is_float number" "\<forall>u\<in>set partials. is_float u"
  shows "sum_list partials' = sum_list partials + number" and "\<forall>u\<in>set partials'. is_float u"
proof -
  from assms(1) obtain n u where run: "foldE add_partial partials (number, []) = Inr (n, u)" and p: "partials' = u @ [n]"
    by (auto simp: add_to_partials_def elim!: bindE_InrE)
  then show "sum_list partials' = sum_list partials + number" and "\<forall>u\<in>set partials'. is_float u"
    using add_partials_exact [OF run] assms(2,3) by (auto simp: algebra_simps)
qed

section \<open>The partial sums stay in range\<close>

text \<open>The relative error of an addition; \<open>growth\<close> bounds what rounding adds to the magnitudes.\<close>

definition growth :: rat where
  "growth = 1 + 1 / 2 ^ 52"

lemma growth_ge: "1 \<le> growth" "1 \<le> growth ^ k" "0 \<le> growth ^ k"
  by (simp_all add: growth_def one_le_power)

lemma addition_error_small:
  assumes a: "representable a" and b: "representable b" and high: "float_of (a + b) = Inr high"
  shows "\<bar>a + b - high\<bar> \<le> \<bar>a + b\<bar> / 2 ^ 53"
proof (cases "a + b = 0")
  case True
  then show ?thesis using high by (simp add: float_of_def)
next
  case False
  then obtain e g where e: "2 powi e \<le> \<bar>a + b\<bar>" and g: "g = 2 powi (max (e - 52) (- 1074))"
    and f: "float_of (a + b) = float_in_range (of_int (rhe ((a + b) / g)) * g)" by (rule float_rounding)
  have g0: "0 < g" by (simp add: g)
  have h: "high = of_int (rhe ((a + b) / g)) * g" using f high by (simp add: float_in_range_def split: if_splits)
  show ?thesis
  proof (cases "- 1074 \<le> e - 52")
    case True
    have "\<bar>of_int (rhe ((a + b) / g)) - (a + b) / g\<bar> * g \<le> 1 / 2 * g" using g0 by (intro mult_right_mono rhe_error) simp
    moreover have "\<bar>of_int (rhe ((a + b) / g)) - (a + b) / g\<bar> * g = \<bar>high - (a + b)\<bar>"
      using g0 abs_mult [of "of_int (rhe ((a + b) / g)) - (a + b) / g" g] by (simp add: h left_diff_distrib)
    ultimately have "\<bar>high - (a + b)\<bar> \<le> g / 2" by simp
    moreover have "g / 2 = 2 powi e / 2 ^ 53"
    proof -
      have "(2::rat) powi (e - 52 + 52) = 2 powi (e - 52) * 2 powi 52" by (rule power_int_add) simp
      then have "2 powi e = g * 2 powi 52" using True by (simp only: g diff_add_cancel max_absorb1)
      then show ?thesis by simp
    qed
    moreover have "2 powi e / 2 ^ 53 \<le> \<bar>a + b\<bar> / (2 ^ 53 :: rat)" using e by (intro divide_right_mono) simp_all
    ultimately show ?thesis by linarith
  next
    case False
    obtain m q where m: "significand a m q" using a by (auto simp: representable_def)
    obtain n r where n: "significand b n r" using b by (auto simp: representable_def)
    have gq: "g = 2 powi (- 1074)" using False by (simp add: g max_absorb2)
    have "a = of_int (m * 2 ^ nat (q - (- 1074))) * g" "b = of_int (n * 2 ^ nat (r - (- 1074))) * g"
      using m n powi_split [of "- 1074" q] powi_split [of "- 1074" r] by (simp_all only: gq significand_def of_int_mult mult.assoc)
    then have "a + b = of_int (m * 2 ^ nat (q - (- 1074)) + n * 2 ^ nat (r - (- 1074))) * g" by (simp only: of_int_add distrib_right)
    then obtain k where k: "a + b = of_int k * g" by blast
    have "(a + b) / g = of_int k" using g0 by (simp add: k)
    then have "high = a + b" unfolding h k by (simp only: rhe_of_int)
    then show ?thesis by simp
  qed
qed

lemma add_partial_total:
  assumes "is_float number" "is_float partial" and small: "\<bar>number\<bar> + \<bar>partial\<bar> \<le> 2 ^ m" "m < 1024"
  shows "\<exists>n u. add_partial partial (number, updated) = Inr (n, updated @ u) \<and> is_float n \<and> length u \<le> 1 \<and>
    \<bar>n\<bar> + sum_list (map abs u) \<le> growth * (\<bar>number\<bar> + \<bar>partial\<bar>)"
proof -
  define a b where "a = (if \<bar>number\<bar> < \<bar>partial\<bar> then partial else number)" and "b = (if \<bar>number\<bar> < \<bar>partial\<bar> then number else partial)"
  have ab: "is_float a" "is_float b" "\<bar>b\<bar> \<le> \<bar>a\<bar>" "\<bar>a\<bar> + \<bar>b\<bar> = \<bar>number\<bar> + \<bar>partial\<bar>"
    using assms(1,2) by (simp_all add: a_def b_def)
  have swap: "(if \<bar>number\<bar> < \<bar>partial\<bar> then (partial, number) else (number, partial)) = (a, b)" by (simp add: a_def b_def)
  have "\<bar>a + b\<bar> \<le> 2 ^ m" using small(1) ab(4) by linarith
  then obtain high where h: "float_of (a + b) = Inr high" using float_within [OF _ small(2)] by blast
  define low where "low = a + b - high"
  note exact = fast_two_sum [OF ab(1-3) h]
  have "\<bar>low\<bar> \<le> \<bar>a + b\<bar> / 2 ^ 53"
    unfolding low_def using is_float_representable [OF ab(1)] is_float_representable [OF ab(2)] by (intro addition_error_small h) simp_all
  moreover have "\<bar>high\<bar> \<le> \<bar>a + b\<bar> + \<bar>low\<bar>" by (simp add: low_def)
  ultimately have "\<bar>high\<bar> + \<bar>low\<bar> \<le> \<bar>a + b\<bar> * growth" by (simp add: growth_def field_simps)
  also have "\<dots> \<le> (\<bar>a\<bar> + \<bar>b\<bar>) * growth" using growth_ge by (intro mult_right_mono) simp_all
  finally have "\<bar>high\<bar> + \<bar>low\<bar> \<le> growth * (\<bar>number\<bar> + \<bar>partial\<bar>)" by (simp only: ab(4) mult.commute)
  then have bound: "\<bar>high\<bar> + sum_list (map abs (if low \<noteq> 0 then [low] else [])) \<le> growth * (\<bar>number\<bar> + \<bar>partial\<bar>)" by auto
  have "add_partial partial (number, updated) = Inr (high, updated @ (if low \<noteq> 0 then [low] else []))"
    unfolding add_partial_def prod.case swap Let_def using h exact by (simp add: low_def)
  then show ?thesis using bound float_of_Inr [OF h] by (intro exI [of _ high] exI [of _ "if low \<noteq> 0 then [low] else []"]) simp
qed

lemma add_partials_total:
  assumes "is_float number" "\<forall>u\<in>set partials. is_float u"
    and "growth ^ length partials * (\<bar>number\<bar> + sum_list (map abs partials)) \<le> 2 ^ m" "m < 1024"
  shows "\<exists>n u. foldE add_partial partials (number, updated) = Inr (n, updated @ u) \<and> length u \<le> length partials \<and>
    \<bar>n\<bar> + sum_list (map abs u) \<le> growth ^ length partials * (\<bar>number\<bar> + sum_list (map abs partials))"
  using assms
proof (induction partials arbitrary: number updated)
  case (Cons p ps)
  let ?rest = "sum_list (map abs ps)" and ?g = "growth ^ length ps"
  define X where "X = \<bar>number\<bar> + \<bar>p\<bar> + ?rest"
  have r0: "0 \<le> ?rest" by (intro sum_list_nonneg) auto
  have X: "growth ^ length (p # ps) * (\<bar>number\<bar> + sum_list (map abs (p # ps))) = ?g * (growth * X)" by (simp add: X_def algebra_simps)
  have X0: "0 \<le> growth * X" using r0 growth_ge(1) by (simp add: X_def)
  have gX: "?g * (growth * X) \<le> 2 ^ m" using Cons.prems(3) unfolding X .
  have scale: "a \<le> ?g * a" if "0 \<le> a" for a using mult_right_mono [OF growth_ge(2) [of "length ps"] that] by simp
  have "X \<le> growth * X" using mult_right_mono [OF growth_ge(1), of X] r0 by (simp add: X_def)
  then have "\<bar>number\<bar> + \<bar>p\<bar> \<le> 2 ^ m" using scale [OF X0] gX r0 unfolding X_def by linarith
  then obtain n u where one: "add_partial p (number, updated) = Inr (n, updated @ u)" "is_float n" "length u \<le> 1"
    and n: "\<bar>n\<bar> + sum_list (map abs u) \<le> growth * (\<bar>number\<bar> + \<bar>p\<bar>)"
    using add_partial_total [of number p m updated] Cons.prems by auto
  have u0: "0 \<le> sum_list (map abs u)" by (intro sum_list_nonneg) auto
  have "?rest \<le> growth * ?rest" using mult_right_mono [OF growth_ge(1) r0] by simp
  with n have sum: "\<bar>n\<bar> + sum_list (map abs u) + ?rest \<le> growth * X" by (simp add: X_def distrib_left)
  have g: "?g * (\<bar>n\<bar> + sum_list (map abs u) + ?rest) \<le> ?g * (growth * X)" using sum growth_ge(3) by (rule mult_left_mono)
  have "?g * (\<bar>n\<bar> + ?rest) \<le> ?g * (\<bar>n\<bar> + sum_list (map abs u) + ?rest)" using u0 growth_ge(3) by (intro mult_left_mono) simp_all
  with g gX have "?g * (\<bar>n\<bar> + ?rest) \<le> 2 ^ m" by linarith
  then obtain n' u' where rest: "foldE add_partial ps (n, updated @ u) = Inr (n', (updated @ u) @ u')" "length u' \<le> length ps"
    "\<bar>n'\<bar> + sum_list (map abs u') \<le> ?g * (\<bar>n\<bar> + ?rest)"
    using Cons.IH [of n "updated @ u"] one(2) Cons.prems(2,4) by auto
  have "\<bar>n'\<bar> + sum_list (map abs (u @ u')) \<le> ?g * (growth * X)"
    using rest(3) scale [OF u0] g by (simp add: distrib_left)
  then show ?case using one(1,3) rest(1,2) unfolding X by (intro exI [of _ n'] exI [of _ "u @ u'"]) simp
qed (use growth_ge in auto)

text \<open>A sum of magnitudes within \<open>2 ^ m\<close>, growth included, is carried without leaving the range.\<close>

lemma add_to_partials_total:
  assumes "is_float x" "\<forall>u\<in>set partials. is_float u"
    and "growth ^ length partials * (\<bar>x\<bar> + sum_list (map abs partials)) \<le> 2 ^ m" "m < 1024"
  shows "\<exists>partials'. add_to_partials partials x = Inr partials' \<and> length partials' \<le> length partials + 1 \<and>
    sum_list (map abs partials') \<le> growth ^ length partials * (\<bar>x\<bar> + sum_list (map abs partials))"
  using add_partials_total [OF assms, of "[]"] by (auto simp: add_to_partials_def algebra_simps)

lemma carried_sum_total:
  assumes "\<forall>x\<in>set xs. is_float x" "\<forall>u\<in>set partials. is_float u" "length partials + length xs \<le> k"
    and "growth ^ (k * length xs) * (sum_list (map abs xs) + sum_list (map abs partials)) \<le> 2 ^ m" "m < 1024"
  shows "\<exists>partials'. foldE (\<lambda>x ps. add_to_partials ps x) xs partials = Inr partials'"
  using assms
proof (induction xs arbitrary: partials)
  case (Cons x xs)
  let ?p = "sum_list (map abs partials)" and ?xs = "sum_list (map abs xs)"
  have nonneg: "0 \<le> ?p" "0 \<le> ?xs" by (auto intro!: sum_list_nonneg)
  have le: "growth ^ i * a \<le> growth ^ j * a" if "i \<le> j" "0 \<le> a" for i j a
    using power_increasing [OF that(1) growth_ge(1)] that(2) by (intro mult_right_mono)
  have len: "length partials \<le> k * length (x # xs)" using Cons.prems(3) by (simp add: algebra_simps)
  have "growth ^ length partials * (\<bar>x\<bar> + ?p) \<le> growth ^ (k * length (x # xs)) * (\<bar>x\<bar> + ?p)" using len nonneg by (intro le) simp_all
  also have "\<dots> \<le> growth ^ (k * length (x # xs)) * (sum_list (map abs (x # xs)) + ?p)" using nonneg growth_ge(3) by (intro mult_left_mono) simp_all
  finally have "growth ^ length partials * (\<bar>x\<bar> + ?p) \<le> 2 ^ m" using Cons.prems(4) by linarith
  then obtain ps where ps: "add_to_partials partials x = Inr ps" "length ps \<le> length partials + 1"
    "sum_list (map abs ps) \<le> growth ^ length partials * (\<bar>x\<bar> + ?p)"
    using add_to_partials_total [of x partials m] Cons.prems by auto
  have "?xs + sum_list (map abs ps) \<le> growth ^ length partials * (?xs + \<bar>x\<bar> + ?p)"
    using ps(3) mult_right_mono [OF growth_ge(2) [of "length partials"] nonneg(2)] by (simp add: algebra_simps)
  also have "\<dots> \<le> growth ^ k * (?xs + \<bar>x\<bar> + ?p)" using Cons.prems(3) nonneg by (intro le) simp_all
  finally have "growth ^ (k * length xs) * (?xs + sum_list (map abs ps)) \<le> growth ^ (k * length xs) * (growth ^ k * (?xs + \<bar>x\<bar> + ?p))"
    using growth_ge(3) by (intro mult_left_mono)
  also have "\<dots> = growth ^ (k * length (x # xs)) * (sum_list (map abs (x # xs)) + ?p)" by (simp add: power_add algebra_simps)
  finally have "growth ^ (k * length xs) * (?xs + sum_list (map abs ps)) \<le> 2 ^ m" using Cons.prems(4) by linarith
  then show ?case
    using Cons.IH [of ps] Cons.prems ps add_to_partials_exact(2) [OF ps(1)] by auto
qed simp

lemma growth_million: "growth ^ (2 ^ 40) \<le> 2"
proof -
  have bernoulli: "1 - of_nat n * d \<le> (1 - d) ^ n" if "0 \<le> d" "d \<le> 1" for n and d :: rat
  proof (induction n)
    case (Suc n)
    have "(1 - of_nat n * d) * (1 - d) \<le> (1 - d) ^ n * (1 - d)" using Suc that by (intro mult_right_mono) simp_all
    moreover have "1 - of_nat (Suc n) * d \<le> (1 - of_nat n * d) * (1 - d)" using that by (simp add: algebra_simps)
    ultimately show ?case by (simp add: mult.commute)
  qed simp
  let ?d = "1 / 2 ^ 52 :: rat" and ?n = "2 ^ 40 :: nat"
  have half: "1 / 2 \<le> (1 - ?d) ^ ?n" using bernoulli [of ?d ?n] by (simp only: of_nat_power of_nat_numeral) simp
  have "(growth * (1 - ?d)) ^ ?n \<le> 1" by (rule power_le_one) (simp_all add: growth_def)
  then have "growth ^ ?n * (1 - ?d) ^ ?n \<le> 1" by (simp only: power_mult_distrib)
  moreover have "growth ^ ?n * (1 / 2) \<le> growth ^ ?n * (1 - ?d) ^ ?n" using half growth_ge(3) by (rule mult_left_mono)
  ultimately show ?thesis by linarith
qed

text \<open>A million observations within \<open>2 ^ 900\<close> never leave the range.\<close>

lemma million_sum:
  assumes "\<forall>x\<in>set xs. \<bar>x\<bar> \<le> (2::rat) ^ 900" and "length xs \<le> 2 ^ 20"
  shows "sum_list (map abs xs) \<le> 2 ^ 920"
proof -
  have "sum_list (map abs xs) \<le> sum_list (map (\<lambda>_. 2 ^ 900) xs)" using assms(1) by (intro sum_list_mono) simp
  also have "\<dots> = of_nat (length xs) * 2 ^ 900" by (simp add: sum_list_triv)
  also have "\<dots> \<le> 2 ^ 20 * 2 ^ 900"
  proof (rule mult_right_mono)
    have "(of_nat (length xs) :: rat) \<le> of_nat (2 ^ 20)" using assms(2) by (simp only: of_nat_le_iff)
    then show "(of_nat (length xs) :: rat) \<le> 2 ^ 20" by simp
  qed simp
  finally show ?thesis by simp
qed

lemma carried_sum_returns:
  assumes "\<forall>x\<in>set xs. is_float x \<and> \<bar>x\<bar> \<le> 2 ^ 900" and "length xs \<le> 2 ^ 20"
  shows "\<exists>partials. foldE (\<lambda>x ps. add_to_partials ps x) xs [] = Inr partials"
proof (rule carried_sum_total [of _ _ "length xs" 921])
  have sum: "sum_list (map abs xs) \<le> 2 ^ 920" using assms by (intro million_sum) simp_all
  have "length xs * length xs \<le> 2 ^ 20 * 2 ^ 20" using assms(2) by (intro mult_le_mono)
  then have "growth ^ (length xs * length xs) \<le> growth ^ (2 ^ 20 * 2 ^ 20)" by (rule power_increasing) (rule growth_ge)
  also have "2 ^ 20 * 2 ^ 20 = (2 ^ 40 :: nat)" by (simp only: power_add [symmetric]) simp
  finally have "growth ^ (length xs * length xs) \<le> 2" using growth_million by linarith
  then have "growth ^ (length xs * length xs) * sum_list (map abs xs) \<le> 2 * 2 ^ 920"
    using sum by (intro mult_mono sum_list_nonneg) auto
  then show "growth ^ (length xs * length xs) * (sum_list (map abs xs) + sum_list (map abs [])) \<le> 2 ^ 921" by simp
qed (use assms(1) in auto)

section \<open>The sample deviation\<close>

lemma sum_square_deviation:
  fixes xs :: "rat list"
  shows "sum_list (map (\<lambda>x. (x - m)\<^sup>2) xs) =
    sum_list (map (\<lambda>x. x\<^sup>2) xs) - 2 * m * sum_list xs + of_int (int (length xs)) * m\<^sup>2"
  by (induction xs) (simp_all add: power2_eq_square algebra_simps)

lemma stdev_from_moments:
  assumes "2 \<le> length xs"
  shows "sample_stdev_from_exact_moments (int (length xs)) (sum_list xs) (sum_list (map (\<lambda>x. x\<^sup>2) xs)) = stdev xs"
proof -
  define n :: rat where "n = of_int (int (length xs))"
  have n: "n \<noteq> 0" using assms by (auto simp: n_def)
  have "sum_list (map (\<lambda>x. (x - sum_list xs / n)\<^sup>2) xs) =
      (n * sum_list (map (\<lambda>x. x\<^sup>2) xs) - sum_list xs * sum_list xs) / n"
    unfolding sum_square_deviation n_def [symmetric] using n by (simp add: field_simps power2_eq_square)
  then show ?thesis
    using assms unfolding sample_stdev_from_exact_moments_def stdev_def Let_def n_def [symmetric]
    by (simp add: n_def)
qed

end
