(* ===== verification/MetricsFacts.thy ===== *)
theory MetricsFacts
  imports Metrics Weights FloatSums
begin

text \<open>
  The metrics computed from chunk to chunk are those of the whole report: the square root and the
  sample deviation, the summary a prefix of the rows determines, and the equality of the two
  result records.
\<close>

section \<open>What a prefix of the rows determines\<close>

lemma entry_index_append:
  "entry_index (rows @ [row]) i = (case entry_index rows i of Some j \<Rightarrow> Some j
     | None \<Rightarrow> if day_rebalance row then Some (i + int (length rows)) else None)"
  by (induction rows i rule: entry_index.induct) (auto split: option.splits)

lemma entry_index_bound: "entry_index rows i = Some j \<Longrightarrow> i \<le> j \<and> j < i + int (length rows)"
  by (induction rows i rule: entry_index.induct) (auto split: if_splits)

lemma mapE_append: "mapE f (xs @ ys) = bindE (mapE f xs) (\<lambda>us. bindE (mapE f ys) (\<lambda>vs. Inr (us @ vs)))"
  by (induction xs) (auto simp: bindE_assoc intro!: bindE_cong split: sum.splits simp: bindE_def)

lemma mapE_cong [fundef_cong]: "xs = ys \<Longrightarrow> (\<And>x. x \<in> set ys \<Longrightarrow> f x = g x) \<Longrightarrow> mapE f xs = mapE g ys"
  by (induction ys arbitrary: xs) auto

lemma net_returns_append:
  assumes "navs \<noteq> []"
  shows "net_returns (navs @ [v]) = bindE (net_returns navs) (\<lambda>rs. bindE (ratio_return v (last navs)) (\<lambda>r. Inr (rs @ [r])))"
proof -
  have "[1..<length (navs @ [v])] = [1..<length navs] @ [length navs]" using assms by (cases navs) simp_all
  moreover have "mapE (\<lambda>i. ratio_return ((navs @ [v]) ! i) ((navs @ [v]) ! (i - 1))) [1..<length navs] = net_returns navs"
    unfolding net_returns_def by (rule mapE_cong) (auto simp: nth_append)
  moreover have "(navs @ [v]) ! (length navs - 1) = last navs" using assms by (simp add: nth_append last_conv_nth)
  ultimately show ?thesis by (simp add: net_returns_def mapE_append) (simp add: bindE_assoc)
qed

lemma max_index_less: "xs \<noteq> [] \<Longrightarrow> max_index xs < length xs"
proof -
  assume ne: "xs \<noteq> []"
  have "foldl (\<lambda>best i. if xs ! best < xs ! i then i else best) b is < length xs"
    if "\<forall>i\<in>set is. i < length xs" "b < length xs" for b "is"
    using that by (induction "is" arbitrary: b) auto
  then show ?thesis using ne by (simp add: max_index_def)
qed

lemma max_index_append:
  assumes "xs \<noteq> []"
  shows "max_index (xs @ [x]) = (if xs ! max_index xs < x then length xs else max_index xs)"
proof -
  have i: "[1..<length (xs @ [x])] = [1..<length xs] @ [length xs]" using assms by (cases xs) simp_all
  have "foldl (\<lambda>best i. if (xs @ [x]) ! best < (xs @ [x]) ! i then i else best) b is =
      foldl (\<lambda>best i. if xs ! best < xs ! i then i else best) b is"
    if "\<forall>i\<in>set is. i < length xs" "b < length xs" for b "is"
    using that by (induction "is" arbitrary: b) (auto simp: nth_append)
  from this [of "[1..<length xs]" 0] have
    "foldl (\<lambda>best i. if (xs @ [x]) ! best < (xs @ [x]) ! i then i else best) 0 [1..<length xs] = max_index xs"
    using assms by (simp add: max_index_def)
  then show ?thesis using max_index_less [OF assms] unfolding max_index_def i by (simp add: nth_append)
qed

subsection \<open>Drawdown\<close>

definition drawdown_loop :: "dec list \<Rightarrow> nat \<Rightarrow> py_error + nat \<times> dec \<times> nat \<times> nat" where
  "drawdown_loop navs k = foldE (drawdown_step navs) [0..<k] (0, dzero, 0, 0)"

lemma drawdown_loop_Suc: "drawdown_loop navs (Suc k) = bindE (drawdown_loop navs k) (drawdown_step navs k)"
proof -
  have "foldE (drawdown_step navs) [k] = drawdown_step navs k" by (rule ext) (simp add: bindE_def split: sum.splits)
  then show ?thesis by (simp add: drawdown_loop_def foldE_append)
qed

lemma drawdown_step_index:
  "drawdown_step navs k (p, w, wp, wt) = Inr (p', w', wp', wt') \<Longrightarrow> p' \<in> {p, k} \<and> wp' \<in> {wp, p, k} \<and> wt' \<in> {wt, k}"
  by (auto simp: drawdown_step_def Let_def split: if_splits)

lemma drawdown_loop_bounds:
  "drawdown_loop navs k = Inr (p, w, wp, wt) \<Longrightarrow> 0 < n \<Longrightarrow> k \<le> n \<Longrightarrow> p < n \<and> wp < n \<and> wt < n"
proof (induction k arbitrary: p w wp wt)
  case 0
  then show ?case by (simp add: drawdown_loop_def)
next
  case (Suc k)
  from Suc.prems(1) obtain st where st: "drawdown_loop navs k = Inr st" "drawdown_step navs k st = Inr (p, w, wp, wt)"
    by (auto simp only: drawdown_loop_Suc elim!: bindE_InrE)
  obtain p0 w0 wp0 wt0 where st0: "st = (p0, w0, wp0, wt0)" by (cases st)
  note 0 = st [unfolded st0]
  have "p0 < n \<and> wp0 < n \<and> wt0 < n" using Suc.IH [OF 0(1)] Suc.prems by simp
  moreover have "k < n" using Suc.prems by simp
  ultimately show ?case using drawdown_step_index [OF 0(2)] by auto
qed

lemma drawdown_loop_prefix: "k \<le> length navs \<Longrightarrow> drawdown_loop (navs @ vs) k = drawdown_loop navs k"
proof (induction k)
  case 0
  then show ?case by (simp add: drawdown_loop_def)
next
  case (Suc k)
  have "drawdown_step (navs @ vs) k s = drawdown_step navs k s" if s: "drawdown_loop navs k = Inr s" for s
  proof -
    obtain p w wp wt where st: "s = (p, w, wp, wt)" by (cases s)
    have "p < length navs" using drawdown_loop_bounds [OF s [unfolded st], of "length navs"] Suc.prems by (cases navs) auto
    then show ?thesis using Suc.prems by (simp add: drawdown_step_def nth_append Let_def st)
  qed
  then have "bindE (drawdown_loop navs k) (drawdown_step (navs @ vs) k) = bindE (drawdown_loop navs k) (drawdown_step navs k)"
    by (intro bindE_cong refl)
  then show ?case using Suc by (simp add: drawdown_loop_Suc)
qed

subsection \<open>The drawdown of a value\<close>

lemma emax_DEFAULT: "(2::rat) < 10 powi (emax DEFAULT_CONTEXT)"
proof -
  have "(10::rat) powi 1 \<le> 10 powi (emax DEFAULT_CONTEXT)" by (rule ten_powi_mono) (simp add: DEFAULT_CONTEXT_def)
  then show ?thesis by simp
qed

lemma fits_one: "fits DEFAULT_CONTEXT 1"
  unfolding fits_def by (rule exI [of _ 1], rule exI [of _ 0]) (simp add: DEFAULT_CONTEXT_def etiny_def)

lemma own_drawdown:
  assumes "dval v \<noteq> 0"
  shows "\<exists>d. net_drawdown v v = Inr d \<and> dval d = 0"
proof -
  have v: "coeff v \<noteq> 0" using assms dval_eq_0_iff by blast
  have "2 * \<bar>dval v / dval v\<bar> < 10 powi (emax DEFAULT_CONTEXT)" using assms emax_DEFAULT by simp
  then obtain r where r: "def_div v v = Inr r" using dec_div_total [OF ctx_wide_contexts(2) v] by blast
  have "rounds_to DEFAULT_CONTEXT (dval v / dval v) (dval r)"
    by (rule dec_div_rounds [OF ctx_ok_DEFAULT r])
  then have r1: "dval r = 1" using rounds_exact [OF _ fits_one] assms by simp
  have "\<bar>dval (dec_of_int 1) - dval r\<bar> < 10 powi (emax DEFAULT_CONTEXT)" using r1 emax_DEFAULT by simp
  then obtain d where d: "def_sub (dec_of_int 1) r = Inr d" using dec_sub_total [OF ctx_wide_contexts(2)] by blast
  have "rounds_to DEFAULT_CONTEXT 0 (dval d)" using dec_sub_rounds [OF ctx_ok_DEFAULT d] r1 by simp
  then have "dval d = 0" using decade_nonzero by (auto simp: rounds_to_def)
  then show ?thesis using r d by (simp add: net_drawdown_def)
qed

text \<open>
  The drawdown keys of the state name the same rows as the indices of the loop over the list, and
  the recovery session is the first recovery the search over the rest finds.
\<close>

definition drawdown_agrees :: "daily_row list \<Rightarrow> row_metrics \<Rightarrow> bool" where
  "drawdown_agrees rows r \<longleftrightarrow> (let navs = map day_net_nav rows in
     \<exists>p w wp wt. drawdown_loop navs (length navs) = Inr (p, w, wp, wt) \<and>
       rm_peak_net_nav r = navs ! p \<and> rm_peak_session r = day_session (rows ! p) \<and>
       rm_worst_drawdown r = w \<and> rm_worst_peak_nav r = navs ! wp \<and>
       rm_worst_peak_session r = day_session (rows ! wp) \<and> rm_worst_trough_session r = day_session (rows ! wt) \<and>
       rm_worst_recovery_session r = map_option (\<lambda>i. day_session (rows ! i)) (recovery_index navs w wp wt))"

lemma find_append: "List.find P (xs @ ys) = (case List.find P xs of None \<Rightarrow> List.find P ys | Some x \<Rightarrow> Some x)"
  by (induction xs) auto

lemma find_cong_set: "(\<And>x. x \<in> set xs \<Longrightarrow> P x = Q x) \<Longrightarrow> List.find P xs = List.find Q xs"
  by (induction xs) auto

lemma recovery_index_append:
  assumes "wp < length navs" "wt < length navs"
  shows "recovery_index (navs @ [v]) w wp wt = (case recovery_index navs w wp wt of Some i \<Rightarrow> Some i
    | None \<Rightarrow> if dlt dzero w \<and> dle (navs ! wp) v then Some (length navs) else None)"
proof -
  let ?P = "\<lambda>i. dlt dzero w \<and> dle ((navs @ [v]) ! wp) ((navs @ [v]) ! i)"
  have i: "[wt + 1..<length (navs @ [v])] = [wt + 1..<length navs] @ [length navs]" using assms(2) by simp
  have f1: "List.find ?P [wt + 1..<length navs] = recovery_index navs w wp wt"
    unfolding recovery_index_def by (rule find_cong_set) (use assms in \<open>auto simp: nth_append\<close>)
  have f2: "List.find ?P [length navs] = (if dlt dzero w \<and> dle (navs ! wp) v then Some (length navs) else None)"
    using assms by (simp add: nth_append)
  show ?thesis unfolding recovery_index_def [of "navs @ [v]"] i find_append f1 f2 ..
qed

lemma drawdown_row_agrees:
  assumes a: "drawdown_agrees rows r" and ne: "rows \<noteq> []" and d: "drawdown_row row r = Inr r'"
  shows "drawdown_agrees (rows @ [row]) r'"
proof -
  define navs where "navs = map day_net_nav rows"
  define v where "v = day_net_nav row"
  define n where "n = length navs"
  have n: "0 < n" "n = length rows" using ne by (simp_all add: n_def navs_def)
  obtain p w wp wt where l: "drawdown_loop navs n = Inr (p, w, wp, wt)" and
    f: "rm_peak_net_nav r = navs ! p" "rm_peak_session r = day_session (rows ! p)" "rm_worst_drawdown r = w"
      "rm_worst_peak_nav r = navs ! wp" "rm_worst_peak_session r = day_session (rows ! wp)"
      "rm_worst_trough_session r = day_session (rows ! wt)"
      "rm_worst_recovery_session r = map_option (\<lambda>i. day_session (rows ! i)) (recovery_index navs w wp wt)"
    using a by (auto simp: drawdown_agrees_def Let_def navs_def n_def)
  have b: "p < n" "wp < n" "wt < n" using drawdown_loop_bounds [OF l n(1)] by auto
  have rb: "i < n" if "recovery_index navs w wp wt = Some i" for i
    using that by (auto simp: recovery_index_def find_Some_iff n_def)
  define p' where "p' = (if dlt (navs ! p) v then n else p)"
  have p': "(navs @ [v]) ! p' = (if dlt (navs ! p) v then v else navs ! p)"
    "day_session ((rows @ [row]) ! p') = (if dlt (navs ! p) v then day_session row else day_session (rows ! p))"
    using b n by (simp_all add: p'_def nth_append n_def)
  obtain dd where dd: "net_drawdown v ((navs @ [v]) ! p') = Inr dd"
    using d f(1) unfolding p'(1) drawdown_row_def Let_def v_def [symmetric]
    by (elim bindE_InrE) (auto split: if_splits)
  have loop: "drawdown_loop (navs @ [v]) (Suc n) =
      (if dlt w dd then Inr (p', dd, p', n) else Inr (p', w, wp, wt))"
  proof -
    have "(navs @ [v]) ! n = v" "(navs @ [v]) ! p = navs ! p" using b by (simp_all add: n_def nth_append)
    then have "drawdown_step (navs @ [v]) n (p, w, wp, wt) = (if dlt w dd then Inr (p', dd, p', n) else Inr (p', w, wp, wt))"
      using dd by (simp only: drawdown_step_def prod.case Let_def p'_def [symmetric] bindE_simps)
    then show ?thesis using l by (simp add: drawdown_loop_Suc drawdown_loop_prefix n_def)
  qed
  have new: "recovery_index (navs @ [v]) dd p' n = None" by (simp add: recovery_index_def n_def)
  note old = recovery_index_append [of wp navs wt v w, folded n_def, OF b(2,3)]
  show ?thesis
  proof (cases "dlt w dd")
    case True
    have r': "rm_peak_net_nav r' = (navs @ [v]) ! p' \<and> rm_peak_session r' = day_session ((rows @ [row]) ! p') \<and>
      rm_worst_drawdown r' = dd \<and> rm_worst_peak_nav r' = (navs @ [v]) ! p' \<and>
      rm_worst_peak_session r' = day_session ((rows @ [row]) ! p') \<and>
      rm_worst_trough_session r' = day_session row \<and> rm_worst_recovery_session r' = None"
      using d dd f True unfolding p' drawdown_row_def Let_def v_def [symmetric]
      by (auto split: if_splits)
    then show ?thesis
      unfolding drawdown_agrees_def Let_def using loop True new n
      by (simp add: navs_def [symmetric] v_def [symmetric] n_def [symmetric])
  next
    case False
    have r': "rm_peak_net_nav r' = (navs @ [v]) ! p' \<and> rm_peak_session r' = day_session ((rows @ [row]) ! p') \<and>
      rm_worst_drawdown r' = w \<and> rm_worst_peak_nav r' = navs ! wp \<and>
      rm_worst_peak_session r' = day_session (rows ! wp) \<and>
      rm_worst_trough_session r' = day_session (rows ! wt) \<and>
      rm_worst_recovery_session r' = (if dlt dzero w \<and> rm_worst_recovery_session r = None \<and> dle (navs ! wp) v
         then Some (day_session row) else rm_worst_recovery_session r)"
      using d dd f False unfolding p' drawdown_row_def Let_def v_def [symmetric]
      by (auto split: if_splits)
    have "rm_worst_recovery_session r' =
        map_option (\<lambda>i. day_session ((rows @ [row]) ! i)) (recovery_index (navs @ [v]) w wp wt)"
      using r' f(7) old rb n by (auto simp: nth_append split: option.splits)
    then show ?thesis
      unfolding drawdown_agrees_def Let_def using loop False r' b n
      by (auto simp: navs_def [symmetric] v_def [symmetric] n_def [symmetric] nth_append)
  qed
qed

subsection \<open>The whole summary\<close>

definition returns_agree :: "daily_row list \<Rightarrow> row_metrics \<Rightarrow> bool" where
  "returns_agree rows r \<longleftrightarrow> (\<exists>rs. net_returns (map day_net_nav rows) = Inr rs \<and>
     rm_return_count r = int (length rs) \<and> rm_return_sum r = sum_list rs \<and>
     rm_return_square_sum r = sum_list (map (\<lambda>x. x\<^sup>2) rs))"

definition extremes_agree :: "daily_row list \<Rightarrow> row_metrics \<Rightarrow> bool" where
  "extremes_agree rows r \<longleftrightarrow>
     rm_holdings_minimum r = Min (set (map day_holdings rows)) \<and>
     rm_holdings_maximum r = Max (set (map day_holdings rows)) \<and>
     rm_weight_maximum r = map day_max_weight rows ! max_index (map day_max_weight rows) \<and>
     rm_weight_maximum_session r = day_session (rows ! max_index (map day_max_weight rows)) \<and>
     rm_cash_maximum r = map day_cash_ratio rows ! max_index (map day_cash_ratio rows) \<and>
     rm_cash_maximum_session r = day_session (rows ! max_index (map day_cash_ratio rows))"

definition totals_agree :: "daily_row list \<Rightarrow> row_metrics \<Rightarrow> bool" where
  "totals_agree rows r \<longleftrightarrow> rm_session_count r = int (length rows) \<and>
     rm_entry r = map_option (\<lambda>i. (day_session (rows ! nat i), i + 1)) (entry_index rows 0) \<and>
     rm_last_gross_nav r = day_gross_nav (last rows) \<and> rm_last_net_nav r = day_net_nav (last rows) \<and>
     rm_holdings_sum r = sum_list (map day_holdings rows) \<and> rm_holdings_ending r = day_holdings (last rows) \<and>
     rm_weight_ending r = day_max_weight (last rows) \<and>
     rm_cash_sum r = sum_list (map day_cash_ratio rows) \<and> rm_cash_ending r = day_cash_ratio (last rows)"

definition summarises :: "daily_row list \<Rightarrow> row_metrics \<Rightarrow> bool" where
  "summarises rows r \<longleftrightarrow> rows \<noteq> [] \<and> drawdown_agrees rows r \<and> returns_agree rows r \<and> extremes_agree rows r \<and>
     totals_agree rows r"

lemma finish_row_keeps:
  "drawdown_agrees rows (finish_row row r) = drawdown_agrees rows r"
  "returns_agree rows (finish_row row r) = returns_agree rows r"
  "extremes_agree rows (finish_row row r) = extremes_agree rows r"
  by (simp_all add: finish_row_def drawdown_agrees_def returns_agree_def extremes_agree_def)

lemma drawdown_row_keeps:
  assumes "drawdown_row row r = Inr r'"
  shows "rm_return_count r' = rm_return_count r" "rm_return_sum r' = rm_return_sum r"
    "rm_return_square_sum r' = rm_return_square_sum r" "rm_holdings_minimum r' = rm_holdings_minimum r"
    "rm_holdings_maximum r' = rm_holdings_maximum r" "rm_weight_maximum r' = rm_weight_maximum r"
    "rm_weight_maximum_session r' = rm_weight_maximum_session r" "rm_cash_maximum r' = rm_cash_maximum r"
    "rm_cash_maximum_session r' = rm_cash_maximum_session r" "rm_session_count r' = rm_session_count r"
    "rm_entry r' = rm_entry r" "rm_holdings_sum r' = rm_holdings_sum r" "rm_cash_sum r' = rm_cash_sum r"
  using assms unfolding drawdown_row_def Let_def by (auto elim!: bindE_InrE)

lemma first_row_summarises:
  assumes "dval (day_net_nav row) \<noteq> 0"
  shows "summarises [row] (finish_row row (first_row row))"
proof -
  let ?v = "day_net_nav row"
  obtain d where "net_drawdown ?v ?v = Inr d" "dval d = 0" using own_drawdown [OF assms] by blast
  then have "drawdown_step [?v] 0 (0, dzero, 0, 0) = Inr (0, dzero, 0, 0)"
    by (simp add: drawdown_step_def dlt_val)
  then have "drawdown_agrees [row] (first_row row)"
    by (simp add: drawdown_agrees_def drawdown_loop_def first_row_def recovery_index_def)
  moreover have "returns_agree [row] (first_row row)"
    by (simp add: returns_agree_def first_row_def net_returns_def)
  moreover have "extremes_agree [row] (first_row row)"
    by (simp add: extremes_agree_def first_row_def max_index_def)
  moreover have "totals_agree [row] (finish_row row (first_row row))"
    by (simp add: totals_agree_def first_row_def finish_row_def)
  ultimately show ?thesis by (simp add: summarises_def finish_row_keeps)
qed

lemma later_row_summarises:
  assumes s: "summarises rows r" and l: "later_row row r = Inr r'"
  shows "summarises (rows @ [row]) (finish_row row r')"
proof -
  have ne: "rows \<noteq> []" using s by (simp add: summarises_def)
  obtain x r1 where x: "ratio_return (day_net_nav row) (rm_last_net_nav r) = Inr x"
    and d: "drawdown_row row (r\<lparr>rm_return_count := rm_return_count r + 1, rm_return_sum := rm_return_sum r + x,
         rm_return_square_sum := rm_return_square_sum r + x\<^sup>2\<rparr>) = Inr r1"
    and r': "r' = (let r2 = r1\<lparr>rm_holdings_minimum := min (rm_holdings_minimum r1) (day_holdings row),
            rm_holdings_maximum := max (rm_holdings_maximum r1) (day_holdings row)\<rparr>;
         r3 = (if rm_weight_maximum r2 < day_max_weight row
               then r2\<lparr>rm_weight_maximum := day_max_weight row, rm_weight_maximum_session := day_session row\<rparr> else r2)
     in (if rm_cash_maximum r3 < day_cash_ratio row
             then r3\<lparr>rm_cash_maximum := day_cash_ratio row, rm_cash_maximum_session := day_session row\<rparr> else r3))"
    using l unfolding later_row_def Let_def by (elim bindE_InrE) (auto intro: that)
  note k = drawdown_row_keeps [OF d]
  have "drawdown_agrees rows (r\<lparr>rm_return_count := rm_return_count r + 1, rm_return_sum := rm_return_sum r + x,
         rm_return_square_sum := rm_return_square_sum r + x\<^sup>2\<rparr>)"
    using s by (simp add: summarises_def drawdown_agrees_def)
  from drawdown_row_agrees [OF this ne d] have "drawdown_agrees (rows @ [row]) r'"
    by (simp add: r' Let_def drawdown_agrees_def)
  moreover have "returns_agree (rows @ [row]) r'"
  proof -
    obtain rs where "net_returns (map day_net_nav rows) = Inr rs" "rm_return_count r = int (length rs)"
      "rm_return_sum r = sum_list rs" "rm_return_square_sum r = sum_list (map (\<lambda>x. x\<^sup>2) rs)"
      using s by (auto simp: summarises_def returns_agree_def)
    moreover have "last (map day_net_nav rows) = rm_last_net_nav r"
      using s by (simp add: summarises_def totals_agree_def last_map)
    ultimately show ?thesis using x k ne
      by (simp add: returns_agree_def r' Let_def net_returns_append)
  qed
  moreover have "extremes_agree (rows @ [row]) r'"
  proof -
    have e: "extremes_agree rows r" using s by (simp add: summarises_def)
    note m = max_index_append [of "map day_max_weight rows" "day_max_weight row"]
      max_index_append [of "map day_cash_ratio rows" "day_cash_ratio row"]
      max_index_less [of "map day_max_weight rows"] max_index_less [of "map day_cash_ratio rows"]
    show ?thesis using e k m ne
      by (simp add: extremes_agree_def r' Let_def nth_append min.commute max.commute)
  qed
  moreover have "totals_agree (rows @ [row]) (finish_row row r')"
  proof -
    have t: "totals_agree rows r" using s by (simp add: summarises_def)
    have "nat i < length rows" if "entry_index rows 0 = Some i" for i
      using entry_index_bound [OF that] by (simp add: nat_less_iff)
    then show ?thesis using t k
      by (auto simp: totals_agree_def r' Let_def finish_row_def entry_index_append nth_append split: option.splits)
  qed
  ultimately show ?thesis by (simp add: summarises_def finish_row_keeps)
qed

section \<open>Positive drawdowns\<close>

text \<open>A positive drawdown is at least one unit of the last place of a number below one.\<close>

lemma positive_drawdown:
  assumes d: "net_drawdown v peak = Inr d" and pos: "0 < dval d"
  shows "10 powi (- 28) \<le> dval d"
proof -
  obtain r where r: "def_div v peak = Inr r" "def_sub (dec_of_int 1) r = Inr d"
    using d by (auto simp: net_drawdown_def)
  have s: "rounds_to DEFAULT_CONTEXT (1 - dval r) (dval d)" using dec_sub_rounds [OF ctx_ok_DEFAULT r(2)] by simp
  have lt: "dval r < 1"
  proof (rule ccontr)
    assume "\<not> dval r < 1"
    then have "1 - dval r \<le> 0" by simp
    from rounds_nonpos [OF s this] pos show False by simp
  qed
  have "fits DEFAULT_CONTEXT (dval r)"
    by (rule rounds_fits [OF ctx_ok_DEFAULT dec_div_rounds(2) [OF ctx_ok_DEFAULT r(1)]])
  then obtain m g where mg: "dval r = of_int m * 10 powi g" "\<bar>m\<bar> < 10 ^ prec DEFAULT_CONTEXT"
    by (auto simp: fits_def)
  have p: "prec DEFAULT_CONTEXT = 28" by (simp add: DEFAULT_CONTEXT_def)
  have "10 powi (- 28) \<le> 1 - dval r"
  proof (cases "- 28 \<le> g")
    case True
    define q where "q = m * 10 ^ nat (g + 28)"
    have "(10::rat) powi g = of_int (10 ^ nat (g + 28)) * 10 powi (- 28)"
      using ten_powi_split [OF True] by (simp only: diff_minus_eq_add)
    then have q: "dval r = of_int q * 10 powi (- 28)" using mg(1) by (simp add: q_def)
    have u: "(1::rat) = of_int (10 ^ 28) * 10 powi (- 28)" by (simp add: power_int_def power_one_over)
    have "(of_int q :: rat) * 10 powi (- 28) < of_int (10 ^ 28) * 10 powi (- 28)" using lt unfolding q u [symmetric] .
    then have "q < 10 ^ 28" by (simp only: mult_less_cancel_right_pos ten_powi_pos of_int_less_iff)
    then have "q + 1 \<le> 10 ^ 28" by simp
    then have "of_int (q + 1) * 10 powi (- 28) \<le> (of_int (10 ^ 28) * 10 powi (- 28) :: rat)"
      by (intro mult_right_mono) (simp_all only: of_int_le_iff ten_powi_pos less_imp_le)
    then show ?thesis unfolding u [symmetric] q by (simp only: of_int_add of_int_1 distrib_right mult_1 le_diff_eq add.commute)
  next
    case False
    have "\<bar>dval r\<bar> < 10 powi (- 1)" unfolding mg(1) by (rule fits_bound [OF mg(2)]) (use False p in simp)
    then have "9 / 10 < 1 - dval r" by (simp add: power_int_def)
    moreover have "(10::rat) powi (- 28) \<le> 10 powi (- 1)" by (rule ten_powi_mono) simp
    moreover have "(10::rat) powi (- 1) \<le> 9 / 10" by (simp add: power_int_def)
    ultimately show ?thesis by linarith
  qed
  moreover have "fits DEFAULT_CONTEXT (10 powi (- 28))"
    unfolding fits_def by (rule exI [of _ 1], rule exI [of _ "- 28"]) (simp add: DEFAULT_CONTEXT_def etiny_def)
  ultimately show ?thesis
    by (intro fits_le_rounded [OF ctx_ok_DEFAULT s]) (assumption | rule less_imp_le [OF ten_powi_pos])+
qed

lemma loop_drawdown:
  "drawdown_loop navs k = Inr (p, w, wp, wt) \<Longrightarrow> 0 < dval w \<Longrightarrow> 10 powi (- 28) \<le> dval w"
proof (induction k arbitrary: p w wp wt)
  case 0
  then show ?case by (simp add: drawdown_loop_def)
next
  case (Suc k)
  from Suc.prems(1) obtain st where st: "drawdown_loop navs k = Inr st" "drawdown_step navs k st = Inr (p, w, wp, wt)"
    by (auto simp only: drawdown_loop_Suc elim!: bindE_InrE)
  obtain p0 w0 wp0 wt0 where st0: "st = (p0, w0, wp0, wt0)" by (cases st)
  obtain d peak where "net_drawdown (navs ! k) peak = Inr d" "w = w0 \<or> w = d"
    using st(2) unfolding st0 drawdown_step_def Let_def prod.case by (auto split: if_splits)
  with Suc.IH [OF st(1) [unfolded st0]] positive_drawdown Suc.prems(2) show ?case by blast
qed

lemma loop_drawdown_nonneg: "drawdown_loop navs k = Inr (p, w, wp, wt) \<Longrightarrow> 0 \<le> dval w"
proof (induction k arbitrary: p w wp wt)
  case 0
  then show ?case by (simp add: drawdown_loop_def)
next
  case (Suc k)
  from Suc.prems(1) obtain st where st: "drawdown_loop navs k = Inr st" "drawdown_step navs k st = Inr (p, w, wp, wt)"
    by (auto simp only: drawdown_loop_Suc elim!: bindE_InrE)
  obtain p0 w0 wp0 wt0 where st0: "st = (p0, w0, wp0, wt0)" by (cases st)
  have "w = w0 \<or> dlt w0 w"
    using st(2) unfolding st0 drawdown_step_def Let_def prod.case by (auto split: if_splits)
  with Suc.IH [OF st(1) [unfolded st0]] show ?case by (auto simp: dlt_val)
qed

section \<open>Operations see values only\<close>

lemma rounds_bound:
  assumes r: "rounds_to DEFAULT_CONTEXT v x" and x: "\<bar>x\<bar> \<le> 10 powi k" and k: "0 \<le> k"
  shows "\<bar>v\<bar> < 10 powi (k + 1)"
proof (rule ccontr)
  assume n: "\<not> \<bar>v\<bar> < 10 powi (k + 1)"
  have f: "fits DEFAULT_CONTEXT (10 powi (k + 1))"
    unfolding fits_def by (rule exI [of _ 1], rule exI [of _ "k + 1"]) (use k in \<open>simp add: DEFAULT_CONTEXT_def etiny_def\<close>)
  have lt: "(10::rat) powi k < 10 powi (k + 1)" by (rule ten_powi_less_iff [THEN iffD2]) simp
  have le: "10 powi (k + 1) \<le> y" if "rounds_to DEFAULT_CONTEXT w y" "10 powi (k + 1) \<le> w" for w y :: rat
    by (rule fits_le_rounded [OF ctx_ok_DEFAULT that(1) f less_imp_le [OF ten_powi_pos] that(2)])
  show False
  proof (cases "0 \<le> v")
    case True
    then show ?thesis using le [OF r] n x lt by linarith
  next
    case False
    then show ?thesis using le [OF rounds_minus [OF r]] n x lt by linarith
  qed
qed

lemma wide_bound: "(10::rat) powi 1003 \<le> 10 powi (emax DEFAULT_CONTEXT)"
  by (rule ten_powi_mono) (simp add: DEFAULT_CONTEXT_def)

lemma def_div_value:
  assumes d: "def_div a b = Inr r" and b: "\<bar>dval r\<bar> \<le> 10 powi k" "0 \<le> k" "k \<le> 1000" and v: "dval a' = dval a" "dval b' = dval b"
  obtains r' where "def_div a' b' = Inr r'" and "dval r' = dval r"
proof -
  have c: "coeff b \<noteq> 0" "rounds_to DEFAULT_CONTEXT (dval a / dval b) (dval r)"
    using dec_div_rounds [OF ctx_ok_DEFAULT d] by auto
  have "dval b' \<noteq> 0" using c(1) v(2) dval_eq_0_iff by metis
  then have c': "coeff b' \<noteq> 0" using dval_eq_0_iff by blast
  have "\<bar>dval a' / dval b'\<bar> < 10 powi (k + 1)" unfolding v by (rule rounds_bound [OF c(2) b(1,2)])
  moreover have "2 * (10::rat) powi (k + 1) \<le> 10 powi 1003"
  proof -
    have "(2::rat) * 10 powi (k + 1) \<le> 10 powi 1 * 10 powi (k + 1)" by (intro mult_right_mono) simp_all
    also have "\<dots> = 10 powi (1 + (k + 1))" by (rule power_int_add [symmetric]) simp
    also have "\<dots> \<le> 10 powi 1003" by (rule ten_powi_mono) (use b(3) in simp)
    finally show ?thesis .
  qed
  ultimately have "2 * \<bar>dval a' / dval b'\<bar> < 10 powi (emax DEFAULT_CONTEXT)" using wide_bound by linarith
  then obtain r' where r': "def_div a' b' = Inr r'" using dec_div_total [OF ctx_wide_contexts(2) c'] by blast
  moreover have "dval r' = dval r"
    using rounds_unique [OF ctx_ok_DEFAULT dec_div_rounds(2) [OF ctx_ok_DEFAULT r'] c(2) [folded v]] .
  ultimately show thesis by (rule that)
qed

lemma def_sub_value:
  assumes d: "def_sub a b = Inr r" and b: "\<bar>dval r\<bar> \<le> 10 powi k" "0 \<le> k" "k \<le> 1000" and v: "dval a' = dval a" "dval b' = dval b"
  obtains r' where "def_sub a' b' = Inr r'" and "dval r' = dval r"
proof -
  note c = dec_sub_rounds [OF ctx_ok_DEFAULT d]
  have "\<bar>dval a' - dval b'\<bar> < 10 powi (k + 1)" unfolding v by (rule rounds_bound [OF c b(1,2)])
  moreover have "(10::rat) powi (k + 1) \<le> 10 powi 1003" by (rule ten_powi_mono) (use b(3) in simp)
  ultimately have "\<bar>dval a' - dval b'\<bar> < 10 powi (emax DEFAULT_CONTEXT)" using wide_bound by linarith
  then obtain r' where r': "def_sub a' b' = Inr r'" using dec_sub_total [OF ctx_wide_contexts(2)] by blast
  moreover have "dval r' = dval r"
    using rounds_unique [OF ctx_ok_DEFAULT dec_sub_rounds [OF ctx_ok_DEFAULT r'] c [folded v]] .
  ultimately show thesis by (rule that)
qed

lemma cumulative_return_value:
  assumes "cumulative_return nav cash = Inr x" "dval nav' = dval nav" "dval cash' = dval cash"
  shows "cumulative_return nav' cash' = Inr x"
    and "wealth_cagr fpow nav' cash' k = wealth_cagr fpow nav cash k"
proof -
  obtain r d where r: "def_div nav cash = Inr r" and d: "def_sub r (dec_of_int 1) = Inr d" and f: "float_of (dval d) = Inr x"
    using assms(1) by (auto simp: cumulative_return_def)
  note b = float_of_bound [OF f]
  have s: "rounds_to DEFAULT_CONTEXT (dval r - 1) (dval d)" using dec_sub_rounds [OF ctx_ok_DEFAULT d] by simp
  have "(0::int) \<le> 400" by simp
  note rounds_bound [OF s b this]
  moreover have "(10::rat) powi (400 + 1) + 1 \<le> 10 powi 402"
  proof -
    have "(10::rat) powi 0 \<le> 10 powi (400 + 1)" by (rule ten_powi_mono) simp
    then have "1 \<le> (10::rat) powi (400 + 1)" by (simp only: power_int_0_right)
    moreover have "(10::rat) powi (1 + (400 + 1)) = 10 powi 1 * 10 powi (400 + 1)" by (rule power_int_add) simp
    moreover have "(1::int) + (400 + 1) = 402" by simp
    ultimately show ?thesis using ten_powi_pos [of "400 + 1"] by (simp only: power_int_1_right)
  qed
  ultimately have br: "\<bar>dval r\<bar> \<le> 10 powi 402"
    using abs_triangle_ineq2 [of "dval r" 1] unfolding abs_one by linarith
  obtain r' where r': "def_div nav' cash' = Inr r'" "dval r' = dval r"
    by (rule def_div_value [OF r br _ _ assms(2,3)]) simp_all
  obtain d' where d': "def_sub r' (dec_of_int 1) = Inr d'" "dval d' = dval d"
    by (rule def_sub_value [OF d b _ _ r'(2) refl]) simp_all
  show "cumulative_return nav' cash' = Inr x" using r' d' f by (simp add: cumulative_return_def)
  show "wealth_cagr fpow nav' cash' k = wealth_cagr fpow nav cash k"
    using r r' by (simp add: wealth_cagr_def cagr_def dle_val)
qed

section \<open>The two results\<close>

lemma advance_rows_summary:
  "foldE advance_row rows None = Inr st \<Longrightarrow> rows \<noteq> [] \<Longrightarrow> dval (day_net_nav (hd rows)) \<noteq> 0 \<Longrightarrow>
    \<exists>r. st = Some r \<and> summarises rows r"
proof (induction rows arbitrary: st rule: rev_induct)
  case Nil
  then show ?case by simp
next
  case (snoc row rows)
  obtain st0 where s: "foldE advance_row rows None = Inr st0" "advance_row row st0 = Inr st"
    using snoc.prems(1) by (auto simp: foldE_append)
  show ?case
  proof (cases "rows = []")
    case True
    then have "st = Some (finish_row row (first_row row))" using s by (auto simp: advance_row_def)
    then show ?thesis using first_row_summarises [of row] snoc.prems(3) True by simp
  next
    case False
    then obtain r where r: "st0 = Some r" "summarises rows r" using snoc.IH [OF s(1)] snoc.prems(3) by auto
    then obtain r' where "later_row row r = Inr r'" "st = Some (finish_row row r')"
      using s(2) by (auto simp: advance_row_def)
    then show ?thesis using later_row_summarises [OF r(2)] by blast
  qed
qed

text \<open>The result a bounded summary carries: the same without the daily lists.\<close>

definition compact :: "metrics \<Rightarrow> metrics" where
  "compact m = m\<lparr>mt_drawdown := (mt_drawdown m)\<lparr>dd_series := []\<rparr>, mt_turnover_events := [],
     mt_holdings_daily := [], mt_weight_daily := [], mt_cash_daily := []\<rparr>"

lemma entry_index_rebalance: "\<exists>row\<in>set rows. day_rebalance row \<Longrightarrow> \<exists>i. entry_index rows k = Some i"
  by (induction rows k rule: entry_index.induct) auto

lemma maximum_drawdown_nonzero:
  assumes "maximum_drawdown rows (map day_net_nav rows) = Inr d" "rows \<noteq> []"
  shows "dval (day_net_nav (hd rows)) \<noteq> 0"
proof
  assume z: "dval (day_net_nav (hd rows)) = 0"
  obtain row rest where rows: "rows = row # rest" using assms(2) by (cases rows) auto
  then have u: "[0..<length (map day_net_nav rows)] = 0 # [Suc 0..<length (map day_net_nav rows)]"
    by (subst upt_conv_Cons) (simp_all add: rows)
  have "\<exists>st. drawdown_step (map day_net_nav rows) 0 (0, dzero, 0, 0) = Inr st"
    using assms(1) unfolding maximum_drawdown_def u foldE.simps by (auto elim!: bindE_InrE)
  then obtain r where "def_div (day_net_nav row) (day_net_nav row) = Inr r"
    by (auto simp: drawdown_step_def net_drawdown_def rows Let_def)
  from dec_div_rounds(1) [OF ctx_ok_DEFAULT this] z show False by (simp add: rows dval_eq_0_iff)
qed

lemma maximum_drawdown_streamed:
  assumes d: "maximum_drawdown rows (map day_net_nav rows) = Inr d" and a: "drawdown_agrees rows r"
  shows "float_of (dval (rm_worst_drawdown r)) = Inr (dd_value d)"
    and "rm_worst_peak_session r = dd_peak_session d" and "rm_worst_trough_session r = dd_trough_session d"
    and "rm_worst_recovery_session r = dd_recovery_session d"
    and "dd_unrecovered d = (dd_recovery_session d = None \<and> 0 < dd_value d)"
proof -
  let ?navs = "map day_net_nav rows"
  obtain p w wp wt where l: "drawdown_loop ?navs (length ?navs) = Inr (p, w, wp, wt)" and
    f: "rm_worst_drawdown r = w" "rm_worst_peak_session r = day_session (rows ! wp)"
      "rm_worst_trough_session r = day_session (rows ! wt)"
      "rm_worst_recovery_session r = map_option (\<lambda>i. day_session (rows ! i)) (recovery_index ?navs w wp wt)"
    using a by (auto simp: drawdown_agrees_def Let_def)
  have l': "foldE (drawdown_step ?navs) [0..<length ?navs] (0, dzero, 0, 0) = Inr (p, w, wp, wt)"
    using l by (simp only: drawdown_loop_def)
  obtain val1 series where v: "float_of (dval w) = Inr val1" and
    d': "d = \<lparr>dd_value = val1, dd_peak_session = day_session (rows ! wp), dd_trough_session = day_session (rows ! wt),
          dd_recovery_session = map_option (\<lambda>i. day_session (rows ! i)) (recovery_index ?navs w wp wt),
          dd_unrecovered = (recovery_index ?navs w wp wt = None \<and> dlt dzero w), dd_series = series\<rparr>"
    using d unfolding maximum_drawdown_def l' bindE_simps prod.case Let_def by (elim bindE_InrE) auto
  have "dlt dzero w = (0 < val1)"
  proof
    assume "dlt dzero w"
    then have "0 < dval w" by (simp add: dlt_val)
    then show "0 < val1" using float_of_pos [OF v loop_drawdown [OF l]] by simp
  next
    assume "0 < val1"
    show "dlt dzero w"
    proof (rule ccontr)
      assume "\<not> dlt dzero w"
      then have "dval w \<le> 0" by (simp add: dlt_val)
      have "0 \<le> dval w" by (rule loop_drawdown_nonneg [OF l])
      with \<open>dval w \<le> 0\<close> v \<open>0 < val1\<close> show False by (simp add: float_of_def)
    qed
  qed
  then show "float_of (dval (rm_worst_drawdown r)) = Inr (dd_value d)"
    "rm_worst_peak_session r = dd_peak_session d" "rm_worst_trough_session r = dd_trough_session d"
    "rm_worst_recovery_session r = dd_recovery_session d"
    "dd_unrecovered d = (dd_recovery_session d = None \<and> 0 < dd_value d)"
    using f v by (simp_all add: d')
qed

lemma volatility_from_moments:
  "annual_volatility (sample_stdev_from_exact_moments (int (length rs)) (sum_list rs) (sum_list (map (\<lambda>x. x\<^sup>2) rs)))
     (int (length rs)) = annual_volatility (stdev rs) (int (length rs))"
  by (cases "2 \<le> length rs") (simp_all add: stdev_from_moments annual_volatility_def)

section \<open>Properties\<close>

text \<open>
  C12: Carrying the metric state through the run gives exactly the metrics computed over the whole
  list of daily rows, without the daily lists, for every report in which some session rebalanced:
  the drawdown with its peak, trough and recovery sessions, the volatility from exact moments, the
  extremes with the sessions they occurred in, the means, the turnover and the costs.
\<close>

theorem streamed_metrics_equal:
  assumes batch: "strategy_metrics fpow initial_cash rows turnover cost reasons = Inr m"
    and adv: "advance_strategy_metric_state None initial_cash rows turnover cost reasons = Inr s"
    and cash: "0 < dval initial_cash" and entered: "\<exists>row\<in>set rows. day_rebalance row"
    and holdings: "\<forall>row\<in>set rows. 0 \<le> day_holdings row" "sum_list (map day_holdings rows) < 2 ^ 53"
  shows "strategy_metrics_from_state fpow s = Inr (compact m)"
proof -
  let ?navs = "map day_net_nav rows" and ?h = "map day_holdings rows"
  obtain i where i: "entry_index rows 0 = Some i" using entry_index_rebalance [OF entered] by blast
  obtain u gross_cumulative net_cumulative gross_cagr net_cagr returns volatility mean sharpe dd calmar
    average annualized amount ratio drag hmean cmean where
    u: "raiseIf (rows = []) IndexError = Inr u" and
    c: "cumulative_return (last (map day_gross_nav rows)) initial_cash = Inr gross_cumulative"
      "cumulative_return (last ?navs) initial_cash = Inr net_cumulative"
      "wealth_cagr fpow (last (map day_gross_nav rows)) initial_cash (int (length rows) - i - 1) = Inr gross_cagr"
      "wealth_cagr fpow (last ?navs) initial_cash (int (length rows) - i - 1) = Inr net_cagr"
      "net_returns ?navs = Inr returns" "annual_volatility (stdev returns) (int (length returns)) = Inr volatility"
      "mean_of (sum_list returns) (int (length returns)) = Inr mean" "sharpe_ratio volatility mean = Inr sharpe"
      "maximum_drawdown rows ?navs = Inr dd" "calmar_ratio net_cagr (dd_value dd) = Inr calmar"
      "mean_of (sum_list (map snd turnover)) (int (length (map snd turnover))) = Inr average"
      "annual_turnover (sum_list (map snd turnover)) (int (length rows) - 1) = Inr annualized"
      "float_of (dval cost) = Inr amount"
      "cost_ratio cost initial_cash = Inr ratio"
      "float_of (gross_cumulative - net_cumulative) = Inr drag"
      "float_mean (sum_list (map of_int ?h)) (int (length rows)) = Inr hmean"
      "float_mean (sum_list (map day_cash_ratio rows)) (int (length rows)) = Inr cmean"
    and m: "Inr \<lparr>mt_gross_cumulative = gross_cumulative, mt_net_cumulative = net_cumulative,
           mt_gross_cagr = gross_cagr, mt_net_cagr = net_cagr, mt_drawdown = dd,
           mt_volatility = volatility, mt_sharpe = sharpe, mt_calmar = calmar,
           mt_turnover_events = turnover, mt_turnover_average = average,
           mt_turnover_annualized = annualized, mt_cost_amount = amount, mt_cost_ratio = ratio,
           mt_return_drag = drag, mt_holdings_daily = ?h, mt_holdings_mean = hmean,
           mt_holdings_minimum = Min (set ?h), mt_holdings_maximum = Max (set ?h),
           mt_holdings_ending = last ?h, mt_weight_daily = map day_max_weight rows,
           mt_weight_maximum = map day_max_weight rows ! max_index (map day_max_weight rows),
           mt_weight_maximum_session = day_session (rows ! max_index (map day_max_weight rows)),
           mt_weight_ending = last (map day_max_weight rows), mt_cash_daily = map day_cash_ratio rows,
           mt_cash_mean = cmean, mt_cash_maximum = map day_cash_ratio rows ! max_index (map day_cash_ratio rows),
           mt_cash_maximum_session = day_session (rows ! max_index (map day_cash_ratio rows)),
           mt_cash_ending = last (map day_cash_ratio rows),
           mt_upper_rejections = rejection_count ''upper_limit_buy'' reasons,
           mt_lower_rejections = rejection_count ''lower_limit_sell'' reasons,
           mt_suspensions = rejection_count ''suspension'' reasons\<rparr> = (Inr m :: py_error + metrics)"
    using batch unfolding strategy_metrics_def Let_def i option.case by (elim bindE_InrE) (rule that)
  have ne: "rows \<noteq> []" using u by simp
  obtain r where r: "foldE advance_row rows None = Inr (Some r)" and
    st: "s = \<lparr>ms_initial_cash = canon initial_cash, ms_rows = Some r,
          ms_turnover_sum = sum_list (map snd turnover), ms_turnover_count = int (length turnover),
          ms_cumulative_cost = canon cost, ms_upper_rejections = rejection_count ''upper_limit_buy'' reasons,
          ms_lower_rejections = rejection_count ''lower_limit_sell'' reasons,
          ms_suspensions = rejection_count ''suspension'' reasons\<rparr>"
    using adv by (auto simp: advance_strategy_metric_state_def empty_metric_state_def Let_def)
  have "summarises rows r"
    using advance_rows_summary [OF r ne maximum_drawdown_nonzero [OF c(9) ne]] by auto
  then have a: "drawdown_agrees rows r" "returns_agree rows r" "extremes_agree rows r" "totals_agree rows r"
    by (simp_all add: summarises_def)
  have rs: "rm_return_count r = int (length returns)" "rm_return_sum r = sum_list returns"
    "rm_return_square_sum r = sum_list (map (\<lambda>x. x\<^sup>2) returns)"
    using a(2) c(5) by (auto simp: returns_agree_def)
  note dd = maximum_drawdown_streamed [OF c(9) a(1)]
  have t: "rm_session_count r = int (length rows)" "rm_entry r = Some (day_session (rows ! nat i), i + 1)"
    "rm_last_gross_nav r = last (map day_gross_nav rows)" "rm_last_net_nav r = last ?navs"
    "rm_holdings_sum r = sum_list ?h" "rm_holdings_ending r = last ?h"
    "rm_weight_ending r = last (map day_max_weight rows)"
    "rm_cash_sum r = sum_list (map day_cash_ratio rows)" "rm_cash_ending r = last (map day_cash_ratio rows)"
    using a(4) i ne by (simp_all add: totals_agree_def last_map)
  have cr: "cumulative_return (last (map day_gross_nav rows)) (canon initial_cash) = Inr gross_cumulative"
    "cumulative_return (last ?navs) (canon initial_cash) = Inr net_cumulative"
    "wealth_cagr fpow (last (map day_gross_nav rows)) (canon initial_cash) (int (length rows) - (i + 1)) = Inr gross_cagr"
    "wealth_cagr fpow (last ?navs) (canon initial_cash) (int (length rows) - (i + 1)) = Inr net_cagr"
    using cumulative_return_value [OF c(1) refl dval_canon] cumulative_return_value [OF c(2) refl dval_canon] c(3,4)
    by (simp_all add: diff_diff_eq [symmetric])
  have ratio: "cost_ratio (canon cost) (canon initial_cash) = Inr ratio"
  proof -
    obtain q where q: "def_div cost initial_cash = Inr q" "float_of (dval q) = Inr ratio" using c(14) by (auto simp: cost_ratio_def)
    obtain q' where "def_div (canon cost) (canon initial_cash) = Inr q'" "dval q' = dval q"
      by (rule def_div_value [OF q(1) float_of_bound [OF q(2)] _ _ dval_canon dval_canon]) simp_all
    then show ?thesis using q(2) by (simp add: cost_ratio_def)
  qed
  have hm: "fdiv (of_int (sum_list ?h)) (of_int (int (length rows))) = Inr hmean"
  proof -
    have "0 \<le> sum_list ?h" using holdings(1) by (intro sum_list_nonneg) auto
    then have "float_of (of_int (sum_list ?h)) = Inr (of_int (sum_list ?h))" by (rule float_of_int [OF _ holdings(2)])
    moreover have "sum_list (map of_int ?h) = (of_int (sum_list ?h) :: rat)" by (induction rows) simp_all
    ultimately show ?thesis using c(16) by (simp only: float_mean_def bindE_simps)
  qed
  have vol: "annual_volatility (sample_stdev_from_exact_moments (rm_return_count r) (rm_return_sum r)
      (rm_return_square_sum r)) (rm_return_count r) = Inr volatility"
    unfolding rs volatility_from_moments by (rule c(6))
  have cash': "\<not> dle (canon initial_cash) dzero" using cash by (simp add: dle_val)
  have len: "int (length (map snd turnover)) = int (length turnover)" by simp
  have ex: "rm_holdings_minimum r = Min (set ?h)" "rm_holdings_maximum r = Max (set ?h)"
     "rm_weight_maximum r = map day_max_weight rows ! max_index (map day_max_weight rows)"
     "rm_weight_maximum_session r = day_session (rows ! max_index (map day_max_weight rows))"
     "rm_cash_maximum r = map day_cash_ratio rows ! max_index (map day_cash_ratio rows)"
     "rm_cash_maximum_session r = day_session (rows ! max_index (map day_cash_ratio rows))"
    using a(3) by (simp_all add: extremes_agree_def)
  have cm: "float_mean (rm_cash_sum r) (int (length rows)) = Inr cmean"
    using c(17) by (simp only: t)
  have mm: "m = m'" if "(Inr m' :: py_error + metrics) = Inr m" for m' using that by simp
  note calc = cr vol c(7) [folded rs] c(8) dd(1) c(10) c(11) [unfolded len] c(12) c(13) ratio c(15) hm cm
  have drawdown: "\<lparr>dd_value = dd_value dd, dd_peak_session = rm_worst_peak_session r,
      dd_trough_session = rm_worst_trough_session r, dd_recovery_session = rm_worst_recovery_session r,
      dd_unrecovered = (rm_worst_recovery_session r = None \<and> 0 < dd_value dd), dd_series = []\<rparr> = dd\<lparr>dd_series := []\<rparr>"
    using dd(2-5) by (cases dd) simp
  show ?thesis
    unfolding mm [OF m] st strategy_metrics_from_state_def Let_def
    using cash' calc by (simp add: t ex compact_def drawdown)
qed

text \<open>Two sessions: all cash, then a rebalance that leaves the account at the same value.\<close>

definition metric_row :: "string \<Rightarrow> bool \<Rightarrow> daily_row" where
  "metric_row session rebalanced = \<lparr>day_session = session, day_rebalance = rebalanced, day_pre_gross_nav = Dec 100 0,
     day_pre_net_nav = Dec 100 0, day_gross_nav = Dec 100 0, day_net_nav = Dec 100 0,
     day_close_risk_nav = Dec 100 0, day_gross_return = 0, day_net_return = 0, day_gross_cash = Dec 50 0,
     day_net_cash = Dec 50 0, day_cumulative_cost = dzero, day_holdings = (if rebalanced then 1 else 0),
     day_max_weight = (if rebalanced then 1 / 2 else 0), day_cash_ratio = (if rebalanced then 1 / 2 else 1),
     day_residual = dzero, day_valuation_events = []\<rparr>"

definition entered_rows :: "daily_row list" where
  "entered_rows = [metric_row ''2024-01-02'' False, metric_row ''2024-01-03'' True]"

definition unit_power :: "rat \<Rightarrow> rat \<Rightarrow> py_error + rat" where
  "unit_power w e = Inr 1"

definition batch_sample :: metrics where
  "batch_sample = projr (strategy_metrics unit_power (Dec 100 0) entered_rows [] dzero [])"

definition state_sample :: metric_state where
  "state_sample = projr (advance_strategy_metric_state None (Dec 100 0) entered_rows [] dzero [])"

lemma streamed_metrics_equal_witness:
  "strategy_metrics_from_state unit_power state_sample = Inr (compact batch_sample)"
proof (rule streamed_metrics_equal)
  have "\<not> isl (strategy_metrics unit_power (Dec 100 0) entered_rows [] dzero [])" by code_simp
  then show "strategy_metrics unit_power (Dec 100 0) entered_rows [] dzero [] = Inr batch_sample"
    unfolding batch_sample_def by (rule sum.collapse(2) [symmetric])
  have "\<not> isl (advance_strategy_metric_state None (Dec 100 0) entered_rows [] dzero [])" by code_simp
  then show "advance_strategy_metric_state None (Dec 100 0) entered_rows [] dzero [] = Inr state_sample"
    unfolding state_sample_def by (rule sum.collapse(2) [symmetric])
qed (simp_all add: entered_rows_def metric_row_def)


text \<open>
  C13: The metric state does not depend on how the run is cut into chunks: advancing the state of
  the first rows by the later ones gives the state of all rows, with the turnover events and the
  rejections of both parts and the final cost, and fails exactly when that fails.
\<close>

theorem chunked_metric_state:
  assumes "advance_strategy_metric_state None initial_cash rows turnover cost reasons = Inr s"
  shows "advance_strategy_metric_state (Some s) initial_cash rows' turnover' cost' reasons' =
    advance_strategy_metric_state None initial_cash (rows @ rows') (turnover @ turnover') cost' (reasons @ reasons')"
proof -
  obtain r where r: "foldE advance_row rows None = Inr (Some r)" and
    s: "s = \<lparr>ms_initial_cash = canon initial_cash, ms_rows = Some r,
          ms_turnover_sum = sum_list (map snd turnover), ms_turnover_count = int (length turnover),
          ms_cumulative_cost = canon cost, ms_upper_rejections = rejection_count ''upper_limit_buy'' reasons,
          ms_lower_rejections = rejection_count ''lower_limit_sell'' reasons,
          ms_suspensions = rejection_count ''suspension'' reasons\<rparr>"
    using assms by (auto simp: advance_strategy_metric_state_def empty_metric_state_def Let_def)
  show ?thesis
    by (simp add: advance_strategy_metric_state_def s empty_metric_state_def foldE_append r deq_val
        rejection_count_def Let_def)
qed

lemma chunked_metric_state_witness:
  "advance_strategy_metric_state (Some state_sample) (Dec 100 0) [metric_row ''2024-01-04'' False] [] dzero [''suspension''] =
   advance_strategy_metric_state None (Dec 100 0) (entered_rows @ [metric_row ''2024-01-04'' False]) [] dzero [''suspension'']"
proof -
  have "\<not> isl (advance_strategy_metric_state None (Dec 100 0) entered_rows [] dzero [])" by code_simp
  then have "advance_strategy_metric_state None (Dec 100 0) entered_rows [] dzero [] = Inr state_sample"
    unfolding state_sample_def by (rule sum.collapse(2) [symmetric])
  from chunked_metric_state [OF this, of "[metric_row ''2024-01-04'' False]" "[]" dzero "[''suspension'']"]
  show ?thesis by simp
qed

text \<open>
  C15: The integer root of a fraction is exact or odd, and then lies strictly less than one unit from
  the real root on either side, which is what makes the one rounding of the division that follows
  correct; and the deviation computed from the exact moments is the one of \<open>statistics.stdev\<close>.
\<close>

theorem exact_moments_deviation:
  assumes "0 \<le> n" and "0 < d" and "2 \<le> length xs"
  shows "(let r = integer_sqrt_fraction_round_to_odd n d in
      0 \<le> r \<and> (r * r * d = n \<or> odd r \<and> (r - 1) * (r - 1) * d < n \<and> n < (r + 1) * (r + 1) * d)) \<and>
    sample_stdev_from_exact_moments (int (length xs)) (sum_list xs) (sum_list (map (\<lambda>x. x\<^sup>2) xs)) = stdev xs"
  using round_to_odd_spec [OF assms(1,2)] stdev_from_moments [OF assms(3)] by (auto simp: Let_def)

lemma exact_moments_deviation_witness:
  "sample_stdev_from_exact_moments 2 3 5 = stdev [1, 2] \<and> integer_sqrt_fraction_round_to_odd 10 1 = 3"
proof -
  have "integer_sqrt_fraction_round_to_odd 10 1 = 3" by code_simp
  then show ?thesis using exact_moments_deviation [of 10 1 "[1, 2]"] by simp
qed

end
