(* ===== verification/AlphaTypes.thy ===== *)
theory AlphaTypes
  imports Numeric
begin

text \<open>
  The values and types of the Alpha language: \<open>research_kernel/expression_types.py\<close>,
  \<open>expression_limits.py\<close>, \<open>common_inputs.py\<close> and the codes of \<open>industry_catalog.py\<close>.

  A compiled expression is the dictionary the code builds and later reads back from a frozen
  definition, so it is a \<open>pyval\<close> here and every reader of it decides for itself what shape it
  accepts. Keys of a dictionary are strings and occur once. A finite binary64 number is the
  rational it denotes; the sign of a zero is not kept.
\<close>

section \<open>Python values\<close>

datatype pyfloat = Finite rat | Infinite | NotANumber

datatype pyval =
    VNone
  | VBool bool
  | VInt int
  | VFloat pyfloat
  | VStr string
  | VList "pyval list"
  | VDict "(string \<times> pyval) list"
  | VOther string

text \<open>\<open>dict.get\<close>, and the values a traversal of nested containers visits.\<close>

fun get :: "pyval \<Rightarrow> string \<Rightarrow> pyval option" where
  "get (VDict d) k = map_of d k"
| "get _ k = None"

fun keys :: "pyval \<Rightarrow> string set" where
  "keys (VDict d) = set (map fst d)"
| "keys _ = {}"

fun is_dict :: "pyval \<Rightarrow> bool" where
  "is_dict (VDict d) = True"
| "is_dict _ = False"

lemma size_map_of: "map_of d k = Some v \<Longrightarrow> size v < size (VDict d)"
  by (induction d) (auto split: if_splits)

lemma get_size [termination_simp]: "get v k = Some w \<Longrightarrow> size w < size v"
  by (cases v) (auto dest: size_map_of)

section \<open>Value types\<close>

datatype value_type =
    NUMERIC_SERIES
  | NUMBER
  | BOOLEAN_SERIES
  | BOOLEAN
  | COMMON_NUMERIC_SERIES
  | COMMON_BOOLEAN_SERIES
  | WINDOW

primrec type_name :: "value_type \<Rightarrow> string" where
  "type_name NUMERIC_SERIES = ''numeric_series''"
| "type_name NUMBER = ''number''"
| "type_name BOOLEAN_SERIES = ''boolean_series''"
| "type_name BOOLEAN = ''boolean''"
| "type_name COMMON_NUMERIC_SERIES = ''common_numeric_series''"
| "type_name COMMON_BOOLEAN_SERIES = ''common_boolean_series''"
| "type_name WINDOW = ''window''"

definition NUMERIC_TYPES :: "value_type list" where
  "NUMERIC_TYPES = [NUMBER, NUMERIC_SERIES, COMMON_NUMERIC_SERIES]"

definition BOOLEAN_TYPES :: "value_type list" where
  "BOOLEAN_TYPES = [BOOLEAN, BOOLEAN_SERIES, COMMON_BOOLEAN_SERIES]"

definition SERIES_TYPES :: "value_type list" where
  "SERIES_TYPES = [NUMERIC_SERIES, BOOLEAN_SERIES, COMMON_NUMERIC_SERIES, COMMON_BOOLEAN_SERIES]"

definition COMPARISON_OPERATORS :: "string list" where
  "COMPARISON_OPERATORS = [''gt'', ''ge'', ''lt'', ''le'', ''eq'', ''ne'']"

definition ARITHMETIC_OPERATORS :: "string list" where
  "ARITHMETIC_OPERATORS = [''add'', ''subtract'', ''multiply'', ''divide'']"

definition BOOLEAN_OPERATORS :: "string list" where
  "BOOLEAN_OPERATORS = [''and'', ''or'']"

definition result_scope :: "value_type list \<Rightarrow> bool \<Rightarrow> value_type" where
  "result_scope types boolean =
     (if list_ex (\<lambda>t. t = NUMERIC_SERIES \<or> t = BOOLEAN_SERIES) types then
        (if boolean then BOOLEAN_SERIES else NUMERIC_SERIES)
      else if list_ex (\<lambda>t. t \<in> set SERIES_TYPES) types then
        (if boolean then COMMON_BOOLEAN_SERIES else COMMON_NUMERIC_SERIES)
      else if boolean then BOOLEAN else NUMBER)"

definition unary_result_type :: "string \<Rightarrow> value_type \<Rightarrow> py_error + value_type" where
  "unary_result_type operator operand =
     (let allowed = if operator = ''not'' then BOOLEAN_TYPES else NUMERIC_TYPES
      in bindE (raiseIf (operator \<notin> set [''not'', ''negate''] \<or> operand \<notin> set allowed)
           (ValueError (operator @ '' does not accept '' @ type_name operand))) (\<lambda>_.
         Inr operand))"

definition operand_types :: "string \<Rightarrow> py_error + value_type list" where
  "operand_types operator =
     (if operator \<in> set BOOLEAN_OPERATORS then Inr BOOLEAN_TYPES
      else if operator \<in> set (ARITHMETIC_OPERATORS @ COMPARISON_OPERATORS) then Inr NUMERIC_TYPES
      else Inl (ValueError (''Unknown binary operator: '' @ operator)))"

definition binary_result_type :: "string \<Rightarrow> value_type \<Rightarrow> value_type \<Rightarrow> py_error + value_type" where
  "binary_result_type operator left right =
     bindE (operand_types operator) (\<lambda>allowed.
     bindE (raiseIf (left \<notin> set allowed \<or> right \<notin> set allowed)
              (ValueError (operator @ '' cannot combine '' @ type_name left @ '' and '' @ type_name right))) (\<lambda>_.
     Inr (result_scope [left, right] (operator \<in> set (BOOLEAN_OPERATORS @ COMPARISON_OPERATORS)))))"

definition conditional_result_type :: "value_type \<Rightarrow> value_type \<Rightarrow> value_type \<Rightarrow> py_error + value_type" where
  "conditional_result_type condition when_true when_false =
     bindE (raiseIf (condition \<notin> set BOOLEAN_TYPES) (ValueError ''if_else condition must be Boolean'')) (\<lambda>_.
     bindE (if when_true \<in> set NUMERIC_TYPES \<and> when_false \<in> set NUMERIC_TYPES then Inr False
            else if when_true \<in> set BOOLEAN_TYPES \<and> when_false \<in> set BOOLEAN_TYPES then Inr True
            else Inl (ValueError ''if_else branches must have the same value type'')) (\<lambda>boolean.
     Inr (result_scope [condition, when_true, when_false] boolean)))"

section \<open>Limits\<close>

definition MAX_FORMULA_LENGTH :: int where "MAX_FORMULA_LENGTH = 4096"
definition MAX_EXPRESSION_NODES :: int where "MAX_EXPRESSION_NODES = 256"
definition MAX_EXPRESSION_DEPTH :: int where "MAX_EXPRESSION_DEPTH = 32"
definition MAX_EFFECTIVE_LOOKBACK :: int where "MAX_EFFECTIVE_LOOKBACK = 252"
definition MAX_ESTIMATED_WORK :: int where "MAX_ESTIMATED_WORK = 4096"

section \<open>Common inputs\<close>

definition CLOSE_FIELD_ID :: string where
  "CLOSE_FIELD_ID = ''price.close.adjusted''"

definition COMMON_INPUT_WORK :: int where
  "COMMON_INPUT_WORK = 5"

definition COMMON_INPUTS :: "(string \<times> string \<times> bool) list" where
  "COMMON_INPUTS =
     [(''universe_return'', ''equal_weight_return'', False),
      (''universe_advancing_fraction'', ''advancing_fraction'', False),
      (''industry_return'', ''equal_weight_return'', True),
      (''industry_advancing_fraction'', ''advancing_fraction'', True)]"

definition SW2021_L1 :: "string list" where
  "SW2021_L1 =
     [''801010'', ''801030'', ''801040'', ''801050'', ''801080'', ''801110'', ''801120'', ''801130'',
      ''801140'', ''801150'', ''801160'', ''801170'', ''801180'', ''801200'', ''801210'', ''801230'',
      ''801710'', ''801720'', ''801730'', ''801740'', ''801750'', ''801760'', ''801770'', ''801780'',
      ''801790'', ''801880'', ''801890'', ''801950'', ''801960'', ''801970'', ''801980'']"

definition validate_sw2021_l1 :: "pyval \<Rightarrow> py_error + string" where
  "validate_sw2021_l1 v =
     (case v of
        VInt n \<Rightarrow> if canonical_integer n \<in> set SW2021_L1 then Inr (canonical_integer n)
                   else Inl (ValueError ''Industry must be a literal SW2021 L1 code from the catalog'')
      | _ \<Rightarrow> Inl (ValueError ''Industry must be a literal SW2021 L1 code from the catalog''))"

definition common_reference :: "string \<Rightarrow> pyval list \<Rightarrow> py_error + pyval" where
  "common_reference identifier arguments =
     bindE (lookupE COMMON_INPUTS identifier (ValueError ''Unknown common input'')) (\<lambda>(metric, industry).
     bindE (raiseIf (length arguments \<noteq> (if industry then 1 else 0))
              (ValueError ''Common input has invalid arity'')) (\<lambda>_.
     bindE (if industry then bindE (validate_sw2021_l1 (arguments ! 0)) (\<lambda>code. Inr (VStr code))
            else Inr VNone) (\<lambda>code.
     Inr (VDict [(''kind'', VStr ''common''), (''identifier'', VStr identifier), (''industry_code'', code)]))))"

text \<open>\<open>int(code)\<close> of an accepted text of ASCII digits.\<close>

definition industry_arguments :: "string \<Rightarrow> pyval \<Rightarrow> py_error + pyval list" where
  "industry_arguments identifier code =
     (case map_of COMMON_INPUTS identifier of
        Some (metric, industry) \<Rightarrow>
          if \<not> industry then Inr [] else
          (case code of
             VStr s \<Rightarrow> if s \<noteq> [] \<and> list_all is_digit s then Inr [VInt (int_of_digits s)]
                        else Inl (ValueError ''Common industry identity is malformed'')
           | _ \<Rightarrow> Inl (ValueError ''Common industry identity is malformed''))
      | None \<Rightarrow> Inr [])"

definition validate_common_reference :: "pyval \<Rightarrow> py_error + pyval" where
  "validate_common_reference node =
     bindE (raiseIf (keys node \<noteq> set [''kind'', ''identifier'', ''industry_code'']
              \<or> get node ''kind'' \<noteq> Some (VStr ''common'')) (ValueError ''Common input node is malformed'')) (\<lambda>_.
     bindE (case get node ''identifier'' of
              Some (VStr i) \<Rightarrow> if i \<in> set (map fst COMMON_INPUTS) then Inr i
                               else Inl (ValueError ''Unknown common input'')
            | _ \<Rightarrow> Inl (ValueError ''Unknown common input'')) (\<lambda>identifier.
     bindE (industry_arguments identifier (the (get node ''industry_code''))) (\<lambda>arguments.
     bindE (common_reference identifier arguments) (\<lambda>expected.
     bindE (raiseIf (\<not> list_all (\<lambda>k. get node k = get expected k) [''kind'', ''identifier'', ''industry_code''])
              (ValueError ''Common input identity is not canonical'')) (\<lambda>_.
     Inr expected)))))"

text \<open>The stack of \<open>common_input_references\<close>, its top first.\<close>

fun contained :: "pyval \<Rightarrow> pyval list" where
  "contained (VDict d) = map snd d"
| "contained (VList xs) = xs"
| "contained _ = []"

definition reference_key :: "pyval \<Rightarrow> string \<times> string option" where
  "reference_key reference =
     ((case get reference ''identifier'' of Some (VStr i) \<Rightarrow> i | _ \<Rightarrow> []),
      (case get reference ''industry_code'' of Some (VStr c) \<Rightarrow> Some c | _ \<Rightarrow> None))"

function collect_references ::
  "pyval list \<Rightarrow> (string \<times> string option) list \<Rightarrow> py_error + (string \<times> string option) list" where
  "collect_references [] references = Inr references"
| "collect_references (node # pending) references =
     bindE (if get node ''kind'' = Some (VStr ''common'') then
              bindE (validate_common_reference node) (\<lambda>r. Inr (List.insert (reference_key r) references))
            else Inr references) (\<lambda>references'.
     collect_references (rev (contained node) @ pending) references')"
  by pat_completeness auto

definition weight_of :: "pyval \<Rightarrow> nat" where
  "weight_of v = Suc (2 * size v)"

lemma children_weight: "sum_list (map weight_of (contained v)) < weight_of v"
proof (cases v)
  case (VDict d)
  have "sum_list (map weight_of (map snd d)) \<le> 2 * size (VDict d)"
    by (induction d) (auto simp: weight_of_def)
  then show ?thesis using VDict by (simp add: weight_of_def)
next
  case (VList xs)
  have "sum_list (map weight_of xs) \<le> 2 * size (VList xs)"
    by (induction xs) (auto simp: weight_of_def)
  then show ?thesis using VList by (simp add: weight_of_def)
qed (simp_all add: weight_of_def)

termination collect_references
  by (relation "measure (\<lambda>(pending, _). sum_list (map weight_of pending))")
    (simp_all add: rev_map [symmetric] sum_list_rev children_weight)

text \<open>\<open>sorted(references, key=lambda value: (value[0], value[1] or ""))\<close>\<close>

definition common_input_references :: "pyval list \<Rightarrow> py_error + (string \<times> string option) list" where
  "common_input_references expressions =
     bindE (collect_references (rev expressions) []) (\<lambda>references.
     Inr (sort_key fst (sort_key (\<lambda>r. case snd r of None \<Rightarrow> [] | Some c \<Rightarrow> c) references)))"

definition requires_common_industry :: "pyval list \<Rightarrow> py_error + bool" where
  "requires_common_industry expressions =
     bindE (common_input_references expressions) (\<lambda>references.
     Inr (list_ex (\<lambda>(_, code). code \<noteq> None) references))"

end
