(* ===== verification/AlphaBuiltins.thy ===== *)
theory AlphaBuiltins
  imports AlphaTypes Floats
begin

text \<open>
  \<open>research_kernel/alpha_builtins.py\<close>: the signatures of the builtins and their evaluators over
  one series.

  A number inside a series is an integer or a finite float, as in Python: a branch literal of
  \<open>if_else\<close> stays an integer until an operation converts it. \<open>None\<close> is a missing value. The
  evaluators replace every infinite float they meet or produce by a missing value, so infinities
  never occur between two builtins; a conversion of an integer beyond the float range raises.
  \<open>math.log\<close> is the C library's: the argument \<open>flog\<close>. The descriptions, examples and display
  texts of a definition are left out.
\<close>

section \<open>Signatures\<close>

datatype parameter_rule = Numeric | Series | Window | Boolean | Value | Industry | Temporal
datatype result_rule = SameAsFirst | NumericSeries | Conditional | CommonSeries
datatype lookback_rule = Identity | Historical | Rolling

record builtin =
  bi_identifier :: string
  bi_parameters :: "(string \<times> parameter_rule) list"
  bi_result_rule :: result_rule
  bi_lookback_rule :: lookback_rule
  bi_base_operations :: int
  bi_per_window_operations :: int

text \<open>The assertions \<open>window is not None\<close> hold for every builtin with such a rule.\<close>

definition effective_lookback :: "builtin \<Rightarrow> int \<Rightarrow> int option \<Rightarrow> int" where
  "effective_lookback b child_lookback window =
     (case (bi_lookback_rule b, window) of
        (Historical, Some w) \<Rightarrow> child_lookback + w
      | (Rolling, Some w) \<Rightarrow> child_lookback + w - 1
      | _ \<Rightarrow> child_lookback)"

definition estimated_work :: "builtin \<Rightarrow> int \<Rightarrow> int option \<Rightarrow> int" where
  "estimated_work b child_work window =
     child_work + bi_base_operations b
       + bi_per_window_operations b * (case window of None \<Rightarrow> 0 | Some w \<Rightarrow> w)"

definition builtin_of :: "string \<Rightarrow> (string \<times> parameter_rule) list \<Rightarrow> result_rule \<Rightarrow> lookback_rule \<Rightarrow> int \<Rightarrow> int \<Rightarrow> builtin" where
  "builtin_of identifier parameters result lookback base per_window =
     \<lparr>bi_identifier = identifier, bi_parameters = parameters, bi_result_rule = result,
      bi_lookback_rule = lookback, bi_base_operations = base, bi_per_window_operations = per_window\<rparr>"

definition common_builtins :: "builtin list" where
  "common_builtins =
     map (\<lambda>(identifier, metric, industry).
            builtin_of identifier (if industry then [(''sw2021_l1'', Industry)] else []) CommonSeries Identity
              COMMON_INPUT_WORK 0) COMMON_INPUTS"

definition series_window :: "(string \<times> parameter_rule) list" where
  "series_window = [(''series'', Temporal), (''window'', Window)]"

definition BUILTIN_DEFINITIONS :: "builtin list" where
  "BUILTIN_DEFINITIONS = common_builtins @
     [builtin_of ''if_else'' [(''condition'', Boolean), (''when_true'', Value), (''when_false'', Value)]
        Conditional Identity 1 0,
      builtin_of ''abs'' [(''value'', Numeric)] SameAsFirst Identity 1 0,
      builtin_of ''log'' [(''value'', Numeric)] SameAsFirst Identity 1 0,
      builtin_of ''sign'' [(''value'', Numeric)] SameAsFirst Identity 1 0,
      builtin_of ''rank'' [(''series'', Series)] NumericSeries Identity 1 0,
      builtin_of ''lag'' series_window SameAsFirst Historical 1 0,
      builtin_of ''delta'' series_window SameAsFirst Historical 1 0,
      builtin_of ''pct_change'' series_window SameAsFirst Historical 1 0,
      builtin_of ''ts_mean'' series_window SameAsFirst Rolling 1 1,
      builtin_of ''ts_sum'' series_window SameAsFirst Rolling 1 1,
      builtin_of ''ts_std'' series_window SameAsFirst Rolling 1 1,
      builtin_of ''ts_min'' series_window SameAsFirst Rolling 1 1,
      builtin_of ''ts_max'' series_window SameAsFirst Rolling 1 1]"

definition find_builtin :: "string \<Rightarrow> builtin option" where
  "find_builtin identifier = List.find (\<lambda>b. bi_identifier b = identifier) BUILTIN_DEFINITIONS"

section \<open>Numbers and series\<close>

datatype num = NInt int | NFloat rat

type_synonym series = "num option list"

datatype plan_value = PNone | PNum num | PSeries series

primrec nval :: "num \<Rightarrow> rat" where
  "nval (NInt n) = of_int n"
| "nval (NFloat x) = x"

text \<open>\<open>float(value)\<close>; an integer out of range raises, as does \<open>math.isfinite\<close> on it.\<close>

primrec to_float :: "num \<Rightarrow> py_error + rat" where
  "to_float (NInt n) = float_of (of_int n)"
| "to_float (NFloat x) = Inr x"

definition require_float_range :: "num \<Rightarrow> py_error + num" where
  "require_float_range n = bindE (to_float n) (\<lambda>_. Inr n)"

text \<open>A float result that may overflow to infinity, which \<open>_finite\<close> turns into a missing value.\<close>

definition finite_float :: "rat \<Rightarrow> num option" where
  "finite_float x = (case float_of x of Inl e \<Rightarrow> None | Inr y \<Rightarrow> Some (NFloat y))"

text \<open>Addition, subtraction, multiplication: exact on two integers, rounded otherwise.\<close>

definition num_op :: "(int \<Rightarrow> int \<Rightarrow> int) \<Rightarrow> (rat \<Rightarrow> rat \<Rightarrow> rat) \<Rightarrow> num \<Rightarrow> num \<Rightarrow> py_error + num option" where
  "num_op on_int on_float a b =
     (case (a, b) of
        (NInt m, NInt n) \<Rightarrow> Inr (Some (NInt (on_int m n)))
      | _ \<Rightarrow> bindE (to_float a) (\<lambda>x. bindE (to_float b) (\<lambda>y. Inr (finite_float (on_float x y)))))"

text \<open>True division; of two integers it raises when the quotient is out of range.\<close>

definition num_div :: "num \<Rightarrow> num \<Rightarrow> py_error + num option" where
  "num_div a b =
     (case (a, b) of
        (NInt m, NInt n) \<Rightarrow> bindE (float_of (of_int m / of_int n)) (\<lambda>q. Inr (Some (NFloat q)))
      | _ \<Rightarrow> bindE (to_float a) (\<lambda>x. bindE (to_float b) (\<lambda>y. Inr (finite_float (x / y)))))"

definition map_cell :: "(num \<Rightarrow> py_error + num option) \<Rightarrow> num option \<Rightarrow> py_error + num option" where
  "map_cell operation item =
     (case item of None \<Rightarrow> Inr None | Some n \<Rightarrow> bindE (require_float_range n) operation)"

definition map_numeric :: "plan_value \<Rightarrow> (num \<Rightarrow> py_error + num option) \<Rightarrow> py_error + plan_value" where
  "map_numeric value operation =
     (case value of
        PSeries items \<Rightarrow> bindE (mapE (map_cell operation) items) (\<lambda>s. Inr (PSeries s))
      | PNone \<Rightarrow> Inr PNone
      | PNum n \<Rightarrow> bindE (to_float n) (\<lambda>x. bindE (operation (NFloat x)) (\<lambda>r.
          Inr (case r of None \<Rightarrow> PNone | Some m \<Rightarrow> PNum m))))"

definition absolute_cell :: "num \<Rightarrow> py_error + num option" where
  "absolute_cell n = Inr (Some (case n of NInt i \<Rightarrow> NInt \<bar>i\<bar> | NFloat x \<Rightarrow> NFloat \<bar>x\<bar>))"

definition logarithm_cell :: "(rat \<Rightarrow> rat) \<Rightarrow> num \<Rightarrow> py_error + num option" where
  "logarithm_cell flog n =
     (if nval n \<le> 0 then Inr None else bindE (to_float n) (\<lambda>x. Inr (Some (NFloat (flog x)))))"

definition sign_cell :: "num \<Rightarrow> py_error + num option" where
  "sign_cell n =
     Inr (Some (NFloat (if nval n < 0 then - 1 else if 0 < nval n then 1 else 0)))"

section \<open>Windows over a series\<close>

definition series_and_window :: "plan_value list \<Rightarrow> py_error + series \<times> int" where
  "series_and_window arguments =
     (case arguments of
        [PSeries items, PNum (NInt window)] \<Rightarrow>
          bindE (mapE (map_cell (\<lambda>n. Inr (Some n))) items) (\<lambda>s. Inr (s, window))
      | _ \<Rightarrow> Inl (TypeError ''builtin received arguments that violate its compiled signature''))"

definition prior_item :: "series \<Rightarrow> int \<Rightarrow> nat \<Rightarrow> py_error + num option" where
  "prior_item items window index =
     (if int index < window then Inr None
      else if nat (int index - window) < length items then Inr (items ! nat (int index - window))
      else Inl IndexError)"

definition lag :: "plan_value list \<Rightarrow> py_error + series" where
  "lag arguments =
     bindE (series_and_window arguments) (\<lambda>(items, window). mapE (prior_item items window) [0..<length items])"

definition difference_cell :: "num option \<Rightarrow> num option \<Rightarrow> py_error + num option" where
  "difference_cell current prior =
     (case (current, prior) of
        (Some c, Some p) \<Rightarrow> bindE (num_op (-) (-) c p) (\<lambda>r.
          case r of None \<Rightarrow> Inr None | Some d \<Rightarrow> bindE (require_float_range d) (\<lambda>x. Inr (Some x)))
      | _ \<Rightarrow> Inr None)"

definition delta :: "plan_value list \<Rightarrow> py_error + series" where
  "delta arguments =
     bindE (series_and_window arguments) (\<lambda>(items, window).
     mapE (\<lambda>index. bindE (prior_item items window index) (difference_cell (items ! index))) [0..<length items])"

definition change_cell :: "num option \<Rightarrow> num option \<Rightarrow> py_error + num option" where
  "change_cell current prior =
     (case (current, prior) of
        (Some c, Some p) \<Rightarrow>
          if nval p = 0 then Inr None
          else bindE (num_div c p) (\<lambda>r.
            case r of None \<Rightarrow> Inr None | Some q \<Rightarrow> Inr (finite_float (nval q - 1)))
      | _ \<Rightarrow> Inr None)"

definition pct_change :: "plan_value list \<Rightarrow> py_error + series" where
  "pct_change arguments =
     bindE (series_and_window arguments) (\<lambda>(items, window).
     mapE (\<lambda>index. bindE (prior_item items window index) (change_cell (items ! index))) [0..<length items])"

end
