(* ===== verification/Rolling.thy ===== *)
theory Rolling
  imports AlphaBuiltins
begin

text \<open>
  The rolling builtins of \<open>research_kernel/alpha_builtins.py\<close>: sums kept in scaled compensated
  buckets, the population deviation from exact integer moments, the extremes from a monotone
  queue, then \<open>if_else\<close> and the dispatch over all builtins.

  Reference definitions over the plain window follow, with the proofs that the running state
  computes them: the deviation of exactly the values in the window, and their least and greatest.

  The totals of a bucket stay far below the float range (a scaled value is below \<open>2 ^ 32\<close>), so
  their additions are \<open>float_of\<close> of the exact sum.
\<close>

section \<open>Sums\<close>

definition SUM_BUCKET_WIDTH :: int where "SUM_BUCKET_WIDTH = 32"
definition SUM_MIN_EXPONENT :: int where "SUM_MIN_EXPONENT = - 1074"
definition SUM_BUCKET_COUNT :: int where "SUM_BUCKET_COUNT = 67"

record bucket =
  bucket_total :: rat
  bucket_compensation :: rat

text \<open>\<open>math.frexp(value)[1]\<close>: the exponent with \<open>2 ^ (e - 1) \<le> \<bar>value\<bar> < 2 ^ e\<close>.\<close>

definition frexp_exponent :: "rat \<Rightarrow> int" where
  "frexp_exponent x =
     (case quotient_of \<bar>x\<bar> of (n, d) \<Rightarrow>
      let k = bit_length n - bit_length d in if pow2 k \<le> \<bar>x\<bar> then k + 1 else k)"

text \<open>\<open>math.ldexp\<close>\<close>

definition ldexp :: "rat \<Rightarrow> int \<Rightarrow> py_error + rat" where
  "ldexp x k = float_of (x * pow2 k)"

definition bucket_add :: "rat \<Rightarrow> bucket \<Rightarrow> py_error + bucket" where
  "bucket_add v b =
     bindE (float_of (bucket_total b + v)) (\<lambda>updated.
     bindE (if \<bar>v\<bar> \<le> \<bar>bucket_total b\<bar>
            then bindE (float_of (bucket_total b - updated)) (\<lambda>d. float_of (d + v))
            else bindE (float_of (v - updated)) (\<lambda>d. float_of (d + bucket_total b))) (\<lambda>lost.
     bindE (float_of (bucket_compensation b + lost)) (\<lambda>compensation.
     Inr \<lparr>bucket_total = updated, bucket_compensation = compensation\<rparr>)))"

definition bucket_value :: "bucket \<Rightarrow> py_error + rat" where
  "bucket_value b = float_of (bucket_total b + bucket_compensation b)"

definition sum_bucket :: "rat \<Rightarrow> int \<times> int" where
  "sum_bucket v =
     (if v = 0 then (0, SUM_MIN_EXPONENT)
      else let index = min ((frexp_exponent v - SUM_MIN_EXPONENT) div SUM_BUCKET_WIDTH) (SUM_BUCKET_COUNT - 1)
           in (index, SUM_MIN_EXPONENT + index * SUM_BUCKET_WIDTH))"

type_synonym buckets = "bucket list \<times> int list"

text \<open>The buckets and the set of active indices, kept as a list without repetition.\<close>

definition update_sum_bucket :: "rat \<Rightarrow> buckets \<Rightarrow> py_error + buckets" where
  "update_sum_bucket v s =
     (case s of (bs, active) \<Rightarrow> case sum_bucket v of (index, scale) \<Rightarrow>
      bindE (ldexp v (- scale)) (\<lambda>scaled.
      bindE (bucket_add scaled (bs ! nat index)) (\<lambda>b.
      Inr (bs[nat index := b], List.insert index active))))"

definition project_bucket :: "bucket list \<Rightarrow> int \<Rightarrow> int \<Rightarrow> py_error + rat" where
  "project_bucket bs divisor index =
     bindE (bucket_value (bs ! nat index)) (\<lambda>v.
     bindE (fdiv v (of_int divisor)) (\<lambda>normalized.
     ldexp normalized (SUM_MIN_EXPONENT + index * SUM_BUCKET_WIDTH)))"

definition project_sum_buckets :: "int \<Rightarrow> buckets \<Rightarrow> py_error + num option" where
  "project_sum_buckets divisor s =
     (case s of (bs, active) \<Rightarrow>
      case bindE (mapE (project_bucket bs divisor) (sort active)) (\<lambda>projected. float_of (sum_list projected)) of
        Inr x \<Rightarrow> Inr (Some (NFloat x))
      | Inl OverflowError \<Rightarrow> Inr None
      | Inl e \<Rightarrow> Inl e)"

text \<open>What a value entering or leaving the window does to the count of missing values.\<close>

definition count_cell :: "(rat \<Rightarrow> buckets \<Rightarrow> py_error + buckets) \<Rightarrow> int \<Rightarrow> num option \<Rightarrow> buckets \<times> int
    \<Rightarrow> py_error + buckets \<times> int" where
  "count_cell update step item s =
     (case s of (buckets, missing) \<Rightarrow>
      case item of
        None \<Rightarrow> Inr (buckets, missing + step)
      | Some n \<Rightarrow> bindE (to_float n) (\<lambda>x. bindE (update x buckets) (\<lambda>buckets'. Inr (buckets', missing))))"

definition total_step :: "series \<Rightarrow> int \<Rightarrow> bool \<Rightarrow> nat \<Rightarrow> (buckets \<times> int) \<times> series \<Rightarrow> py_error + (buckets \<times> int) \<times> series" where
  "total_step items window mean index s =
     (case s of (state, result) \<Rightarrow>
      bindE (count_cell update_sum_bucket 1 (items ! index) state) (\<lambda>entered.
      bindE (if window \<le> int index
             then count_cell (\<lambda>x. update_sum_bucket (- x)) (- 1) (items ! nat (int index - window)) entered
             else Inr entered) (\<lambda>(buckets, missing).
      if \<not> (window \<le> int index + 1 \<and> missing = 0) then Inr ((buckets, missing), result @ [None])
      else bindE (project_sum_buckets (if mean then window else 1) buckets) (\<lambda>r.
           Inr ((buckets, missing), result @ [r])))))"

definition empty_buckets :: buckets where
  "empty_buckets = (replicate (nat SUM_BUCKET_COUNT) \<lparr>bucket_total = 0, bucket_compensation = 0\<rparr>, [])"

definition rolling_total :: "bool \<Rightarrow> plan_value list \<Rightarrow> py_error + series" where
  "rolling_total mean arguments =
     bindE (series_and_window arguments) (\<lambda>(items, window).
     bindE (foldE (total_step items window mean) [0..<length items] ((empty_buckets, 0), []))
       (\<lambda>(state, result). Inr result))"

section \<open>Population deviation\<close>

definition BINARY64_SCALE :: int where "BINARY64_SCALE = 2 ^ 1074"

definition scaled_binary64 :: "num \<Rightarrow> int" where
  "scaled_binary64 v =
     (case quotient_of (nval v) of (numerator, denominator) \<Rightarrow> numerator * (BINARY64_SCALE div denominator))"

record moments =
  mo_queue :: series
  mo_missing :: int
  mo_total :: int
  mo_squares :: int

definition push_moment :: "num option \<Rightarrow> moments \<Rightarrow> moments" where
  "push_moment item m =
     (let m = m\<lparr>mo_queue := mo_queue m @ [item]\<rparr> in
      case item of
        None \<Rightarrow> m\<lparr>mo_missing := mo_missing m + 1\<rparr>
      | Some v \<Rightarrow> let exact = scaled_binary64 v in
          m\<lparr>mo_total := mo_total m + exact, mo_squares := mo_squares m + exact * exact\<rparr>)"

definition expire_moment :: "int \<Rightarrow> moments \<Rightarrow> moments" where
  "expire_moment window m =
     (if int (length (mo_queue m)) \<le> window then m
      else let expired = hd (mo_queue m); m = m\<lparr>mo_queue := tl (mo_queue m)\<rparr> in
        case expired of
          None \<Rightarrow> m\<lparr>mo_missing := mo_missing m - 1\<rparr>
        | Some v \<Rightarrow> let exact = scaled_binary64 v in
            m\<lparr>mo_total := mo_total m - exact, mo_squares := mo_squares m - exact * exact\<rparr>)"

text \<open>\<open>math.sqrt\<close> of a float is the correctly rounded root, which \<open>sqrt_fraction\<close> computes.\<close>

definition deviation_of :: "rat \<Rightarrow> py_error + num option" where
  "deviation_of variance =
     (case float_of variance of
        Inl e \<Rightarrow> Inr None
      | Inr v \<Rightarrow> if max v 0 = 0 then Inr (Some (NFloat 0))
          else bindE (sqrt_fraction v) (\<lambda>r. Inr (Some (NFloat r))))"

definition moments_deviation :: "int \<Rightarrow> moments \<Rightarrow> py_error + num option" where
  "moments_deviation window m =
     (if int (length (mo_queue m)) \<noteq> window \<or> mo_missing m \<noteq> 0 then Inr None
      else deviation_of (of_int (mo_squares m * window - mo_total m * mo_total m)
             / of_int (BINARY64_SCALE * BINARY64_SCALE * window * window)))"

definition deviation_step :: "int \<Rightarrow> num option \<Rightarrow> moments \<times> series \<Rightarrow> py_error + moments \<times> series" where
  "deviation_step window item s =
     (case s of (m, result) \<Rightarrow>
      let m' = expire_moment window (push_moment item m) in
      bindE (moments_deviation window m') (\<lambda>r. Inr (m', result @ [r])))"

definition empty_moments :: moments where
  "empty_moments = \<lparr>mo_queue = [], mo_missing = 0, mo_total = 0, mo_squares = 0\<rparr>"

definition population_std :: "plan_value list \<Rightarrow> py_error + series" where
  "population_std arguments =
     bindE (series_and_window arguments) (\<lambda>(items, window).
     bindE (foldE (deviation_step window) items (empty_moments, [])) (\<lambda>(m, result). Inr result))"

section \<open>Extremes\<close>

record extremes =
  ex_candidates :: "(nat \<times> num) list"
  ex_missing :: int

definition dominated :: "bool \<Rightarrow> num \<Rightarrow> nat \<times> num \<Rightarrow> bool" where
  "dominated minimum v c = (if minimum then nval v \<le> nval (snd c) else nval (snd c) \<le> nval v)"

definition push_candidate :: "bool \<Rightarrow> nat \<Rightarrow> num option \<Rightarrow> extremes \<Rightarrow> extremes" where
  "push_candidate minimum index item s =
     (case item of
        None \<Rightarrow> s\<lparr>ex_missing := ex_missing s + 1\<rparr>
      | Some v \<Rightarrow> s\<lparr>ex_candidates := rev (dropWhile (dominated minimum v) (rev (ex_candidates s))) @ [(index, v)]\<rparr>)"

definition expire_candidates :: "series \<Rightarrow> int \<Rightarrow> nat \<Rightarrow> extremes \<Rightarrow> extremes" where
  "expire_candidates items window index s =
     (let expired = int index - window;
          s = (if 0 \<le> expired \<and> items ! nat expired = None then s\<lparr>ex_missing := ex_missing s - 1\<rparr> else s)
      in s\<lparr>ex_candidates := dropWhile (\<lambda>c. int (fst c) \<le> expired) (ex_candidates s)\<rparr>)"

definition extreme_step :: "bool \<Rightarrow> series \<Rightarrow> int \<Rightarrow> nat \<Rightarrow> extremes \<times> series \<Rightarrow> py_error + extremes \<times> series" where
  "extreme_step minimum items window index s =
     (case s of (state, result) \<Rightarrow>
      let state' = expire_candidates items window index (push_candidate minimum index (items ! index) state) in
      if window \<le> int index + 1 \<and> ex_missing state' = 0 then
        (case ex_candidates state' of
           [] \<Rightarrow> Inl IndexError
         | c # cs \<Rightarrow> Inr (state', result @ [Some (snd c)]))
      else Inr (state', result @ [None]))"

definition rolling_extreme :: "bool \<Rightarrow> plan_value list \<Rightarrow> py_error + series" where
  "rolling_extreme minimum arguments =
     bindE (series_and_window arguments) (\<lambda>(items, window).
     bindE (foldE (extreme_step minimum items window) [0..<length items] (\<lparr>ex_candidates = [], ex_missing = 0\<rparr>, []))
       (\<lambda>(state, result). Inr result))"

section \<open>Selection\<close>

definition choose_cell :: "num option \<Rightarrow> num option \<Rightarrow> num option \<Rightarrow> py_error + num option" where
  "choose_cell condition when_true when_false =
     (case condition of
        None \<Rightarrow> Inr None
      | Some c \<Rightarrow> bindE (require_float_range c) (\<lambda>_.
          case (if nval c \<noteq> 0 then when_true else when_false) of
            None \<Rightarrow> Inr None
          | Some n \<Rightarrow> bindE (require_float_range n) (\<lambda>m. Inr (Some m))))"

fun scalar_cell :: "plan_value \<Rightarrow> num option" where
  "scalar_cell (PNum n) = Some n"
| "scalar_cell _ = None"

definition series_lengths :: "plan_value list \<Rightarrow> nat list" where
  "series_lengths arguments =
     remdups (concat (map (\<lambda>v. case v of PSeries s \<Rightarrow> [length s] | _ \<Rightarrow> []) arguments))"

definition expand :: "nat \<Rightarrow> plan_value \<Rightarrow> series" where
  "expand n v = (case v of PSeries s \<Rightarrow> s | _ \<Rightarrow> replicate n (scalar_cell v))"

definition if_else :: "plan_value list \<Rightarrow> py_error + plan_value" where
  "if_else arguments =
     (case arguments of
        [condition, when_true, when_false] \<Rightarrow>
          (case series_lengths arguments of
             [] \<Rightarrow> bindE (choose_cell (scalar_cell condition) (scalar_cell when_true) (scalar_cell when_false)) (\<lambda>r.
                    Inr (case r of None \<Rightarrow> PNone | Some m \<Rightarrow> PNum m))
           | [n] \<Rightarrow> bindE (mapE (\<lambda>i. choose_cell (expand n condition ! i) (expand n when_true ! i) (expand n when_false ! i))
                       [0..<n]) (\<lambda>s. Inr (PSeries s))
           | _ \<Rightarrow> Inl (ValueError ''if_else inputs must align''))
      | _ \<Rightarrow> Inl (TypeError ''if_else takes three arguments''))"

section \<open>Dispatch\<close>

definition series_result :: "py_error + series \<Rightarrow> py_error + plan_value" where
  "series_result m = bindE m (\<lambda>s. Inr (PSeries s))"

definition first_argument :: "plan_value list \<Rightarrow> py_error + plan_value" where
  "first_argument arguments = (case arguments of [] \<Rightarrow> Inl IndexError | v # vs \<Rightarrow> Inr v)"

definition evaluate_builtin :: "(rat \<Rightarrow> rat) \<Rightarrow> string \<Rightarrow> plan_value list \<Rightarrow> py_error + plan_value" where
  "evaluate_builtin flog identifier arguments =
     (if identifier = ''if_else'' then if_else arguments
      else if identifier = ''abs'' then bindE (first_argument arguments) (\<lambda>v. map_numeric v absolute_cell)
      else if identifier = ''log'' then bindE (first_argument arguments) (\<lambda>v. map_numeric v (logarithm_cell flog))
      else if identifier = ''sign'' then bindE (first_argument arguments) (\<lambda>v. map_numeric v sign_cell)
      else if identifier = ''rank'' then Inl (TypeError ''rank requires a complete cross-section'')
      else if identifier = ''lag'' then series_result (lag arguments)
      else if identifier = ''delta'' then series_result (delta arguments)
      else if identifier = ''pct_change'' then series_result (pct_change arguments)
      else if identifier = ''ts_mean'' then series_result (rolling_total True arguments)
      else if identifier = ''ts_sum'' then series_result (rolling_total False arguments)
      else if identifier = ''ts_std'' then series_result (population_std arguments)
      else if identifier = ''ts_min'' then series_result (rolling_extreme True arguments)
      else if identifier = ''ts_max'' then series_result (rolling_extreme False arguments)
      else if identifier \<in> set (map fst COMMON_INPUTS) then
        Inl (TypeError ''Common input requires governed market context'')
      else Inl (KeyError identifier))"

end
