(* ===== verification/RollingFacts.thy ===== *)
theory RollingFacts
  imports Rolling
begin

text \<open>
  The rolling builtins compute what their documentation says of the plain window: the monotone queue
  of \<open>ts_min\<close> and \<open>ts_max\<close> holds the extreme of exactly the values in the window, and the running
  integer moments of \<open>ts_std\<close> are the moments of exactly those values.
\<close>

section \<open>Plain windows\<close>

text \<open>The cells of the complete window that ends with \<open>index\<close>.\<close>

definition window_cells :: "series \<Rightarrow> nat \<Rightarrow> nat \<Rightarrow> series" where
  "window_cells items w index = map (\<lambda>i. items ! i) [Suc index - w..<Suc index]"

definition better :: "bool \<Rightarrow> num \<Rightarrow> num \<Rightarrow> bool" where
  "better minimum a b = (if minimum then nval a \<le> nval b else nval b \<le> nval a)"

definition extreme_of :: "bool \<Rightarrow> series \<Rightarrow> num option \<Rightarrow> bool" where
  "extreme_of minimum cells r =
     (if None \<in> set cells then r = None
      else case r of None \<Rightarrow> False
        | Some v \<Rightarrow> Some v \<in> set cells \<and> list_all (\<lambda>c. case c of None \<Rightarrow> True | Some u \<Rightarrow> better minimum v u) cells)"

lemma better_total: "\<not> better minimum a b \<Longrightarrow> better minimum b a"
  and better_trans: "better minimum a b \<Longrightarrow> better minimum b c \<Longrightarrow> better minimum a c"
  by (auto simp: better_def split: if_splits)

lemma dominated_better: "dominated minimum v c = better minimum v (snd c)"
  by (simp add: dominated_def better_def)

text \<open>Popping from the back keeps a prefix; everything popped satisfies the test.\<close>

lemma pop_back:
  shows "xs = rev (dropWhile P (rev xs)) @ rev (takeWhile P (rev xs))"
    and "rev (dropWhile P (rev xs)) = ys @ [z] \<Longrightarrow> \<not> P z"
proof -
  show "xs = rev (dropWhile P (rev xs)) @ rev (takeWhile P (rev xs))"
    by (metis rev_append rev_rev_ident takeWhile_dropWhile_id)
  assume "rev (dropWhile P (rev xs)) = ys @ [z]"
  then have "dropWhile P (rev xs) = z # rev ys" by (simp add: rev_swap)
  then show "\<not> P z" by (metis hd_dropWhile list.discI list.sel(1))
qed

section \<open>Extremes\<close>

definition queue_order :: "bool \<Rightarrow> nat \<times> num \<Rightarrow> nat \<times> num \<Rightarrow> bool" where
  "queue_order minimum a b \<longleftrightarrow> fst a < fst b \<and> \<not> better minimum (snd b) (snd a)"

text \<open>The queue covers the positions from \<open>lo\<close> up to \<open>hi\<close>.\<close>

definition queue_of :: "bool \<Rightarrow> series \<Rightarrow> nat \<Rightarrow> nat \<Rightarrow> (nat \<times> num) list \<Rightarrow> bool" where
  "queue_of minimum items lo hi cs \<longleftrightarrow>
     sorted_wrt (queue_order minimum) cs \<and>
     (\<forall>c\<in>set cs. lo \<le> fst c \<and> fst c < hi \<and> items ! fst c = Some (snd c)) \<and>
     (\<forall>j v. lo \<le> j \<longrightarrow> j < hi \<longrightarrow> items ! j = Some v \<longrightarrow> (\<exists>c\<in>set cs. j \<le> fst c \<and> better minimum (snd c) v))"

lemma queue_ofD:
  assumes "queue_of minimum items lo hi cs"
  shows "sorted_wrt (queue_order minimum) cs"
    and "c \<in> set cs \<Longrightarrow> lo \<le> fst c \<and> fst c < hi \<and> items ! fst c = Some (snd c)"
    and "lo \<le> j \<Longrightarrow> j < hi \<Longrightarrow> items ! j = Some v \<Longrightarrow> \<exists>c\<in>set cs. j \<le> fst c \<and> better minimum (snd c) v"
  using assms by (auto simp: queue_of_def)

lemma queue_ofI:
  assumes "sorted_wrt (queue_order minimum) cs"
    and "\<And>c. c \<in> set cs \<Longrightarrow> lo \<le> fst c \<and> fst c < hi \<and> items ! fst c = Some (snd c)"
    and "\<And>j v. lo \<le> j \<Longrightarrow> j < hi \<Longrightarrow> items ! j = Some v \<Longrightarrow> \<exists>c\<in>set cs. j \<le> fst c \<and> better minimum (snd c) v"
  shows "queue_of minimum items lo hi cs"
  using assms by (auto simp: queue_of_def)

definition missing_in :: "series \<Rightarrow> nat \<Rightarrow> nat \<Rightarrow> int" where
  "missing_in items lo hi = int (length (filter (\<lambda>j. items ! j = None) [lo..<hi]))"

lemma missing_in_Suc: "lo \<le> hi \<Longrightarrow> missing_in items lo (Suc hi) = missing_in items lo hi + (if items ! hi = None then 1 else 0)"
  by (simp add: missing_in_def)

lemma missing_in_drop: "lo < hi \<Longrightarrow> missing_in items (Suc lo) hi = missing_in items lo hi - (if items ! lo = None then 1 else 0)"
  by (simp add: missing_in_def upt_conv_Cons)

lemma push_queue:
  assumes q: "queue_of minimum items lo hi cs" and v: "items ! hi = Some v" and le: "lo \<le> hi"
  shows "queue_of minimum items lo (Suc hi) (rev (dropWhile (dominated minimum v) (rev cs)) @ [(hi, v)])"
proof -
  define rest where "rest = rev (dropWhile (dominated minimum v) (rev cs))"
  define popped where "popped = rev (takeWhile (dominated minimum v) (rev cs))"
  have d: "cs = rest @ popped" unfolding rest_def popped_def by (rule pop_back)
  have p: "better minimum v (snd c)" if "c \<in> set popped" for c
    using that by (auto simp: popped_def dominated_better dest: set_takeWhileD)
  have s: "sorted_wrt (queue_order minimum) rest" using queue_ofD(1) [OF q] d by (simp add: sorted_wrt_append)
  have below: "queue_order minimum c (hi, v)" if c: "c \<in> set rest" for c
  proof -
    obtain ys z where r: "rest = ys @ [z]" using c by (cases rest rule: rev_cases) auto
    have z: "\<not> better minimum v (snd z)" using pop_back(2) [of "dominated minimum v" cs ys z] r by (simp add: rest_def dominated_better)
    have "\<not> better minimum v (snd c)"
    proof (cases "c = z")
      case False
      then have "queue_order minimum c z" using s c by (auto simp: r sorted_wrt_append)
      then show ?thesis using z by (auto simp: queue_order_def dest: better_total better_trans)
    qed (use z in simp)
    then show ?thesis using queue_ofD(2) [OF q, of c] c d by (simp add: queue_order_def)
  qed
  show ?thesis unfolding rest_def [symmetric]
  proof (rule queue_ofI)
    show "sorted_wrt (queue_order minimum) (rest @ [(hi, v)])" using s below by (simp add: sorted_wrt_append)
    show "lo \<le> fst c \<and> fst c < Suc hi \<and> items ! fst c = Some (snd c)" if "c \<in> set (rest @ [(hi, v)])" for c
      using that queue_ofD(2) [OF q, of c] v le d by fastforce
    fix j u
    assume j: "lo \<le> j" "j < Suc hi" "items ! j = Some u"
    show "\<exists>c\<in>set (rest @ [(hi, v)]). j \<le> fst c \<and> better minimum (snd c) u"
    proof (cases "j = hi")
      case True
      then show ?thesis using j v by (auto simp: better_def)
    next
      case False
      then obtain c where c: "c \<in> set cs" "j \<le> fst c" "better minimum (snd c) u"
        using queue_ofD(3) [OF q j(1) _ j(3)] j(2) by auto
      show ?thesis
      proof (cases "c \<in> set rest")
        case out: False
        then have "better minimum v (snd c)" using c(1) p by (simp add: d)
        then have "better minimum v u" using c(3) by (rule better_trans)
        then show ?thesis using j(2) by auto
      qed (use c in auto)
    qed
  qed
qed

lemma skip_queue:
  assumes "queue_of minimum items lo hi cs" "items ! hi = None"
  shows "queue_of minimum items lo (Suc hi) cs"
proof (rule queue_ofI)
  fix c assume "c \<in> set cs"
  then show "lo \<le> fst c \<and> fst c < Suc hi \<and> items ! fst c = Some (snd c)" using queue_ofD(2) [OF assms(1)] by fastforce
next
  fix j v assume j: "lo \<le> j" "j < Suc hi" "items ! j = Some v"
  then have "j < hi" using assms(2) by (cases "j = hi") auto
  with queue_ofD(3) [OF assms(1) j(1) _ j(3)] show "\<exists>c\<in>set cs. j \<le> fst c \<and> better minimum (snd c) v" .
qed (rule queue_ofD(1) [OF assms(1)])

lemma expire_queue:
  assumes q: "queue_of minimum items lo hi cs" and k: "lo \<le> k"
  shows "queue_of minimum items k hi (dropWhile (\<lambda>c. fst c < k) cs)"
proof -
  let ?r = "dropWhile (\<lambda>c. fst c < k) cs"
  have "sorted_wrt (\<lambda>a b. fst a < fst b) cs"
    by (rule sorted_wrt_mono_rel [OF _ queue_ofD(1) [OF q]]) (simp add: queue_order_def)
  then have above: "k \<le> fst c" if "c \<in> set ?r" for c
    using that by (induction cs) (auto split: if_splits)
  have stays: "c \<in> set ?r" if "c \<in> set cs" "k \<le> fst c" for c
    using that by (induction cs) auto
  show ?thesis
  proof (rule queue_ofI)
    show "sorted_wrt (queue_order minimum) ?r"
      using queue_ofD(1) [OF q] by (metis sorted_wrt_append takeWhile_dropWhile_id)
    show "k \<le> fst c \<and> fst c < hi \<and> items ! fst c = Some (snd c)" if "c \<in> set ?r" for c
      using above [OF that] queue_ofD(2) [OF q set_dropWhileD [OF that]] by blast
    fix j v assume j: "k \<le> j" "j < hi" "items ! j = Some v"
    obtain c where c: "c \<in> set cs" "j \<le> fst c" "better minimum (snd c) v"
      using queue_ofD(3) [OF q _ j(2,3)] j(1) k by auto
    then show "\<exists>c\<in>set ?r. j \<le> fst c \<and> better minimum (snd c) v"
      using stays [OF c(1)] j(1) by auto
  qed
qed

lemma queue_head:
  assumes q: "queue_of minimum items lo hi (c # cs)" and j: "lo \<le> j" "j < hi" "items ! j = Some u"
  shows "better minimum (snd c) u"
proof -
  obtain d where d: "d \<in> set (c # cs)" "better minimum (snd d) u" using queue_ofD(3) [OF q j] by blast
  show ?thesis
  proof (cases "d = c")
    case False
    then have "queue_order minimum c d" using queue_ofD(1) [OF q] d(1) by auto
    then have "better minimum (snd c) (snd d)" by (auto simp: queue_order_def dest: better_total)
    then show ?thesis using d(2) by (rule better_trans)
  qed (use d in simp)
qed

section \<open>The extreme of every window\<close>

lemma missing_none: "missing_in items lo hi = 0 \<longleftrightarrow> (\<forall>j. lo \<le> j \<longrightarrow> j < hi \<longrightarrow> items ! j \<noteq> None)"
  by (auto simp: missing_in_def filter_empty_conv)

lemma window_cells_set: "set (window_cells items w k) = (\<lambda>j. items ! j) ` {Suc k - w..<Suc k}"
  by (simp add: window_cells_def del: upt_Suc)

lemma missing_window: "missing_in items (Suc k - w) (Suc k) = 0 \<longleftrightarrow> None \<notin> set (window_cells items w k)"
proof -
  have "None \<in> set (window_cells items w k) \<longleftrightarrow> (\<exists>j\<in>set [Suc k - w..<Suc k]. items ! j = None)"
    unfolding window_cells_def set_map image_iff by metis
  then show ?thesis unfolding missing_in_def by (simp add: filter_empty_conv del: upt_Suc set_upt not_None_eq)
qed

text \<open>The state before position \<open>k\<close> with the results so far.\<close>

definition extreme_state :: "bool \<Rightarrow> series \<Rightarrow> nat \<Rightarrow> nat \<Rightarrow> extremes \<times> series \<Rightarrow> bool" where
  "extreme_state minimum items w k s \<longleftrightarrow>
     queue_of minimum items (k - w) k (ex_candidates (fst s)) \<and> ex_missing (fst s) = missing_in items (k - w) k \<and>
     length (snd s) = k \<and>
     (\<forall>i<k. if Suc i < w then snd s ! i = None else extreme_of minimum (window_cells items w i) (snd s ! i))"

lemma extreme_step_state:
  assumes s: "extreme_state minimum items w k s" and w: "1 \<le> w"
  shows "\<exists>t. extreme_step minimum items (int w) k s = Inr t \<and> extreme_state minimum items w (Suc k) t"
proof -
  obtain st result where st: "s = (st, result)" by (cases s)
  have q: "queue_of minimum items (k - w) k (ex_candidates st)" and m: "ex_missing st = missing_in items (k - w) k"
    and len: "length result = k"
    and r: "\<forall>i<k. if Suc i < w then result ! i = None else extreme_of minimum (window_cells items w i) (result ! i)"
    using s unfolding extreme_state_def st fst_conv snd_conv by blast+
  define pushed where "pushed = push_candidate minimum k (items ! k) st"
  have pq: "queue_of minimum items (k - w) (Suc k) (ex_candidates pushed)"
    using push_queue [OF q] skip_queue [OF q] by (cases "items ! k") (simp_all add: pushed_def push_candidate_def)
  have pm: "ex_missing pushed = missing_in items (k - w) (Suc k)"
    using m by (cases "items ! k") (simp_all add: pushed_def push_candidate_def missing_in_Suc)
  define t where "t = expire_candidates items (int w) k pushed"
  have e: "(\<lambda>c::nat \<times> num. int (fst c) \<le> int k - int w) = (\<lambda>c. fst c < Suc k - w)" by (auto simp: fun_eq_iff)
  have tc: "ex_candidates t = dropWhile (\<lambda>c. fst c < Suc k - w) (ex_candidates pushed)"
    by (simp add: t_def expire_candidates_def Let_def e)
  have tq: "queue_of minimum items (Suc k - w) (Suc k) (ex_candidates t)"
    unfolding tc by (rule expire_queue [OF pq]) simp
  have tm: "ex_missing t = missing_in items (Suc k - w) (Suc k)"
  proof (cases "w \<le> k")
    case True
    then have "Suc k - w = Suc (k - w)" "nat (int k - int w) = k - w" by auto
    then show ?thesis using True pm w by (simp add: t_def expire_candidates_def Let_def missing_in_drop)
  next
    case False
    then have "Suc k - w = k - w" by simp
    then show ?thesis using False pm by (simp add: t_def expire_candidates_def Let_def)
  qed
  have cells: "None \<in> set (window_cells items w k) \<longleftrightarrow> ex_missing t \<noteq> 0"
    unfolding tm missing_window by simp
  show ?thesis
  proof (cases "w \<le> Suc k \<and> ex_missing t = 0")
    case True
    then have "items ! k \<noteq> None" using tm w missing_none [of items "Suc k - w" "Suc k"] by (simp del: not_None_eq)
    then obtain v where v: "items ! k = Some v" by blast
    have "Suc k - w \<le> k" using w by simp
    then obtain c cs where c: "ex_candidates t = c # cs"
      using queue_ofD(3) [OF tq _ _ v] by (cases "ex_candidates t") auto
    have "extreme_of minimum (window_cells items w k) (Some (snd c))"
      using cells True queue_ofD(2) [OF tq, of c] queue_head [OF tq [unfolded c]] c
      by (force simp: extreme_of_def window_cells_set list_all_iff split: option.splits)
    then show ?thesis
      using True c tq tm r len
      by (intro exI [of _ "(t, result @ [Some (snd c)])"])
        (auto simp: extreme_step_def st extreme_state_def pushed_def [symmetric] t_def [symmetric] Let_def nth_append less_Suc_eq)
  next
    case False
    then have "extreme_of minimum (window_cells items w k) None" if "w \<le> Suc k"
      using that cells by (simp add: extreme_of_def)
    then show ?thesis
      using False tq tm r len
      by (intro exI [of _ "(t, result @ [None])"])
        (auto simp: extreme_step_def st extreme_state_def pushed_def [symmetric] t_def [symmetric] Let_def nth_append less_Suc_eq)
  qed
qed

lemma rolling_extreme_windows:
  assumes "series_and_window arguments = Inr (items, int w)" and "1 \<le> w"
  shows "\<exists>s. rolling_extreme minimum arguments = Inr s \<and> length s = length items \<and>
    (\<forall>i<length items. if Suc i < w then s ! i = None else extreme_of minimum (window_cells items w i) (s ! i))"
proof -
  have "\<exists>t. foldE (extreme_step minimum items (int w)) [k..<n] s = Inr t \<and> extreme_state minimum items w n t"
    if "extreme_state minimum items w k s" "k \<le> n" for k n s
    using that
  proof (induction "n - k" arbitrary: k s)
    case (Suc d)
    obtain t where t: "extreme_step minimum items (int w) k s = Inr t" "extreme_state minimum items w (Suc k) t"
      using extreme_step_state [OF Suc.prems(1) assms(2)] by blast
    have "[k..<n] = k # [Suc k..<n]" using Suc.hyps(2) by (simp add: upt_conv_Cons)
    then show ?case using Suc.hyps(1) [of "Suc k" t] Suc.hyps(2) t by simp
  qed simp
  moreover have "extreme_state minimum items w 0 (\<lparr>ex_candidates = [], ex_missing = 0\<rparr>, [])"
    by (simp add: extreme_state_def queue_of_def missing_in_def)
  ultimately obtain t where "foldE (extreme_step minimum items (int w)) [0..<length items] (\<lparr>ex_candidates = [], ex_missing = 0\<rparr>, []) = Inr t"
    "extreme_state minimum items w (length items) t" by blast
  then show ?thesis using assms(1) by (cases t) (auto simp: rolling_extreme_def extreme_state_def)
qed

section \<open>Running moments\<close>

definition scaled_cells :: "series \<Rightarrow> int list" where
  "scaled_cells cells = map scaled_binary64 (map the (filter (\<lambda>c. c \<noteq> None) cells))"

text \<open>The population deviation of the plain window, from the mean of its values.\<close>

definition window_deviation :: "series \<Rightarrow> py_error + num option" where
  "window_deviation cells =
     (if None \<in> set cells then Inr None
      else let xs = map (\<lambda>c. nval (the c)) cells; n = of_int (int (length cells)); mean = sum_list xs / n
           in deviation_of (sum_list (map (\<lambda>x. (x - mean)\<^sup>2) xs) / n))"

definition moments_of :: "series \<Rightarrow> moments \<Rightarrow> bool" where
  "moments_of cells m \<longleftrightarrow> mo_queue m = cells \<and>
     mo_missing m = int (length (filter (\<lambda>c. c = None) cells)) \<and>
     mo_total m = sum_list (scaled_cells cells) \<and>
     mo_squares m = sum_list (map (\<lambda>x. x * x) (scaled_cells cells))"

lemma push_moments: "moments_of cells m \<Longrightarrow> moments_of (cells @ [c]) (push_moment c m)"
  by (cases c) (simp_all add: moments_of_def push_moment_def scaled_cells_def Let_def)

lemma expire_moments:
  "moments_of (c # cells) m \<Longrightarrow> moments_of (if int (length (c # cells)) \<le> w then c # cells else cells) (expire_moment w m)"
  by (cases c) (simp_all add: moments_of_def expire_moment_def scaled_cells_def Let_def)

text \<open>Every finite binary64 number is a multiple of \<open>2 ^ -1074\<close>.\<close>

definition on_grid :: "num \<Rightarrow> bool" where
  "on_grid v \<longleftrightarrow> (case quotient_of (nval v) of (n, d) \<Rightarrow> d dvd BINARY64_SCALE)"

lemma scaled_binary64_value: "on_grid v \<Longrightarrow> of_int (scaled_binary64 v) = nval v * of_int BINARY64_SCALE"
proof -
  assume g: "on_grid v"
  obtain n d where q: "quotient_of (nval v) = (n, d)" by (cases "quotient_of (nval v)")
  then have d: "0 < d" "nval v = of_int n / of_int d" by (auto dest: quotient_of_denom_pos quotient_of_div)
  obtain k where k: "BINARY64_SCALE = d * k" using g q by (auto simp: on_grid_def)
  have "scaled_binary64 v = n * k" unfolding scaled_binary64_def q prod.case k using d(1) by simp
  then show ?thesis using d by (simp add: k)
qed

lemma variance_of_scaled:
  fixes xs :: "rat list" and zs :: "int list"
  assumes z: "map of_int zs = map (\<lambda>x. x * s) xs" and s: "s \<noteq> 0" and n: "n = of_int (int (length xs))" "xs \<noteq> []"
  shows "of_int (sum_list (map (\<lambda>x. x * x) zs) * int (length xs) - sum_list zs * sum_list zs) / (s * s * n * n)
    = sum_list (map (\<lambda>x. (x - sum_list xs / n)\<^sup>2) xs) / n"
proof -
  have n0: "n \<noteq> 0" using n by simp
  have t: "(of_int (sum_list zs) :: rat) = s * sum_list xs"
    using z by (induction zs arbitrary: xs) (auto simp: algebra_simps)
  have q: "(of_int (sum_list (map (\<lambda>x. x * x) zs)) :: rat) = s * s * sum_list (map (\<lambda>x. x\<^sup>2) xs)"
    using z by (induction zs arbitrary: xs) (auto simp: algebra_simps power2_eq_square)
  have v: "sum_list (map (\<lambda>x. (x - m)\<^sup>2) xs) = sum_list (map (\<lambda>x. x\<^sup>2) xs) - 2 * m * sum_list xs + n * m\<^sup>2" for m
    unfolding n(1) by (induction xs) (simp_all add: power2_eq_square algebra_simps)
  show ?thesis
    unfolding v of_int_diff of_int_mult t q n(1) [symmetric]
    using n0 s by (simp add: field_simps power2_eq_square)
qed

lemma denominator_divides:
  assumes "y * of_int N = (of_int z :: rat)" "quotient_of y = (n, d)"
  shows "d dvd N"
proof -
  have d: "0 < d" "y = of_int n / of_int d" "coprime n d"
    using assms(2) by (auto dest: quotient_of_denom_pos quotient_of_div quotient_of_coprime)
  have "(of_int (n * N) :: rat) = of_int (z * d)" using assms(1) d(1,2) by (simp add: field_simps)
  then have "n * N = z * d" by (simp only: of_int_eq_iff)
  then have "d dvd n * N" by simp
  then show ?thesis using d(3) by (simp add: coprime_commute coprime_dvd_mult_right_iff)
qed

lemma float_on_grid: "float_of x = Inr y \<Longrightarrow> on_grid (NFloat y)"
proof (cases "x = 0")
  case True
  assume "float_of x = Inr y"
  then have "y = 0" using True by (simp add: float_of_def)
  then show ?thesis by (simp add: on_grid_def)
next
  case False
  assume "float_of x = Inr y"
  then obtain k e where y: "y = of_int k * pow2 (max e (- 1074))"
    using False by (auto simp: float_of_def Let_def split: prod.splits if_splits)
  define g where "g = max e (- 1074)"
  have "pow2 g * of_int BINARY64_SCALE = 2 ^ nat (g + 1074)"
  proof -
    have "pow2 g * of_int BINARY64_SCALE = (2::rat) powi g * 2 powi 1074"
      by (simp add: pow2_powi BINARY64_SCALE_def power_int_def)
    also have "\<dots> = 2 powi (g + 1074)" by (simp add: power_int_add)
    finally show ?thesis by (simp add: power_int_def g_def)
  qed
  then have "y * of_int BINARY64_SCALE = of_int (k * 2 ^ nat (g + 1074))"
    unfolding y g_def [symmetric] by (simp add: mult.assoc)
  from denominator_divides [OF this] show ?thesis
    unfolding on_grid_def nval.simps by (cases "quotient_of y") simp
qed

lemma int_on_grid: "on_grid (NInt n)"
  by (simp add: on_grid_def quotient_of_int)

definition grid_cells :: "series \<Rightarrow> bool" where
  "grid_cells cells \<longleftrightarrow> list_all (\<lambda>c. case c of Some v \<Rightarrow> on_grid v | None \<Rightarrow> True) cells"

lemma moments_window:
  assumes m: "moments_of cells m" and g: "grid_cells cells" and w: "1 \<le> w" "length cells \<le> w"
  shows "moments_deviation (int w) m = (if length cells < w then Inr None else window_deviation cells)"
proof (cases "length cells = w \<and> None \<notin> set cells")
  case True
  let ?xs = "map (\<lambda>c. nval (the c)) cells"
  have f: "filter (\<lambda>c. c \<noteq> None) cells = cells" unfolding filter_id_conv using True by metis
  have fm: "filter (\<lambda>c. c = None) cells = []" unfolding filter_empty_conv using True by metis
  have z: "map of_int (scaled_cells cells) = map (\<lambda>x. x * of_int BINARY64_SCALE) ?xs"
  proof -
    have "of_int (scaled_binary64 (the c)) = nval (the c) * of_int BINARY64_SCALE" if "c \<in> set cells" for c
    proof -
      obtain v where "c = Some v" using True \<open>c \<in> set cells\<close> by (cases c) auto
      then show ?thesis using g \<open>c \<in> set cells\<close> by (auto simp: grid_cells_def list_all_iff intro!: scaled_binary64_value)
    qed
    then show ?thesis unfolding scaled_cells_def f by simp
  qed
  have "(of_int (sum_list (map (\<lambda>x. x * x) (scaled_cells cells)) * int (length ?xs)
        - sum_list (scaled_cells cells) * sum_list (scaled_cells cells)) :: rat)
      / (of_int BINARY64_SCALE * of_int BINARY64_SCALE * of_int (int w) * of_int (int w))
    = sum_list (map (\<lambda>x. (x - sum_list ?xs / of_int (int w))\<^sup>2) ?xs) / of_int (int w)"
    by (rule variance_of_scaled [OF z]) (use True w in \<open>auto simp: BINARY64_SCALE_def\<close>)
  moreover have "mo_missing m = 0" "length (mo_queue m) = w"
    using m True fm by (simp_all add: moments_of_def)
  ultimately show ?thesis
    using m True unfolding moments_deviation_def window_deviation_def moments_of_def Let_def
    by (simp add: mult.assoc)
next
  case False
  have "mo_missing m \<noteq> 0" if "None \<in> set cells"
    using m that by (auto simp: moments_of_def filter_empty_conv)
  then show ?thesis
    using m False w by (auto simp: moments_deviation_def window_deviation_def moments_of_def)
qed

lemma window_cells_prefix:
  assumes "items = pre @ x # xs"
  shows "window_cells items w (length pre) = drop (Suc (length pre) - w) (pre @ [x])"
  by (rule nth_equalityI) (auto simp: window_cells_def assms nth_append simp del: upt_Suc)

lemma drop_snoc: "n < length xs \<Longrightarrow> drop (Suc n) (xs @ [x]) = tl (drop n xs @ [x])"
proof -
  assume n: "n < length xs"
  then have "drop n xs = xs ! n # drop (Suc n) xs" by (simp add: Cons_nth_drop_Suc)
  then show ?thesis using n by simp
qed

lemma deviation_steps:
  assumes "items = pre @ xs" "moments_of (drop (length pre - w) pre) m" "grid_cells items" "1 \<le> w"
  shows "bindE (foldE (deviation_step (int w)) xs (m, r)) (\<lambda>(m, result). Inr result) =
    bindE (mapE (\<lambda>i. if Suc i < w then Inr None else window_deviation (window_cells items w i)) [length pre..<length items])
      (\<lambda>s. Inr (r @ s))"
  using assms
proof (induction xs arbitrary: pre m r)
  case (Cons x xs)
  let ?k = "length pre" and ?n = "expire_moment (int w) (push_moment x m)"
  have "moments_of (drop (?k - w) pre @ [x]) (push_moment x m)" by (rule push_moments [OF Cons.prems(2)])
  then have n: "moments_of (drop (Suc ?k - w) (pre @ [x])) ?n"
  proof (cases "?k < w")
    case True
    then show ?thesis using Cons.prems(2) push_moments [OF Cons.prems(2), of x]
      by (simp add: expire_moment_def moments_of_def)
  next
    case False
    then obtain c cells where c: "drop (?k - w) pre @ [x] = c # cells" by (cases "drop (?k - w) pre") auto
    have "drop (?k - w) pre \<noteq> []" "Suc ?k - w = Suc (?k - w)" using False Cons.prems(4) by auto
    moreover have "drop (Suc (?k - w)) (pre @ [x]) = tl (drop (?k - w) pre @ [x])"
      by (rule drop_snoc) (use False Cons.prems(4) in simp)
    ultimately have t: "drop (Suc ?k - w) (pre @ [x]) = cells" using c by simp
    have "int (length (c # cells)) = int w + 1" unfolding c [symmetric] using False by simp
    then show ?thesis
      using expire_moments [of c cells "push_moment x m" "int w"] push_moments [OF Cons.prems(2), of x] c t by simp
  qed
  have items: "items = (pre @ [x]) @ xs" using Cons.prems(1) by simp
  have d: "moments_deviation (int w) ?n = (if Suc ?k < w then Inr None else window_deviation (window_cells items w ?k))"
  proof -
    have "grid_cells (drop (Suc ?k - w) (pre @ [x]))"
      using Cons.prems(3) unfolding Cons.prems(1) by (auto simp: grid_cells_def list_all_iff dest: in_set_dropD)
    from moments_window [OF n this Cons.prems(4)] show ?thesis
      unfolding window_cells_prefix [OF Cons.prems(1)] using Cons.prems(4) by (auto simp: less_Suc_eq_le)
  qed
  have u: "[?k..<length items] = ?k # [Suc ?k..<length items]" by (rule upt_conv_Cons) (simp add: Cons.prems(1))
  have ih: "bindE (foldE (deviation_step (int w)) xs (?n, r @ [y])) (\<lambda>(m, result). Inr result) =
    bindE (mapE (\<lambda>i. if Suc i < w then Inr None else window_deviation (window_cells items w i)) [Suc ?k..<length items])
      (\<lambda>s. Inr ((r @ [y]) @ s))" for y
    using Cons.IH [OF items _ Cons.prems(3,4)] n by simp
  have step: "deviation_step (int w) x (m, r) =
      bindE (if Suc ?k < w then Inr None else window_deviation (window_cells items w ?k)) (\<lambda>y. Inr (?n, r @ [y]))"
    by (simp add: deviation_step_def Let_def d)
  show ?case
    unfolding u foldE.simps mapE.simps step bindE_assoc bindE_simps ih
    by (rule bindE_cong [OF refl]) simp
qed (simp add: assms(1))

lemma bindE_return: "bindE m Inr = m"
  by (cases m) simp_all

lemma population_std_windows:
  assumes "series_and_window arguments = Inr (items, int w)" and "1 \<le> w" and "grid_cells items"
  shows "population_std arguments =
    mapE (\<lambda>i. if Suc i < w then Inr None else window_deviation (window_cells items w i)) [0..<length items]"
proof -
  have "moments_of (drop (length [] - w) []) empty_moments" by (simp add: moments_of_def empty_moments_def scaled_cells_def)
  from deviation_steps [of items "[]" items w, OF _ this assms(3,2), of "[]"]
  have "population_std arguments = bindE (mapE (\<lambda>i. if Suc i < w then Inr None else window_deviation (window_cells items w i))
      [0..<length items]) Inr"
    using assms(1) by (simp add: population_std_def)
  then show ?thesis by (simp only: bindE_return)
qed

section \<open>Properties\<close>

text \<open>
  C18: \<open>ts_min\<close> and \<open>ts_max\<close> return a value for every session: missing while the window is not
  complete or holds a missing value, and otherwise a least (a greatest) value of exactly the cells of
  the window.
\<close>

theorem rolling_extreme_of_window:
  assumes "series_and_window arguments = Inr (items, int w)" and "1 \<le> w"
  shows "\<exists>s. rolling_extreme minimum arguments = Inr s \<and> length s = length items \<and>
    (\<forall>i<length items. if Suc i < w then s ! i = None else extreme_of minimum (window_cells items w i) (s ! i))"
  by (rule rolling_extreme_windows [OF assms])

definition sample_arguments :: "plan_value list" where
  "sample_arguments =
     [PSeries [Some (NFloat 3), Some (NInt 1), None, Some (NFloat (5 / 2)), Some (NFloat 4), Some (NInt 2)], PNum (NInt 2)]"

definition sample_cells :: series where
  "sample_cells = [Some (NFloat 3), Some (NInt 1), None, Some (NFloat (5 / 2)), Some (NFloat 4), Some (NInt 2)]"

lemma sample_series: "series_and_window sample_arguments = Inr (sample_cells, int 2)"
  by code_simp

lemma rolling_extreme_of_window_witness:
  "\<exists>s. rolling_extreme True sample_arguments = Inr s \<and> length s = 6 \<and> s ! 0 = None \<and> s ! 3 = None"
proof -
  have "length sample_cells = 6" "None \<in> set (window_cells sample_cells 2 3)" by code_simp+
  moreover obtain s where s: "rolling_extreme True sample_arguments = Inr s" "length s = length sample_cells"
    "\<forall>i<length sample_cells. if Suc i < 2 then s ! i = None else extreme_of True (window_cells sample_cells 2 i) (s ! i)"
    using rolling_extreme_of_window [OF sample_series, of True] by auto
  ultimately have "s ! 0 = None" "s ! 3 = None" using spec [OF s(3), of 0] spec [OF s(3), of 3]
    by (simp_all add: extreme_of_def)
  then show ?thesis using s(1,2) \<open>length sample_cells = 6\<close> by auto
qed

text \<open>
  C19: \<open>ts_std\<close> from the running integer moments equals the deviation computed anew from the cells of
  each complete window: the square root of the exact population variance about the exact mean, rounded
  once to the variance and once to the root.
\<close>

theorem population_std_of_window:
  assumes "series_and_window arguments = Inr (items, int w)" and "1 \<le> w"
    and "\<And>x. Some (NFloat x) \<in> set items \<Longrightarrow> float_of x = Inr x"
  shows "population_std arguments =
    mapE (\<lambda>i. if Suc i < w then Inr None else window_deviation (window_cells items w i)) [0..<length items]"
proof (rule population_std_windows [OF assms(1,2)])
  have "on_grid v" if "Some v \<in> set items" for v
    using that assms(3) float_on_grid int_on_grid by (cases v) auto
  then show "grid_cells items" by (auto simp: grid_cells_def list_all_iff split: option.splits)
qed

lemma population_std_of_window_witness:
  "population_std sample_arguments =
    mapE (\<lambda>i. if Suc i < 2 then Inr None else window_deviation (window_cells sample_cells 2 i)) [0..<length sample_cells]"
proof (rule population_std_of_window [OF sample_series])
  fix x
  assume "Some (NFloat x) \<in> set sample_cells"
  then have "x \<in> {3, 5 / 2, 4}" by (auto simp: sample_cells_def)
  moreover have "float_of 3 = Inr 3" "float_of (5 / 2) = Inr (5 / 2)" "float_of 4 = Inr 4" by code_simp+
  ultimately show "float_of x = Inr x" by (elim insertE) (simp_all only: empty_iff)
qed simp

end
