(* ===== verification/CommonMarket.thy ===== *)
theory CommonMarket
  imports Rolling
begin

text \<open>
  \<open>research_kernel/common_market.py\<close>: the equal weight return and the advancing fraction of the
  members of a universe, or of one industry of it, on each session.

  A close is \<open>None\<close> when it is missing or not finite. \<open>sum\<close> over floats keeps a compensation
  (CPython 3.12), which is the compensated addition of \<open>Rolling\<close>. A session's exclusions are the
  counter of the code, with its keys in the order of their first use.
\<close>

record common_market =
  cm_equal_weight_return :: "rat option list"
  cm_advancing_fraction :: "rat option list"
  cm_member_count :: "int list"
  cm_valid_count :: "int list"
  cm_exclusions :: "(string \<times> int) list list"

definition count_key :: "string \<Rightarrow> (string \<times> int) list \<Rightarrow> (string \<times> int) list" where
  "count_key k counter = AList.update k ((case map_of counter k of None \<Rightarrow> 0 | Some n \<Rightarrow> n) + 1) counter"

text \<open>The return of one member on one day, or the reason it is excluded; no error is possible.\<close>

definition member_change :: "nat \<Rightarrow> rat option list \<Rightarrow> string + rat" where
  "member_change day closes =
     (if day = 0 then Inl ''insufficient_history''
      else case closes ! day of
        None \<Rightarrow> Inl ''invalid_current_close''
      | Some current \<Rightarrow>
          if current \<le> 0 then Inl ''invalid_current_close''
          else case closes ! (day - 1) of
            None \<Rightarrow> Inl ''invalid_previous_close''
          | Some previous \<Rightarrow>
              if previous \<le> 0 then Inl ''invalid_previous_close''
              else case float_of (current / previous) of
                Inl e \<Rightarrow> Inl ''non_finite_return''
              | Inr q \<Rightarrow> (case float_of (q - 1) of
                  Inl e \<Rightarrow> Inl ''non_finite_return''
                | Inr change \<Rightarrow> Inr change))"

fun member_changes :: "nat \<Rightarrow> rat option list list \<Rightarrow> (string \<times> int) list \<times> rat list \<Rightarrow> (string \<times> int) list \<times> rat list" where
  "member_changes day [] s = s"
| "member_changes day (closes # rest) (excluded, returns) =
     member_changes day rest
       (case member_change day closes of
          Inl reason \<Rightarrow> (count_key reason excluded, returns)
        | Inr change \<Rightarrow> (excluded, returns @ [change]))"

text \<open>\<open>sum(value / len(returns) for value in returns)\<close>\<close>

definition mean_return :: "rat list \<Rightarrow> py_error + rat" where
  "mean_return returns =
     bindE (foldE (\<lambda>v b. bindE (fdiv v (of_int (int (length returns)))) (\<lambda>x. bucket_add x b)) returns
              \<lparr>bucket_total = 0, bucket_compensation = 0\<rparr>) bucket_value"

definition advancing_fraction :: "rat list \<Rightarrow> py_error + rat" where
  "advancing_fraction returns =
     fdiv (of_int (int (length (filter (\<lambda>v. 0 < v) returns)))) (of_int (int (length returns)))"

definition common_day ::
  "string list \<Rightarrow> (string \<Rightarrow> rat option list) \<Rightarrow> (string \<Rightarrow> string list) \<Rightarrow> (string \<times> string \<Rightarrow> string option)
    \<Rightarrow> string option \<Rightarrow> nat \<times> string \<Rightarrow> common_market \<Rightarrow> py_error + common_market" where
  "common_day instruments closes members_of industries industry_code dated acc =
     (case dated of (day, session) \<Rightarrow>
      let members = members_of session in
      bindE (raiseIf (\<not> distinct members \<or> \<not> list_all (\<lambda>m. m \<in> set instruments) members)
               (ValueError ''Common market inputs must cover unique Universe members'')) (\<lambda>_.
      let selected = filter (\<lambda>m. industry_code = None \<or> industries (session, m) = industry_code) members in
      case member_changes day (map closes (sort selected)) ([], []) of (excluded, returns) \<Rightarrow>
      bindE (if returns = [] then Inr (None, None)
             else bindE (mean_return returns) (\<lambda>m. bindE (advancing_fraction returns) (\<lambda>b. Inr (Some m, Some b))))
        (\<lambda>(mean, breadth).
      Inr \<lparr>cm_equal_weight_return = cm_equal_weight_return acc @ [mean],
           cm_advancing_fraction = cm_advancing_fraction acc @ [breadth],
           cm_member_count = cm_member_count acc @ [int (length selected)],
           cm_valid_count = cm_valid_count acc @ [int (length returns)],
           cm_exclusions = cm_exclusions acc @ [excluded]\<rparr>)))"

definition compute_common_market_series ::
  "string list \<Rightarrow> string list \<Rightarrow> rat option list list \<Rightarrow> (string \<Rightarrow> string list) \<Rightarrow> (string \<times> string \<Rightarrow> string option)
    \<Rightarrow> string option \<Rightarrow> py_error + common_market" where
  "compute_common_market_series sessions instruments adjusted_close members_of industries industry_code =
     bindE (raiseIf (length adjusted_close \<noteq> length instruments
               \<or> \<not> list_all (\<lambda>row. length row = length sessions) adjusted_close)
              (ValueError ''Common market Close coordinates do not align'')) (\<lambda>_.
     bindE (raiseIf (\<not> distinct instruments \<or> \<not> (sorted sessions \<and> distinct sessions))
              (ValueError ''Common market coordinates must be unique and sessions ordered'')) (\<lambda>_.
     foldE (common_day instruments (\<lambda>m. the (map_of (zip instruments adjusted_close) m)) members_of industries industry_code)
       (zip [0..<length sessions] sessions)
       \<lparr>cm_equal_weight_return = [], cm_advancing_fraction = [], cm_member_count = [],
        cm_valid_count = [], cm_exclusions = []\<rparr>))"

end
