(* ===== verification/SeriesPlan.thy ===== *)
theory SeriesPlan
  imports CommonMarket
begin

text \<open>
  \<open>research_kernel/series_plan.py\<close>: an expression flattened into a postfix list of nodes, and the
  evaluation of that list for one instrument.

  The kind, identifiers and operators of an expression are texts and its numbers are integers or
  finite floats in every expression a validator has accepted; a node with anything else raises
  \<open>TypeError\<close> here. Input series hold binary64 values, where infinities and NaN are missing. The
  windows of trailing-twelve-month fields are lists of integers.
\<close>

section \<open>Plans\<close>

datatype node_kind = KNumber | KField | KUnary | KBinary | KBuiltin | KCommon

record plan_node =
  pn_kind :: node_kind
  pn_identifier :: string
  pn_inputs :: "nat list"
  pn_value :: "num option"
  pn_industry_code :: "string option"

record series_plan =
  sp_nodes :: "plan_node list"
  sp_root :: nat
  sp_field_names :: "string list"
  sp_effective_lookback :: int

definition plan_node :: "node_kind \<Rightarrow> string \<Rightarrow> nat list \<Rightarrow> plan_node" where
  "plan_node kind identifier inputs =
     \<lparr>pn_kind = kind, pn_identifier = identifier, pn_inputs = inputs, pn_value = None, pn_industry_code = None\<rparr>"

definition item_of :: "pyval \<Rightarrow> string \<Rightarrow> py_error + pyval" where
  "item_of node k = (case get node k of None \<Rightarrow> Inl (KeyError k) | Some v \<Rightarrow> Inr v)"

definition text_of :: "pyval \<Rightarrow> py_error + string" where
  "text_of v = (case v of VStr s \<Rightarrow> Inr s | _ \<Rightarrow> Inl (TypeError ''text expected''))"

definition number_of :: "pyval \<Rightarrow> py_error + num" where
  "number_of v =
     (case v of
        VInt n \<Rightarrow> Inr (NInt n)
      | VFloat (Finite x) \<Rightarrow> Inr (NFloat x)
      | _ \<Rightarrow> Inl (TypeError ''number expected''))"

definition industry_of :: "pyval \<Rightarrow> py_error + string option" where
  "industry_of v =
     (case v of VNone \<Rightarrow> Inr None | VStr s \<Rightarrow> Inr (Some s) | _ \<Rightarrow> Inl (TypeError ''text expected''))"

definition mapping :: "pyval \<Rightarrow> py_error + pyval" where
  "mapping v = (if is_dict v then Inr v else Inl (ValueError ''compiled Alpha child node is invalid''))"

definition list_of :: "pyval \<Rightarrow> py_error + pyval list" where
  "list_of v = (case v of VList xs \<Rightarrow> Inr xs | _ \<Rightarrow> Inl (ValueError ''compiled Alpha call arguments are invalid''))"

text \<open>The index of the node appended last.\<close>

definition last_index :: "plan_node list \<Rightarrow> nat" where
  "last_index nodes = length nodes - 1"

lemma item_of_size [termination_simp]: "item_of v k = Inr w \<Longrightarrow> size w < size v"
  by (auto simp: item_of_def dest: get_size split: option.splits)

lemma mapping_same [simp]: "mapping v = Inr w \<longleftrightarrow> w = v \<and> is_dict v"
  by (auto simp: mapping_def)

function append_node :: "pyval \<Rightarrow> plan_node list \<Rightarrow> py_error + plan_node list"
  and append_arguments :: "pyval list \<Rightarrow> plan_node list \<Rightarrow> nat list \<Rightarrow> py_error + plan_node list \<times> nat list" where
  "append_node node nodes =
     bindE (item_of node ''kind'') (\<lambda>kind.
     if kind = VStr ''number'' then
       bindE (bindE (item_of node ''value'') number_of) (\<lambda>v.
       Inr (nodes @ [(plan_node KNumber ''number'' [])\<lparr>pn_value := Some v\<rparr>]))
     else if kind = VStr ''common'' then
       bindE (bindE (item_of node ''identifier'') text_of) (\<lambda>i.
       bindE (bindE (item_of node ''industry_code'') industry_of) (\<lambda>c.
       Inr (nodes @ [(plan_node KCommon i [])\<lparr>pn_industry_code := c\<rparr>])))
     else if kind = VStr ''field'' then
       bindE (bindE (item_of node ''field_id'') text_of) (\<lambda>i. Inr (nodes @ [plan_node KField i []]))
     else if kind = VStr ''unary'' then
       bindE (item_of node ''operand'') (\<lambda>operand.
       bindE (mapping operand) (\<lambda>_.
       bindE (append_node operand nodes) (\<lambda>nodes.
       bindE (bindE (item_of node ''operator'') text_of) (\<lambda>i.
       Inr (nodes @ [plan_node KUnary i [last_index nodes]])))))
     else if kind = VStr ''binary'' then
       bindE (item_of node ''left'') (\<lambda>left.
       bindE (mapping left) (\<lambda>_.
       bindE (append_node left nodes) (\<lambda>nodes1.
       bindE (item_of node ''right'') (\<lambda>right.
       bindE (mapping right) (\<lambda>_.
       bindE (append_node right nodes1) (\<lambda>nodes2.
       bindE (bindE (item_of node ''operator'') text_of) (\<lambda>i.
       Inr (nodes2 @ [plan_node KBinary i [last_index nodes1, last_index nodes2]]))))))))
     else if kind = VStr ''call'' then
       bindE (item_of node ''arguments'') (\<lambda>value.
       bindE (list_of value) (\<lambda>arguments.
       bindE (append_arguments arguments nodes []) (\<lambda>(nodes, inputs).
       bindE (bindE (item_of node ''identifier'') text_of) (\<lambda>i.
       Inr (nodes @ [plan_node KBuiltin i inputs])))))
     else Inl (ValueError ''compiled Alpha node kind is invalid''))"
| "append_arguments [] nodes inputs = Inr (nodes, inputs)"
| "append_arguments (argument # arguments) nodes inputs =
     bindE (mapping argument) (\<lambda>_.
     bindE (append_node argument nodes) (\<lambda>nodes.
     append_arguments arguments nodes (inputs @ [last_index nodes])))"
  by pat_completeness auto

lemma list_of_size_list: "list_of v = Inr xs \<Longrightarrow> size_list size xs < size v"
  by (auto simp: list_of_def split: pyval.splits)

termination append_node
  by (relation "measure (\<lambda>x. case x of Inl (node, nodes) \<Rightarrow> size node | Inr (arguments, nodes, inputs) \<Rightarrow> size_list size arguments)")
    (auto dest!: item_of_size list_of_size_list intro: less_trans)

declare append_node.simps [simp del]

definition build_series_execution_plan :: "pyval \<Rightarrow> (string \<times> string) list \<Rightarrow> int \<Rightarrow> py_error + series_plan" where
  "build_series_execution_plan expression field_ids_by_identifier lookback =
     bindE (append_node expression []) (\<lambda>nodes.
     Inr \<lparr>sp_nodes = nodes, sp_root = last_index nodes,
          sp_field_names = sort (map snd field_ids_by_identifier),
          sp_effective_lookback = lookback\<rparr>)"

section \<open>Operators\<close>

definition finite_or_missing :: "num option \<Rightarrow> py_error + num option" where
  "finite_or_missing v =
     (case v of None \<Rightarrow> Inr None | Some n \<Rightarrow> bindE (to_float n) (\<lambda>x. Inr (Some (NFloat x))))"

definition input_cell :: "pyfloat option \<Rightarrow> num option" where
  "input_cell v = (case v of Some (Finite x) \<Rightarrow> Some (NFloat x) | _ \<Rightarrow> None)"

definition broadcast :: "plan_value \<Rightarrow> nat \<Rightarrow> py_error + series" where
  "broadcast v n =
     (case v of
        PSeries s \<Rightarrow> if length s = n then Inr s
                     else Inl (ValueError ''Alpha execution plan input alignment is invalid'')
      | PNone \<Rightarrow> Inr (replicate n None)
      | PNum x \<Rightarrow> bindE (to_float x) (\<lambda>f. Inr (replicate n (Some (NFloat f)))))"

definition negate_or_not :: "string \<Rightarrow> num \<Rightarrow> num" where
  "negate_or_not identifier n =
     (if identifier = ''not'' then NFloat (if nval n = 0 then 1 else 0)
      else case n of NInt i \<Rightarrow> NInt (- i) | NFloat x \<Rightarrow> NFloat (- x))"

definition unary :: "plan_value \<Rightarrow> string \<Rightarrow> py_error + plan_value" where
  "unary v identifier =
     (case v of
        PNone \<Rightarrow> Inr PNone
      | PSeries items \<Rightarrow>
          bindE (mapE (\<lambda>item. finite_or_missing (map_option (negate_or_not identifier) item)) items)
            (\<lambda>s. Inr (PSeries s))
      | PNum n \<Rightarrow> bindE (to_float n) (\<lambda>x. bindE (to_float (negate_or_not identifier (NFloat x))) (\<lambda>y. Inr (PNum (NFloat y)))))"

definition truth :: "bool \<Rightarrow> num" where
  "truth b = NFloat (if b then 1 else 0)"

definition comparison :: "string \<Rightarrow> num \<Rightarrow> num \<Rightarrow> py_error + bool" where
  "comparison identifier a b =
     (let x = nval a; y = nval b in
      if identifier = ''gt'' then Inr (y < x)
      else if identifier = ''ge'' then Inr (y \<le> x)
      else if identifier = ''lt'' then Inr (x < y)
      else if identifier = ''le'' then Inr (x \<le> y)
      else if identifier = ''eq'' then Inr (x = y)
      else if identifier = ''ne'' then Inr (x \<noteq> y)
      else if identifier = ''and'' then Inr (x \<noteq> 0 \<and> y \<noteq> 0)
      else if identifier = ''or'' then Inr (x \<noteq> 0 \<or> y \<noteq> 0)
      else Inl (KeyError identifier))"

definition binary_cell :: "string \<Rightarrow> num option \<Rightarrow> num option \<Rightarrow> py_error + num option" where
  "binary_cell identifier left right =
     (case (left, right) of
        (Some a, Some b) \<Rightarrow>
          bindE (if identifier = ''add'' then num_op (+) (+) a b
                 else if identifier = ''subtract'' then num_op (-) (-) a b
                 else if identifier = ''multiply'' then num_op (*) (*) a b
                 else if identifier = ''divide'' then (if nval b = 0 then Inr None else num_div a b)
                 else bindE (comparison identifier a b) (\<lambda>c. Inr (Some (truth c)))) finite_or_missing
      | _ \<Rightarrow> Inr None)"

definition binary :: "string \<Rightarrow> plan_value \<Rightarrow> plan_value \<Rightarrow> nat \<Rightarrow> py_error + series" where
  "binary identifier left right n =
     bindE (broadcast left n) (\<lambda>left_series.
     bindE (broadcast right n) (\<lambda>right_series.
     mapE (\<lambda>(a, b). binary_cell identifier a b) (zip left_series right_series)))"

section \<open>Trailing windows\<close>

type_synonym windows = "int list option"

text \<open>\<open>numpy.asarray(values, dtype=float)\<close> with a missing value as NaN.\<close>

definition condition_array :: "plan_value \<Rightarrow> nat \<Rightarrow> py_error + rat option list" where
  "condition_array v n =
     bindE (broadcast v n) (mapE (\<lambda>item.
       case item of None \<Rightarrow> Inr None | Some x \<Rightarrow> bindE (to_float x) (\<lambda>f. Inr (Some f))))"

definition select_window :: "rat option \<Rightarrow> int \<Rightarrow> int \<Rightarrow> int" where
  "select_window condition left right =
     (case condition of None \<Rightarrow> 0 | Some c \<Rightarrow> if c \<noteq> 0 then left else right)"

definition windows_match :: "int \<Rightarrow> int \<Rightarrow> bool" where
  "windows_match left right \<longleftrightarrow> left = - 1 \<or> right = - 1 \<or> (0 < left \<and> left = right)"

definition join_windows :: "int \<Rightarrow> int \<Rightarrow> int" where
  "join_windows left right =
     (if left = - 1 then right else if right = - 1 then left
      else if windows_match left right then left else 0)"

definition window_items :: "nat \<Rightarrow> windows \<Rightarrow> int list" where
  "window_items n w = (case w of None \<Rightarrow> replicate n (- 1) | Some xs \<Rightarrow> xs)"

definition window_at :: "windows list \<Rightarrow> nat list \<Rightarrow> nat \<Rightarrow> windows" where
  "window_at ws inputs k = ws ! (inputs ! k)"

definition ttm_node_window ::
  "plan_node \<Rightarrow> (string \<times> int list) list \<Rightarrow> windows list \<Rightarrow> rat option list \<Rightarrow> windows \<times> bool list option" where
  "ttm_node_window node field_windows ws condition =
     (if pn_kind node = KField then (map_of field_windows (pn_identifier node), None)
      else if (pn_kind node = KUnary \<and> pn_identifier node \<noteq> ''not'')
           \<or> (pn_kind node = KBuiltin \<and> pn_identifier node \<in> set [''abs'', ''log'', ''sign'']) then
        (window_at ws (pn_inputs node) 0, None)
      else if pn_kind node = KBuiltin \<and> pn_identifier node = ''if_else'' then
        (case (window_at ws (pn_inputs node) 1, window_at ws (pn_inputs node) 2) of
           (None, None) \<Rightarrow> (None, None)
         | (left, right) \<Rightarrow>
             (Some (map (\<lambda>(c, l, r). select_window c l r)
                (zip condition (zip (window_items (length condition) left) (window_items (length condition) right)))), None))
      else if pn_kind node \<noteq> KBinary \<or> pn_identifier node \<notin> set ARITHMETIC_OPERATORS then (None, None)
      else
        (case (window_at ws (pn_inputs node) 0, window_at ws (pn_inputs node) 1) of
           (None, right) \<Rightarrow> (right, None)
         | (left, None) \<Rightarrow> (left, None)
         | (Some left, Some right) \<Rightarrow>
             (Some (map2 join_windows left right), Some (map2 windows_match left right))))"

section \<open>Evaluation of one instrument\<close>

type_synonym common_values = "((string \<times> string option) \<times> series) list"

definition arguments_of :: "plan_value list \<Rightarrow> plan_node \<Rightarrow> py_error + plan_value list" where
  "arguments_of values node = mapE (nthE values) (pn_inputs node)"

definition node_condition :: "plan_value list \<Rightarrow> nat \<Rightarrow> plan_node \<Rightarrow> py_error + rat option list" where
  "node_condition values n node =
     (if pn_kind node = KBuiltin \<and> pn_identifier node = ''if_else'' then
        bindE (arguments_of values node) (\<lambda>arguments.
        bindE (nthE arguments 0) (\<lambda>v. condition_array v n))
      else Inr [])"

definition node_value ::
  "(rat \<Rightarrow> rat) \<Rightarrow> (string \<times> pyfloat option list) list \<Rightarrow> common_values option \<Rightarrow> nat \<Rightarrow> plan_value list
    \<Rightarrow> plan_node \<Rightarrow> py_error + plan_value" where
  "node_value flog values_by_field common n values node =
     bindE (arguments_of values node) (\<lambda>arguments.
     case pn_kind node of
       KNumber \<Rightarrow> (case pn_value node of None \<Rightarrow> Inl (TypeError ''number expected'') | Some v \<Rightarrow> Inr (PNum v))
     | KCommon \<Rightarrow>
         (case common of
            None \<Rightarrow> Inl (ValueError ''Common input requires governed market context'')
          | Some cs \<Rightarrow> bindE (lookupE cs (pn_identifier node, pn_industry_code node) (KeyError (pn_identifier node)))
              (\<lambda>s. Inr (PSeries s)))
     | KField \<Rightarrow>
         bindE (lookupE values_by_field (pn_identifier node) (KeyError (pn_identifier node)))
           (\<lambda>s. Inr (PSeries (map input_cell s)))
     | KUnary \<Rightarrow> bindE (nthE arguments 0) (\<lambda>v. unary v (pn_identifier node))
     | KBinary \<Rightarrow> bindE (nthE arguments 0) (\<lambda>a. bindE (nthE arguments 1) (\<lambda>b.
         bindE (binary (pn_identifier node) a b n) (\<lambda>s. Inr (PSeries s))))
     | KBuiltin \<Rightarrow> evaluate_builtin flog (pn_identifier node) arguments)"

definition mask_value :: "nat \<Rightarrow> bool list option \<Rightarrow> plan_value \<Rightarrow> py_error + plan_value" where
  "mask_value n matching v =
     (case matching of
        None \<Rightarrow> Inr v
      | Some valid \<Rightarrow> bindE (broadcast v n) (\<lambda>s.
          Inr (PSeries (map2 (\<lambda>item ok. if ok then item else None) s valid))))"

definition plan_step ::
  "(rat \<Rightarrow> rat) \<Rightarrow> (string \<times> pyfloat option list) list \<Rightarrow> common_values option \<Rightarrow> (string \<times> int list) list \<Rightarrow> nat
    \<Rightarrow> plan_node \<Rightarrow> plan_value list \<times> windows list \<Rightarrow> py_error + plan_value list \<times> windows list" where
  "plan_step flog values_by_field common fields_windows n node s =
     (case s of (values, ws) \<Rightarrow>
      bindE (node_condition values n node) (\<lambda>condition.
      case ttm_node_window node fields_windows ws condition of (window, matching) \<Rightarrow>
      bindE (node_value flog values_by_field common n values node) (\<lambda>v.
      bindE (mask_value n matching v) (\<lambda>masked.
      Inr (values @ [masked], ws @ [window])))))"

definition validate_ttm_windows :: "(string \<times> int list) list option \<Rightarrow> nat \<Rightarrow> py_error + (string \<times> int list) list" where
  "validate_ttm_windows ttm_windows n =
     (case ttm_windows of
        None \<Rightarrow> Inr []
      | Some ws \<Rightarrow>
          if list_ex (\<lambda>(_, w). length w \<noteq> n) ws then Inl (ValueError ''TTM windows are misaligned'') else Inr ws)"

definition input_length :: "series_plan \<Rightarrow> (string \<times> pyfloat option list) list \<Rightarrow> py_error + nat option" where
  "input_length plan values_by_field =
     bindE (mapE (\<lambda>f. bindE (lookupE values_by_field f (KeyError f)) (\<lambda>s. Inr (length s))) (sp_field_names plan)) (\<lambda>ls.
     case remdups ls of
       [] \<Rightarrow> Inr None
     | [n] \<Rightarrow> Inr (Some n)
     | _ \<Rightarrow> Inl (ValueError ''all Alpha input series must have the same length''))"

definition result_length :: "nat option \<Rightarrow> nat option \<Rightarrow> py_error + nat" where
  "result_length explicit inferred =
     (case (explicit, inferred) of
        (Some n, Some m) \<Rightarrow>
          if n \<noteq> m then Inl (ValueError ''explicit Alpha series length does not match field inputs'') else Inr n
      | (Some n, None) \<Rightarrow> Inr n
      | (None, Some m) \<Rightarrow> Inr m
      | (None, None) \<Rightarrow> Inr 1)"

definition evaluate_series_execution_plan ::
  "(rat \<Rightarrow> rat) \<Rightarrow> series_plan \<Rightarrow> (string \<times> pyfloat option list) list \<Rightarrow> nat option \<Rightarrow> common_values option
    \<Rightarrow> (string \<times> int list) list option \<Rightarrow> py_error + series" where
  "evaluate_series_execution_plan flog plan values_by_field explicit common ttm_windows =
     bindE (input_length plan values_by_field) (\<lambda>inferred.
     bindE (result_length explicit inferred) (\<lambda>n.
     bindE (validate_ttm_windows ttm_windows n) (\<lambda>fields_windows.
     bindE (foldE (plan_step flog values_by_field common fields_windows n) (sp_nodes plan) ([], [])) (\<lambda>(values, ws).
     bindE (nthE values (sp_root plan)) (\<lambda>root.
     case root of
       PSeries s \<Rightarrow> if length s \<noteq> n
                    then Inl (ValueError ''Alpha execution plan produced a misaligned Numeric Series'') else Inr s
     | _ \<Rightarrow> broadcast root n)))))"

end
