(* ===== verification/AlphaValidator.thy ===== *)
theory AlphaValidator
  imports AlphaBuiltins
begin

text \<open>
  \<open>research_kernel/alpha_expression.py\<close>: the kernel's own check of a frozen expression, which
  trusts nothing about where the expression came from.

  A rejection carries its reason code and location; its message text is left out. Python errors a
  malformed value causes (an unhashable operator, an integer beyond the float range) are kept
  apart. The argument is a mapping, as its callers guarantee. The sets of field names are lists
  without repetition.
\<close>

datatype alpha_error =
    AlphaValidationError string string
  | AlphaPython py_error

record validated =
  va_node :: pyval
  va_lookback :: int
  va_work :: int
  va_fields :: "string list"
  va_field_ids :: "string list"
  va_type :: value_type

record parsed_alpha =
  pa_expression :: pyval
  pa_field_names :: "string list"
  pa_field_ids :: "string list"
  pa_field_ids_by_identifier :: "(string \<times> string) list"
  pa_effective_lookback :: int
  pa_estimated_work :: int

type_synonym bindings = "(string \<times> string) list"

definition reject :: "string \<Rightarrow> string \<Rightarrow> alpha_error" where
  "reject reason_code location = AlphaValidationError reason_code location"

section \<open>Size and depth\<close>

fun nested_in :: "pyval \<Rightarrow> pyval list" where
  "nested_in (VDict d) = [VDict d]"
| "nested_in (VList xs) = filter is_dict xs"
| "nested_in _ = []"

fun nested_nodes :: "pyval \<Rightarrow> pyval list" where
  "nested_nodes (VDict d) = concat (map (\<lambda>e. nested_in (snd e)) d)"
| "nested_nodes _ = []"

definition literal_count :: "pyval \<Rightarrow> int" where
  "literal_count node =
     (if get node ''kind'' = Some (VStr ''common'') \<and> get node ''industry_code'' \<notin> {None, Some VNone} then 1 else 0)"

lemma nested_in_size: "sum_list (map (\<lambda>v. Suc (size v)) (nested_in v)) \<le> Suc (size v)"
proof (cases v)
  case (VList xs)
  have "sum_list (map (\<lambda>v. Suc (size v)) (filter is_dict xs)) \<le> size_list size xs" by (induction xs) auto
  then show ?thesis using VList by simp
qed simp_all

lemma nested_nodes_size: "sum_list (map (\<lambda>v. Suc (size v)) (nested_nodes v)) < Suc (size v)"
proof (cases v)
  case (VDict d)
  have "sum_list (map (\<lambda>v. Suc (size v)) (concat (map (\<lambda>e. nested_in (snd e)) d))) \<le> size_list (size_prod (\<lambda>_. 0) size) d"
  proof (induction d)
    case (Cons e d)
    then show ?case using nested_in_size [of "snd e"] by (cases e) simp
  qed simp
  then show ?thesis using VDict by simp
qed simp_all

text \<open>The top of \<open>pending\<close> is the head of the list.\<close>

function scan_nodes :: "(pyval \<times> int) list \<Rightarrow> int \<Rightarrow> alpha_error + unit" where
  "scan_nodes [] count = Inr ()"
| "scan_nodes ((node, depth) # pending) count =
     (let count' = count + 1 + literal_count node in
      if MAX_EXPRESSION_DEPTH < depth + literal_count node then
        Inl (reject ''EXPRESSION_TOO_DEEP'' ''alpha.expression'')
      else if MAX_EXPRESSION_NODES < count' then
        Inl (reject ''TOO_MANY_EXPRESSION_NODES'' ''alpha.expression'')
      else scan_nodes (rev (map (\<lambda>v. (v, depth + 1)) (nested_nodes node)) @ pending) count')"
  by pat_completeness auto
termination
  by (relation "measure (\<lambda>(pending, _). sum_list (map (\<lambda>(v, _). Suc (size v)) pending))")
    (simp_all add: rev_map [symmetric] sum_list_rev comp_def nested_nodes_size del: nested_nodes.simps)

section \<open>Single nodes\<close>

definition validate_common_node :: "bindings \<Rightarrow> string \<Rightarrow> pyval \<Rightarrow> alpha_error + validated" where
  "validate_common_node bindings location node =
     bindE (mapErr (\<lambda>_. reject ''INVALID_COMMON_INPUT'' location) (validate_common_reference node)) (\<lambda>reference.
     bindE (lookupE bindings CLOSE_FIELD_ID (reject ''UNKNOWN_FIELD'' location)) (\<lambda>name.
     Inr \<lparr>va_node = reference, va_lookback = 1, va_work = COMMON_INPUT_WORK, va_fields = [name],
          va_field_ids = [CLOSE_FIELD_ID], va_type = COMMON_NUMERIC_SERIES\<rparr>))"

definition validate_field_node :: "bindings \<Rightarrow> string \<Rightarrow> pyval \<Rightarrow> alpha_error + validated" where
  "validate_field_node bindings location node =
     bindE (raiseIf (keys node \<noteq> set [''kind'', ''field_id'']) (reject ''INVALID_NODE'' location)) (\<lambda>_.
     case get node ''field_id'' of
       Some (VStr field_id) \<Rightarrow>
         bindE (lookupE bindings field_id (reject ''UNKNOWN_FIELD'' location)) (\<lambda>name.
         Inr \<lparr>va_node = node, va_lookback = 0, va_work = 1, va_fields = [name],
              va_field_ids = [field_id], va_type = NUMERIC_SERIES\<rparr>)
     | _ \<Rightarrow> Inl (reject ''UNKNOWN_FIELD'' location))"

definition require_literal :: "string \<Rightarrow> pyval \<Rightarrow> alpha_error + unit" where
  "require_literal location v =
     (case v of
        VInt n \<Rightarrow> mapErr AlphaPython (bindE (float_of (of_int n)) (\<lambda>_. Inr ()))
      | VFloat (Finite x) \<Rightarrow> Inr ()
      | _ \<Rightarrow> Inl (reject ''INVALID_LITERAL'' location))"

definition validate_number_node :: "string \<Rightarrow> pyval \<Rightarrow> alpha_error + validated" where
  "validate_number_node location node =
     bindE (raiseIf (keys node \<noteq> set [''kind'', ''value'']) (reject ''INVALID_NODE'' location)) (\<lambda>_.
     bindE (require_literal location (the (get node ''value''))) (\<lambda>_.
     Inr \<lparr>va_node = node, va_lookback = 0, va_work = 1, va_fields = [], va_field_ids = [], va_type = NUMBER\<rparr>))"

section \<open>Operators\<close>

text \<open>\<open>operator in {...}\<close>: a list or a dictionary cannot be hashed.\<close>

definition operator_in :: "string list \<Rightarrow> pyval option \<Rightarrow> alpha_error + bool" where
  "operator_in allowed operator =
     (case operator of
        Some (VStr s) \<Rightarrow> Inr (s \<in> set allowed)
      | Some (VList xs) \<Rightarrow> Inl (AlphaPython (TypeError ''unhashable type''))
      | Some (VDict d) \<Rightarrow> Inl (AlphaPython (TypeError ''unhashable type''))
      | _ \<Rightarrow> Inr False)"

definition is_mapping :: "pyval option \<Rightarrow> bool" where
  "is_mapping v = (case v of None \<Rightarrow> False | Some w \<Rightarrow> is_dict w)"

definition text_at :: "pyval \<Rightarrow> string \<Rightarrow> string" where
  "text_at node k = (case get node k of Some (VStr s) \<Rightarrow> s | _ \<Rightarrow> [])"

definition unary_operand :: "string \<Rightarrow> pyval \<Rightarrow> alpha_error + pyval" where
  "unary_operand location node =
     bindE (raiseIf (keys node \<noteq> set [''kind'', ''operator'', ''operand'']) (reject ''INVALID_NODE'' location)) (\<lambda>_.
     bindE (operator_in [''negate'', ''not''] (get node ''operator'')) (\<lambda>known.
     bindE (raiseIf (\<not> known \<or> \<not> is_mapping (get node ''operand'')) (reject ''INVALID_OPERATOR'' location)) (\<lambda>_.
     case get node ''operand'' of Some v \<Rightarrow> Inr v | None \<Rightarrow> Inl (reject ''INVALID_OPERATOR'' location))))"

definition finish_unary :: "string \<Rightarrow> string \<Rightarrow> validated \<Rightarrow> alpha_error + validated" where
  "finish_unary location operator child =
     bindE (mapErr (\<lambda>_. reject ''TYPE_MISMATCH'' location) (unary_result_type operator (va_type child))) (\<lambda>result_type.
     Inr \<lparr>va_node = VDict [(''kind'', VStr ''unary''), (''operator'', VStr operator), (''operand'', va_node child)],
          va_lookback = va_lookback child, va_work = va_work child + 1, va_fields = va_fields child,
          va_field_ids = va_field_ids child, va_type = result_type\<rparr>)"

definition binary_operands :: "string \<Rightarrow> pyval \<Rightarrow> alpha_error + pyval \<times> pyval" where
  "binary_operands location node =
     bindE (raiseIf (keys node \<noteq> set [''kind'', ''operator'', ''left'', ''right'']) (reject ''INVALID_NODE'' location)) (\<lambda>_.
     bindE (operator_in (ARITHMETIC_OPERATORS @ COMPARISON_OPERATORS @ BOOLEAN_OPERATORS) (get node ''operator'')) (\<lambda>known.
     bindE (raiseIf (\<not> known \<or> \<not> is_mapping (get node ''left'') \<or> \<not> is_mapping (get node ''right''))
              (reject ''INVALID_OPERATOR'' location)) (\<lambda>_.
     case (get node ''left'', get node ''right'') of
       (Some l, Some r) \<Rightarrow> Inr (l, r)
     | _ \<Rightarrow> Inl (reject ''INVALID_OPERATOR'' location))))"

definition finish_binary :: "string \<Rightarrow> string \<Rightarrow> validated \<Rightarrow> validated \<Rightarrow> alpha_error + validated" where
  "finish_binary location operator left right =
     bindE (mapErr (\<lambda>_. reject ''TYPE_MISMATCH'' location)
              (binary_result_type operator (va_type left) (va_type right))) (\<lambda>result_type.
     Inr \<lparr>va_node = VDict [(''kind'', VStr ''binary''), (''operator'', VStr operator),
                        (''left'', va_node left), (''right'', va_node right)],
          va_lookback = max (va_lookback left) (va_lookback right),
          va_work = va_work left + va_work right + 1,
          va_fields = List.union (va_fields left) (va_fields right),
          va_field_ids = List.union (va_field_ids left) (va_field_ids right),
          va_type = result_type\<rparr>)"

section \<open>Calls\<close>

definition call_signature :: "string \<Rightarrow> pyval \<Rightarrow> alpha_error + builtin \<times> pyval list" where
  "call_signature location node =
     bindE (raiseIf (keys node \<noteq> set [''kind'', ''identifier'', ''arguments'']) (reject ''INVALID_NODE'' location)) (\<lambda>_.
     case (get node ''identifier'', get node ''arguments'') of
       (Some (VStr identifier), Some (VList arguments)) \<Rightarrow>
         (case find_builtin identifier of
            None \<Rightarrow> Inl (reject ''INVALID_OPERATOR'' location)
          | Some builtin \<Rightarrow>
              if bi_result_rule builtin = CommonSeries then Inl (reject ''INVALID_COMMON_INPUT'' location)
              else if length arguments \<noteq> length (bi_parameters builtin) then Inl (reject ''INVALID_ARITY'' location)
              else Inr (builtin, arguments))
     | _ \<Rightarrow> Inl (reject ''INVALID_OPERATOR'' location))"

text \<open>The types a parameter accepts; \<open>None\<close> accepts every type.\<close>

primrec rule_types :: "parameter_rule \<Rightarrow> value_type list option" where
  "rule_types Numeric = Some NUMERIC_TYPES"
| "rule_types Series = Some [NUMERIC_SERIES]"
| "rule_types Temporal = Some [NUMERIC_SERIES, COMMON_NUMERIC_SERIES]"
| "rule_types Boolean = Some BOOLEAN_TYPES"
| "rule_types Value = None"
| "rule_types Window = None"
| "rule_types Industry = None"

definition accepts :: "parameter_rule \<Rightarrow> value_type \<Rightarrow> bool" where
  "accepts rule t = (case rule_types rule of None \<Rightarrow> True | Some allowed \<Rightarrow> t \<in> set allowed)"

definition argument_location :: "string \<Rightarrow> nat \<Rightarrow> string" where
  "argument_location location index = location @ ''.arguments['' @ canonical_integer (int index) @ '']''"

definition window_argument :: "string \<Rightarrow> nat \<Rightarrow> pyval \<Rightarrow> alpha_error + int" where
  "window_argument location index argument =
     (case (if get argument ''kind'' = Some (VStr ''number'') then get argument ''value'' else None) of
        Some (VInt n) \<Rightarrow> if 1 \<le> n \<and> n \<le> 252 then Inr n
                       else Inl (reject ''INVALID_WINDOW'' (argument_location location index))
      | _ \<Rightarrow> Inl (reject ''INVALID_WINDOW'' (argument_location location index)))"

record arguments_state =
  as_compiled :: "pyval list"
  as_lookbacks :: "int list"
  as_types :: "value_type list"
  as_work :: int
  as_fields :: "string list"
  as_field_ids :: "string list"
  as_window :: "int option"

definition no_arguments :: arguments_state where
  "no_arguments = \<lparr>as_compiled = [], as_lookbacks = [], as_types = [], as_work = 0, as_fields = [],
     as_field_ids = [], as_window = None\<rparr>"

definition add_window :: "pyval \<Rightarrow> int \<Rightarrow> arguments_state \<Rightarrow> arguments_state" where
  "add_window argument window a =
     a\<lparr>as_window := Some window, as_compiled := as_compiled a @ [argument], as_work := as_work a + 1,
       as_types := as_types a @ [WINDOW]\<rparr>"

definition add_argument :: "string \<Rightarrow> parameter_rule \<Rightarrow> validated \<Rightarrow> arguments_state \<Rightarrow> alpha_error + arguments_state" where
  "add_argument location rule child a =
     bindE (raiseIf (\<not> accepts rule (va_type child)) (reject ''TYPE_MISMATCH'' location)) (\<lambda>_.
     Inr (a\<lparr>as_types := as_types a @ [va_type child], as_compiled := as_compiled a @ [va_node child],
            as_lookbacks := as_lookbacks a @ [va_lookback child], as_work := as_work a + va_work child,
            as_fields := List.union (as_fields a) (va_fields child),
            as_field_ids := List.union (as_field_ids a) (va_field_ids child)\<rparr>))"

definition call_type :: "builtin \<Rightarrow> value_type list \<Rightarrow> py_error + value_type" where
  "call_type builtin types =
     (case bi_result_rule builtin of
        Conditional \<Rightarrow>
          (case types of
             [condition, when_true, when_false] \<Rightarrow> conditional_result_type condition when_true when_false
           | _ \<Rightarrow> Inl (TypeError ''conditional_result_type takes three types''))
      | NumericSeries \<Rightarrow> Inr NUMERIC_SERIES
      | _ \<Rightarrow> (case types of [] \<Rightarrow> Inl IndexError | t # ts \<Rightarrow> Inr t))"

text \<open>Only a \<open>ValueError\<close> becomes a rejection.\<close>

definition type_rejection :: "string \<Rightarrow> py_error \<Rightarrow> alpha_error" where
  "type_rejection location e =
     (case e of ValueError m \<Rightarrow> reject ''TYPE_MISMATCH'' location | _ \<Rightarrow> AlphaPython e)"

definition finish_call :: "string \<Rightarrow> builtin \<Rightarrow> arguments_state \<Rightarrow> alpha_error + validated" where
  "finish_call location builtin a =
     bindE (mapErr (type_rejection location) (call_type builtin (as_types a))) (\<lambda>result_type.
     Inr \<lparr>va_node = VDict [(''kind'', VStr ''call''), (''identifier'', VStr (bi_identifier builtin)),
                        (''arguments'', VList (as_compiled a))],
          va_lookback = effective_lookback builtin (foldr max (as_lookbacks a) 0) (as_window a),
          va_work = estimated_work builtin (as_work a) (as_window a),
          va_fields = as_fields a, va_field_ids = as_field_ids a, va_type = result_type\<rparr>)"

section \<open>The recursion\<close>

function validate_compiled_node :: "bindings \<Rightarrow> string \<Rightarrow> pyval \<Rightarrow> alpha_error + validated"
  and validate_arguments :: "bindings \<Rightarrow> string \<Rightarrow> nat \<Rightarrow> (string \<times> parameter_rule) list \<Rightarrow> pyval list
    \<Rightarrow> arguments_state \<Rightarrow> alpha_error + arguments_state" where
  "validate_compiled_node bindings location node =
     (let kind = get node ''kind'' in
      if kind = Some (VStr ''common'') then validate_common_node bindings location node
      else if kind = Some (VStr ''field'') then validate_field_node bindings location node
      else if kind = Some (VStr ''number'') then validate_number_node location node
      else if kind = Some (VStr ''unary'') then
        bindE (unary_operand location node) (\<lambda>operand.
        bindE (validate_compiled_node bindings (location @ ''.operand'') operand) (\<lambda>child.
        finish_unary location (text_at node ''operator'') child))
      else if kind = Some (VStr ''binary'') then
        bindE (binary_operands location node) (\<lambda>(left, right).
        bindE (validate_compiled_node bindings (location @ ''.left'') left) (\<lambda>left_child.
        bindE (validate_compiled_node bindings (location @ ''.right'') right) (\<lambda>right_child.
        finish_binary location (text_at node ''operator'') left_child right_child)))
      else if kind = Some (VStr ''call'') then
        bindE (call_signature location node) (\<lambda>(builtin, arguments).
        bindE (validate_arguments bindings location 0 (bi_parameters builtin) arguments no_arguments) (\<lambda>a.
        finish_call location builtin a))
      else Inl (reject ''INVALID_NODE'' location))"
| "validate_arguments bindings location index [] arguments a = Inr a"
| "validate_arguments bindings location index (p # ps) [] a = Inr a"
| "validate_arguments bindings location index ((name, rule) # parameters) (argument # arguments) a =
     bindE (raiseIf (\<not> is_dict argument) (reject ''INVALID_OPERAND'' location)) (\<lambda>_.
     bindE (if rule = Window then
              bindE (window_argument location index argument) (\<lambda>window. Inr (add_window argument window a))
            else
              bindE (validate_compiled_node bindings (argument_location location index) argument) (\<lambda>child.
              add_argument location rule child a)) (\<lambda>a'.
     validate_arguments bindings location (Suc index) parameters arguments a'))"
  by pat_completeness auto

lemma unary_operand_size: "unary_operand location node = Inr v \<Longrightarrow> size v < size node"
  by (auto simp: unary_operand_def dest: get_size split: option.splits)

lemma binary_operands_size:
  "binary_operands location node = Inr (l, r) \<Longrightarrow> size l < size node \<and> size r < size node"
  by (auto simp: binary_operands_def dest: get_size split: option.splits)

lemma call_signature_size: "call_signature location node = Inr (b, xs) \<Longrightarrow> size_list size xs < size node"
  by (auto simp: call_signature_def dest!: get_size split: option.splits pyval.splits if_splits)

termination validate_compiled_node
  by (relation "measure (\<lambda>x. case x of
      Inl (bindings, location, node) \<Rightarrow> size node
    | Inr (bindings, location, index, parameters, arguments, a) \<Rightarrow> size_list size arguments)")
    (auto dest: unary_operand_size binary_operands_size call_signature_size)

declare validate_compiled_node.simps [simp del]

section \<open>Expressions\<close>

definition validate_normalized_expression ::
  "pyval \<Rightarrow> bindings \<Rightarrow> value_type list \<Rightarrow> alpha_error + parsed_alpha" where
  "validate_normalized_expression expression bindings expected_types =
     bindE (scan_nodes [(expression, 1)] 0) (\<lambda>_.
     bindE (validate_compiled_node bindings ''alpha.expression'' expression) (\<lambda>v.
     bindE (raiseIf (MAX_ESTIMATED_WORK < va_work v) (reject ''WORK_EXCEEDS_LIMIT'' ''alpha.expression'')) (\<lambda>_.
     bindE (raiseIf (va_type v \<notin> set expected_types)
              (if expected_types = [NUMERIC_SERIES] then reject ''ROOT_MUST_BE_SERIES'' ''alpha.expression''
               else reject ''EXPOSURE_MUST_BE_ACCOUNT_NUMERIC'' ''exposure.expression'')) (\<lambda>_.
     bindE (raiseIf (252 < va_lookback v) (reject ''LOOKBACK_EXCEEDS_LIMIT'' ''alpha.expression'')) (\<lambda>_.
     Inr \<lparr>pa_expression = va_node v, pa_field_names = sort (va_fields v), pa_field_ids = sort (va_field_ids v),
          pa_field_ids_by_identifier =
            foldl (\<lambda>d (field_id, identifier). AList.update identifier field_id d) []
              (filter (\<lambda>(field_id, identifier). field_id \<in> set (va_field_ids v)) bindings),
          pa_effective_lookback = va_lookback v, pa_estimated_work = va_work v\<rparr>)))))"

definition validate_normalized_alpha :: "pyval \<Rightarrow> bindings \<Rightarrow> alpha_error + parsed_alpha" where
  "validate_normalized_alpha expression bindings =
     validate_normalized_expression expression bindings [NUMERIC_SERIES]"

definition validate_normalized_exposure :: "pyval \<Rightarrow> alpha_error + parsed_alpha" where
  "validate_normalized_exposure expression =
     validate_normalized_expression expression [(CLOSE_FIELD_ID, ''close'')] [NUMBER, COMMON_NUMERIC_SERIES]"

definition MAX_ALPHA_RUN_ESTIMATED_WORK :: int where
  "MAX_ALPHA_RUN_ESTIMATED_WORK = 15000000"

definition estimate_alpha_run_work :: "int \<Rightarrow> int \<Rightarrow> int \<Rightarrow> py_error + int" where
  "estimate_alpha_run_work formula_work research_session_count universe_instrument_count =
     bindE (raiseIf (formula_work < 1 \<or> research_session_count < 1 \<or> universe_instrument_count < 0)
              (ValueError ''Alpha Run work dimensions are invalid'')) (\<lambda>_.
     Inr (formula_work * research_session_count * universe_instrument_count))"

end
