(* ===== verification/AlphaCompiler.thy ===== *)
theory AlphaCompiler
  imports SeriesPlan AlphaValidator
begin

text \<open>
  \<open>alpha_language/language.py\<close> with \<open>syntax.py\<close>, and the constant exposures of
  \<open>research_kernel/exposure.py\<close>: from the syntax tree of a formula to the expression the kernel
  runs.

  The parser is Python's \<open>ast.parse\<close>, the argument \<open>parse\<close>; \<open>None\<close> is a syntax error. A node of
  the tree keeps what the compiler looks at. A diagnostic is its code and the kind of its details;
  its message, source range and expected and actual values are left out. The entries of the public
  catalogue describe the fields and builtins and decide nothing.
\<close>

section \<open>Syntax trees\<close>

datatype unary_operator = USub | NotOp | OtherUnary
datatype arithmetic_operator = Add | Sub | Mult | Div | OtherArithmetic
datatype comparison_operator = Gt | GtE | Lt | LtE | EqOp | NotEq | OtherComparison
datatype boolean_operator = And | Or

datatype ast =
    Name string
  | Constant pyval
  | UnaryOp unary_operator ast
  | BinOp ast arithmetic_operator ast
  | Compare ast "comparison_operator list" "ast list"
  | BoolOp boolean_operator "ast list"
  | Call ast "ast list" "(string option \<times> ast) list"
  | Starred ast
  | OtherExpression

primrec arithmetic_name :: "arithmetic_operator \<Rightarrow> string option" where
  "arithmetic_name Add = Some ''add''"
| "arithmetic_name Sub = Some ''subtract''"
| "arithmetic_name Mult = Some ''multiply''"
| "arithmetic_name Div = Some ''divide''"
| "arithmetic_name OtherArithmetic = None"

primrec comparison_name :: "comparison_operator \<Rightarrow> string option" where
  "comparison_name Gt = Some ''gt''"
| "comparison_name GtE = Some ''ge''"
| "comparison_name Lt = Some ''lt''"
| "comparison_name LtE = Some ''le''"
| "comparison_name EqOp = Some ''eq''"
| "comparison_name NotEq = Some ''ne''"
| "comparison_name OtherComparison = None"

primrec unary_name :: "unary_operator \<Rightarrow> string option" where
  "unary_name USub = Some ''negate''"
| "unary_name NotOp = Some ''not''"
| "unary_name OtherUnary = None"

primrec boolean_name :: "boolean_operator \<Rightarrow> string" where
  "boolean_name And = ''and''"
| "boolean_name Or = ''or''"

section \<open>The language\<close>

datatype formula_error =
    FormulaCompilationError string string
  | AlphaLanguageCatalogError string
  | FormulaPython py_error

definition diagnostic :: "string \<Rightarrow> string \<Rightarrow> formula_error" where
  "diagnostic code kind = FormulaCompilationError code kind"

record field_definition =
  fd_field_id :: string
  fd_alpha_identifier :: "string option"
  fd_has_series_reader :: bool

record language =
  la_fields :: "(string \<times> string) list"
  la_builtins :: "builtin list"

definition is_lower :: "char \<Rightarrow> bool" where
  "is_lower c \<longleftrightarrow> 97 \<le> (of_char c :: int) \<and> (of_char c :: int) \<le> 122"

definition validate_identifier :: "string \<Rightarrow> formula_error + unit" where
  "validate_identifier identifier =
     (case identifier of
        [] \<Rightarrow> Inl (AlphaLanguageCatalogError ''invalid Alpha identifier'')
      | c # cs \<Rightarrow>
          raiseIf (\<not> (is_lower c \<and> list_all (\<lambda>x. is_lower x \<or> is_digit x \<or> x = CHR ''_'') cs))
            (AlphaLanguageCatalogError ''invalid Alpha identifier''))"

definition add_field :: "field_definition \<Rightarrow> (string \<times> string) list \<Rightarrow> formula_error + (string \<times> string) list" where
  "add_field field by_identifier =
     (case fd_alpha_identifier field of
        None \<Rightarrow> Inr by_identifier
      | Some identifier \<Rightarrow>
          bindE (validate_identifier identifier) (\<lambda>_.
          bindE (raiseIf (\<not> fd_has_series_reader field)
                   (AlphaLanguageCatalogError ''Alpha field has no Data Series reader'')) (\<lambda>_.
          bindE (raiseIf (identifier \<in> set (map fst by_identifier))
                   (AlphaLanguageCatalogError ''duplicate Alpha identifier'')) (\<lambda>_.
          bindE (raiseIf (fd_field_id field \<in> set (map snd by_identifier))
                   (AlphaLanguageCatalogError ''duplicate Canonical Field'')) (\<lambda>_.
          Inr (by_identifier @ [(identifier, fd_field_id field)]))))))"

definition add_builtin :: "(string \<times> string) list \<Rightarrow> builtin \<Rightarrow> builtin list \<Rightarrow> formula_error + builtin list" where
  "add_builtin by_identifier builtin builtins =
     bindE (validate_identifier (bi_identifier builtin)) (\<lambda>_.
     bindE (raiseIf (bi_identifier builtin \<in> set (map bi_identifier builtins)
               \<or> bi_identifier builtin \<in> set (map fst by_identifier))
              (AlphaLanguageCatalogError ''duplicate Alpha identifier'')) (\<lambda>_.
     Inr (builtins @ [builtin])))"

definition alpha_language :: "field_definition list \<Rightarrow> builtin list \<Rightarrow> formula_error + language" where
  "alpha_language field_definitions builtins =
     bindE (foldE add_field field_definitions []) (\<lambda>by_identifier.
     bindE (foldE (add_builtin by_identifier) builtins []) (\<lambda>bs.
     Inr \<lparr>la_fields = by_identifier, la_builtins = bs\<rparr>))"

definition language_builtin :: "language \<Rightarrow> string \<Rightarrow> builtin option" where
  "language_builtin l identifier = List.find (\<lambda>b. bi_identifier b = identifier) (la_builtins l)"

section \<open>Building expressions\<close>

record built =
  bx_expression :: pyval
  bx_type :: value_type
  bx_fields :: "(string \<times> string) list"
  bx_lookback :: int
  bx_nodes :: int
  bx_depth :: int
  bx_work :: int

definition leaf :: "pyval \<Rightarrow> value_type \<Rightarrow> (string \<times> string) list \<Rightarrow> int \<Rightarrow> built" where
  "leaf expression value_type field_ids depth =
     \<lparr>bx_expression = expression, bx_type = value_type, bx_fields = field_ids, bx_lookback = 0,
      bx_nodes = 1, bx_depth = depth, bx_work = 1\<rparr>"

text \<open>\<open>{**left, **right}\<close>\<close>

definition merge :: "(string \<times> string) list \<Rightarrow> (string \<times> string) list \<Rightarrow> (string \<times> string) list" where
  "merge left right = foldl (\<lambda>d (k, v). AList.update k v d) left right"

definition build_name :: "language \<Rightarrow> string \<Rightarrow> int \<Rightarrow> formula_error + built" where
  "build_name l identifier depth =
     (case map_of (la_fields l) identifier of
        Some field_id \<Rightarrow>
          Inr (leaf (VDict [(''kind'', VStr ''field''), (''field_id'', VStr field_id)]) NUMERIC_SERIES
                 [(identifier, field_id)] depth)
      | None \<Rightarrow>
          if language_builtin l identifier \<noteq> None then Inl (diagnostic ''EXPECTED_FIELD'' ''callability'')
          else Inl (diagnostic ''UNKNOWN_IDENTIFIER'' ''identifier''))"

definition build_constant :: "pyval \<Rightarrow> int \<Rightarrow> formula_error + built" where
  "build_constant v depth =
     (let number = Inr (leaf (VDict [(''kind'', VStr ''number''), (''value'', v)]) NUMBER [] depth);
          non_finite = Inl (diagnostic ''NON_FINITE_LITERAL'' ''literal'') in
      case v of
        VBool b \<Rightarrow> Inl (diagnostic ''BOOLEAN_NOT_ALLOWED'' ''literal'')
      | VInt n \<Rightarrow> (case float_of (of_int n) of Inl e \<Rightarrow> non_finite | Inr x \<Rightarrow> number)
      | VFloat f \<Rightarrow> (case f of Finite x \<Rightarrow> number | _ \<Rightarrow> non_finite)
      | _ \<Rightarrow> Inl (diagnostic ''UNSUPPORTED_LITERAL'' ''literal''))"

definition type_mismatch :: "py_error + value_type \<Rightarrow> formula_error + value_type" where
  "type_mismatch m = mapErr (\<lambda>_. diagnostic ''TYPE_MISMATCH'' ''value_type'') m"

definition build_unary :: "string \<Rightarrow> built \<Rightarrow> int \<Rightarrow> formula_error + built" where
  "build_unary operator operand depth =
     bindE (type_mismatch (unary_result_type operator (bx_type operand))) (\<lambda>result_type.
     Inr \<lparr>bx_expression = VDict [(''kind'', VStr ''unary''), (''operator'', VStr operator),
                               (''operand'', bx_expression operand)],
          bx_type = result_type, bx_fields = bx_fields operand, bx_lookback = bx_lookback operand,
          bx_nodes = bx_nodes operand + 1, bx_depth = max depth (bx_depth operand), bx_work = bx_work operand + 1\<rparr>)"

definition build_binary :: "string \<Rightarrow> int \<Rightarrow> built \<Rightarrow> built \<Rightarrow> formula_error + built" where
  "build_binary operator depth left right =
     bindE (type_mismatch (binary_result_type operator (bx_type left) (bx_type right))) (\<lambda>result_type.
     Inr \<lparr>bx_expression = VDict [(''kind'', VStr ''binary''), (''operator'', VStr operator),
                               (''left'', bx_expression left), (''right'', bx_expression right)],
          bx_type = result_type, bx_fields = merge (bx_fields left) (bx_fields right),
          bx_lookback = max (bx_lookback left) (bx_lookback right),
          bx_nodes = bx_nodes left + bx_nodes right + 1,
          bx_depth = max depth (max (bx_depth left) (bx_depth right)),
          bx_work = bx_work left + bx_work right + 1\<rparr>)"

fun fold_binary :: "string \<Rightarrow> int \<Rightarrow> built \<Rightarrow> built list \<Rightarrow> formula_error + built" where
  "fold_binary operator depth result [] = Inr result"
| "fold_binary operator depth result (child # rest) =
     bindE (build_binary operator depth result child) (\<lambda>next. fold_binary operator depth next rest)"

definition build_window :: "ast \<Rightarrow> formula_error + int" where
  "build_window node =
     (case node of
        Constant (VInt n) \<Rightarrow> if n < 1 \<or> 252 < n then Inl (diagnostic ''WINDOW_OUT_OF_RANGE'' ''window'') else Inr n
      | _ \<Rightarrow> Inl (diagnostic ''WINDOW_MUST_BE_INTEGER'' ''window''))"

definition window_leaf :: "int \<Rightarrow> int \<Rightarrow> built" where
  "window_leaf window depth =
     leaf (VDict [(''kind'', VStr ''number''), (''value'', VInt window)]) WINDOW [] depth"

definition is_starred :: "ast \<Rightarrow> bool" where
  "is_starred node = (case node of Starred e \<Rightarrow> True | _ \<Rightarrow> False)"

text \<open>The checks of \<open>_build_call\<close> before any argument is built.\<close>

definition call_target :: "language \<Rightarrow> ast \<Rightarrow> ast list \<Rightarrow> (string option \<times> ast) list \<Rightarrow> formula_error + builtin" where
  "call_target l callee arguments keywords =
     (case callee of
        Name identifier \<Rightarrow>
          if map_of (la_fields l) identifier \<noteq> None then Inl (diagnostic ''NOT_CALLABLE'' ''callability'')
          else (case language_builtin l identifier of
            None \<Rightarrow> Inl (diagnostic ''UNKNOWN_IDENTIFIER'' ''identifier'')
          | Some builtin \<Rightarrow>
              (case keywords of
                 (None, e) # ks \<Rightarrow> Inl (diagnostic ''STARRED_ARGUMENT_NOT_ALLOWED'' ''syntax'')
               | (Some k, e) # ks \<Rightarrow> Inl (diagnostic ''KEYWORD_ARGUMENT_NOT_ALLOWED'' ''syntax'')
               | [] \<Rightarrow>
                   if list_ex is_starred arguments then Inl (diagnostic ''STARRED_ARGUMENT_NOT_ALLOWED'' ''syntax'')
                   else if length arguments \<noteq> length (bi_parameters builtin) then Inl (diagnostic ''INVALID_ARITY'' ''arity'')
                   else Inr builtin))
      | _ \<Rightarrow> Inl (diagnostic ''UNSUPPORTED_SYNTAX'' ''callability''))"

definition static_value :: "ast \<Rightarrow> pyval" where
  "static_value node = (case node of Constant v \<Rightarrow> v | _ \<Rightarrow> VNone)"

definition common_expression :: "string \<Rightarrow> ast list \<Rightarrow> formula_error + pyval" where
  "common_expression identifier arguments =
     mapErr (\<lambda>_. diagnostic ''INVALID_COMMON_INPUT'' ''common_input'')
       (common_reference identifier (map static_value arguments))"

definition finish_common :: "language \<Rightarrow> pyval \<Rightarrow> ast list \<Rightarrow> int \<Rightarrow> formula_error + built" where
  "finish_common l expression arguments depth =
     bindE (raiseIf (map_of (la_fields l) ''close'' \<noteq> Some CLOSE_FIELD_ID)
              (diagnostic ''UNKNOWN_IDENTIFIER'' ''common_input'')) (\<lambda>_.
     Inr \<lparr>bx_expression = expression, bx_type = COMMON_NUMERIC_SERIES,
          bx_fields = [(''close'', CLOSE_FIELD_ID)], bx_lookback = 1,
          bx_nodes = 1 + int (length arguments),
          bx_depth = depth + (if arguments = [] then 0 else 1), bx_work = COMMON_INPUT_WORK\<rparr>)"

definition check_argument :: "parameter_rule \<Rightarrow> built \<Rightarrow> formula_error + unit" where
  "check_argument rule argument =
     raiseIf (\<not> accepts rule (bx_type argument)) (diagnostic ''TYPE_MISMATCH'' ''value_type'')"

definition build_call :: "builtin \<Rightarrow> int option \<Rightarrow> built list \<Rightarrow> int \<Rightarrow> formula_error + built" where
  "build_call builtin window arguments depth =
     bindE (case call_type builtin (map bx_type arguments) of
              Inr t \<Rightarrow> Inr t
            | Inl (ValueError m) \<Rightarrow> Inl (diagnostic ''TYPE_MISMATCH'' ''value_type'')
            | Inl e \<Rightarrow> Inl (FormulaPython e)) (\<lambda>result_type.
     Inr \<lparr>bx_expression = VDict [(''kind'', VStr ''call''), (''identifier'', VStr (bi_identifier builtin)),
                               (''arguments'', VList (map bx_expression arguments))],
          bx_type = result_type,
          bx_fields = foldl (\<lambda>d a. merge d (bx_fields a)) [] arguments,
          bx_lookback = effective_lookback builtin (foldr max (map bx_lookback arguments) 0) window,
          bx_nodes = 1 + sum_list (map bx_nodes arguments),
          bx_depth = foldr max (map bx_depth arguments) depth,
          bx_work = estimated_work builtin (sum_list (map bx_work arguments)) window\<rparr>)"

function build :: "language \<Rightarrow> int \<Rightarrow> ast \<Rightarrow> formula_error + built"
  and build_all :: "language \<Rightarrow> int \<Rightarrow> ast list \<Rightarrow> formula_error + built list"
  and build_arguments :: "language \<Rightarrow> int \<Rightarrow> (string \<times> parameter_rule) list \<Rightarrow> ast list \<Rightarrow> int option \<Rightarrow> built list
    \<Rightarrow> formula_error + int option \<times> built list" where
  "build l depth node =
     bindE (raiseIf (MAX_EXPRESSION_DEPTH < depth) (diagnostic ''EXPRESSION_TOO_DEEP'' ''resource_limit'')) (\<lambda>_.
     case node of
       Name identifier \<Rightarrow> build_name l identifier depth
     | Constant v \<Rightarrow> build_constant v depth
     | UnaryOp operator operand \<Rightarrow>
         (case unary_name operator of
            None \<Rightarrow> Inl (diagnostic ''UNSUPPORTED_OPERATOR'' ''syntax'')
          | Some name \<Rightarrow> bindE (build l (depth + 1) operand) (\<lambda>child. build_unary name child depth))
     | BinOp left operator right \<Rightarrow>
         (case arithmetic_name operator of
            None \<Rightarrow> Inl (diagnostic ''UNSUPPORTED_OPERATOR'' ''syntax'')
          | Some name \<Rightarrow>
              bindE (build l (depth + 1) left) (\<lambda>a.
              bindE (build l (depth + 1) right) (\<lambda>b. build_binary name depth a b)))
     | Compare left operators comparators \<Rightarrow>
         (case (operators, comparators) of
            ([operator], [right]) \<Rightarrow>
              (case comparison_name operator of
                 None \<Rightarrow> Inl (diagnostic ''UNSUPPORTED_OPERATOR'' ''syntax'')
               | Some name \<Rightarrow>
                   bindE (build l (depth + 1) left) (\<lambda>a.
                   bindE (build l (depth + 1) right) (\<lambda>b. build_binary name depth a b)))
          | _ \<Rightarrow> Inl (diagnostic ''UNSUPPORTED_SYNTAX'' ''syntax''))
     | BoolOp operator operands \<Rightarrow>
         bindE (build_all l (depth + int (length operands) - 1) operands) (\<lambda>children.
         case children of
           [] \<Rightarrow> Inl (FormulaPython IndexError)
         | result # rest \<Rightarrow> fold_binary (boolean_name operator) depth result rest)
     | Call callee arguments keywords \<Rightarrow>
         bindE (call_target l callee arguments keywords) (\<lambda>builtin.
         if bi_result_rule builtin = CommonSeries then
           bindE (common_expression (bi_identifier builtin) arguments) (\<lambda>expression.
           bindE (build_all l (depth + 1) arguments) (\<lambda>_. finish_common l expression arguments depth))
         else
           bindE (build_arguments l (depth + 1) (bi_parameters builtin) arguments None []) (\<lambda>(window, children).
           build_call builtin window children depth))
     | _ \<Rightarrow> Inl (diagnostic ''UNSUPPORTED_SYNTAX'' ''syntax''))"
| "build_all l depth [] = Inr []"
| "build_all l depth (node # nodes) =
     bindE (build l depth node) (\<lambda>b. bindE (build_all l depth nodes) (\<lambda>bs. Inr (b # bs)))"
| "build_arguments l depth [] nodes window children = Inr (window, children)"
| "build_arguments l depth (p # ps) [] window children = Inr (window, children)"
| "build_arguments l depth ((name, rule) # parameters) (node # nodes) window children =
     (if rule = Window then
        bindE (build_window node) (\<lambda>w.
        build_arguments l depth parameters nodes (Some w) (children @ [window_leaf w depth]))
      else
        bindE (build l depth node) (\<lambda>child.
        bindE (check_argument rule child) (\<lambda>_.
        build_arguments l depth parameters nodes window (children @ [child]))))"
  by pat_completeness auto
termination
  by (relation "measure (\<lambda>x. case x of
      Inl (l, depth, node) \<Rightarrow> size node
    | Inr (Inl (l, depth, nodes)) \<Rightarrow> size_list size nodes
    | Inr (Inr (l, depth, parameters, nodes, window, children)) \<Rightarrow> size_list size nodes)") auto

declare build.simps [simp del]

section \<open>Constant exposures\<close>

definition build_parsed_plan :: "parsed_alpha \<Rightarrow> alpha_error + series_plan" where
  "build_parsed_plan parsed =
     mapErr AlphaPython (build_series_execution_plan (pa_expression parsed)
       (pa_field_ids_by_identifier parsed) (pa_effective_lookback parsed))"

definition constant_exposure :: "(rat \<Rightarrow> rat) \<Rightarrow> pyval \<Rightarrow> alpha_error + rat" where
  "constant_exposure flog expression =
     bindE (raiseIf (\<not> is_dict expression)
              (AlphaPython (ValueError ''Exposure expression must be a normalized tree''))) (\<lambda>_.
     bindE (validate_normalized_exposure expression) (\<lambda>parsed.
     bindE (build_parsed_plan parsed) (\<lambda>plan.
     bindE (mapErr AlphaPython (evaluate_series_execution_plan flog plan [] None None None)) (\<lambda>series.
     case series of
       Some n # rest \<Rightarrow>
         if 0 \<le> nval n \<and> nval n \<le> 1 then mapErr AlphaPython (to_float n)
         else Inl (AlphaPython (ValueError ''Exposure must be a finite number between 0 and 1''))
     | _ \<Rightarrow> Inl (AlphaPython (ValueError ''Exposure must be a finite number between 0 and 1''))))))"

text \<open>\<open>AlphaValidationError\<close> is a \<open>ValueError\<close>, so \<open>compile\<close> catches both.\<close>

fun is_value_error :: "alpha_error \<Rightarrow> bool" where
  "is_value_error (AlphaValidationError c l) = True"
| "is_value_error (AlphaPython (ValueError m)) = True"
| "is_value_error (AlphaPython e) = False"

fun python_error :: "alpha_error \<Rightarrow> py_error" where
  "python_error (AlphaValidationError c l) = ValueError c"
| "python_error (AlphaPython e) = e"

section \<open>Compilation\<close>

datatype formula_context = Signal | Exposure

record compiled_alpha =
  co_source :: string
  co_context :: formula_context
  co_expression :: pyval
  co_field_ids_by_identifier :: "(string \<times> string) list"
  co_result_type :: value_type
  co_effective_lookback :: int
  co_node_count :: int
  co_depth :: int
  co_estimated_work :: int

definition expected_types :: "formula_context \<Rightarrow> value_type list" where
  "expected_types context =
     (case context of Signal \<Rightarrow> [NUMERIC_SERIES] | Exposure \<Rightarrow> [NUMBER, COMMON_NUMERIC_SERIES])"

definition check_limits :: "formula_context \<Rightarrow> built \<Rightarrow> formula_error + unit" where
  "check_limits context b =
     bindE (raiseIf (bx_type b \<notin> set (expected_types context))
              (diagnostic (case context of Signal \<Rightarrow> ''ROOT_MUST_BE_SERIES''
                 | Exposure \<Rightarrow> ''EXPOSURE_MUST_BE_ACCOUNT_NUMERIC'') ''value_type'')) (\<lambda>_.
     bindE (raiseIf (MAX_EXPRESSION_NODES < bx_nodes b) (diagnostic ''TOO_MANY_EXPRESSION_NODES'' ''resource_limit'')) (\<lambda>_.
     bindE (raiseIf (MAX_EFFECTIVE_LOOKBACK < bx_lookback b) (diagnostic ''LOOKBACK_EXCEEDS_LIMIT'' ''resource_limit'')) (\<lambda>_.
     raiseIf (MAX_ESTIMATED_WORK < bx_work b) (diagnostic ''WORK_EXCEEDS_LIMIT'' ''resource_limit''))))"

definition check_constant :: "(rat \<Rightarrow> rat) \<Rightarrow> formula_context \<Rightarrow> built \<Rightarrow> formula_error + unit" where
  "check_constant flog context b =
     (if context = Exposure \<and> bx_type b = NUMBER then
        (case constant_exposure flog (bx_expression b) of
           Inr x \<Rightarrow> Inr ()
         | Inl e \<Rightarrow> Inl (if is_value_error e then diagnostic ''EXPOSURE_OUT_OF_RANGE'' ''literal''
                          else FormulaPython (python_error e)))
      else Inr ())"

definition compile_formula ::
  "(rat \<Rightarrow> rat) \<Rightarrow> (string \<Rightarrow> ast option) \<Rightarrow> language \<Rightarrow> string \<Rightarrow> formula_context \<Rightarrow> formula_error + compiled_alpha" where
  "compile_formula flog parse l source context =
     bindE (raiseIf (MAX_FORMULA_LENGTH < int (length source)) (diagnostic ''FORMULA_TOO_LONG'' ''resource_limit'')) (\<lambda>_.
     case parse source of
       None \<Rightarrow> Inl (diagnostic ''SYNTAX_ERROR'' ''syntax'')
     | Some tree \<Rightarrow>
         bindE (build l 1 tree) (\<lambda>b.
         bindE (check_limits context b) (\<lambda>_.
         bindE (check_constant flog context b) (\<lambda>_.
         Inr \<lparr>co_source = source, co_context = context, co_expression = bx_expression b,
              co_field_ids_by_identifier = bx_fields b, co_result_type = bx_type b,
              co_effective_lookback = bx_lookback b, co_node_count = bx_nodes b,
              co_depth = bx_depth b, co_estimated_work = bx_work b\<rparr>))))"

text \<open>\<open>diagnose\<close>: \<open>Inr None\<close> is a valid formula; errors other than a compilation error escape.\<close>

definition diagnose ::
  "(rat \<Rightarrow> rat) \<Rightarrow> (string \<Rightarrow> ast option) \<Rightarrow> language \<Rightarrow> string \<Rightarrow> formula_context
    \<Rightarrow> formula_error + (string \<times> string) option" where
  "diagnose flog parse l source context =
     (case compile_formula flog parse l source context of
        Inr c \<Rightarrow> Inr None
      | Inl (FormulaCompilationError code kind) \<Rightarrow> Inr (Some (code, kind))
      | Inl e \<Rightarrow> Inl e)"

section \<open>Requirements of several expressions\<close>

record expression_requirements =
  er_field_bindings :: "(string \<times> string) list"
  er_effective_lookback :: int
  er_node_count :: int
  er_depth :: int
  er_estimated_work :: int
  er_require_industry :: bool

definition field_bindings :: "compiled_alpha list \<Rightarrow> bool \<Rightarrow> (string \<times> string) list" where
  "field_bindings expressions by_volatility =
     merge [] (map (\<lambda>(identifier, field_id). (field_id, identifier))
         (concat (map co_field_ids_by_identifier expressions))
       @ (if by_volatility then [(CLOSE_FIELD_ID, ''close'')] else []))"

text \<open>\<open>any\<close> stops at the first expression that needs industries.\<close>

fun any_industry :: "compiled_alpha list \<Rightarrow> py_error + bool" where
  "any_industry [] = Inr False"
| "any_industry (e # es) =
     bindE (requires_common_industry [co_expression e]) (\<lambda>b. if b then Inr True else any_industry es)"

definition expression_requirements :: "compiled_alpha list \<Rightarrow> string \<Rightarrow> int \<Rightarrow> py_error + expression_requirements" where
  "expression_requirements expressions weighting volatility_window =
     bindE (raiseIf (expressions = []) (ValueError ''Research needs at least one expression'')) (\<lambda>_.
     let by_volatility = (weighting = ''inverse_volatility'') in
     bindE (raiseIf (\<not> (1 \<le> volatility_window \<and> volatility_window \<le> 252)) (ValueError ''Invalid volatility window'')) (\<lambda>_.
     bindE (any_industry expressions) (\<lambda>industry.
     Inr \<lparr>er_field_bindings = field_bindings expressions by_volatility,
          er_effective_lookback = max (Max (set (map co_effective_lookback expressions)))
            (if by_volatility then volatility_window else 0),
          er_node_count = sum_list (map co_node_count expressions),
          er_depth = Max (set (map co_depth expressions)),
          er_estimated_work = sum_list (map co_estimated_work expressions)
            + (if by_volatility then 4 * volatility_window else 0),
          er_require_industry = industry\<rparr>)))"

end
