(* ===== verification/PlanSound.thy ===== *)
theory PlanSound
  imports RollingFacts AlphaCompiler
begin

text \<open>
  What a plan computes. \<open>eval_node\<close> reads an expression recursively, giving the value of a node and
  its trailing windows; the postfix plan built from the expression computes the same series or raises
  the same exception. An expression the validator accepts evaluates on aligned input without any type,
  key, index or value error; only an integer beyond the float range can stop it.
\<close>

section \<open>Evaluation of an expression\<close>

type_synonym node_result = "plan_value \<times> windows"

definition eval_common :: "common_values option \<Rightarrow> string \<Rightarrow> string option \<Rightarrow> py_error + node_result" where
  "eval_common common identifier code =
     (case common of
        None \<Rightarrow> Inl (ValueError ''Common input requires governed market context'')
      | Some cs \<Rightarrow> bindE (lookupE cs (identifier, code) (KeyError identifier)) (\<lambda>s. Inr (PSeries s, None)))"

definition eval_field :: "(string \<times> pyfloat option list) list \<Rightarrow> (string \<times> int list) list \<Rightarrow> string
    \<Rightarrow> py_error + node_result" where
  "eval_field values_by_field field_windows field_id =
     bindE (lookupE values_by_field field_id (KeyError field_id)) (\<lambda>s.
     Inr (PSeries (map input_cell s), map_of field_windows field_id))"

definition eval_unary :: "string \<Rightarrow> node_result \<Rightarrow> py_error + node_result" where
  "eval_unary identifier operand =
     bindE (unary (fst operand) identifier) (\<lambda>v.
     Inr (v, if identifier = ''not'' then None else snd operand))"

text \<open>An arithmetic operation on two trailing sums needs equal windows, session by session.\<close>

definition eval_binary :: "nat \<Rightarrow> string \<Rightarrow> node_result \<Rightarrow> node_result \<Rightarrow> py_error + node_result" where
  "eval_binary n identifier left right =
     bindE (binary identifier (fst left) (fst right) n) (\<lambda>s.
     Inr (if identifier \<notin> set ARITHMETIC_OPERATORS then (PSeries s, None)
          else case (snd left, snd right) of
            (Some l, Some r) \<Rightarrow>
              (PSeries (map2 (\<lambda>item ok. if ok then item else None) s (map2 windows_match l r)), Some (map2 join_windows l r))
          | (None, r) \<Rightarrow> (PSeries s, r)
          | (l, None) \<Rightarrow> (PSeries s, l)))"

definition chosen_windows :: "rat option list \<Rightarrow> windows \<Rightarrow> windows \<Rightarrow> windows" where
  "chosen_windows condition left right =
     (if left = None \<and> right = None then None
      else Some (map (\<lambda>(c, l, r). select_window c l r)
             (zip condition (zip (window_items (length condition) left) (window_items (length condition) right)))))"

definition eval_call :: "(rat \<Rightarrow> rat) \<Rightarrow> nat \<Rightarrow> string \<Rightarrow> node_result list \<Rightarrow> py_error + node_result" where
  "eval_call flog n identifier arguments =
     (if identifier = ''if_else'' then
        bindE (nthE arguments 0) (\<lambda>condition.
        bindE (condition_array (fst condition) n) (\<lambda>flags.
        bindE (evaluate_builtin flog identifier (map fst arguments)) (\<lambda>v.
        Inr (v, chosen_windows flags (snd (arguments ! 1)) (snd (arguments ! 2))))))
      else
        bindE (evaluate_builtin flog identifier (map fst arguments)) (\<lambda>v.
        Inr (v, if identifier \<in> set [''abs'', ''log'', ''sign''] then snd (arguments ! 0) else None)))"

function eval_node :: "(rat \<Rightarrow> rat) \<Rightarrow> (string \<times> pyfloat option list) list \<Rightarrow> (string \<times> int list) list
    \<Rightarrow> common_values option \<Rightarrow> nat \<Rightarrow> pyval \<Rightarrow> py_error + node_result"
  and eval_arguments :: "(rat \<Rightarrow> rat) \<Rightarrow> (string \<times> pyfloat option list) list \<Rightarrow> (string \<times> int list) list
    \<Rightarrow> common_values option \<Rightarrow> nat \<Rightarrow> pyval list \<Rightarrow> py_error + node_result list" where
  "eval_node flog vf fw cs n node =
     bindE (item_of node ''kind'') (\<lambda>kind.
     if kind = VStr ''number'' then bindE (bindE (item_of node ''value'') number_of) (\<lambda>v. Inr (PNum v, None))
     else if kind = VStr ''common'' then
       bindE (bindE (item_of node ''identifier'') text_of) (\<lambda>i.
       bindE (bindE (item_of node ''industry_code'') industry_of) (eval_common cs i))
     else if kind = VStr ''field'' then bindE (bindE (item_of node ''field_id'') text_of) (eval_field vf fw)
     else if kind = VStr ''unary'' then
       bindE (item_of node ''operand'') (\<lambda>operand.
       bindE (eval_node flog vf fw cs n operand) (\<lambda>v.
       bindE (bindE (item_of node ''operator'') text_of) (\<lambda>i. eval_unary i v)))
     else if kind = VStr ''binary'' then
       bindE (item_of node ''left'') (\<lambda>left.
       bindE (eval_node flog vf fw cs n left) (\<lambda>a.
       bindE (item_of node ''right'') (\<lambda>right.
       bindE (eval_node flog vf fw cs n right) (\<lambda>b.
       bindE (bindE (item_of node ''operator'') text_of) (\<lambda>i. eval_binary n i a b)))))
     else if kind = VStr ''call'' then
       bindE (item_of node ''arguments'') (\<lambda>value.
       bindE (list_of value) (\<lambda>arguments.
       bindE (eval_arguments flog vf fw cs n arguments) (\<lambda>vs.
       bindE (bindE (item_of node ''identifier'') text_of) (\<lambda>i. eval_call flog n i vs))))
     else Inl (ValueError ''compiled Alpha node kind is invalid''))"
| "eval_arguments flog vf fw cs n [] = Inr []"
| "eval_arguments flog vf fw cs n (argument # arguments) =
     bindE (eval_node flog vf fw cs n argument) (\<lambda>v.
     bindE (eval_arguments flog vf fw cs n arguments) (\<lambda>vs. Inr (v # vs)))"
  by pat_completeness auto
termination eval_node
  by (relation "measure (\<lambda>x. case x of
      Inl (flog, vf, fw, cs, n, node) \<Rightarrow> size node | Inr (flog, vf, fw, cs, n, arguments) \<Rightarrow> size_list size arguments)")
    (auto dest!: item_of_size list_of_size_list intro: less_trans)

declare eval_node.simps [simp del]

definition root_series :: "nat \<Rightarrow> plan_value \<Rightarrow> py_error + series" where
  "root_series n v =
     (case v of
        PSeries s \<Rightarrow> if length s \<noteq> n
                     then Inl (ValueError ''Alpha execution plan produced a misaligned Numeric Series'') else Inr s
      | _ \<Rightarrow> broadcast v n)"

section \<open>One step of a plan\<close>

lemma nthE_Inr [simp]: "nthE xs i = Inr x \<longleftrightarrow> i < length xs \<and> xs ! i = x"
  by (auto simp: nthE_def)

lemma nthE_append: "i < length xs \<Longrightarrow> nthE (xs @ ys) i = nthE xs i"
  by (simp add: nthE_def nth_append)

lemma binary_length: "binary identifier left right n = Inr s \<Longrightarrow> length s = n"
  by (auto simp: binary_def broadcast_def split: plan_value.splits if_splits dest!: mapE_length)

text \<open>The values a step reads, with their windows.\<close>

definition reads :: "plan_value list \<Rightarrow> windows list \<Rightarrow> nat list \<Rightarrow> node_result list \<Rightarrow> bool" where
  "reads values ws inputs arguments \<longleftrightarrow>
     length ws = length values \<and> list_all2 (\<lambda>i (v, w). i < length values \<and> values ! i = v \<and> ws ! i = w) inputs arguments"

lemma reads_Nil [simp]: "reads values ws [] arguments \<longleftrightarrow> length ws = length values \<and> arguments = []"
  by (auto simp: reads_def)

lemma reads_Cons: "reads values ws (i # inputs) (a # arguments) \<longleftrightarrow>
    i < length values \<and> values ! i = fst a \<and> ws ! i = snd a \<and> reads values ws inputs arguments"
  by (cases a) (auto simp: reads_def)

lemma reads_snoc: "reads values ws inputs arguments \<Longrightarrow> i < length values \<Longrightarrow>
    reads values ws (inputs @ [i]) (arguments @ [(values ! i, ws ! i)])"
  by (auto simp: reads_def intro!: list_all2_appendI)

lemma reads_grow:
  assumes "reads values ws inputs arguments" "length ws' = length values'"
  shows "reads (values @ values') (ws @ ws') inputs arguments"
proof -
  have "length ws = length values" using assms(1) by (simp add: reads_def)
  then have "list_all2 (\<lambda>i (v, w). i < length (values @ values') \<and> (values @ values') ! i = v \<and> (ws @ ws') ! i = w)
      inputs arguments"
    using assms(1) unfolding reads_def by (elim conjE list_all2_mono) (auto simp: nth_append)
  then show ?thesis using assms by (simp add: reads_def)
qed

lemma reads_length: "reads values ws inputs arguments \<Longrightarrow> length inputs = length arguments"
  by (auto simp: reads_def dest: list_all2_lengthD)

lemma reads_arguments: "reads values ws (pn_inputs node) arguments \<Longrightarrow> arguments_of values node = Inr (map fst arguments)"
proof -
  assume "reads values ws (pn_inputs node) arguments"
  then have "list_all2 (\<lambda>i (v, w). i < length values \<and> values ! i = v \<and> ws ! i = w) (pn_inputs node) arguments"
    by (simp add: reads_def)
  then have "mapE (nthE values) (pn_inputs node) = Inr (map fst arguments)"
    by (induction rule: list_all2_induct) (auto simp: nthE_def)
  then show ?thesis by (simp add: arguments_of_def)
qed

lemma reads_window: "reads values ws inputs arguments \<Longrightarrow> k < length arguments \<Longrightarrow>
    window_at ws inputs k = snd (arguments ! k)"
  by (cases "arguments ! k") (auto simp: reads_def window_at_def list_all2_conv_all_nth split: prod.splits)

text \<open>A step that computes \<open>r\<close> from what it reads appends \<open>r\<close>; one that raises, raises.\<close>

definition appends :: "py_error + node_result \<Rightarrow> plan_value list \<Rightarrow> windows list
    \<Rightarrow> py_error + plan_value list \<times> windows list" where
  "appends m values ws = bindE m (\<lambda>(v, w). Inr (values @ [v], ws @ [w]))"

lemma step_number:
  "pn_kind node = KNumber \<Longrightarrow> pn_inputs node = [] \<Longrightarrow> pn_value node = Some v \<Longrightarrow>
    plan_step flog vf cs fw n node (values, ws) = appends (Inr (PNum v, None)) values ws"
  by (simp add: plan_step_def node_condition_def ttm_node_window_def node_value_def arguments_of_def mask_value_def appends_def)

lemma step_common:
  "pn_kind node = KCommon \<Longrightarrow> pn_inputs node = [] \<Longrightarrow>
    plan_step flog vf cs fw n node (values, ws) = appends (eval_common cs (pn_identifier node) (pn_industry_code node)) values ws"
  by (simp add: plan_step_def node_condition_def ttm_node_window_def node_value_def arguments_of_def mask_value_def
      appends_def eval_common_def lookupE_def split: option.splits)

lemma step_field:
  "pn_kind node = KField \<Longrightarrow> pn_inputs node = [] \<Longrightarrow>
    plan_step flog vf cs fw n node (values, ws) = appends (eval_field vf fw (pn_identifier node)) values ws"
  by (simp add: plan_step_def node_condition_def ttm_node_window_def node_value_def arguments_of_def mask_value_def
      appends_def eval_field_def lookupE_def split: option.splits)

lemma step_unary:
  assumes "pn_kind node = KUnary" "reads values ws (pn_inputs node) [a]"
  shows "plan_step flog vf cs fw n node (values, ws) = appends (eval_unary (pn_identifier node) a) values ws"
  using assms reads_arguments [OF assms(2)] reads_window [OF assms(2), of 0]
  by (simp add: plan_step_def node_condition_def ttm_node_window_def node_value_def mask_value_def nthE_def
      appends_def eval_unary_def bindE_assoc)

lemma step_binary:
  assumes "pn_kind node = KBinary" "reads values ws (pn_inputs node) [a, b]"
  shows "plan_step flog vf cs fw n node (values, ws) = appends (eval_binary n (pn_identifier node) a b) values ws"
proof (cases "binary (pn_identifier node) (fst a) (fst b) n")
  case (Inr s)
  note s = this
  have len: "length s = n" using s by (rule binary_length)
  have window: "window_at ws (pn_inputs node) 0 = snd a" "window_at ws (pn_inputs node) (Suc 0) = snd b"
    using reads_window [OF assms(2), of 0] reads_window [OF assms(2), of 1] by simp_all
  have "node_value flog vf cs n values node = Inr (PSeries s)"
    using assms(1) s reads_arguments [OF assms(2)] by (simp add: node_value_def nthE_def)
  then show ?thesis
    using assms(1) len s
    by (cases "snd a"; cases "snd b") (auto simp: plan_step_def node_condition_def ttm_node_window_def window
        mask_value_def appends_def eval_binary_def broadcast_def)
qed (use assms reads_arguments [OF assms(2)] in
  \<open>auto simp: plan_step_def node_condition_def node_value_def nthE_def appends_def eval_binary_def split: prod.splits\<close>)

lemma step_builtin:
  assumes "pn_kind node = KBuiltin" "pn_identifier node \<noteq> ''if_else''" "reads values ws (pn_inputs node) arguments"
  shows "plan_step flog vf cs fw n node (values, ws) = appends (eval_call flog n (pn_identifier node) arguments) values ws"
proof (cases "evaluate_builtin flog (pn_identifier node) (map fst arguments)")
  case (Inr v)
  have some: "arguments \<noteq> []" if "pn_identifier node \<in> set [''abs'', ''log'', ''sign'']"
    using Inr that by (auto simp: evaluate_builtin_def first_argument_def)
  have "window_at ws (pn_inputs node) 0 = snd (arguments ! 0)" if "pn_identifier node \<in> set [''abs'', ''log'', ''sign'']"
    using reads_window [OF assms(3)] some [OF that] by simp
  then show ?thesis
    using assms reads_arguments [OF assms(3)] Inr
    by (auto simp: plan_step_def node_condition_def ttm_node_window_def node_value_def mask_value_def appends_def eval_call_def)
qed (use assms reads_arguments [OF assms(3)] in
  \<open>auto simp: plan_step_def node_condition_def node_value_def appends_def eval_call_def split: prod.splits\<close>)

lemma if_else_three: "if_else arguments = Inr v \<Longrightarrow> length arguments = 3"
  by (auto simp: if_else_def split: list.splits)

lemma step_if_else:
  assumes "pn_kind node = KBuiltin" "pn_identifier node = ''if_else''" "reads values ws (pn_inputs node) arguments"
  shows "plan_step flog vf cs fw n node (values, ws) = appends (eval_call flog n ''if_else'' arguments) values ws"
proof -
  have condition: "node_condition values n node = bindE (nthE arguments 0) (\<lambda>c. condition_array (fst c) n)"
    using assms(1,2) reads_arguments [OF assms(3)] by (cases arguments) (simp_all add: node_condition_def nthE_def)
  have node: "node_value flog vf cs n values node = if_else (map fst arguments)"
    using assms(1,2) reads_arguments [OF assms(3)] by (simp add: node_value_def evaluate_builtin_def)
  have window: "ttm_node_window node fw ws flags = (chosen_windows flags (snd (arguments ! 1)) (snd (arguments ! 2)), None)"
    if "length arguments = 3" for flags
    using assms(1,2) reads_window [OF assms(3), of 1] reads_window [OF assms(3), of 2] that
    by (cases "snd (arguments ! 1)"; cases "snd (arguments ! 2)") (simp_all add: ttm_node_window_def chosen_windows_def)
  show ?thesis
  proof (cases "if_else (map fst arguments)")
    case (Inl e)
    then show ?thesis
      by (simp add: plan_step_def condition node appends_def eval_call_def evaluate_builtin_def bindE_assoc case_prod_beta
          cong: bindE_cong)
  next
    case (Inr v)
    then have "length arguments = 3" using if_else_three by fastforce
    then show ?thesis using Inr
      by (simp add: plan_step_def condition node window appends_def eval_call_def evaluate_builtin_def mask_value_def
          bindE_assoc)
  qed
qed

lemmas step_call = step_builtin step_if_else

section \<open>The plan computes the expression\<close>

text \<open>
  \<open>computes\<close>: run after \<open>k\<close> values, the nodes \<open>suffix\<close> raise what \<open>m\<close> raises, or append one value each,
  the last one being the result of \<open>m\<close>. \<open>supplies\<close>: they append the values a node reads at \<open>inputs\<close>.
\<close>

definition run_plan :: "(rat \<Rightarrow> rat) \<Rightarrow> (string \<times> pyfloat option list) list \<Rightarrow> (string \<times> int list) list
    \<Rightarrow> common_values option \<Rightarrow> nat \<Rightarrow> plan_node list \<Rightarrow> plan_value list \<times> windows list
    \<Rightarrow> py_error + plan_value list \<times> windows list" where
  "run_plan flog vf fw cs n = foldE (plan_step flog vf cs fw n)"

definition computes :: "(plan_node list \<Rightarrow> plan_value list \<times> windows list \<Rightarrow> py_error + plan_value list \<times> windows list)
    \<Rightarrow> nat \<Rightarrow> plan_node list \<Rightarrow> py_error + node_result \<Rightarrow> bool" where
  "computes run k suffix m \<longleftrightarrow>
     (\<forall>values ws. length values = k \<longrightarrow> length ws = k \<longrightarrow>
       (case m of
          Inl e \<Rightarrow> run suffix (values, ws) = Inl e
        | Inr (v, w) \<Rightarrow> \<exists>vs us. run suffix (values, ws) = Inr (values @ vs @ [v], ws @ us @ [w])
            \<and> length vs + 1 = length suffix \<and> length us + 1 = length suffix))"

definition supplies :: "(plan_node list \<Rightarrow> plan_value list \<times> windows list \<Rightarrow> py_error + plan_value list \<times> windows list)
    \<Rightarrow> nat \<Rightarrow> plan_node list \<Rightarrow> nat list \<Rightarrow> py_error + node_result list \<Rightarrow> bool" where
  "supplies run k suffix inputs m \<longleftrightarrow>
     (\<forall>values ws. length values = k \<longrightarrow> length ws = k \<longrightarrow>
       (case m of
          Inl e \<Rightarrow> run suffix (values, ws) = Inl e
        | Inr rs \<Rightarrow> \<exists>vs us. run suffix (values, ws) = Inr (values @ vs, ws @ us)
            \<and> length vs = length suffix \<and> length us = length suffix \<and> reads (values @ vs) (ws @ us) inputs rs))"

lemma run_plan_append: "run_plan flog vf fw cs n (xs @ ys) s = bindE (run_plan flog vf fw cs n xs s) (run_plan flog vf fw cs n ys)"
  by (simp add: run_plan_def foldE_append)

lemma run_plan_one [simp]: "run_plan flog vf fw cs n [node] s = plan_step flog vf cs fw n node s"
  by (simp add: run_plan_def bindE_def split: sum.splits)

lemma suppliesE:
  assumes "supplies run k suffix inputs (Inr rs)" "length vals = k" "length ws = k"
  obtains vs us where "run suffix (vals, ws) = Inr (vals @ vs, ws @ us)" "length vs = length suffix"
    "length us = length suffix" "reads (vals @ vs) (ws @ us) inputs rs"
  using assms unfolding supplies_def by (auto dest!: spec [of _ vals] spec [of _ ws])

lemma computesE:
  assumes "computes run k suffix (Inr (v, w))" "length vals = k" "length ws = k"
  obtains vs us where "run suffix (vals, ws) = Inr (vals @ vs @ [v], ws @ us @ [w])"
    "length vs + 1 = length suffix" "length us + 1 = length suffix"
  using assms unfolding computes_def by (auto dest!: spec [of _ vals] spec [of _ ws])

lemma supplies_nothing: "supplies (run_plan flog vf fw cs n) k [] [] (Inr [])"
  by (simp add: supplies_def run_plan_def)

text \<open>One more operand.\<close>

lemma supplies_snoc:
  assumes xs: "supplies (run_plan flog vf fw cs n) k suffix inputs m"
    and y: "computes (run_plan flog vf fw cs n) (k + length suffix) suffix' m'"
    and some: "suffix' \<noteq> []"
  shows "supplies (run_plan flog vf fw cs n) k (suffix @ suffix') (inputs @ [k + length suffix + length suffix' - 1])
    (bindE m (\<lambda>rs. bindE m' (\<lambda>r. Inr (rs @ [r]))))"
  unfolding supplies_def
proof (intro allI impI)
  fix vals :: "plan_value list" and ws :: "windows list"
  assume len: "length vals = k" "length ws = k"
  show "case bindE m (\<lambda>rs. bindE m' (\<lambda>r. Inr (rs @ [r]))) of
      Inl e \<Rightarrow> run_plan flog vf fw cs n (suffix @ suffix') (vals, ws) = Inl e
    | Inr rs \<Rightarrow> \<exists>vs us. run_plan flog vf fw cs n (suffix @ suffix') (vals, ws) = Inr (vals @ vs, ws @ us)
        \<and> length vs = length (suffix @ suffix') \<and> length us = length (suffix @ suffix')
        \<and> reads (vals @ vs) (ws @ us) (inputs @ [k + length suffix + length suffix' - 1]) rs"
  proof (cases m)
    case (Inl e)
    then show ?thesis using xs len by (simp add: supplies_def run_plan_append)
  next
    case (Inr rs)
    then obtain vs us where first: "run_plan flog vf fw cs n suffix (vals, ws) = Inr (vals @ vs, ws @ us)"
      and l1: "length vs = length suffix" "length us = length suffix" and r1: "reads (vals @ vs) (ws @ us) inputs rs"
      using xs len by (auto elim: suppliesE)
    have len': "length (vals @ vs) = k + length suffix" "length (ws @ us) = k + length suffix"
      using len l1 by simp_all
    show ?thesis
    proof (cases m')
      case (Inl e)
      then show ?thesis using y len' Inr first by (auto simp: computes_def run_plan_append)
    next
      case r: (Inr r)
      obtain v w where vw: "r = (v, w)" by (cases r)
      obtain vs' us' where second: "run_plan flog vf fw cs n suffix' (vals @ vs, ws @ us)
          = Inr ((vals @ vs) @ vs' @ [v], (ws @ us) @ us' @ [w])"
        and l2: "length vs' + 1 = length suffix'" "length us' + 1 = length suffix'"
        using y len' unfolding r vw by (rule computesE)
      have grown: "reads ((vals @ vs) @ vs' @ [v]) ((ws @ us) @ us' @ [w]) inputs rs"
        using reads_grow [OF r1, of "us' @ [w]" "vs' @ [v]"] l2 by simp
      define last where "last = length vals + length vs + length vs'"
      have l: "last = k + length suffix + length suffix' - 1" using len l1 l2 by (simp add: last_def)
      have "((vals @ vs) @ vs' @ [v]) ! last = v" "((ws @ us) @ us' @ [w]) ! last = w"
        using len l1 l2 unfolding last_def append_assoc [symmetric] by (simp_all add: nth_append)
      then have "reads ((vals @ vs) @ vs' @ [v]) ((ws @ us) @ us' @ [w]) (inputs @ [last]) (rs @ [r])"
        using reads_snoc [OF grown, of last] vw by (simp add: last_def)
      then have goal: "reads (vals @ (vs @ vs' @ [v])) (ws @ (us @ us' @ [w]))
          (inputs @ [k + length suffix + length suffix' - 1]) (rs @ [r])"
        unfolding l by simp
      have "run_plan flog vf fw cs n (suffix @ suffix') (vals, ws) = Inr (vals @ (vs @ vs' @ [v]), ws @ (us @ us' @ [w]))"
        using first second by (simp add: run_plan_append)
      moreover have "length (vs @ vs' @ [v]) = length (suffix @ suffix')" "length (us @ us' @ [w]) = length (suffix @ suffix')"
        using l1 l2 by simp_all
      ultimately show ?thesis using goal Inr r by (simp del: append_assoc)
    qed
  qed
qed

text \<open>The node over its operands.\<close>

lemma computes_snoc:
  assumes xs: "supplies (run_plan flog vf fw cs n) k suffix (pn_inputs node) m"
    and step: "\<And>vals ws rs. reads vals ws (pn_inputs node) rs \<Longrightarrow> m = Inr rs \<Longrightarrow>
        plan_step flog vf cs fw n node (vals, ws) = appends (f rs) vals ws"
  shows "computes (run_plan flog vf fw cs n) k (suffix @ [node]) (bindE m f)"
  unfolding computes_def
proof (intro allI impI)
  fix vals :: "plan_value list" and ws :: "windows list"
  assume len: "length vals = k" "length ws = k"
  show "case bindE m f of
      Inl e \<Rightarrow> run_plan flog vf fw cs n (suffix @ [node]) (vals, ws) = Inl e
    | Inr (v, w) \<Rightarrow> \<exists>vs us. run_plan flog vf fw cs n (suffix @ [node]) (vals, ws) = Inr (vals @ vs @ [v], ws @ us @ [w])
        \<and> length vs + 1 = length (suffix @ [node]) \<and> length us + 1 = length (suffix @ [node])"
  proof (cases m)
    case (Inl e)
    then show ?thesis using xs len by (simp add: supplies_def run_plan_append)
  next
    case (Inr rs)
    then obtain vs us where first: "run_plan flog vf fw cs n suffix (vals, ws) = Inr (vals @ vs, ws @ us)"
      and l1: "length vs = length suffix" "length us = length suffix" and r: "reads (vals @ vs) (ws @ us) (pn_inputs node) rs"
      using xs len by (auto elim: suppliesE)
    have "run_plan flog vf fw cs n (suffix @ [node]) (vals, ws) = appends (f rs) (vals @ vs) (ws @ us)"
      using first step [OF r Inr] by (simp add: run_plan_append)
    then show ?thesis using Inr l1 by (auto simp: appends_def split: sum.splits)
  qed
qed

definition compiled :: "(rat \<Rightarrow> rat) \<Rightarrow> (string \<times> pyfloat option list) list \<Rightarrow> (string \<times> int list) list
    \<Rightarrow> common_values option \<Rightarrow> nat \<Rightarrow> pyval \<Rightarrow> bool" where
  "compiled flog vf fw cs n node \<longleftrightarrow>
     (\<forall>nodes nodes'. append_node node nodes = Inr nodes' \<longrightarrow>
       (\<exists>suffix. nodes' = nodes @ suffix \<and> suffix \<noteq> []
         \<and> computes (run_plan flog vf fw cs n) (length nodes) suffix (eval_node flog vf fw cs n node)))"

lemma compiledD:
  assumes "compiled flog vf fw cs n node" "append_node node nodes = Inr nodes'"
  obtains suffix where "nodes' = nodes @ suffix" "suffix \<noteq> []"
    "computes (run_plan flog vf fw cs n) (length nodes) suffix (eval_node flog vf fw cs n node)"
  using assms unfolding compiled_def by blast

lemma last_index_append: "suffix \<noteq> [] \<Longrightarrow> last_index (nodes @ suffix) = length nodes + length suffix - 1"
  by (simp add: last_index_def)

lemma arguments_computed:
  assumes "\<forall>argument\<in>set arguments. compiled flog vf fw cs n argument"
    and "append_arguments arguments (nodes @ suffix) inputs = Inr (nodes', inputs')"
    and "supplies (run_plan flog vf fw cs n) (length nodes) suffix inputs m"
  shows "\<exists>suffix'. nodes' = nodes @ suffix'
    \<and> supplies (run_plan flog vf fw cs n) (length nodes) suffix' inputs'
        (bindE m (\<lambda>rs. bindE (eval_arguments flog vf fw cs n arguments) (\<lambda>rs'. Inr (rs @ rs'))))"
  using assms
proof (induction arguments arbitrary: suffix inputs m)
  case Nil
  then show ?case by (cases m) (auto simp: supplies_def)
next
  case (Cons argument arguments)
  obtain nodes1 where first: "append_node argument (nodes @ suffix) = Inr nodes1"
    and rest: "append_arguments arguments nodes1 (inputs @ [last_index nodes1]) = Inr (nodes', inputs')"
    using Cons.prems(2) by auto
  obtain suffix1 where s1: "nodes1 = (nodes @ suffix) @ suffix1" "suffix1 \<noteq> []"
    "computes (run_plan flog vf fw cs n) (length (nodes @ suffix)) suffix1 (eval_node flog vf fw cs n argument)"
    using Cons.prems(1) first by (auto elim: compiledD)
  have "supplies (run_plan flog vf fw cs n) (length nodes) (suffix @ suffix1) (inputs @ [last_index nodes1])
      (bindE m (\<lambda>rs. bindE (eval_node flog vf fw cs n argument) (\<lambda>r. Inr (rs @ [r]))))"
    using supplies_snoc [OF Cons.prems(3), of suffix1 "eval_node flog vf fw cs n argument"] s1
    by (simp add: last_index_append add.assoc)
  from Cons.IH [OF _ _ this] Cons.prems(1) rest s1(1) show ?case
    by (simp add: bindE_assoc)
qed

lemma leaf_computed:
  assumes "pn_inputs node = []" "\<And>values ws. plan_step flog vf cs fw n node (values, ws) = appends m values ws"
  shows "computes (run_plan flog vf fw cs n) k [node] m"
  using computes_snoc [of flog vf fw cs n k "[]" node "Inr []" "\<lambda>_. m"] assms supplies_nothing
  by simp

lemma unary_computed:
  assumes "computes (run_plan flog vf fw cs n) k suffix m" "suffix \<noteq> []"
    and "pn_kind node = KUnary" "pn_inputs node = [k + length suffix - 1]"
  shows "computes (run_plan flog vf fw cs n) k (suffix @ [node]) (bindE m (eval_unary (pn_identifier node)))"
proof -
  have s: "supplies (run_plan flog vf fw cs n) k suffix (pn_inputs node) (bindE m (\<lambda>r. Inr [r]))"
    using supplies_snoc [OF supplies_nothing, of flog vf fw cs n k suffix m] assms by simp
  have "computes (run_plan flog vf fw cs n) k (suffix @ [node])
      (bindE (bindE m (\<lambda>r. Inr [r])) (\<lambda>rs. eval_unary (pn_identifier node) (hd rs)))"
    by (rule computes_snoc [OF s]) (use assms in \<open>auto intro: step_unary simp: res_simps\<close>)
  then show ?thesis by (simp add: bindE_assoc)
qed

lemma binary_computed:
  assumes "computes (run_plan flog vf fw cs n) k suffix1 m1" "suffix1 \<noteq> []"
    and "computes (run_plan flog vf fw cs n) (k + length suffix1) suffix2 m2" "suffix2 \<noteq> []"
    and "pn_kind node = KBinary"
    and "pn_inputs node = [k + length suffix1 - 1, k + length suffix1 + length suffix2 - 1]"
  shows "computes (run_plan flog vf fw cs n) k (suffix1 @ suffix2 @ [node])
    (bindE m1 (\<lambda>a. bindE m2 (eval_binary n (pn_identifier node) a)))"
proof -
  have s1: "supplies (run_plan flog vf fw cs n) k suffix1 [k + length suffix1 - 1] (bindE m1 (\<lambda>r. Inr [r]))"
    using supplies_snoc [OF supplies_nothing, of flog vf fw cs n k suffix1 m1] assms by simp
  have s2: "supplies (run_plan flog vf fw cs n) k (suffix1 @ suffix2) (pn_inputs node)
      (bindE m1 (\<lambda>a. bindE m2 (\<lambda>b. Inr [a, b])))"
    using supplies_snoc [OF s1 assms(3,4)] assms(6) by (simp add: bindE_assoc)
  have "computes (run_plan flog vf fw cs n) k ((suffix1 @ suffix2) @ [node])
      (bindE (bindE m1 (\<lambda>a. bindE m2 (\<lambda>b. Inr [a, b]))) (\<lambda>rs. eval_binary n (pn_identifier node) (hd rs) (hd (tl rs))))"
    by (rule computes_snoc [OF s2]) (use assms(5) in \<open>auto intro: step_binary simp: res_simps\<close>)
  then show ?thesis by (simp add: bindE_assoc)
qed

lemma call_computed:
  assumes "supplies (run_plan flog vf fw cs n) k suffix (pn_inputs node) m" "pn_kind node = KBuiltin"
  shows "computes (run_plan flog vf fw cs n) k (suffix @ [node]) (bindE m (eval_call flog n (pn_identifier node)))"
  by (rule computes_snoc [OF assms(1)]) (cases "pn_identifier node = ''if_else''"; use assms(2) in \<open>auto intro: step_call\<close>)

lemma compiled_leaf:
  assumes "\<And>nodes nodes'. append_node node nodes = Inr nodes' \<Longrightarrow>
      \<exists>p. nodes' = nodes @ [p] \<and> pn_inputs p = []
        \<and> (\<forall>values ws. plan_step flog vf cs fw n p (values, ws) = appends (eval_node flog vf fw cs n node) values ws)"
  shows "compiled flog vf fw cs n node"
  unfolding compiled_def
proof (intro allI impI)
  fix nodes nodes'
  assume "append_node node nodes = Inr nodes'"
  from assms [OF this] obtain p where p: "nodes' = nodes @ [p]" "pn_inputs p = []"
    "\<And>values ws. plan_step flog vf cs fw n p (values, ws) = appends (eval_node flog vf fw cs n node) values ws"
    by blast
  from p(1) leaf_computed [OF p(2,3)] show "\<exists>suffix. nodes' = nodes @ suffix \<and> suffix \<noteq> []
      \<and> computes (run_plan flog vf fw cs n) (length nodes) suffix (eval_node flog vf fw cs n node)"
    by (intro exI [of _ "[p]"]) simp
qed

lemma compiled_number: "item_of node ''kind'' = Inr (VStr ''number'') \<Longrightarrow> compiled flog vf fw cs n node"
  by (rule compiled_leaf) (auto simp: append_node.simps eval_node.simps plan_node_def intro!: step_number)

lemma compiled_common: "item_of node ''kind'' = Inr (VStr ''common'') \<Longrightarrow> compiled flog vf fw cs n node"
  by (rule compiled_leaf) (auto simp: append_node.simps eval_node.simps plan_node_def step_common)

lemma compiled_field: "item_of node ''kind'' = Inr (VStr ''field'') \<Longrightarrow> compiled flog vf fw cs n node"
  by (rule compiled_leaf) (auto simp: append_node.simps eval_node.simps plan_node_def step_field)

lemma compiled_unary:
  assumes "item_of node ''kind'' = Inr (VStr ''unary'')"
    and "\<And>operand. item_of node ''operand'' = Inr operand \<Longrightarrow> compiled flog vf fw cs n operand"
  shows "compiled flog vf fw cs n node"
  unfolding compiled_def
proof (intro allI impI)
  fix nodes nodes'
  assume "append_node node nodes = Inr nodes'"
  then obtain operand nodes1 i where run: "item_of node ''operand'' = Inr operand" "append_node operand nodes = Inr nodes1"
    "bindE (item_of node ''operator'') text_of = Inr i" "nodes' = nodes1 @ [plan_node KUnary i [last_index nodes1]]"
    using assms(1) by (auto simp: append_node.simps [of node] simp del: mapping_same)
  obtain s1 where s1: "nodes1 = nodes @ s1" "s1 \<noteq> []"
    "computes (run_plan flog vf fw cs n) (length nodes) s1 (eval_node flog vf fw cs n operand)"
    using assms(2) [OF run(1)] run(2) by (rule compiledD)
  have "eval_node flog vf fw cs n node = bindE (eval_node flog vf fw cs n operand) (eval_unary i)"
    using assms(1) run(1,3) by (simp add: eval_node.simps [of _ _ _ _ _ node])
  then show "\<exists>suffix. nodes' = nodes @ suffix \<and> suffix \<noteq> []
      \<and> computes (run_plan flog vf fw cs n) (length nodes) suffix (eval_node flog vf fw cs n node)"
    using unary_computed [OF s1(3,2), of "plan_node KUnary i [last_index nodes1]"] s1 run(4)
    by (intro exI [of _ "s1 @ [plan_node KUnary i [last_index nodes1]]"]) (simp add: plan_node_def last_index_append)
qed

lemma compiled_binary:
  assumes "item_of node ''kind'' = Inr (VStr ''binary'')"
    and "\<And>k operand. k \<in> {''left'', ''right''} \<Longrightarrow> item_of node k = Inr operand \<Longrightarrow> compiled flog vf fw cs n operand"
  shows "compiled flog vf fw cs n node"
  unfolding compiled_def
proof (intro allI impI)
  fix nodes nodes'
  assume "append_node node nodes = Inr nodes'"
  then obtain left right nodes1 nodes2 i where run: "item_of node ''left'' = Inr left" "append_node left nodes = Inr nodes1"
    "item_of node ''right'' = Inr right" "append_node right nodes1 = Inr nodes2"
    "bindE (item_of node ''operator'') text_of = Inr i"
    "nodes' = nodes2 @ [plan_node KBinary i [last_index nodes1, last_index nodes2]]"
    using assms(1) by (auto simp: append_node.simps [of node] simp del: mapping_same)
  obtain s1 where s1: "nodes1 = nodes @ s1" "s1 \<noteq> []"
    "computes (run_plan flog vf fw cs n) (length nodes) s1 (eval_node flog vf fw cs n left)"
    using assms(2) [OF _ run(1)] run(2) by (auto elim: compiledD)
  obtain s2 where s2: "nodes2 = nodes1 @ s2" "s2 \<noteq> []"
    "computes (run_plan flog vf fw cs n) (length nodes1) s2 (eval_node flog vf fw cs n right)"
    using assms(2) [OF _ run(3)] run(4) by (auto elim: compiledD)
  have "eval_node flog vf fw cs n node
      = bindE (eval_node flog vf fw cs n left) (\<lambda>a. bindE (eval_node flog vf fw cs n right) (eval_binary n i a))"
    using assms(1) run(1,3,5) by (simp add: eval_node.simps [of _ _ _ _ _ node])
  moreover have "computes (run_plan flog vf fw cs n) (length nodes)
      (s1 @ s2 @ [plan_node KBinary i [last_index nodes1, last_index nodes2]])
      (bindE (eval_node flog vf fw cs n left) (\<lambda>a. bindE (eval_node flog vf fw cs n right)
        (eval_binary n (pn_identifier (plan_node KBinary i [last_index nodes1, last_index nodes2])) a)))"
    by (rule binary_computed [OF s1(3,2)])
      (use s1 s2 last_index_append [of s1 nodes] last_index_append [of s2 "nodes @ s1"] in \<open>simp_all add: plan_node_def\<close>)
  ultimately show "\<exists>suffix. nodes' = nodes @ suffix \<and> suffix \<noteq> []
      \<and> computes (run_plan flog vf fw cs n) (length nodes) suffix (eval_node flog vf fw cs n node)"
    using s1(1) s2(1) run(6)
    by (intro exI [of _ "s1 @ s2 @ [plan_node KBinary i [last_index nodes1, last_index nodes2]]"]) (simp add: plan_node_def)
qed

lemma compiled_call:
  assumes "item_of node ''kind'' = Inr (VStr ''call'')"
    and "\<And>value arguments argument. item_of node ''arguments'' = Inr value \<Longrightarrow> list_of value = Inr arguments \<Longrightarrow>
      argument \<in> set arguments \<Longrightarrow> compiled flog vf fw cs n argument"
  shows "compiled flog vf fw cs n node"
  unfolding compiled_def
proof (intro allI impI)
  fix nodes nodes'
  assume "append_node node nodes = Inr nodes'"
  then obtain v arguments nodes1 inputs i where run: "item_of node ''arguments'' = Inr v" "list_of v = Inr arguments"
    "append_arguments arguments nodes [] = Inr (nodes1, inputs)"
    "bindE (item_of node ''identifier'') text_of = Inr i" "nodes' = nodes1 @ [plan_node KBuiltin i inputs]"
    using assms(1) by (auto simp: append_node.simps [of node])
  from arguments_computed [of arguments flog vf fw cs n nodes "[]" "[]" nodes1 inputs "Inr []"]
  obtain s1 where s1: "nodes1 = nodes @ s1"
    "supplies (run_plan flog vf fw cs n) (length nodes) s1 inputs (eval_arguments flog vf fw cs n arguments)"
    using assms(2) [OF run(1,2)] run(3) supplies_nothing by (auto simp: bindE_def split: sum.splits)
  have "eval_node flog vf fw cs n node = bindE (eval_arguments flog vf fw cs n arguments) (eval_call flog n i)"
    using assms(1) run(1,2,4) by (simp add: eval_node.simps [of _ _ _ _ _ node])
  then show "\<exists>suffix. nodes' = nodes @ suffix \<and> suffix \<noteq> []
      \<and> computes (run_plan flog vf fw cs n) (length nodes) suffix (eval_node flog vf fw cs n node)"
    using call_computed [of flog vf fw cs n "length nodes" s1 "plan_node KBuiltin i inputs"] s1 run(5)
    by (intro exI [of _ "s1 @ [plan_node KBuiltin i inputs]"]) (simp add: plan_node_def)
qed

lemma list_of_member: "list_of v = Inr xs \<Longrightarrow> x \<in> set xs \<Longrightarrow> size x < size v"
  using list_of_size_list [of v xs] size_list_estimation' [of x xs "size x" size] by simp

lemma node_compiled: "compiled flog vf fw cs n node"
proof (induction "size node" arbitrary: node rule: less_induct)
  case less
  have smaller: "compiled flog vf fw cs n w" if "item_of node k = Inr w" for k w
    using less item_of_size [OF that] by blast
  consider (kind) k where "item_of node ''kind'' = Inr (VStr k)"
      "k \<in> set [''number'', ''common'', ''field'', ''unary'', ''binary'', ''call'']"
    | (none) "\<And>nodes nodes'. append_node node nodes \<noteq> Inr nodes'"
  proof (cases "\<exists>nodes nodes'. append_node node nodes = Inr nodes'")
    case True
    then show ?thesis using that(1) by (auto simp: append_node.simps split: if_splits)
  qed (use that(2) in blast)
  then show ?case
  proof cases
    case kind
    have "compiled flog vf fw cs n argument" if "item_of node ''arguments'' = Inr v" "list_of v = Inr arguments"
      "argument \<in> set arguments" for v arguments argument
      using less item_of_size [OF that(1)] list_of_member [OF that(2,3)] by (meson less_trans)
    then show ?thesis using kind smaller
      by (auto intro: compiled_number compiled_common compiled_field compiled_unary compiled_binary compiled_call)
  qed (simp add: compiled_def)
qed

lemma built_plan_evaluates:
  assumes "build_series_execution_plan expression field_ids lookback = Inr plan"
  shows "evaluate_series_execution_plan flog plan vf explicit cs ttm =
    bindE (input_length plan vf) (\<lambda>inferred.
    bindE (result_length explicit inferred) (\<lambda>n.
    bindE (validate_ttm_windows ttm n) (\<lambda>fw.
    bindE (eval_node flog vf fw cs n expression) (\<lambda>r. root_series n (fst r)))))"
proof -
  obtain nodes where nodes: "append_node expression [] = Inr nodes"
    and plan: "sp_nodes plan = nodes" "sp_root plan = last_index nodes"
    using assms by (auto simp: build_series_execution_plan_def)
  have run: "bindE (foldE (plan_step flog vf cs fw n) nodes ([], [])) (\<lambda>(values, ws). bindE (nthE values (last_index nodes)) f)
      = bindE (eval_node flog vf fw cs n expression) (\<lambda>r. f (fst r))" for fw n and f :: "plan_value \<Rightarrow> py_error + series"
  proof -
    obtain suffix where suffix: "nodes = [] @ suffix"
      "computes (run_plan flog vf fw cs n) (length ([] :: plan_node list)) suffix (eval_node flog vf fw cs n expression)"
      using compiledD [OF node_compiled nodes] by metis
    then have c: "computes (run_plan flog vf fw cs n) 0 nodes (eval_node flog vf fw cs n expression)" by simp
    show ?thesis
    proof (cases "eval_node flog vf fw cs n expression")
      case (Inl e)
      then show ?thesis using c by (simp add: computes_def run_plan_def)
    next
      case (Inr r)
      obtain v w where r: "r = (v, w)" by (cases r)
      obtain vs us where run: "run_plan flog vf fw cs n nodes ([], []) = Inr ([] @ vs @ [v], [] @ us @ [w])"
        "length vs + 1 = length nodes"
        using c unfolding Inr r by (rule computesE) auto
      have "last_index nodes = length vs" using run(2) by (simp add: last_index_def)
      then show ?thesis using run(1) Inr r by (simp add: run_plan_def nthE_def nth_append)
    qed
  qed
  show ?thesis
    unfolding evaluate_series_execution_plan_def plan run root_series_def [symmetric] ..
qed

section \<open>Property\<close>

text \<open>
  C23: Evaluating the plan built from an expression computes the expression: for every input, with or
  without trailing windows, the run over the flat list of nodes gives the series, or raises the
  exception, that the recursive reading of the tree gives, the windows of trailing sums included.
\<close>

theorem plan_computes_expression:
  assumes "build_series_execution_plan expression field_ids lookback = Inr plan"
  shows "evaluate_series_execution_plan flog plan vf explicit cs ttm =
    bindE (input_length plan vf) (\<lambda>inferred.
    bindE (result_length explicit inferred) (\<lambda>n.
    bindE (validate_ttm_windows ttm n) (\<lambda>fw.
    bindE (eval_node flog vf fw cs n expression) (\<lambda>r. root_series n (fst r)))))"
  by (rule built_plan_evaluates [OF assms])

text \<open>The ratio of two trailing sums, whose windows differ on the second session.\<close>

definition ratio_expression :: pyval where
  "ratio_expression =
     VDict [(''kind'', VStr ''binary''), (''operator'', VStr ''divide''),
       (''left'', VDict [(''kind'', VStr ''field''), (''field_id'', VStr ''profit'')]),
       (''right'', VDict [(''kind'', VStr ''field''), (''field_id'', VStr ''revenue'')])]"

definition ratio_plan :: series_plan where
  "ratio_plan = projr (build_series_execution_plan ratio_expression [(''p'', ''profit''), (''r'', ''revenue'')] 0)"

definition ratio_input :: "(string \<times> pyfloat option list) list" where
  "ratio_input = [(''profit'', [Some (Finite 10), Some (Finite 20), Some (Finite 30)]),
     (''revenue'', [Some (Finite 2), Some (Finite 4), Some (Finite 5)])]"

definition ratio_windows :: "(string \<times> int list) list option" where
  "ratio_windows = Some [(''profit'', [4, 4, 8]), (''revenue'', [4, 8, 8])]"

lemma ratio_plan: "build_series_execution_plan ratio_expression [(''p'', ''profit''), (''r'', ''revenue'')] 0 = Inr ratio_plan"
proof -
  have "\<not> isl (build_series_execution_plan ratio_expression [(''p'', ''profit''), (''r'', ''revenue'')] 0)" by code_simp
  then show ?thesis unfolding ratio_plan_def by (simp add: sum.collapse(2))
qed

lemma plan_computes_expression_witness:
  "evaluate_series_execution_plan (\<lambda>x. x) ratio_plan ratio_input None None ratio_windows
    = Inr [Some (NFloat 5), None, Some (NFloat 6)]"
  unfolding plan_computes_expression [OF ratio_plan] by code_simp

end
