(* ===== verification/SharedPlan.thy ===== *)
theory SharedPlan
  imports PlanSound
begin

text \<open>
  \<open>_share_columnar_subexpressions\<close> of \<open>research_kernel/series_plan.py\<close>: before a plan runs over all
  instruments, equal nodes over equal inputs are kept once and the inputs renumbered. The shared plan
  computes what the plan computes.

  The key of a node is the node itself with its new inputs: an integer and a float of the same value
  are different numbers of the model, as the \<open>repr\<close> in the code's key keeps them apart. The
  cancellation callback is left out.
\<close>

section \<open>Sharing\<close>

record sharing =
  sh_nodes :: "plan_node list"
  sh_positions :: "(plan_node \<times> nat) list"
  sh_remapped :: "nat list"

definition share_node :: "plan_node \<Rightarrow> sharing \<Rightarrow> py_error + sharing" where
  "share_node node s =
     bindE (mapE (nthE (sh_remapped s)) (pn_inputs node)) (\<lambda>inputs.
     let shared = node\<lparr>pn_inputs := inputs\<rparr> in
     case map_of (sh_positions s) shared of
       None \<Rightarrow> Inr (s\<lparr>sh_nodes := sh_nodes s @ [shared],
                      sh_positions := AList.update shared (length (sh_nodes s)) (sh_positions s),
                      sh_remapped := sh_remapped s @ [length (sh_nodes s)]\<rparr>)
     | Some position \<Rightarrow> Inr (s\<lparr>sh_remapped := sh_remapped s @ [position]\<rparr>))"

definition share_columnar_subexpressions :: "series_plan \<Rightarrow> py_error + series_plan" where
  "share_columnar_subexpressions plan =
     bindE (foldE share_node (sp_nodes plan) \<lparr>sh_nodes = [], sh_positions = [], sh_remapped = []\<rparr>) (\<lambda>s.
     bindE (nthE (sh_remapped s) (sp_root plan)) (\<lambda>position.
     Inr (plan\<lparr>sp_nodes := sh_nodes s, sp_root := position\<rparr>)))"

section \<open>What a step depends on\<close>

text \<open>The result of a node over the values it reads, whatever their positions are.\<close>

definition outcome :: "(rat \<Rightarrow> rat) \<Rightarrow> (string \<times> pyfloat option list) list \<Rightarrow> (string \<times> int list) list
    \<Rightarrow> common_values option \<Rightarrow> nat \<Rightarrow> plan_node \<Rightarrow> node_result list \<Rightarrow> py_error + node_result" where
  "outcome flog vf fw cs n node arguments =
     bindE (plan_step flog vf cs fw n (node\<lparr>pn_inputs := [0..<length arguments]\<rparr>) (map fst arguments, map snd arguments))
       (\<lambda>(values, ws). Inr (last values, last ws))"

lemma reads_all: "reads (map fst arguments) (map snd arguments) [0..<length arguments] arguments"
  by (auto simp: reads_def list_all2_conv_all_nth split: prod.splits)

lemma reads_unique: "reads vals ws inputs a \<Longrightarrow> reads vals ws inputs b \<Longrightarrow> a = b"
proof (induction inputs arbitrary: a b)
  case (Cons i inputs)
  then obtain x xs y ys where "a = x # xs" "b = y # ys"
    using reads_length [of vals ws "i # inputs"] by (metis length_Suc_conv)
  with Cons show ?case by (auto simp: reads_Cons prod_eq_iff)
qed simp

lemma enough_arguments:
  assumes "arguments_of vals node = Inr xs" "node_value flog vf cs n vals node = Inr v"
  shows "pn_kind node = KUnary \<Longrightarrow> 1 \<le> length xs"
    and "pn_kind node = KBinary \<Longrightarrow> 2 \<le> length xs"
    and "pn_kind node = KBuiltin \<Longrightarrow> pn_identifier node \<in> set [''abs'', ''log'', ''sign''] \<Longrightarrow> 1 \<le> length xs"
    and "pn_kind node = KBuiltin \<Longrightarrow> pn_identifier node = ''if_else'' \<Longrightarrow> length xs = 3"
proof -
  show "pn_kind node = KUnary \<Longrightarrow> 1 \<le> length xs"
    using assms by (cases xs) (auto simp: node_value_def nthE_def)
  show "pn_kind node = KBinary \<Longrightarrow> 2 \<le> length xs"
    using assms by (auto simp: node_value_def)
  show "1 \<le> length xs" if "pn_kind node = KBuiltin" "pn_identifier node \<in> set [''abs'', ''log'', ''sign'']"
    using assms that by (cases xs) (auto simp: node_value_def evaluate_builtin_def first_argument_def)
  show "length xs = 3" if "pn_kind node = KBuiltin" "pn_identifier node = ''if_else''"
    using assms that by (auto simp: node_value_def evaluate_builtin_def dest: if_else_three)
qed

lemma windows_agree:
  assumes "reads vals ws (pn_inputs p) a" "reads vals' ws' (pn_inputs q) a"
    and "pn_kind p = pn_kind q" "pn_identifier p = pn_identifier q"
    and "node_value flog vf cs n vals p = Inr v"
  shows "ttm_node_window p fw ws flags = ttm_node_window q fw ws' flags"
proof -
  have window: "window_at ws (pn_inputs p) k = window_at ws' (pn_inputs q) k" if "k < length a" for k
    using reads_window [OF assms(1) that] reads_window [OF assms(2) that] by simp
  note enough = enough_arguments [OF reads_arguments [OF assms(1)] assms(5)]
  show ?thesis
  proof (cases "pn_kind p")
    case KUnary
    then show ?thesis using enough(1) window [of 0] assms(3,4) by (simp add: ttm_node_window_def Suc_le_eq)
  next
    case KBinary
    then have "2 \<le> length a" using enough(2) by simp
    then have "window_at ws (pn_inputs p) 0 = window_at ws' (pn_inputs q) 0"
      "window_at ws (pn_inputs p) (Suc 0) = window_at ws' (pn_inputs q) (Suc 0)" by (auto intro!: window)
    then show ?thesis using KBinary assms(3,4) by (simp add: ttm_node_window_def)
  next
    case KBuiltin
    consider (cell) "pn_identifier p \<in> set [''abs'', ''log'', ''sign'']" | (choice) "pn_identifier p = ''if_else''"
      | (other) "pn_identifier p \<notin> set [''abs'', ''log'', ''sign'', ''if_else'']" by auto
    then show ?thesis
    proof cases
      case cell
      then show ?thesis using KBuiltin enough(3) window [of 0] assms(3,4) by (simp add: ttm_node_window_def Suc_le_eq)
    next
      case choice
      then show ?thesis using KBuiltin enough(4) window [of 1] window [of 2] assms(3,4) by (simp add: ttm_node_window_def)
    next
      case other
      then show ?thesis using KBuiltin assms(3,4) by (simp add: ttm_node_window_def)
    qed
  qed (use assms(3,4) in \<open>simp_all add: ttm_node_window_def\<close>)
qed

lemma steps_agree:
  assumes "reads vals ws (pn_inputs p) a" "reads vals' ws' (pn_inputs q) a"
    and "pn_kind p = pn_kind q" "pn_identifier p = pn_identifier q" "pn_value p = pn_value q"
      "pn_industry_code p = pn_industry_code q"
  shows "\<exists>m. plan_step flog vf cs fw n p (vals, ws) = appends m vals ws \<and>
    plan_step flog vf cs fw n q (vals', ws') = appends m vals' ws'"
proof -
  note arguments = reads_arguments [OF assms(1)] reads_arguments [OF assms(2)]
  have condition: "node_condition vals n p = node_condition vals' n q"
    using arguments assms(3,4) by (simp add: node_condition_def)
  have same_value: "node_value flog vf cs n vals p = node_value flog vf cs n vals' q"
    using arguments assms(3-6) by (cases "pn_kind q"; cases cs) (simp_all add: node_value_def)
  define m where "m = bindE (node_condition vals n p) (\<lambda>flags.
      bindE (node_value flog vf cs n vals p) (\<lambda>v.
      bindE (mask_value n (snd (ttm_node_window p fw ws flags)) v) (\<lambda>masked.
      Inr (masked, fst (ttm_node_window p fw ws flags)))))"
  have "plan_step flog vf cs fw n p (vals, ws) = appends m vals ws"
    by (simp add: plan_step_def m_def appends_def bindE_assoc case_prod_beta)
  moreover have "plan_step flog vf cs fw n q (vals', ws') = appends m vals' ws'"
  proof (cases "node_value flog vf cs n vals p")
    case (Inl e)
    then show ?thesis
      by (simp add: plan_step_def m_def appends_def bindE_assoc case_prod_beta condition [symmetric] same_value [symmetric])
  next
    case (Inr v)
    then show ?thesis
      using windows_agree [OF assms(1-4) Inr]
      by (simp add: plan_step_def m_def appends_def bindE_assoc case_prod_beta condition [symmetric] same_value [symmetric])
  qed
  ultimately show ?thesis by blast
qed

lemma appends_outcome: "bindE (appends m vals ws) (\<lambda>(vs, us). Inr (last vs, last us)) = m"
  by (cases m) (auto simp: appends_def)

lemma step_outcome:
  assumes "reads vals ws (pn_inputs p) a"
  shows "plan_step flog vf cs fw n p (vals, ws) = appends (outcome flog vf fw cs n p a) vals ws"
proof -
  obtain m where m: "plan_step flog vf cs fw n p (vals, ws) = appends m vals ws"
    "plan_step flog vf cs fw n (p\<lparr>pn_inputs := [0..<length a]\<rparr>) (map fst a, map snd a) = appends m (map fst a) (map snd a)"
    using steps_agree [OF assms, of "map fst a" "map snd a" "p\<lparr>pn_inputs := [0..<length a]\<rparr>" flog vf cs fw n] reads_all [of a] by auto
  then show ?thesis by (simp add: outcome_def appends_outcome)
qed

lemma outcome_inputs: "outcome flog vf fw cs n (p\<lparr>pn_inputs := is\<rparr>) a = outcome flog vf fw cs n p a"
  by (simp add: outcome_def)

section \<open>The shared plan computes the same values\<close>

text \<open>
  After some nodes of the plan with their values and the nodes shared so far with theirs: each node has
  the value at its new position, each shared node the outcome over what it reads.
\<close>

definition mirrors :: "plan_value list \<times> windows list \<Rightarrow> plan_value list \<times> windows list \<Rightarrow> nat list \<Rightarrow> bool" where
  "mirrors original shared remapped \<longleftrightarrow>
     length (snd shared) = length (fst shared) \<and> reads (fst shared) (snd shared) remapped (zip (fst original) (snd original)) \<and>
     length (snd original) = length (fst original)"

definition recorded :: "(plan_node \<Rightarrow> node_result list \<Rightarrow> py_error + node_result) \<Rightarrow> sharing \<Rightarrow> plan_value list \<times> windows list \<Rightarrow> bool" where
  "recorded result s shared \<longleftrightarrow> length (fst shared) = length (sh_nodes s) \<and>
     (\<forall>p k. map_of (sh_positions s) p = Some k \<longrightarrow> k < length (sh_nodes s) \<and>
       (\<exists>a. reads (fst shared) (snd shared) (pn_inputs p) a \<and> result p a = Inr (fst shared ! k, snd shared ! k)))"

lemma remapped_reads:
  assumes "mapE (nthE remapped) inputs = Inr new" "reads vals' ws' remapped (zip vals ws)" "length ws = length vals"
  shows "\<exists>a. reads vals ws inputs a \<and> reads vals' ws' new a"
  using assms(1)
proof (induction inputs arbitrary: new)
  case Nil
  then show ?case using assms(2,3) by (auto simp: reads_def)
next
  case (Cons i inputs)
  then obtain new' where new: "new = remapped ! i # new'" "i < length remapped" "mapE (nthE remapped) inputs = Inr new'"
    by auto
  obtain a where a: "reads vals ws inputs a" "reads vals' ws' new' a" using Cons.IH [OF new(3)] by blast
  have len: "length remapped = length vals" using reads_length [OF assms(2)] assms(3) by simp
  have "remapped ! i < length vals' \<and> vals' ! (remapped ! i) = vals ! i \<and> ws' ! (remapped ! i) = ws ! i"
    using assms(2,3) new(2) len by (auto simp: reads_def list_all2_conv_all_nth)
  then show ?case using a new(1,2) len by (intro exI [of _ "(vals ! i, ws ! i) # a"]) (simp add: reads_Cons)
qed

lemma mirrors_grow:
  assumes "mirrors (vals, ws) (vals', ws') remapped" "reads vals'' ws'' remapped (zip vals ws)" "length ws'' = length vals''"
    and "k < length vals''" "vals'' ! k = v" "ws'' ! k = w"
  shows "mirrors (vals @ [v], ws @ [w]) (vals'', ws'') (remapped @ [k])"
  using assms reads_snoc [OF assms(2,4)] by (simp add: mirrors_def)

lemma share_node_step:
  assumes m: "mirrors (vals, ws) (vals', ws') (sh_remapped s)"
    and r: "recorded (outcome flog vf fw cs n) s (vals', ws')"
    and share: "share_node node s = Inr t"
  shows "\<exists>suffix. sh_nodes t = sh_nodes s @ suffix \<and>
    (case plan_step flog vf cs fw n node (vals, ws) of
       Inl e \<Rightarrow> run_plan flog vf fw cs n suffix (vals', ws') = Inl e
     | Inr original \<Rightarrow> \<exists>shared. run_plan flog vf fw cs n suffix (vals', ws') = Inr shared \<and>
         mirrors original shared (sh_remapped t) \<and> recorded (outcome flog vf fw cs n) t shared)"
proof -
  let ?out = "outcome flog vf fw cs n"
  obtain inputs where inputs: "mapE (nthE (sh_remapped s)) (pn_inputs node) = Inr inputs"
    using share by (auto simp: share_node_def)
  define q where "q = node\<lparr>pn_inputs := inputs\<rparr>"
  obtain a where a: "reads vals ws (pn_inputs node) a" "reads vals' ws' (pn_inputs q) a"
    using remapped_reads [OF inputs, of vals' ws' vals ws] m unfolding mirrors_def q_def by auto
  have step: "plan_step flog vf cs fw n node (vals, ws) = appends (?out node a) vals ws"
    "plan_step flog vf cs fw n q (vals', ws') = appends (?out node a) vals' ws'"
    using step_outcome [OF a(1), of flog vf cs fw n] step_outcome [OF a(2), of flog vf cs fw n] outcome_inputs
    by (simp_all add: q_def)
  have lengths: "length vals' = length (sh_nodes s)" "length ws' = length vals'"
    using m r by (simp_all add: mirrors_def recorded_def)
  show ?thesis
  proof (cases "map_of (sh_positions s) q")
    case (Some k)
    have t: "t = s\<lparr>sh_remapped := sh_remapped s @ [k]\<rparr>"
      using share inputs Some by (simp add: share_node_def Let_def q_def)
    obtain b where b: "k < length (sh_nodes s)" "reads vals' ws' (pn_inputs q) b" "?out q b = Inr (vals' ! k, ws' ! k)"
      using r Some by (auto simp: recorded_def)
    have "?out node a = Inr (vals' ! k, ws' ! k)"
      using b(3) reads_unique [OF a(2) b(2)] outcome_inputs by (simp add: q_def)
    moreover have "mirrors (vals @ [vals' ! k], ws @ [ws' ! k]) (vals', ws') (sh_remapped s @ [k])"
      by (rule mirrors_grow [OF m]) (use m lengths b(1) in \<open>auto simp: mirrors_def\<close>)
    ultimately show ?thesis
      using r unfolding step(1) t by (intro exI [of _ "[]"]) (simp add: appends_def run_plan_def recorded_def)
  next
    case None
    have t: "sh_nodes t = sh_nodes s @ [q]" "sh_positions t = AList.update q (length (sh_nodes s)) (sh_positions s)"
      "sh_remapped t = sh_remapped s @ [length (sh_nodes s)]"
      using share inputs None by (auto simp: share_node_def Let_def q_def)
    show ?thesis
    proof (cases "?out node a")
      case (Inl e)
      then show ?thesis unfolding step(1) t(1) by (intro exI [of _ "[q]"]) (simp add: appends_def step(2))
    next
      case (Inr vw)
      obtain v w where vw: "vw = (v, w)" by (cases vw)
      have grown: "reads (vals' @ [v]) (ws' @ [w]) inputs' b" if "reads vals' ws' inputs' b" for inputs' b
        using reads_grow [OF that, of "[w]" "[v]"] by simp
      have "mirrors (vals @ [v], ws @ [w]) (vals' @ [v], ws' @ [w]) (sh_remapped t)"
        unfolding t(3) by (rule mirrors_grow [OF m]) (use m lengths grown in \<open>auto simp: mirrors_def nth_append\<close>)
      moreover have "recorded ?out t (vals' @ [v], ws' @ [w])"
      proof -
        have "k < length (sh_nodes t) \<and> (\<exists>b. reads (vals' @ [v]) (ws' @ [w]) (pn_inputs p) b \<and>
            ?out p b = Inr ((vals' @ [v]) ! k, (ws' @ [w]) ! k))"
          if "map_of (sh_positions t) p = Some k" for p k
        proof (cases "p = q")
          case True
          then have "k = length (sh_nodes s)" using that t(2) by simp
          moreover have "?out q a = Inr (v, w)" using Inr vw outcome_inputs by (simp add: q_def)
          ultimately show ?thesis using True t(1) lengths grown [OF a(2)] by (auto simp: nth_append)
        next
          case False
          then have "map_of (sh_positions s) p = Some k" using that t(2) by simp
          then obtain b where "k < length (sh_nodes s)" "reads vals' ws' (pn_inputs p) b" "?out p b = Inr (vals' ! k, ws' ! k)"
            using r by (auto simp: recorded_def)
          then show ?thesis using t(1) lengths grown [of "pn_inputs p" b] by (auto simp: nth_append)
        qed
        then show ?thesis using lengths t(1) by (simp add: recorded_def)
      qed
      ultimately show ?thesis
        using Inr vw unfolding step(1) t(1) by (intro exI [of _ "[q]"]) (simp add: appends_def step(2))
    qed
  qed
qed

lemma share_nodes:
  assumes "mirrors (vals, ws) (vals', ws') (sh_remapped s)" "recorded (outcome flog vf fw cs n) s (vals', ws')"
    and "foldE share_node nodes s = Inr t"
  shows "\<exists>suffix. sh_nodes t = sh_nodes s @ suffix \<and>
    (case run_plan flog vf fw cs n nodes (vals, ws) of
       Inl e \<Rightarrow> run_plan flog vf fw cs n suffix (vals', ws') = Inl e
     | Inr original \<Rightarrow> \<exists>shared. run_plan flog vf fw cs n suffix (vals', ws') = Inr shared \<and>
         mirrors original shared (sh_remapped t) \<and> recorded (outcome flog vf fw cs n) t shared)"
  using assms
proof (induction nodes arbitrary: s vals ws vals' ws')
  case Nil
  then show ?case by (auto simp: run_plan_def)
next
  case (Cons node nodes)
  obtain u where u: "share_node node s = Inr u" "foldE share_node nodes u = Inr t" using Cons.prems(3) by auto
  obtain suffix where suffix: "sh_nodes u = sh_nodes s @ suffix" and one: "case plan_step flog vf cs fw n node (vals, ws) of
       Inl e \<Rightarrow> run_plan flog vf fw cs n suffix (vals', ws') = Inl e
     | Inr original \<Rightarrow> \<exists>shared. run_plan flog vf fw cs n suffix (vals', ws') = Inr shared \<and>
         mirrors original shared (sh_remapped u) \<and> recorded (outcome flog vf fw cs n) u shared"
    using share_node_step [OF Cons.prems(1,2) u(1)] by blast
  have run: "run_plan flog vf fw cs n (node # nodes) (vals, ws)
      = bindE (plan_step flog vf cs fw n node (vals, ws)) (run_plan flog vf fw cs n nodes)"
    by (simp add: run_plan_def)
  have more: "\<exists>rest. sh_nodes t = sh_nodes u @ rest"
    using u(2)
  proof (induction nodes arbitrary: u)
    case (Cons x xs)
    then obtain w where "share_node x u = Inr w" "foldE share_node xs w = Inr t" by auto
    moreover from this(1) have "\<exists>r. sh_nodes w = sh_nodes u @ r"
      by (auto simp: share_node_def Let_def split: option.splits)
    ultimately show ?case using Cons.IH by fastforce
  qed simp
  show ?case
  proof (cases "plan_step flog vf cs fw n node (vals, ws)")
    case (Inl e)
    then show ?thesis using one suffix more unfolding run by (auto simp: run_plan_append)
  next
    case (Inr original)
    then obtain shared where shared: "run_plan flog vf fw cs n suffix (vals', ws') = Inr shared"
      "mirrors original shared (sh_remapped u)" "recorded (outcome flog vf fw cs n) u shared" using one by auto
    obtain rest where "sh_nodes t = sh_nodes u @ rest" "case run_plan flog vf fw cs n nodes original of
       Inl e \<Rightarrow> run_plan flog vf fw cs n rest shared = Inl e
     | Inr original \<Rightarrow> \<exists>shared'. run_plan flog vf fw cs n rest shared = Inr shared' \<and>
         mirrors original shared' (sh_remapped t) \<and> recorded (outcome flog vf fw cs n) t shared'"
      using Cons.IH [of "fst original" "snd original" "fst shared" "snd shared" u] shared(2,3) u(2)
      unfolding prod.collapse by blast
    then show ?thesis using shared(1) suffix Inr unfolding run
      by (cases "run_plan flog vf fw cs n nodes original"; intro exI [of _ "suffix @ rest"])
        (simp_all add: run_plan_append)
  qed
qed

section \<open>A built plan can be shared\<close>

text \<open>Each node of a built plan reads earlier nodes only.\<close>

definition numbered :: "plan_node list \<Rightarrow> bool" where
  "numbered nodes \<longleftrightarrow> (\<forall>k<length nodes. \<forall>i\<in>set (pn_inputs (nodes ! k)). i < k)"

lemma numbered_snoc [simp]: "numbered (nodes @ [node]) \<longleftrightarrow> numbered nodes \<and> (\<forall>i\<in>set (pn_inputs node). i < length nodes)"
  by (auto simp: numbered_def nth_append less_Suc_eq)

lemma numbered_Cons_append: "numbered (nodes @ rest) \<Longrightarrow> rest = node # later \<Longrightarrow> \<forall>i\<in>set (pn_inputs node). i < length nodes"
  by (auto simp: numbered_def dest: spec [of _ "length nodes"])

lemma plan_node_inputs [simp]: "pn_inputs (plan_node kind i inputs) = inputs"
  by (simp add: plan_node_def)

lemma appended_numbered:
  "append_node node nodes = Inr nodes' \<Longrightarrow> numbered nodes \<Longrightarrow> numbered nodes' \<and> length nodes < length nodes'"
  "append_arguments arguments nodes inputs = Inr (nodes'', inputs'') \<Longrightarrow> numbered nodes \<Longrightarrow> \<forall>i\<in>set inputs. i < length nodes \<Longrightarrow>
     numbered nodes'' \<and> length nodes \<le> length nodes'' \<and> (\<forall>i\<in>set inputs''. i < length nodes'')"
proof (induction node nodes and arguments nodes inputs arbitrary: nodes' and nodes'' inputs'' rule: append_node_append_arguments.induct)
  case (1 node nodes)
  note shape = append_node.simps [of node nodes]
  obtain kind where kind: "item_of node ''kind'' = Inr kind" using "1.prems"(1) unfolding shape by (elim bindE_InrE)
  consider (leaf) "kind = VStr ''number'' \<or> kind = VStr ''common'' \<or> kind = VStr ''field''" | (unary) "kind = VStr ''unary''"
    | (binary) "kind = VStr ''binary''" | (call) "kind = VStr ''call''"
    using "1.prems"(1) kind unfolding shape by (auto split: if_splits)
  then show ?case
  proof cases
    case leaf
    then show ?thesis using "1.prems" kind unfolding shape by (auto elim!: bindE_InrE)
  next
    case unary
    obtain operand nodes1 i where n: "item_of node ''operand'' = Inr operand" "mapping operand = Inr operand"
      "append_node operand nodes = Inr nodes1" "nodes' = nodes1 @ [plan_node KUnary i [last_index nodes1]]"
      using "1.prems"(1) kind unary unfolding shape by (auto elim!: bindE_InrE)
    have "numbered nodes1 \<and> length nodes < length nodes1"
      by (rule "1.IH"(1) [OF kind _ _ _ unary n(1,2,3) "1.prems"(2)]) (simp_all add: unary)
    then show ?thesis by (auto simp: n(4) last_index_def)
  next
    case binary
    obtain l r nodes1 nodes2 i where n: "item_of node ''left'' = Inr l" "mapping l = Inr l"
      "append_node l nodes = Inr nodes1" "item_of node ''right'' = Inr r" "mapping r = Inr r" "append_node r nodes1 = Inr nodes2"
      "nodes' = nodes2 @ [plan_node KBinary i [last_index nodes1, last_index nodes2]]"
      using "1.prems"(1) kind binary unfolding shape by (auto elim!: bindE_InrE)
    have left: "numbered nodes1 \<and> length nodes < length nodes1"
      by (rule "1.IH"(2) [OF kind _ _ _ _ binary n(1,2,3) "1.prems"(2)]) (simp_all add: binary)
    then have "numbered nodes2 \<and> length nodes1 < length nodes2"
      by (intro "1.IH"(3) [OF kind _ _ _ _ binary n(1,2,3,4,5,6)]) (simp_all add: binary)
    then show ?thesis using left by (auto simp: n(7) last_index_def)
  next
    case call
    obtain v arguments nodes1 inputs i where n: "item_of node ''arguments'' = Inr v" "list_of v = Inr arguments"
      "append_arguments arguments nodes [] = Inr (nodes1, inputs)" "nodes' = nodes1 @ [plan_node KBuiltin i inputs]"
      using "1.prems"(1) kind call unfolding shape by (auto elim!: bindE_InrE)
    have "numbered nodes1 \<and> length nodes \<le> length nodes1 \<and> (\<forall>i\<in>set inputs. i < length nodes1)"
      by (rule "1.IH"(4) [OF kind _ _ _ _ _ call n(1,2,3) "1.prems"(2)]) (simp_all add: call)
    then show ?thesis by (auto simp: n(4))
  qed
next
  case (2 nodes inputs)
  then show ?case by simp
next
  case (3 argument arguments nodes inputs)
  from "3.prems"(1) obtain nodes1 where n1: "is_dict argument" "append_node argument nodes = Inr nodes1"
    "append_arguments arguments nodes1 (inputs @ [last_index nodes1]) = Inr (nodes'', inputs'')" by auto
  then have "numbered nodes1" "length nodes < length nodes1" using "3.IH"(1) "3.prems"(2) by auto
  moreover from this have "\<forall>i\<in>set (inputs @ [last_index nodes1]). i < length nodes1"
    using "3.prems"(3) by (auto simp: last_index_def)
  ultimately show ?case using "3.IH"(2) n1 by fastforce
qed

text \<open>While nodes are shared, the table finds exactly the nodes kept, and every old node has a position.\<close>

definition kept :: "sharing \<Rightarrow> nat \<Rightarrow> bool" where
  "kept s n \<longleftrightarrow> length (sh_remapped s) = n \<and> length (sh_nodes s) \<le> n \<and> distinct (sh_nodes s) \<and>
     (\<forall>p. map_of (sh_positions s) p = None \<longrightarrow> p \<notin> set (sh_nodes s))"

lemma share_node_kept:
  assumes "kept s n" "\<forall>i\<in>set (pn_inputs node). i < n"
  shows "\<exists>t. share_node node s = Inr t \<and> kept t (Suc n)"
proof -
  obtain inputs where "mapE (nthE (sh_remapped s)) (pn_inputs node) = Inr inputs"
    using assms mapE_Inr_map [of "pn_inputs node" "nthE (sh_remapped s)" "\<lambda>i. sh_remapped s ! i"] by (auto simp: kept_def)
  then show ?thesis
    using assms(1) by (cases "map_of (sh_positions s) (node\<lparr>pn_inputs := inputs\<rparr>)")
      (auto simp: share_node_def Let_def kept_def)
qed

lemma share_nodes_kept:
  assumes "kept s (length nodes)" "numbered (nodes @ rest)"
  shows "\<exists>t. foldE share_node rest s = Inr t \<and> kept t (length (nodes @ rest))"
  using assms
proof (induction rest arbitrary: s nodes)
  case (Cons node rest)
  obtain t where "share_node node s = Inr t" "kept t (length (nodes @ [node]))"
    using share_node_kept [OF Cons.prems(1)] numbered_Cons_append [OF Cons.prems(2)] by fastforce
  then show ?case using Cons.IH [of t "nodes @ [node]"] Cons.prems(2) by auto
qed simp

lemma built_plan_shared:
  assumes "build_series_execution_plan expression field_ids lookback = Inr plan"
  shows "\<exists>shared. share_columnar_subexpressions plan = Inr shared \<and> distinct (sp_nodes shared) \<and>
    length (sp_nodes shared) \<le> length (sp_nodes plan)"
proof -
  obtain nodes where plan: "append_node expression [] = Inr nodes" "sp_nodes plan = nodes" "sp_root plan = last_index nodes"
    using assms by (auto simp: build_series_execution_plan_def)
  then have nodes: "numbered nodes" "0 < length nodes" using appended_numbered(1) [of expression "[]" nodes] by (auto simp: numbered_def)
  have "kept \<lparr>sh_nodes = [], sh_positions = [], sh_remapped = []\<rparr> (length [])" by (simp add: kept_def)
  from share_nodes_kept [OF this, of nodes] nodes(1)
  obtain s where "foldE share_node nodes \<lparr>sh_nodes = [], sh_positions = [], sh_remapped = []\<rparr> = Inr s" "kept s (length nodes)"
    by auto
  moreover from this have "share_columnar_subexpressions plan
      = Inr (plan\<lparr>sp_nodes := sh_nodes s, sp_root := sh_remapped s ! sp_root plan\<rparr>)"
    using nodes(2) by (simp add: share_columnar_subexpressions_def nthE_def plan last_index_def kept_def)
  ultimately show ?thesis by (auto simp: plan(2) kept_def)
qed

section \<open>Property\<close>

lemma shared_evaluates:
  assumes "share_columnar_subexpressions plan = Inr shared"
  shows "evaluate_series_execution_plan flog shared vf explicit cs ttm = evaluate_series_execution_plan flog plan vf explicit cs ttm"
proof -
  obtain s where s: "foldE share_node (sp_nodes plan) \<lparr>sh_nodes = [], sh_positions = [], sh_remapped = []\<rparr> = Inr s"
    and root: "sp_root plan < length (sh_remapped s)"
    and shared: "shared = plan\<lparr>sp_nodes := sh_nodes s, sp_root := sh_remapped s ! sp_root plan\<rparr>"
    using assms by (auto simp: share_columnar_subexpressions_def)
  have run: "bindE (foldE (plan_step flog vf cs fw n) (sp_nodes shared) ([], [])) (\<lambda>(vals, ws). bindE (nthE vals (sp_root shared)) f)
      = bindE (foldE (plan_step flog vf cs fw n) (sp_nodes plan) ([], [])) (\<lambda>(vals, ws). bindE (nthE vals (sp_root plan)) f)"
    for fw n and f :: "plan_value \<Rightarrow> py_error + series"
  proof -
    have "mirrors ([], []) ([], []) (sh_remapped \<lparr>sh_nodes = [], sh_positions = [], sh_remapped = []\<rparr>)"
      "recorded (outcome flog vf fw cs n) \<lparr>sh_nodes = [], sh_positions = [], sh_remapped = []\<rparr> ([], [])"
      by (simp_all add: mirrors_def recorded_def)
    have nodes: "sp_nodes shared = sh_nodes s" by (simp add: shared)
    from share_nodes [OF \<open>mirrors _ _ _\<close> \<open>recorded _ _ _\<close> s] have same: "case run_plan flog vf fw cs n (sp_nodes plan) ([], []) of
       Inl e \<Rightarrow> run_plan flog vf fw cs n (sp_nodes shared) ([], []) = Inl e
     | Inr original \<Rightarrow> \<exists>sh. run_plan flog vf fw cs n (sp_nodes shared) ([], []) = Inr sh \<and>
         mirrors original sh (sh_remapped s) \<and> recorded (outcome flog vf fw cs n) s sh"
      unfolding nodes by simp
    show ?thesis
    proof (cases "run_plan flog vf fw cs n (sp_nodes plan) ([], [])")
      case (Inl e)
      then show ?thesis using same by (simp add: run_plan_def)
    next
      case (Inr original)
      then obtain sh where sh: "run_plan flog vf fw cs n (sp_nodes shared) ([], []) = Inr sh" "mirrors original sh (sh_remapped s)"
        using same by auto
      have "length (sh_remapped s) = length (fst original)"
        using sh(2) reads_length by (fastforce simp: mirrors_def)
      then have "fst sh ! sp_root shared = fst original ! sp_root plan" "sp_root shared < length (fst sh)"
        "sp_root plan < length (fst original)"
        using sh(2) root by (auto simp: mirrors_def reads_def list_all2_conv_all_nth shared)
      then show ?thesis using sh(1) Inr by (simp add: run_plan_def case_prod_beta nthE_def)
    qed
  qed
  have "sp_field_names shared = sp_field_names plan" by (simp add: shared)
  then have "input_length shared vf = input_length plan vf" by (simp add: input_length_def)
  then show ?thesis unfolding evaluate_series_execution_plan_def run by simp
qed

text \<open>
  C25: Sharing equal subexpressions of a plan built from an expression always succeeds and changes no
  result: no two nodes of the shared plan are equal, it has at most as many nodes, and on every input it
  evaluates to the series, or raises the exception, of the plan it was built from.
\<close>

theorem shared_plan_equal:
  assumes "build_series_execution_plan expression field_ids lookback = Inr plan"
  shows "\<exists>shared. share_columnar_subexpressions plan = Inr shared \<and> distinct (sp_nodes shared) \<and>
    length (sp_nodes shared) \<le> length (sp_nodes plan) \<and>
    (\<forall>flog vf explicit cs ttm.
      evaluate_series_execution_plan flog shared vf explicit cs ttm = evaluate_series_execution_plan flog plan vf explicit cs ttm)"
  using built_plan_shared [OF assms] shared_evaluates by blast

text \<open>The square of a ratio, whose two factors are one node.\<close>

definition square_expression :: pyval where
  "square_expression = VDict [(''kind'', VStr ''binary''), (''operator'', VStr ''multiply''),
     (''left'', ratio_expression), (''right'', ratio_expression)]"

definition square_plan :: series_plan where
  "square_plan = projr (build_series_execution_plan square_expression [(''p'', ''profit''), (''r'', ''revenue'')] 0)"

lemma square_plan: "build_series_execution_plan square_expression [(''p'', ''profit''), (''r'', ''revenue'')] 0 = Inr square_plan"
proof -
  have "\<not> isl (build_series_execution_plan square_expression [(''p'', ''profit''), (''r'', ''revenue'')] 0)" by code_simp
  then show ?thesis unfolding square_plan_def by (simp add: sum.collapse(2))
qed

lemma shared_plan_equal_witness:
  "\<exists>shared. share_columnar_subexpressions square_plan = Inr shared \<and> length (sp_nodes square_plan) = 7 \<and>
    length (sp_nodes shared) = 4 \<and>
    evaluate_series_execution_plan (\<lambda>x. x) shared ratio_input None None ratio_windows
      = Inr [Some (NFloat 25), None, Some (NFloat 36)]"
proof -
  obtain shared where s: "share_columnar_subexpressions square_plan = Inr shared"
    and e: "evaluate_series_execution_plan (\<lambda>x. x) shared ratio_input None None ratio_windows
      = evaluate_series_execution_plan (\<lambda>x. x) square_plan ratio_input None None ratio_windows"
    using shared_plan_equal [OF square_plan] by blast
  have "length (sp_nodes square_plan) = 7" "length (sp_nodes (projr (share_columnar_subexpressions square_plan))) = 4" by code_simp+
  moreover have "evaluate_series_execution_plan (\<lambda>x. x) square_plan ratio_input None None ratio_windows
      = Inr [Some (NFloat 25), None, Some (NFloat 36)]" by code_simp
  ultimately show ?thesis using s e by simp
qed

end
