(* ===== verification/PlanTypes.thy ===== *)
theory PlanTypes
  imports PlanSound AlphaValidator
begin

text \<open>
  Type soundness of the Alpha language: a frozen expression the kernel accepts builds a plan, and the
  plan evaluates on aligned input to a value of its type. No key, index, type or value error can
  occur; only an integer beyond the float range stops an evaluation, and \<open>rank\<close>, which needs the whole
  cross-section, in an expression over stock series.
\<close>

lemma overflow_to_float [overflow_intros]: "overflow_only (to_float v)"
  by (cases v) (auto intro: overflow_intros)

lemma overflow_range [overflow_intros]: "overflow_only (require_float_range v)"
  by (auto simp: require_float_range_def intro!: overflow_intros)

lemma overflow_ldexp [overflow_intros]: "overflow_only (ldexp x k)"
  by (auto simp: ldexp_def intro: overflow_intros)

section \<open>Cells\<close>

lemma overflow_num_op [overflow_intros]: "overflow_only (num_op f g a b)"
  unfolding num_op_def by (cases a; cases b) (auto intro!: overflow_intros)

lemma overflow_num_div [overflow_intros]: "overflow_only (num_div a b)"
  unfolding num_div_def by (cases a; cases b) (auto intro!: overflow_intros)

lemma overflow_finite_or_missing [overflow_intros]: "overflow_only (finite_or_missing v)"
  by (cases v) (auto simp: finite_or_missing_def intro!: overflow_intros)

lemma overflow_broadcast: "(\<And>s. v = PSeries s \<Longrightarrow> length s = n) \<Longrightarrow> overflow_only (broadcast v n)"
  by (cases v) (auto simp: broadcast_def intro!: overflow_intros)

lemma broadcast_length: "broadcast v n = Inr s \<Longrightarrow> length s = n"
  by (auto simp: broadcast_def split: plan_value.splits if_splits)

lemma overflow_unary [overflow_intros]: "overflow_only (unary v i)"
  by (cases v) (auto simp: unary_def intro!: overflow_intros)

lemma overflow_map_cell [overflow_intros]: "(\<And>x. overflow_only (f x)) \<Longrightarrow> overflow_only (map_cell f item)"
  by (cases item) (auto simp: map_cell_def intro!: overflow_intros)

lemma overflow_map_numeric: "(\<And>x. overflow_only (f x)) \<Longrightarrow> overflow_only (map_numeric v f)"
  by (cases v) (auto simp: map_numeric_def intro!: overflow_intros split: option.splits)

lemma overflow_cells [overflow_intros]:
  "overflow_only (absolute_cell v)" "overflow_only (sign_cell v)" "overflow_only (logarithm_cell flog v)"
  by (auto simp: absolute_cell_def sign_cell_def logarithm_cell_def intro!: overflow_intros)

definition known_operators :: "string list" where
  "known_operators = ARITHMETIC_OPERATORS @ COMPARISON_OPERATORS @ BOOLEAN_OPERATORS"

lemma overflow_comparison: "i \<in> set (COMPARISON_OPERATORS @ BOOLEAN_OPERATORS) \<Longrightarrow> overflow_only (comparison i a b)"
  by (auto simp: comparison_def Let_def COMPARISON_OPERATORS_def BOOLEAN_OPERATORS_def intro!: overflow_intros)

lemma overflow_binary_cell:
  assumes "i \<in> set known_operators"
  shows "overflow_only (binary_cell i a b)"
proof -
  have "overflow_only (comparison i x y)" if "i \<notin> set ARITHMETIC_OPERATORS" for x y
    using assms that by (intro overflow_comparison) (auto simp: known_operators_def)
  then show ?thesis
    unfolding binary_cell_def by (cases a; cases b) (auto simp: ARITHMETIC_OPERATORS_def intro!: overflow_intros)
qed

lemma overflow_binary:
  assumes "i \<in> set known_operators" "\<And>s. a = PSeries s \<Longrightarrow> length s = n" "\<And>s. b = PSeries s \<Longrightarrow> length s = n"
  shows "overflow_only (binary i a b n)"
  using assms unfolding binary_def by (auto intro!: overflow_intros overflow_broadcast overflow_binary_cell)

section \<open>Windows\<close>

lemma overflow_series_and_window: "overflow_only (series_and_window [PSeries s, PNum (NInt w)])"
  by (auto simp: series_and_window_def intro!: overflow_intros)

lemma series_and_window_result:
  "series_and_window [PSeries s, PNum (NInt w)] = Inr (items, w') \<Longrightarrow> length items = length s \<and> w' = w"
  by (auto simp: series_and_window_def dest: mapE_length)

lemma overflow_prior_item: "1 \<le> w \<Longrightarrow> i < length items \<Longrightarrow> overflow_only (prior_item items w i)"
  by (auto simp: prior_item_def intro!: overflow_intros)

lemma overflow_difference [overflow_intros]: "overflow_only (difference_cell a b)"
  by (auto simp: difference_cell_def intro!: overflow_intros split: option.splits)

lemma overflow_change [overflow_intros]: "overflow_only (change_cell a b)"
  by (auto simp: change_cell_def intro!: overflow_intros split: option.splits)

lemma fold_appends:
  assumes "foldE f xs s = Inr t" "\<And>x s t. f x s = Inr t \<Longrightarrow> length (snd t) = Suc (length (snd s))"
  shows "length (snd t) = length (snd s) + length xs"
  using assms(1)
proof (induction xs arbitrary: s)
  case (Cons x xs)
  then show ?case using assms(2) by fastforce
qed simp

lemma overflow_bucket [overflow_intros]: "overflow_only (bucket_add v b)" "overflow_only (bucket_value b)"
  by (auto simp: bucket_add_def bucket_value_def intro!: overflow_intros)

lemma overflow_project [overflow_intros]: "d \<noteq> 0 \<Longrightarrow> overflow_only (project_sum_buckets d s)"
proof -
  assume "d \<noteq> 0"
  then have "overflow_only (bindE (mapE (project_bucket bs d) is) (\<lambda>projected. float_of (sum_list projected)))" for bs "is"
    unfolding project_bucket_def by (intro overflow_intros) (auto intro!: overflow_intros)
  then show ?thesis
    unfolding project_sum_buckets_def overflow_only_def by (force split: prod.splits sum.splits py_error.splits)
qed

lemma overflow_update [overflow_intros]: "overflow_only (update_sum_bucket v s)"
  by (auto simp: update_sum_bucket_def intro!: overflow_intros split: prod.splits)

lemma overflow_count [overflow_intros]: "(\<And>x b. overflow_only (update x b)) \<Longrightarrow> overflow_only (count_cell update step item s)"
  by (auto simp: count_cell_def intro!: overflow_intros split: prod.splits option.splits)

lemma overflow_total_step [overflow_intros]: "1 \<le> w \<Longrightarrow> overflow_only (total_step items w mean i s)"
  unfolding total_step_def by (auto intro!: overflow_intros split: prod.splits)

lemma overflow_deviation_step [overflow_intros]: "overflow_only (deviation_step w item s)"
  by (auto simp: deviation_step_def moments_deviation_def deviation_of_def Let_def intro!: overflow_intros
      split: prod.splits sum.splits)

lemma total_step_length: "total_step items w mean i s = Inr t \<Longrightarrow> length (snd t) = Suc (length (snd s))"
  by (auto simp: total_step_def split: prod.splits if_splits)

lemma deviation_step_length: "deviation_step w item s = Inr t \<Longrightarrow> length (snd t) = Suc (length (snd s))"
  by (auto simp: deviation_step_def Let_def split: prod.splits)

text \<open>A builtin over a series and a window gives a series of the same length.\<close>

definition keeps_length :: "nat \<Rightarrow> py_error + series \<Rightarrow> bool" where
  "keeps_length n m \<longleftrightarrow> overflow_only m \<and> (\<forall>s. m = Inr s \<longrightarrow> length s = n)"

lemma keeps_length_window:
  assumes "\<And>items. series_and_window [PSeries s, PNum (NInt w)] = Inr (items, w) \<Longrightarrow> length items = length s \<Longrightarrow>
      keeps_length (length s) (f items w)"
  shows "keeps_length (length s) (bindE (series_and_window [PSeries s, PNum (NInt w)]) (\<lambda>(items, w). f items w))"
proof (cases "series_and_window [PSeries s, PNum (NInt w)]")
  case (Inl e)
  then show ?thesis using overflow_series_and_window [of s w] by (simp add: keeps_length_def overflow_only_def)
next
  case (Inr r)
  then show ?thesis using series_and_window_result [of s w] assms by (cases r) auto
qed

lemma keeps_length_mapE: "(\<And>x. x \<in> set xs \<Longrightarrow> overflow_only (f x)) \<Longrightarrow> n = length xs \<Longrightarrow> keeps_length n (mapE f xs)"
  by (auto simp: keeps_length_def dest: mapE_length intro: overflow_intros)

lemma keeps_length_fold:
  assumes "\<And>x s. x \<in> set xs \<Longrightarrow> overflow_only (f x s)"
    and "\<And>x s t. f x s = Inr t \<Longrightarrow> length (snd t) = Suc (length (snd s))" and "snd s = []" and "n = length xs"
  shows "keeps_length n (bindE (foldE f xs s) (\<lambda>(state, result). Inr result))"
  unfolding keeps_length_def
proof (intro conjI allI impI)
  show "overflow_only (bindE (foldE f xs s) (\<lambda>(state, result). Inr result))"
    using assms(1) by (auto intro!: overflow_intros)
  fix r assume "bindE (foldE f xs s) (\<lambda>(state, result). Inr result) = Inr r"
  then show "length r = n" using fold_appends [of f xs s] assms by force
qed

lemma windowed_keep_length:
  assumes "1 \<le> w"
  shows "keeps_length (length s) (lag [PSeries s, PNum (NInt w)])"
    and "keeps_length (length s) (delta [PSeries s, PNum (NInt w)])"
    and "keeps_length (length s) (pct_change [PSeries s, PNum (NInt w)])"
    and "keeps_length (length s) (rolling_total mean [PSeries s, PNum (NInt w)])"
    and "keeps_length (length s) (population_std [PSeries s, PNum (NInt w)])"
  unfolding lag_def delta_def pct_change_def rolling_total_def population_std_def
  by (rule keeps_length_window keeps_length_mapE keeps_length_fold;
      use assms in \<open>auto intro!: overflow_intros overflow_prior_item keeps_length_mapE keeps_length_fold
        dest: total_step_length deviation_step_length\<close>)+

lemma extreme_keeps_length:
  assumes "1 \<le> w"
  shows "keeps_length (length s) (rolling_extreme minimum [PSeries s, PNum (NInt w)])"
proof (cases "series_and_window [PSeries s, PNum (NInt w)]")
  case (Inl e)
  then show ?thesis using overflow_series_and_window [of s w] by (simp add: rolling_extreme_def keeps_length_def overflow_only_def)
next
  case (Inr r)
  then obtain items where items: "series_and_window [PSeries s, PNum (NInt w)] = Inr (items, int (nat w))" "length items = length s"
    using series_and_window_result [of s w] assms by (cases r) auto
  have "1 \<le> nat w" using assms by simp
  from rolling_extreme_windows [OF items(1) this, of minimum] items(2) show ?thesis
    by (auto simp: keeps_length_def overflow_only_def)
qed

lemmas builtins_keep_length = windowed_keep_length extreme_keeps_length

section \<open>Values of a type\<close>

definition stock_type :: "value_type \<Rightarrow> bool" where
  "stock_type t \<longleftrightarrow> t = NUMERIC_SERIES \<or> t = BOOLEAN_SERIES"

text \<open>A scalar type admits a series too: a binary operation broadcasts two scalars to the length of the input.\<close>

definition fits :: "nat \<Rightarrow> value_type \<Rightarrow> plan_value \<Rightarrow> bool" where
  "fits n t v =
     (if t = WINDOW then (case v of PNum (NInt w) \<Rightarrow> 1 \<le> w | _ \<Rightarrow> False)
      else case v of PSeries s \<Rightarrow> length s = n | _ \<Rightarrow> t = NUMBER \<or> t = BOOLEAN)"

definition conforms :: "nat \<Rightarrow> value_type \<Rightarrow> node_result \<Rightarrow> bool" where
  "conforms n t r \<longleftrightarrow> fits n t (fst r) \<and> (\<forall>w. snd r = Some w \<longrightarrow> length w = n)"

definition rank_error :: py_error where
  "rank_error = TypeError ''rank requires a complete cross-section''"

definition safe :: "nat \<Rightarrow> value_type \<Rightarrow> py_error + node_result \<Rightarrow> bool" where
  "safe n t m =
     (case m of Inr r \<Rightarrow> conforms n t r | Inl e \<Rightarrow> e = OverflowError \<or> e = rank_error \<and> stock_type t)"

lemma safe_overflow: "overflow_only m \<Longrightarrow> (\<And>r. m = Inr r \<Longrightarrow> conforms n t r) \<Longrightarrow> safe n t m"
  by (auto simp: safe_def overflow_only_def split: sum.splits)

lemma safe_bind:
  assumes "safe n t m" "\<And>r. m = Inr r \<Longrightarrow> conforms n t r \<Longrightarrow> safe n t' (f r)" "stock_type t \<Longrightarrow> stock_type t'"
  shows "safe n t' (bindE m f)"
  using assms by (cases m) (auto simp: safe_def)

lemma series_type_cases:
  "t \<in> set NUMERIC_TYPES \<Longrightarrow> t = NUMBER \<or> t = NUMERIC_SERIES \<or> t = COMMON_NUMERIC_SERIES"
  "t \<in> set BOOLEAN_TYPES \<Longrightarrow> t = BOOLEAN \<or> t = BOOLEAN_SERIES \<or> t = COMMON_BOOLEAN_SERIES"
  by (auto simp: NUMERIC_TYPES_def BOOLEAN_TYPES_def)

lemma fits_length: "fits n t (PSeries s) \<Longrightarrow> length s = n"
  by (auto simp: fits_def split: if_splits)

lemma fits_series: "length s = n \<Longrightarrow> t \<noteq> WINDOW \<Longrightarrow> fits n t (PSeries s)"
  by (simp add: fits_def)

lemma scope_not_window: "result_scope ts b \<noteq> WINDOW"
  by (auto simp: result_scope_def)

lemma scope_stock: "t \<in> set ts \<Longrightarrow> stock_type t \<Longrightarrow> stock_type (result_scope ts b)"
  by (auto simp: result_scope_def stock_type_def list_ex_iff)

section \<open>Operators\<close>

lemma unary_fits: "unary v i = Inr v' \<Longrightarrow> fits n t v \<Longrightarrow> t \<noteq> WINDOW \<Longrightarrow> fits n t v'"
  by (auto simp: unary_def fits_def split: plan_value.splits dest!: mapE_length)

lemma safe_unary:
  assumes "unary_result_type i t = Inr t'" "conforms n t r"
  shows "t' = t \<and> t \<noteq> WINDOW \<and> safe n t' (eval_unary i r)"
proof -
  have "t' = t \<and> (t \<in> set BOOLEAN_TYPES \<or> t \<in> set NUMERIC_TYPES)"
    using assms(1) unfolding unary_result_type_def Let_def
    by (elim bindE_InrE) (simp only: raiseIf_Inr_iff sum.inject de_Morgan_disj not_not split: if_splits; blast)
  then have t: "t' = t" "t \<noteq> WINDOW" by (auto simp: NUMERIC_TYPES_def BOOLEAN_TYPES_def)
  have "safe n t (eval_unary i r)"
  proof (rule safe_overflow)
    show "overflow_only (eval_unary i r)" unfolding eval_unary_def by (intro overflow_intros)
    fix r' assume "eval_unary i r = Inr r'"
    then show "conforms n t r'"
      using assms(2) t(2) unary_fits [of "fst r" i] by (auto simp: eval_unary_def conforms_def split: if_splits)
  qed
  then show ?thesis using t by simp
qed

lemma masked_length [simp]: "length (map2 f (xs :: 'a list) (map2 g (l :: 'b list) r)) = min (length xs) (min (length l) (length r))"
  by simp

lemma safe_binary:
  assumes "binary_result_type i t1 t2 = Inr t" "conforms n t1 a" "conforms n t2 b"
  shows "(stock_type t1 \<or> stock_type t2 \<longrightarrow> stock_type t) \<and> safe n t (eval_binary n i a b)"
proof -
  obtain allowed where allowed: "operand_types i = Inr allowed" "t1 \<in> set allowed" "t2 \<in> set allowed"
    and t: "t = result_scope [t1, t2] (i \<in> set (BOOLEAN_OPERATORS @ COMPARISON_OPERATORS))"
    using assms(1) unfolding binary_result_type_def raiseIf_Inr_iff
    by (elim bindE_InrE) (rule that, assumption, simp_all only: raiseIf_Inr_iff sum.inject de_Morgan_disj not_not)
  have i: "i \<in> set known_operators" and "allowed = BOOLEAN_TYPES \<or> allowed = NUMERIC_TYPES"
    using allowed(1) by (simp_all add: operand_types_def known_operators_def split: if_splits)
  then have w: "t1 \<noteq> WINDOW" "t2 \<noteq> WINDOW"
    using allowed(2,3) by (auto simp: NUMERIC_TYPES_def BOOLEAN_TYPES_def)
  have lengths: "\<And>s. fst a = PSeries s \<Longrightarrow> length s = n" "\<And>s. fst b = PSeries s \<Longrightarrow> length s = n"
    using assms(2,3) by (auto simp: conforms_def intro: fits_length)
  have "safe n t (eval_binary n i a b)"
  proof (rule safe_overflow)
    show "overflow_only (eval_binary n i a b)"
      unfolding eval_binary_def by (intro overflow_intros overflow_binary [OF i lengths]) auto
    fix r assume "eval_binary n i a b = Inr r"
    then obtain s where s: "binary i (fst a) (fst b) n = Inr s"
      and r: "r = (if i \<notin> set ARITHMETIC_OPERATORS then (PSeries s, None)
          else case (snd a, snd b) of
            (Some l, Some r) \<Rightarrow>
              (PSeries (map2 (\<lambda>item ok. if ok then item else None) s (map2 windows_match l r)), Some (map2 join_windows l r))
          | (None, r) \<Rightarrow> (PSeries s, r)
          | (l, None) \<Rightarrow> (PSeries s, l))"
      by (auto simp: eval_binary_def)
    have "length s = n" using s by (rule binary_length)
    then show "conforms n t r"
      using assms(2,3) scope_not_window unfolding r t conforms_def
      by (cases "snd a"; cases "snd b") (auto intro!: fits_series)
  qed
  then show ?thesis using t scope_stock [of _ "[t1, t2]"] by auto
qed

section \<open>Calls\<close>

lemma map_numeric_fits: "map_numeric v f = Inr v' \<Longrightarrow> fits n t v \<Longrightarrow> t \<noteq> WINDOW \<Longrightarrow> fits n t v'"
  by (auto simp: map_numeric_def fits_def split: plan_value.splits option.splits dest!: mapE_length)

lemma cellwise_builtin:
  assumes "i \<in> set [''abs'', ''log'', ''sign'']"
  obtains f where "\<And>v. evaluate_builtin flog i [v] = map_numeric v f" "\<And>x. overflow_only (f x)"
proof -
  consider "i = ''abs''" | "i = ''log''" | "i = ''sign''" using assms by auto
  then show thesis
  proof cases
    case 1
    then show ?thesis by (intro that [of absolute_cell]) (simp_all add: evaluate_builtin_def first_argument_def overflow_intros)
  next
    case 2
    then show ?thesis by (intro that [of "logarithm_cell flog"]) (simp_all add: evaluate_builtin_def first_argument_def overflow_intros)
  next
    case 3
    then show ?thesis by (intro that [of sign_cell]) (simp_all add: evaluate_builtin_def first_argument_def overflow_intros)
  qed
qed

lemma safe_cellwise:
  assumes "i \<in> set [''abs'', ''log'', ''sign'']" "conforms n t r" "t \<noteq> WINDOW"
  shows "safe n t (eval_call flog n i [r])"
proof -
  obtain f where f: "\<And>v. evaluate_builtin flog i [v] = map_numeric v f" "\<And>x. overflow_only (f x)"
    using cellwise_builtin [OF assms(1)] by blast
  have call: "eval_call flog n i [r] = bindE (map_numeric (fst r) f) (\<lambda>v. Inr (v, snd r))"
    using assms(1) f(1) by (auto simp: eval_call_def)
  show ?thesis
    unfolding call by (rule safe_overflow)
      (use assms(2,3) overflow_map_numeric [OF f(2)] map_numeric_fits in \<open>auto simp: conforms_def intro!: overflow_intros\<close>)
qed

lemma safe_temporal:
  assumes "i \<in> set [''lag'', ''delta'', ''pct_change'', ''ts_mean'', ''ts_sum'', ''ts_std'', ''ts_min'', ''ts_max'']"
    and "conforms n t r" "t = NUMERIC_SERIES \<or> t = COMMON_NUMERIC_SERIES" "conforms n WINDOW r'"
  shows "safe n t (eval_call flog n i [r, r'])"
proof -
  obtain s where s: "fst r = PSeries s" "length s = n"
    using assms(2,3) by (auto simp: conforms_def fits_def split: plan_value.splits)
  obtain w where w: "fst r' = PNum (NInt w)" "1 \<le> w"
    using assms(4) by (auto simp: conforms_def fits_def split: plan_value.splits num.splits)
  have "\<exists>m. evaluate_builtin flog i [PSeries s, PNum (NInt w)] = series_result m \<and> keeps_length (length s) m"
  proof -
    define arguments where "arguments = [PSeries s, PNum (NInt w)]"
    define results where "results = [lag arguments, delta arguments, pct_change arguments, rolling_total True arguments,
      rolling_total False arguments, population_std arguments, rolling_extreme True arguments, rolling_extreme False arguments]"
    have "evaluate_builtin flog i arguments \<in> series_result ` set results"
      using assms(1) by (auto simp: evaluate_builtin_def results_def)
    moreover have "\<forall>m\<in>set results. keeps_length (length s) m"
      using builtins_keep_length [OF w(2), of s] by (simp add: results_def arguments_def)
    ultimately show ?thesis unfolding arguments_def by blast
  qed
  then obtain m where m: "evaluate_builtin flog i [PSeries s, PNum (NInt w)] = series_result m" "keeps_length (length s) m"
    by blast
  have call: "eval_call flog n i [r, r'] = bindE m (\<lambda>u. Inr (PSeries u, None))"
    using assms(1) m(1) by (auto simp: eval_call_def s(1) w(1) series_result_def bindE_assoc)
  show ?thesis
    unfolding call by (rule safe_overflow)
      (use m(2) s(2) assms(3) in \<open>auto simp: keeps_length_def conforms_def intro!: overflow_intros fits_series\<close>)
qed

lemma rank_unsafe: "eval_call flog n ''rank'' [r] = Inl rank_error"
  by (simp add: eval_call_def evaluate_builtin_def rank_error_def)

lemma safe_rank: "safe n NUMERIC_SERIES (eval_call flog n ''rank'' [r])"
  by (simp add: rank_unsafe safe_def stock_type_def)

lemma overflow_choose_cell [overflow_intros]: "overflow_only (choose_cell c a b)"
  by (auto simp: choose_cell_def intro!: overflow_intros split: option.splits)

lemma remdups_same: "set xs \<subseteq> {n} \<Longrightarrow> remdups xs = [] \<or> remdups xs = [n]"
  by (induction xs) (auto dest: subset_singletonD)

lemma overflow_condition: "(\<And>s. v = PSeries s \<Longrightarrow> length s = n) \<Longrightarrow> overflow_only (condition_array v n)"
  unfolding condition_array_def by (intro overflow_intros overflow_broadcast) (auto intro!: overflow_intros split: option.splits)

lemma condition_length: "condition_array v n = Inr xs \<Longrightarrow> length xs = n"
  by (auto simp: condition_array_def dest!: mapE_length broadcast_length)

lemma if_else_fits:
  assumes "\<And>s. PSeries s \<in> {c, a, b} \<Longrightarrow> length s = n"
  shows "overflow_only (if_else [c, a, b])"
    and "if_else [c, a, b] = Inr (PSeries s) \<Longrightarrow> length s = n"
    and "if_else [c, a, b] = Inr v \<Longrightarrow> (\<And>s. v \<noteq> PSeries s) \<Longrightarrow> (\<And>s. PSeries s \<notin> {c, a, b})"
proof -
  have "set (concat (map (\<lambda>v. case v of PSeries s \<Rightarrow> [length s] | _ \<Rightarrow> []) [c, a, b])) \<subseteq> {n}"
    using assms by (auto split: plan_value.splits)
  then have "series_lengths [c, a, b] = [] \<or> series_lengths [c, a, b] = [n]"
    unfolding series_lengths_def by (rule remdups_same)
  then consider (none) "series_lengths [c, a, b] = []" | (some) "series_lengths [c, a, b] = [n]" by blast
  note lengths = this
  show "overflow_only (if_else [c, a, b])"
    by (cases rule: lengths) (auto simp: if_else_def intro!: overflow_intros)
  show "length s = n" if "if_else [c, a, b] = Inr (PSeries s)"
    using that by (cases rule: lengths) (auto simp: if_else_def split: option.splits dest: mapE_length)
  show "\<And>s. PSeries s \<notin> {c, a, b}" if "if_else [c, a, b] = Inr v" "\<And>s. v \<noteq> PSeries s"
    using that by (cases rule: lengths) (auto simp: if_else_def series_lengths_def)
qed

lemma chosen_length: "length flags = n \<Longrightarrow> (\<And>w. l = Some w \<Longrightarrow> length w = n) \<Longrightarrow> (\<And>w. r = Some w \<Longrightarrow> length w = n) \<Longrightarrow>
    chosen_windows flags l r = Some w \<Longrightarrow> length w = n"
  by (cases l; cases r) (auto simp: chosen_windows_def window_items_def)

lemma scope_scalar: "\<lbrakk>\<And>u. u \<in> set ts \<Longrightarrow> u = NUMBER \<or> u = BOOLEAN\<rbrakk> \<Longrightarrow> result_scope ts b = NUMBER \<or> result_scope ts b = BOOLEAN"
  by (auto simp: result_scope_def list_ex_iff SERIES_TYPES_def)

lemma safe_if_else:
  assumes "conditional_result_type tc ta tb = Inr t" "conforms n tc c" "conforms n ta a" "conforms n tb b"
  shows "(stock_type tc \<or> stock_type ta \<or> stock_type tb \<longrightarrow> stock_type t) \<and> safe n t (eval_call flog n ''if_else'' [c, a, b])"
proof -
  obtain boolean where t: "t = result_scope [tc, ta, tb] boolean"
    and w: "tc \<noteq> WINDOW" "ta \<noteq> WINDOW" "tb \<noteq> WINDOW"
    using assms(1) by (auto simp: conditional_result_type_def NUMERIC_TYPES_def BOOLEAN_TYPES_def split: if_splits)
  have len: "\<And>s. PSeries s \<in> {fst c, fst a, fst b} \<Longrightarrow> length s = n"
    using assms(2-4) unfolding conforms_def by (metis fits_length insertE singletonD)
  have "safe n t (eval_call flog n ''if_else'' [c, a, b])"
  proof (rule safe_overflow)
    show "overflow_only (eval_call flog n ''if_else'' [c, a, b])"
      using len unfolding eval_call_def
      by (auto simp: nthE_def evaluate_builtin_def intro!: overflow_intros overflow_condition if_else_fits(1))
    fix r assume "eval_call flog n ''if_else'' [c, a, b] = Inr r"
    then obtain flags v where flags: "condition_array (fst c) n = Inr flags" and v: "if_else [fst c, fst a, fst b] = Inr v"
      and r: "r = (v, chosen_windows flags (snd a) (snd b))"
      by (auto simp: eval_call_def nthE_def evaluate_builtin_def)
    have "fits n t v"
    proof (cases "\<exists>s. v = PSeries s")
      case True
      then show ?thesis using if_else_fits(2) [OF len] v scope_not_window t by (auto intro!: fits_series)
    next
      case False
      then have "PSeries s \<notin> {fst c, fst a, fst b}" for s using if_else_fits(3) [OF len v] by blast
      then have "u = NUMBER \<or> u = BOOLEAN" if "u \<in> set [tc, ta, tb]" for u
        using assms(2-4) w that by (auto simp: conforms_def fits_def split: plan_value.splits)
      then have "t = NUMBER \<or> t = BOOLEAN" unfolding t by (rule scope_scalar)
      then show ?thesis using False by (auto simp: fits_def split: plan_value.splits)
    qed
    moreover have "length u = n" if "chosen_windows flags (snd a) (snd b) = Some u" for u
      using chosen_length [OF condition_length [OF flags] _ _ that] assms(3,4) by (auto simp: conforms_def)
    ultimately show "conforms n t r" unfolding r conforms_def by simp
  qed
  then show ?thesis using t scope_stock [of _ "[tc, ta, tb]"] by auto
qed

section \<open>Accepted expressions\<close>

definition env_ok :: "nat \<Rightarrow> (string \<times> pyfloat option list) list \<Rightarrow> (string \<times> int list) list \<Rightarrow> common_values option
    \<Rightarrow> plan_node list \<Rightarrow> bool" where
  "env_ok n vf fw cs nodes \<longleftrightarrow>
     (\<forall>w\<in>snd ` set fw. length w = n) \<and>
     (\<forall>p\<in>set nodes.
       (pn_kind p = KField \<longrightarrow> (\<exists>s. map_of vf (pn_identifier p) = Some s \<and> length s = n)) \<and>
       (pn_kind p = KCommon \<longrightarrow> (\<exists>c s. cs = Some c \<and> map_of c (pn_identifier p, pn_industry_code p) = Some s \<and> length s = n)))"

definition account_nodes :: "plan_node list \<Rightarrow> bool" where
  "account_nodes nodes \<longleftrightarrow> (\<forall>p\<in>set nodes. pn_kind p \<noteq> KField \<and> pn_identifier p \<noteq> ''rank'')"

definition reads_fields :: "plan_node list \<Rightarrow> string list \<Rightarrow> bool" where
  "reads_fields nodes field_ids \<longleftrightarrow>
     (\<forall>p\<in>set nodes. (pn_kind p = KField \<longrightarrow> pn_identifier p \<in> set field_ids) \<and>
       (pn_kind p = KCommon \<longrightarrow> pn_identifier p \<in> set (map fst COMMON_INPUTS)))"

text \<open>An accepted node builds, reads what it announces, and evaluates to its type.\<close>

definition typed :: "(rat \<Rightarrow> rat) \<Rightarrow> value_type \<Rightarrow> string list \<Rightarrow> pyval \<Rightarrow> bool" where
  "typed flog t field_ids e \<longleftrightarrow>
     is_dict e \<and>
     (\<forall>nodes. \<exists>suffix. append_node e nodes = Inr (nodes @ suffix) \<and> suffix \<noteq> [] \<and>
       reads_fields suffix field_ids \<and> (\<not> stock_type t \<longrightarrow> account_nodes suffix) \<and>
       (\<forall>n vf fw cs. env_ok n vf fw cs suffix \<longrightarrow> safe n t (eval_node flog vf fw cs n e)))"

lemma typedD:
  assumes "typed flog t field_ids e"
  obtains suffix where "append_node e nodes = Inr (nodes @ suffix)" "suffix \<noteq> []" "reads_fields suffix field_ids"
    "\<not> stock_type t \<longrightarrow> account_nodes suffix"
    "\<forall>n vf fw cs. env_ok n vf fw cs suffix \<longrightarrow> safe n t (eval_node flog vf fw cs n e)"
  using assms unfolding typed_def by (metis (no_types, lifting))

lemma env_ok_append [simp]: "env_ok n vf fw cs (xs @ ys) \<longleftrightarrow> env_ok n vf fw cs xs \<and> env_ok n vf fw cs ys"
  by (auto simp: env_ok_def)

lemma account_nodes_append [simp]: "account_nodes (xs @ ys) \<longleftrightarrow> account_nodes xs \<and> account_nodes ys"
  by (auto simp: account_nodes_def)

lemma reads_fields_append [simp]: "reads_fields (xs @ ys) f \<longleftrightarrow> reads_fields xs f \<and> reads_fields ys f"
  by (auto simp: reads_fields_def)

lemma reads_fields_mono: "reads_fields xs f \<Longrightarrow> set f \<subseteq> set g \<Longrightarrow> reads_fields xs g"
  by (auto simp: reads_fields_def)

lemma item_of_get: "get e k = Some v \<Longrightarrow> item_of e k = Inr v"
  by (simp add: item_of_def)

lemma get_is_dict: "get e k = Some v \<Longrightarrow> is_dict e"
  by (cases e) simp_all

lemma number_of_literal:
  assumes "require_literal location v = Inr u"
  shows "\<exists>x. number_of v = Inr x"
  using assms by (auto simp: require_literal_def number_of_def split: pyval.splits pyfloat.splits)

lemma keys_get: "k \<in> keys e \<Longrightarrow> \<exists>v. get e k = Some v"
  by (cases e) (auto dest: weak_map_of_SomeI)

lemma typed_number:
  assumes "get e ''kind'' = Some (VStr ''number'')" "validate_number_node location e = Inr v"
  shows "typed flog (va_type v) (va_field_ids v) (va_node v)"
proof -
  obtain x where x: "get e ''value'' = Some x"
    using assms(2) keys_get [of "''value''" e] by (auto simp: validate_number_node_def)
  obtain y where y: "number_of x = Inr y" and v: "va_type v = NUMBER" "va_node v = e"
    using assms(2) number_of_literal x by (fastforce simp: validate_number_node_def)
  show ?thesis
    unfolding typed_def v using get_is_dict [OF x] assms(1) x y
    by (simp add: append_node.simps [of e] eval_node.simps [of _ _ _ _ _ e] item_of_get plan_node_def reads_fields_def
        account_nodes_def safe_def conforms_def fits_def)
qed

lemma typed_field:
  assumes "get e ''kind'' = Some (VStr ''field'')" "validate_field_node bindings location e = Inr v"
  shows "typed flog (va_type v) (va_field_ids v) (va_node v)"
proof -
  obtain i where i: "get e ''field_id'' = Some (VStr i)" "va_type v = NUMERIC_SERIES" "va_node v = e" "va_field_ids v = [i]"
    using assms(2) by (auto simp: validate_field_node_def split: option.splits pyval.splits)
  have "safe n NUMERIC_SERIES (eval_node flog vf fw cs n e)" if ok: "env_ok n vf fw cs [plan_node KField i []]"
    for n vf fw cs
  proof -
    obtain s where "map_of vf i = Some s" "length s = n" using ok by (auto simp: env_ok_def plan_node_def)
    moreover have "length w = n" if "map_of fw i = Some w" for w
      using ok map_of_SomeD [OF that] by (force simp: env_ok_def)
    ultimately show ?thesis using assms(1) i(1)
      by (simp add: eval_node.simps [of _ _ _ _ _ e] item_of_get text_of_def eval_field_def lookupE_def safe_def conforms_def
          fits_def)
  qed
  then show ?thesis
    unfolding typed_def i(2-4) using get_is_dict [OF i(1)] assms(1) i(1)
    by (auto simp: append_node.simps [of e] item_of_get text_of_def plan_node_def reads_fields_def stock_type_def)
qed

lemma common_node_shape:
  assumes "validate_common_reference node = Inr e"
  obtains i c where "e = VDict [(''kind'', VStr ''common''), (''identifier'', VStr i), (''industry_code'', c)]"
    "industry_of c = Inr None \<or> (\<exists>code. industry_of c = Inr (Some code))" "i \<in> set (map fst COMMON_INPUTS)"
proof -
  obtain i arguments where e: "common_reference i arguments = Inr e" and known: "i \<in> set (map fst COMMON_INPUTS)"
    using assms unfolding validate_common_reference_def by (auto split: option.splits pyval.splits if_splits)
  obtain c where "e = VDict [(''kind'', VStr ''common''), (''identifier'', VStr i), (''industry_code'', c)]"
    "industry_of c = Inr None \<or> (\<exists>code. industry_of c = Inr (Some code))"
    using e unfolding common_reference_def by (auto simp: industry_of_def split: if_splits)
  then show thesis using known by (rule that)
qed

lemma typed_common:
  assumes "validate_common_node bindings location e = Inr v"
  shows "typed flog (va_type v) (va_field_ids v) (va_node v)"
proof -
  obtain d where d: "validate_common_reference e = Inr d" and v: "va_node v = d" "va_type v = COMMON_NUMERIC_SERIES"
    using assms by (auto simp: validate_common_node_def)
  obtain i c where shape: "d = VDict [(''kind'', VStr ''common''), (''identifier'', VStr i), (''industry_code'', c)]"
    "industry_of c = Inr None \<or> (\<exists>code. industry_of c = Inr (Some code))" "i \<in> set (map fst COMMON_INPUTS)"
    using d by (rule common_node_shape)
  have "i \<noteq> ''rank''" using shape(3) by (auto simp: COMMON_INPUTS_def)
  obtain code where code: "industry_of c = Inr code" using shape(2) by blast
  have "safe n COMMON_NUMERIC_SERIES (eval_node flog vf fw cs n d)"
    if ok: "env_ok n vf fw cs [(plan_node KCommon i [])\<lparr>pn_industry_code := code\<rparr>]" for n vf fw cs
  proof -
    obtain common s where "cs = Some common" "map_of common (i, code) = Some s" "length s = n"
      using ok by (auto simp: env_ok_def plan_node_def)
    then show ?thesis
      by (simp add: shape(1) eval_node.simps [of _ _ _ _ _ d, unfolded shape(1)] item_of_def text_of_def code eval_common_def lookupE_def
          safe_def conforms_def fits_def)
  qed
  then show ?thesis
    unfolding typed_def v
    by (auto simp: shape(1) append_node.simps [of d, unfolded shape(1)] item_of_def text_of_def code plan_node_def reads_fields_def
        account_nodes_def shape(3) [unfolded set_map] \<open>i \<noteq> ''rank''\<close>)
qed

lemma typed_unary:
  assumes "typed flog t field_ids operand" "unary_result_type i t = Inr t'"
  shows "typed flog t' field_ids (VDict [(''kind'', VStr ''unary''), (''operator'', VStr i), (''operand'', operand)])"
    (is "typed flog t' field_ids ?e")
proof -
  have t: "t' = t" and i: "i \<noteq> ''rank''"
    using assms(2) unfolding unary_result_type_def Let_def by (elim bindE_InrE; force simp: raiseIf_def split: if_splits)+
  have "\<exists>suffix. append_node ?e nodes = Inr (nodes @ suffix) \<and> suffix \<noteq> [] \<and>
      reads_fields suffix field_ids \<and> (\<not> stock_type t' \<longrightarrow> account_nodes suffix) \<and>
      (\<forall>n vf fw cs. env_ok n vf fw cs suffix \<longrightarrow> safe n t' (eval_node flog vf fw cs n ?e))" for nodes
  proof -
    obtain s where s: "append_node operand nodes = Inr (nodes @ s)" "s \<noteq> []" "reads_fields s field_ids"
      "\<not> stock_type t \<longrightarrow> account_nodes s" "\<forall>n vf fw cs. env_ok n vf fw cs s \<longrightarrow> safe n t (eval_node flog vf fw cs n operand)"
      by (rule typedD [OF assms(1)])
    have dict: "is_dict operand" using assms(1) by (simp add: typed_def)
    let ?p = "plan_node KUnary i [last_index (nodes @ s)]"
    have "append_node ?e nodes = Inr (nodes @ s @ [?p])"
      using s(1) dict by (simp add: append_node.simps [of ?e] item_of_def text_of_def mapping_def)
    moreover have "safe n t' (eval_node flog vf fw cs n ?e)" if "env_ok n vf fw cs (s @ [?p])" for n vf fw cs
    proof -
      have "eval_node flog vf fw cs n ?e = bindE (eval_node flog vf fw cs n operand) (eval_unary i)"
        by (simp add: eval_node.simps [of _ _ _ _ _ ?e] item_of_def text_of_def)
      moreover have "safe n t' (bindE (eval_node flog vf fw cs n operand) (eval_unary i))"
        by (rule safe_bind [OF s(5) [rule_format]]) (use that safe_unary [OF assms(2)] t in auto)
      ultimately show ?thesis by simp
    qed
    ultimately show ?thesis
      using s(2-4) i t by (intro exI [of _ "s @ [?p]"]) (simp add: reads_fields_def account_nodes_def plan_node_def)
  qed
  then show ?thesis by (simp add: typed_def)
qed

lemma typed_binary:
  assumes "typed flog t1 f1 left" "typed flog t2 f2 right" "binary_result_type i t1 t2 = Inr t"
    and "set f1 \<subseteq> set f" "set f2 \<subseteq> set f"
  shows "typed flog t f (VDict [(''kind'', VStr ''binary''), (''operator'', VStr i), (''left'', left), (''right'', right)])"
    (is "typed flog t f ?e")
proof -
  obtain allowed where "operand_types i = Inr allowed" using assms(3) by (auto simp: binary_result_type_def)
  then have i: "i \<noteq> ''rank''"
    by (auto simp: operand_types_def BOOLEAN_OPERATORS_def ARITHMETIC_OPERATORS_def COMPARISON_OPERATORS_def)
  have "\<exists>suffix. append_node ?e nodes = Inr (nodes @ suffix) \<and> suffix \<noteq> [] \<and>
      reads_fields suffix f \<and> (\<not> stock_type t \<longrightarrow> account_nodes suffix) \<and>
      (\<forall>n vf fw cs. env_ok n vf fw cs suffix \<longrightarrow> safe n t (eval_node flog vf fw cs n ?e))" for nodes
  proof -
    obtain s1 where s1: "append_node left nodes = Inr (nodes @ s1)" "s1 \<noteq> []" "reads_fields s1 f1"
      "\<not> stock_type t1 \<longrightarrow> account_nodes s1" "\<forall>n vf fw cs. env_ok n vf fw cs s1 \<longrightarrow> safe n t1 (eval_node flog vf fw cs n left)"
      by (rule typedD [OF assms(1)])
    obtain s2 where s2: "append_node right (nodes @ s1) = Inr ((nodes @ s1) @ s2)" "s2 \<noteq> []" "reads_fields s2 f2"
      "\<not> stock_type t2 \<longrightarrow> account_nodes s2" "\<forall>n vf fw cs. env_ok n vf fw cs s2 \<longrightarrow> safe n t2 (eval_node flog vf fw cs n right)"
      by (rule typedD [OF assms(2)])
    have dict: "is_dict left" "is_dict right" using assms(1,2) by (simp_all add: typed_def)
    let ?p = "plan_node KBinary i [last_index (nodes @ s1), last_index ((nodes @ s1) @ s2)]"
    have "append_node ?e nodes = Inr (nodes @ s1 @ s2 @ [?p])"
      using s1(1) s2(1) dict by (simp add: append_node.simps [of ?e] item_of_def text_of_def mapping_def)
    moreover have "safe n t (eval_node flog vf fw cs n ?e)" if "env_ok n vf fw cs (s1 @ s2 @ [?p])" for n vf fw cs
    proof -
      have ok: "safe n t1 (eval_node flog vf fw cs n left)" "safe n t2 (eval_node flog vf fw cs n right)"
        using that s1(5) s2(5) by simp_all
      have "eval_node flog vf fw cs n ?e
          = bindE (eval_node flog vf fw cs n left) (\<lambda>a. bindE (eval_node flog vf fw cs n right) (eval_binary n i a))"
        by (simp add: eval_node.simps [of _ _ _ _ _ ?e] item_of_def text_of_def)
      moreover have stock: "stock_type t1 \<or> stock_type t2 \<Longrightarrow> stock_type t"
        using assms(3) scope_stock [of _ "[t1, t2]"] unfolding binary_result_type_def by (elim bindE_InrE) auto
      have "safe n t (bindE (eval_node flog vf fw cs n left) (\<lambda>a. bindE (eval_node flog vf fw cs n right) (eval_binary n i a)))"
        using safe_binary [OF assms(3)] stock by (intro safe_bind [OF ok(1)] safe_bind [OF ok(2)]) blast+
      ultimately show ?thesis by simp
    qed
    moreover have "account_nodes s1 \<and> account_nodes s2" if "\<not> stock_type t"
      using that s1(4) s2(4) assms(3) scope_stock [of _ "[t1, t2]"] unfolding binary_result_type_def
      by (elim bindE_InrE) auto
    ultimately show ?thesis
      using s1(3) s2(3) i assms(4,5)
      by (intro exI [of _ "s1 @ s2 @ [?p]"]) (auto simp: reads_fields_def account_nodes_def plan_node_def)
  qed
  then show ?thesis by (simp add: typed_def)
qed

text \<open>The arguments of a call, each with its type; a window is a literal.\<close>

definition args_safe :: "nat \<Rightarrow> value_type list \<Rightarrow> py_error + node_result list \<Rightarrow> bool" where
  "args_safe n ts m =
     (case m of
        Inr rs \<Rightarrow> list_all2 (conforms n) ts rs
      | Inl e \<Rightarrow> e = OverflowError \<or> e = rank_error \<and> list_ex stock_type ts)"

definition typed_arguments :: "(rat \<Rightarrow> rat) \<Rightarrow> value_type list \<Rightarrow> string list \<Rightarrow> pyval list \<Rightarrow> bool" where
  "typed_arguments flog ts field_ids es \<longleftrightarrow>
     (\<forall>nodes inputs. \<exists>suffix indices. append_arguments es nodes inputs = Inr (nodes @ suffix, inputs @ indices) \<and>
       reads_fields suffix field_ids \<and> (\<not> list_ex stock_type ts \<longrightarrow> account_nodes suffix) \<and>
       (\<forall>n vf fw cs. env_ok n vf fw cs suffix \<longrightarrow> args_safe n ts (eval_arguments flog vf fw cs n es)))"

lemma typed_argumentsD:
  assumes "typed_arguments flog ts field_ids es"
  obtains suffix indices where "append_arguments es nodes inputs = Inr (nodes @ suffix, inputs @ indices)"
    "reads_fields suffix field_ids" "\<not> list_ex stock_type ts \<longrightarrow> account_nodes suffix"
    "\<forall>n vf fw cs. env_ok n vf fw cs suffix \<longrightarrow> args_safe n ts (eval_arguments flog vf fw cs n es)"
  using spec [OF spec [OF assms [unfolded typed_arguments_def], of nodes], of inputs] by blast

lemma typed_arguments_Nil: "typed_arguments flog [] field_ids []"
  by (simp add: typed_arguments_def reads_fields_def account_nodes_def args_safe_def)

lemma args_safe_Cons:
  assumes "safe n t m" "args_safe n ts ms"
  shows "args_safe n (t # ts) (bindE m (\<lambda>v. bindE ms (\<lambda>vs. Inr (v # vs))))"
  using assms by (cases m; cases ms) (auto simp: safe_def args_safe_def)

lemma typed_arguments_Cons:
  assumes "typed flog t f1 e" "typed_arguments flog ts f2 es" "set f1 \<subseteq> set f" "set f2 \<subseteq> set f"
  shows "typed_arguments flog (t # ts) f (e # es)"
  unfolding typed_arguments_def
proof (intro allI)
  fix nodes :: "plan_node list" and inputs :: "nat list"
  obtain s1 where s1: "append_node e nodes = Inr (nodes @ s1)" "s1 \<noteq> []" "reads_fields s1 f1"
    "\<not> stock_type t \<longrightarrow> account_nodes s1" "\<forall>n vf fw cs. env_ok n vf fw cs s1 \<longrightarrow> safe n t (eval_node flog vf fw cs n e)"
    by (rule typedD [OF assms(1), of nodes])
  obtain s2 js where s2: "append_arguments es (nodes @ s1) (inputs @ [last_index (nodes @ s1)])
      = Inr ((nodes @ s1) @ s2, (inputs @ [last_index (nodes @ s1)]) @ js)" "reads_fields s2 f2"
    "\<not> list_ex stock_type ts \<longrightarrow> account_nodes s2"
    "\<forall>n vf fw cs. env_ok n vf fw cs s2 \<longrightarrow> args_safe n ts (eval_arguments flog vf fw cs n es)"
    by (rule typed_argumentsD [OF assms(2), of "nodes @ s1" "inputs @ [last_index (nodes @ s1)]"])
  have "append_arguments (e # es) nodes inputs = Inr (nodes @ s1 @ s2, inputs @ [last_index (nodes @ s1)] @ js)"
    using s1(1) s2(1) assms(1) by (simp add: mapping_def typed_def)
  moreover have "args_safe n (t # ts) (eval_arguments flog vf fw cs n (e # es))" if "env_ok n vf fw cs (s1 @ s2)" for n vf fw cs
    using that s1(5) s2(4) by (simp add: args_safe_Cons)
  ultimately show "\<exists>suffix indices. append_arguments (e # es) nodes inputs = Inr (nodes @ suffix, inputs @ indices) \<and>
      reads_fields suffix f \<and> (\<not> list_ex stock_type (t # ts) \<longrightarrow> account_nodes suffix) \<and>
      (\<forall>n vf fw cs. env_ok n vf fw cs suffix \<longrightarrow> args_safe n (t # ts) (eval_arguments flog vf fw cs n (e # es)))"
    using s1(3,4) s2(2,3) assms(3,4)
    by (intro exI [of _ "s1 @ s2"] exI [of _ "[last_index (nodes @ s1)] @ js"]) (auto intro: reads_fields_mono)
qed

lemma typed_window:
  assumes "window_argument location index e = Inr w"
  shows "typed flog WINDOW [] e"
proof -
  have e: "get e ''kind'' = Some (VStr ''number'')" "get e ''value'' = Some (VInt w)" "1 \<le> w"
    using assms by (auto simp: window_argument_def split: option.splits pyval.splits if_splits)
  then show ?thesis
    unfolding typed_def using get_is_dict [OF e(1)]
    by (simp add: append_node.simps [of e] eval_node.simps [of _ _ _ _ _ e] item_of_get plan_node_def reads_fields_def
        account_nodes_def number_of_def safe_def conforms_def fits_def)
qed

definition parameter_type :: "string \<times> parameter_rule \<Rightarrow> value_type \<Rightarrow> bool" where
  "parameter_type p t \<longleftrightarrow> (if snd p = Window then t = WINDOW else accepts (snd p) t)"

lemma validated_arguments:
  assumes "\<And>location e v. e \<in> set arguments \<Longrightarrow> validate_compiled_node bindings location e = Inr v \<Longrightarrow>
      typed flog (va_type v) (va_field_ids v) (va_node v)"
    and "validate_arguments bindings location index parameters arguments a = Inr b"
    and "length parameters = length arguments"
  shows "\<exists>ts es. as_types b = as_types a @ ts \<and> as_compiled b = as_compiled a @ es \<and>
    set (as_field_ids a) \<subseteq> set (as_field_ids b) \<and> list_all2 parameter_type parameters ts \<and>
    typed_arguments flog ts (as_field_ids b) es"
  using assms
proof (induction arguments arbitrary: parameters index a)
  case Nil
  then show ?case using typed_arguments_Nil by auto
next
  case (Cons e rest)
  obtain name rule ps where parameters: "parameters = (name, rule) # ps"
    using Cons.prems(3) by (cases parameters) auto
  obtain a' where first: "(if rule = Window then bindE (window_argument location index e) (\<lambda>window. Inr (add_window e window a))
      else bindE (validate_compiled_node bindings (argument_location location index) e) (\<lambda>child.
        add_argument location rule child a)) = Inr a'"
    and last: "validate_arguments bindings location (Suc index) ps rest a' = Inr b"
    using Cons.prems(2) unfolding parameters by (auto simp only: validate_arguments.simps elim!: bindE_InrE)
  obtain ts es where rest: "as_types b = as_types a' @ ts" "as_compiled b = as_compiled a' @ es"
    "set (as_field_ids a') \<subseteq> set (as_field_ids b)" "list_all2 parameter_type ps ts" "typed_arguments flog ts (as_field_ids b) es"
  proof -
    have "length ps = length rest" using Cons.prems(3) parameters by simp
    moreover have "\<And>location e v. e \<in> set rest \<Longrightarrow> validate_compiled_node bindings location e = Inr v \<Longrightarrow>
        typed flog (va_type v) (va_field_ids v) (va_node v)" using Cons.prems(1) by (meson list.set_intros(2))
    ultimately show thesis using Cons.IH [OF _ last] that by blast
  qed
  obtain t d f where one: "as_types a' = as_types a @ [t]" "as_compiled a' = as_compiled a @ [d]"
    "set (as_field_ids a) \<union> set f \<subseteq> set (as_field_ids a')" "parameter_type (name, rule) t" "typed flog t f d"
  proof (cases "rule = Window")
    case True
    then show ?thesis using first typed_window
      by (intro that [of WINDOW e "[]"]) (auto simp: add_window_def parameter_type_def)
  next
    case False
    then obtain child where child: "validate_compiled_node bindings (argument_location location index) e = Inr child"
      "add_argument location rule child a = Inr a'" using first by auto
    have "typed flog (va_type child) (va_field_ids child) (va_node child)"
      using Cons.prems(1) child(1) by auto
    then show ?thesis using child(2) False
      by (intro that [of "va_type child" "va_node child" "va_field_ids child"]) (auto simp: add_argument_def parameter_type_def)
  qed
  have "typed_arguments flog (t # ts) (as_field_ids b) (d # es)"
    using one(5) rest(5) by (rule typed_arguments_Cons) (use one(3) rest(3) in auto)
  then show ?case using rest one parameters by (intro exI [of _ "t # ts"] exI [of _ "d # es"]) auto
qed

text \<open>The call itself.\<close>

definition cellwise :: "string list" where
  "cellwise = [''abs'', ''log'', ''sign'']"

definition temporal :: "string list" where
  "temporal = [''lag'', ''delta'', ''pct_change'', ''ts_mean'', ''ts_sum'', ''ts_std'', ''ts_min'', ''ts_max'']"

lemma builtin_cases:
  assumes "b \<in> set BUILTIN_DEFINITIONS" "bi_result_rule b \<noteq> CommonSeries"
  obtains (if_else) "bi_identifier b = ''if_else''" "map snd (bi_parameters b) = [Boolean, Value, Value]" "bi_result_rule b = Conditional"
  | (cellwise) "bi_identifier b \<in> set cellwise" "map snd (bi_parameters b) = [Numeric]" "bi_result_rule b = SameAsFirst"
  | (rank) "bi_identifier b = ''rank''" "map snd (bi_parameters b) = [Series]" "bi_result_rule b = NumericSeries"
  | (temporal) "bi_identifier b \<in> set temporal" "map snd (bi_parameters b) = [Temporal, Window]" "bi_result_rule b = SameAsFirst"
proof -
  have "list_all (\<lambda>b. bi_result_rule b = CommonSeries
      \<or> bi_identifier b = ''if_else'' \<and> map snd (bi_parameters b) = [Boolean, Value, Value] \<and> bi_result_rule b = Conditional
      \<or> bi_identifier b \<in> set cellwise \<and> map snd (bi_parameters b) = [Numeric] \<and> bi_result_rule b = SameAsFirst
      \<or> bi_identifier b = ''rank'' \<and> map snd (bi_parameters b) = [Series] \<and> bi_result_rule b = NumericSeries
      \<or> bi_identifier b \<in> set temporal \<and> map snd (bi_parameters b) = [Temporal, Window] \<and> bi_result_rule b = SameAsFirst)
      BUILTIN_DEFINITIONS"
    by code_simp
  then show thesis using assms that by (auto simp only: list_all_iff)
qed

lemma parameter_types: "list_all2 parameter_type ps ts \<longleftrightarrow> list_all2 (\<lambda>rule. parameter_type ([], rule)) (map snd ps) ts"
  by (simp add: list.rel_map parameter_type_def [abs_def])

lemma call_safe:
  assumes b: "b \<in> set BUILTIN_DEFINITIONS" "bi_result_rule b \<noteq> CommonSeries"
    and ts: "list_all2 parameter_type (bi_parameters b) ts" and t: "call_type b ts = Inr t"
  shows "(list_ex stock_type ts \<longrightarrow> stock_type t) \<and> (bi_identifier b = ''rank'' \<longrightarrow> stock_type t) \<and>
    (\<forall>n rs. list_all2 (conforms n) ts rs \<longrightarrow> safe n t (eval_call flog n (bi_identifier b) rs))"
  using b
proof (cases rule: builtin_cases)
  case if_else
  then obtain c a d where shape: "ts = [c, a, d]"
    using ts unfolding parameter_types by (auto simp: list_all2_Cons1)
  then have scope: "conditional_result_type c a d = Inr t" using t if_else by (simp add: call_type_def)
  have "(stock_type c \<or> stock_type a \<or> stock_type d \<longrightarrow> stock_type t)"
    using scope scope_stock [of _ "[c, a, d]"] unfolding conditional_result_type_def by (elim bindE_InrE) auto
  then show ?thesis using safe_if_else [OF scope] if_else(1) shape by (auto simp: list_all2_Cons1)
next
  case cellwise
  then obtain u where shape: "ts = [u]" "u \<in> set NUMERIC_TYPES"
    using ts unfolding parameter_types by (auto simp: list_all2_Cons1 parameter_type_def accepts_def)
  moreover have "t = u" using t cellwise shape by (simp add: call_type_def)
  moreover have "u \<noteq> WINDOW" using shape(2) by (auto simp: NUMERIC_TYPES_def)
  ultimately show ?thesis using cellwise(1) safe_cellwise
    by (auto simp: list_all2_Cons1 cellwise_def)
next
  case rank
  then obtain u where shape: "ts = [u]" "u = NUMERIC_SERIES"
    using ts unfolding parameter_types by (auto simp: list_all2_Cons1 parameter_type_def accepts_def)
  moreover have "t = NUMERIC_SERIES" using t rank by (simp add: call_type_def)
  ultimately show ?thesis using rank(1) safe_rank by (auto simp: list_all2_Cons1 stock_type_def)
next
  case temporal
  then obtain u where shape: "ts = [u, WINDOW]" "u = NUMERIC_SERIES \<or> u = COMMON_NUMERIC_SERIES"
    using ts unfolding parameter_types by (auto simp: list_all2_Cons1 parameter_type_def accepts_def)
  moreover have "t = u" using t temporal shape by (simp add: call_type_def)
  moreover have "bi_identifier b \<noteq> ''rank''" using temporal(1) by (auto simp: temporal_def)
  moreover have "safe n u (eval_call flog n (bi_identifier b) [r, r'])" if "conforms n u r" "conforms n WINDOW r'" for n r r'
    using safe_temporal [OF _ that(1) shape(2) that(2)] temporal(1) by (simp add: temporal_def)
  ultimately show ?thesis by (auto simp: list_all2_Cons1 stock_type_def)
qed

lemma typed_call:
  assumes b: "b \<in> set BUILTIN_DEFINITIONS" "bi_result_rule b \<noteq> CommonSeries"
    and ts: "list_all2 parameter_type (bi_parameters b) ts" and t: "call_type b ts = Inr t"
    and es: "typed_arguments flog ts f es"
  shows "typed flog t f (VDict [(''kind'', VStr ''call''), (''identifier'', VStr (bi_identifier b)), (''arguments'', VList es)])"
    (is "typed flog t f ?e")
proof -
  note safe = call_safe [OF b ts t]
  have "\<exists>suffix. append_node ?e nodes = Inr (nodes @ suffix) \<and> suffix \<noteq> [] \<and>
      reads_fields suffix f \<and> (\<not> stock_type t \<longrightarrow> account_nodes suffix) \<and>
      (\<forall>n vf fw cs. env_ok n vf fw cs suffix \<longrightarrow> safe n t (eval_node flog vf fw cs n ?e))" for nodes
  proof -
    obtain s js where s: "append_arguments es nodes [] = Inr (nodes @ s, [] @ js)" "reads_fields s f"
      "\<not> list_ex stock_type ts \<longrightarrow> account_nodes s"
      "\<forall>n vf fw cs. env_ok n vf fw cs s \<longrightarrow> args_safe n ts (eval_arguments flog vf fw cs n es)"
      by (rule typed_argumentsD [OF es, of nodes "[]"])
    let ?p = "plan_node KBuiltin (bi_identifier b) js"
    have "append_node ?e nodes = Inr (nodes @ s @ [?p])"
      using s(1) by (simp add: append_node.simps [of ?e] item_of_def text_of_def list_of_def)
    moreover have "safe n t (eval_node flog vf fw cs n ?e)" if "env_ok n vf fw cs (s @ [?p])" for n vf fw cs
    proof -
      have eval: "eval_node flog vf fw cs n ?e = bindE (eval_arguments flog vf fw cs n es) (eval_call flog n (bi_identifier b))"
        by (simp add: eval_node.simps [of _ _ _ _ _ ?e] item_of_def text_of_def list_of_def)
      have "args_safe n ts (eval_arguments flog vf fw cs n es)" using that by (simp add: s(4))
      then show ?thesis using safe unfolding eval
        by (cases "eval_arguments flog vf fw cs n es") (auto simp: args_safe_def safe_def [of _ _ "Inl _"])
    qed
    ultimately show ?thesis
      using s(2,3) safe by (intro exI [of _ "s @ [?p]"]) (auto simp: reads_fields_def account_nodes_def plan_node_def)
  qed
  then show ?thesis by (simp add: typed_def)
qed

lemma find_builtin_in: "find_builtin i = Some b \<Longrightarrow> b \<in> set BUILTIN_DEFINITIONS \<and> bi_identifier b = i"
  by (auto simp: find_builtin_def find_Some_iff)

text \<open>Every node the validator accepts.\<close>

lemma accepted_typed:
  "validate_compiled_node bindings location e = Inr v \<Longrightarrow> typed flog (va_type v) (va_field_ids v) (va_node v)"
proof (induction "size e" arbitrary: e location v rule: less_induct)
  case less
  note simps = validate_compiled_node.simps [of bindings location e]
  consider (common) "get e ''kind'' = Some (VStr ''common'')" | (field) "get e ''kind'' = Some (VStr ''field'')"
    | (number) "get e ''kind'' = Some (VStr ''number'')" | (unary) "get e ''kind'' = Some (VStr ''unary'')"
    | (binary) "get e ''kind'' = Some (VStr ''binary'')" | (call) "get e ''kind'' = Some (VStr ''call'')"
    using less.prems unfolding simps Let_def by (metis sum.distinct(1))
  then show ?case
  proof cases
    case common
    then show ?thesis using less.prems by (simp add: simps typed_common)
  next
    case field
    then show ?thesis using less.prems by (simp add: simps typed_field)
  next
    case number
    then show ?thesis using less.prems by (simp add: simps typed_number)
  next
    case unary
    then obtain operand child where run: "unary_operand location e = Inr operand"
      "validate_compiled_node bindings (location @ ''.operand'') operand = Inr child"
      "finish_unary location (text_at e ''operator'') child = Inr v"
      using less.prems by (auto simp: simps)
    then obtain t where t: "unary_result_type (text_at e ''operator'') (va_type child) = Inr t"
      and v: "va_type v = t" "va_field_ids v = va_field_ids child"
        "va_node v = VDict [(''kind'', VStr ''unary''), (''operator'', VStr (text_at e ''operator'')), (''operand'', va_node child)]"
      unfolding finish_unary_def by auto
    show ?thesis unfolding v
      by (rule typed_unary [OF less.hyps [OF unary_operand_size [OF run(1)] run(2)] t])
  next
    case binary
    then obtain l r left right where run: "binary_operands location e = Inr (l, r)"
      "validate_compiled_node bindings (location @ ''.left'') l = Inr left"
      "validate_compiled_node bindings (location @ ''.right'') r = Inr right"
      "finish_binary location (text_at e ''operator'') left right = Inr v"
      using less.prems by (auto simp: simps)
    then obtain t where t: "binary_result_type (text_at e ''operator'') (va_type left) (va_type right) = Inr t"
      and v: "va_type v = t" "set (va_field_ids v) = set (va_field_ids left) \<union> set (va_field_ids right)"
        "va_node v = VDict [(''kind'', VStr ''binary''), (''operator'', VStr (text_at e ''operator'')),
          (''left'', va_node left), (''right'', va_node right)]"
      unfolding finish_binary_def by auto
    note small = binary_operands_size [OF run(1)]
    show ?thesis unfolding v(1,3)
      by (rule typed_binary [OF less.hyps [OF conjunct1 [OF small] run(2)] less.hyps [OF conjunct2 [OF small] run(3)] t])
        (simp_all add: v(2))
  next
    case call
    then obtain b es a where run: "call_signature location e = Inr (b, es)"
      "validate_arguments bindings location 0 (bi_parameters b) es no_arguments = Inr a"
      "finish_call location b a = Inr v"
      using less.prems by (auto simp: simps)
    have b: "b \<in> set BUILTIN_DEFINITIONS" "bi_result_rule b \<noteq> CommonSeries" "length (bi_parameters b) = length es"
      using run(1) by (auto simp: call_signature_def dest!: find_builtin_in split: option.splits pyval.splits if_splits)
    have "size x < size e" if "x \<in> set es" for x
      using call_signature_size [OF run(1)] size_list_estimation' [OF that, of "size x" size] by simp
    then have "typed flog (va_type w) (va_field_ids w) (va_node w)"
      if "x \<in> set es" "validate_compiled_node bindings loc x = Inr w" for loc x w
      using less.hyps that by blast
    from validated_arguments [OF this run(2) b(3)]
    obtain ts ds where ts: "as_types a = ts" "as_compiled a = ds" "list_all2 parameter_type (bi_parameters b) ts"
      "typed_arguments flog ts (as_field_ids a) ds"
      by (auto simp: no_arguments_def)
    obtain t where t: "call_type b ts = Inr t" and v: "va_type v = t" "va_field_ids v = as_field_ids a"
        "va_node v = VDict [(''kind'', VStr ''call''), (''identifier'', VStr (bi_identifier b)), (''arguments'', VList ds)]"
      using run(3) ts(1,2) unfolding finish_call_def by auto
    show ?thesis unfolding v by (rule typed_call [OF b(1,2) ts(3) t ts(4)])
  qed
qed

section \<open>Accepted expressions evaluate\<close>

definition covers_common :: "nat \<Rightarrow> common_values option \<Rightarrow> series_plan \<Rightarrow> bool" where
  "covers_common n cs plan \<longleftrightarrow>
     list_all (\<lambda>p. pn_kind p = KCommon \<longrightarrow>
       (case cs of None \<Rightarrow> False | Some c \<Rightarrow>
         (case map_of c (pn_identifier p, pn_industry_code p) of None \<Rightarrow> False | Some s \<Rightarrow> length s = n))) (sp_nodes plan)"

definition aligned_fields :: "nat \<Rightarrow> (string \<times> pyfloat option list) list \<Rightarrow> string list \<Rightarrow> bool" where
  "aligned_fields n vf field_ids \<longleftrightarrow>
     list_all (\<lambda>f. case map_of vf f of None \<Rightarrow> False | Some s \<Rightarrow> length s = n) field_ids"

lemma update_values: "snd ` set (AList.update k v d) \<subseteq> insert v (snd ` set d)"
  by (induction d) auto

lemma foldl_update_values:
  "snd ` set (foldl (\<lambda>d (field_id, identifier). AList.update identifier field_id d) d xs) \<subseteq> snd ` set d \<union> fst ` set xs"
proof (induction xs arbitrary: d)
  case (Cons x xs)
  then show ?case
    using Cons.IH [of "AList.update (snd x) (fst x) d"] update_values [of "snd x" "fst x" d]
    by (simp add: case_prod_beta) blast
qed simp

lemma same_lengths:
  assumes "\<forall>f\<in>set fs. \<exists>s. map_of vf f = Some s \<and> length s = n"
  shows "\<exists>ls. mapE (\<lambda>f. bindE (lookupE vf f (KeyError f)) (\<lambda>s. Inr (length s))) fs = Inr ls \<and> set ls \<subseteq> {n}"
  using assms by (induction fs) (auto simp: lookupE_def)

lemma input_length_known:
  assumes "\<forall>f\<in>set (sp_field_names plan). \<exists>s. map_of vf f = Some s \<and> length s = n"
  shows "\<exists>inferred. input_length plan vf = Inr inferred \<and> result_length (Some n) inferred = Inr n"
proof -
  obtain ls where "mapE (\<lambda>f. bindE (lookupE vf f (KeyError f)) (\<lambda>s. Inr (length s))) (sp_field_names plan) = Inr ls"
    "set ls \<subseteq> {n}" using same_lengths [OF assms] by blast
  then show ?thesis using remdups_same [of ls n] by (auto simp: input_length_def result_length_def)
qed

lemma root_series_safe:
  assumes "conforms n t r" "t \<noteq> WINDOW"
  shows "overflow_only (root_series n (fst r)) \<and> (\<forall>s. root_series n (fst r) = Inr s \<longrightarrow> length s = n)"
proof (cases "fst r")
  case (PSeries s)
  then show ?thesis using assms by (auto simp: root_series_def conforms_def dest: fits_length intro: overflow_intros)
next
  case PNone
  then show ?thesis by (simp add: root_series_def broadcast_def overflow_intros)
next
  case (PNum x)
  then show ?thesis by (auto simp: root_series_def dest: broadcast_length intro: overflow_broadcast)
qed

text \<open>What the validation of a whole expression gives, for both uses of it.\<close>

lemma accepted_evaluates:
  assumes "validate_normalized_expression e bindings types = Inr p" "WINDOW \<notin> set types"
  obtains plan t where "build_series_execution_plan (pa_expression p) (pa_field_ids_by_identifier p) (pa_effective_lookback p) = Inr plan"
    "t \<in> set types" "\<not> stock_type t \<longrightarrow> account_nodes (sp_nodes plan)" "reads_fields (sp_nodes plan) (pa_field_ids p)"
    "\<forall>n vf fw cs. env_ok n vf fw cs (sp_nodes plan) \<longrightarrow> safe n t (eval_node flog vf fw cs n (pa_expression p))"
    "\<forall>n vf cs ttm fw. aligned_fields n vf (pa_field_ids p) \<and> validate_ttm_windows ttm n = Inr fw \<and> covers_common n cs plan \<longrightarrow>
      (case evaluate_series_execution_plan flog plan vf (Some n) cs ttm of
         Inr s \<Rightarrow> length s = n | Inl er \<Rightarrow> er = OverflowError \<or> er = rank_error \<and> stock_type t)"
proof -
  obtain v where v: "validate_compiled_node bindings ''alpha.expression'' e = Inr v" "va_type v \<in> set types"
    and p: "pa_expression p = va_node v" "set (pa_field_ids p) = set (va_field_ids v)"
      "pa_field_ids_by_identifier p = foldl (\<lambda>d (field_id, identifier). AList.update identifier field_id d) []
         (filter (\<lambda>(field_id, identifier). field_id \<in> set (va_field_ids v)) bindings)"
    using assms(1) unfolding validate_normalized_expression_def by (elim bindE_InrE) auto
  have typed: "typed flog (va_type v) (va_field_ids v) (va_node v)" by (rule accepted_typed [OF v(1)])
  obtain nodes where nodes: "append_node (va_node v) [] = Inr ([] @ nodes)" "nodes \<noteq> []" "reads_fields nodes (va_field_ids v)"
    "\<not> stock_type (va_type v) \<longrightarrow> account_nodes nodes"
    "\<forall>n vf fw cs. env_ok n vf fw cs nodes \<longrightarrow> safe n (va_type v) (eval_node flog vf fw cs n (va_node v))"
    by (rule typedD [OF typed])
  define plan where "plan = \<lparr>sp_nodes = nodes, sp_root = last_index nodes,
      sp_field_names = sort (map snd (pa_field_ids_by_identifier p)), sp_effective_lookback = pa_effective_lookback p\<rparr>"
  have build: "build_series_execution_plan (pa_expression p) (pa_field_ids_by_identifier p) (pa_effective_lookback p) = Inr plan"
    using nodes(1) by (simp add: build_series_execution_plan_def p(1) plan_def)
  have names: "set (sp_field_names plan) \<subseteq> set (pa_field_ids p)"
    using foldl_update_values [of "[]" "filter (\<lambda>(field_id, identifier). field_id \<in> set (va_field_ids v)) bindings"]
    unfolding plan_def p(2,3) by auto
  have "case evaluate_series_execution_plan flog plan vf (Some n) cs ttm of
      Inr s \<Rightarrow> length s = n | Inl er \<Rightarrow> er = OverflowError \<or> er = rank_error \<and> stock_type (va_type v)"
    if fields: "aligned_fields n vf (pa_field_ids p)" and ttm: "validate_ttm_windows ttm n = Inr fw"
      and common: "covers_common n cs plan" for n vf cs ttm fw
  proof -
    have known: "\<forall>f\<in>set (pa_field_ids p). \<exists>s. map_of vf f = Some s \<and> length s = n"
      using fields by (auto simp: aligned_fields_def list_all_iff split: option.splits)
    obtain inferred where inferred: "input_length plan vf = Inr inferred" "result_length (Some n) inferred = Inr n"
      using input_length_known [of plan vf n] known names by blast
    have "length w = n" if "w \<in> snd ` set fw" for w
      using ttm that by (auto simp: validate_ttm_windows_def list_ex_iff split: option.splits if_splits)
    moreover have "\<exists>c s. cs = Some c \<and> map_of c (pn_identifier q, pn_industry_code q) = Some s \<and> length s = n"
      if "q \<in> set nodes" "pn_kind q = KCommon" for q
    proof -
      have "case cs of None \<Rightarrow> False | Some c \<Rightarrow>
          (case map_of c (pn_identifier q, pn_industry_code q) of None \<Rightarrow> False | Some s \<Rightarrow> length s = n)"
        using common that by (simp add: covers_common_def plan_def list_all_iff)
      then show ?thesis by (auto split: option.splits)
    qed
    ultimately have "env_ok n vf fw cs nodes"
      using nodes(3) known p(2) by (auto simp: env_ok_def reads_fields_def)
    then have safe: "safe n (va_type v) (eval_node flog vf fw cs n (va_node v))" using nodes(5) by blast
    have eval: "evaluate_series_execution_plan flog plan vf (Some n) cs ttm
        = bindE (eval_node flog vf fw cs n (va_node v)) (\<lambda>r. root_series n (fst r))"
      using built_plan_evaluates [OF build, of flog vf "Some n" cs ttm] inferred ttm p(1) by simp
    have "va_type v \<noteq> WINDOW" using v(2) assms(2) by auto
    then show ?thesis
      using safe root_series_safe [of n "va_type v"] unfolding eval
      by (cases "eval_node flog vf fw cs n (va_node v)") (auto simp: safe_def overflow_only_def split: sum.splits)
  qed
  moreover have "reads_fields nodes (pa_field_ids p)" using nodes(3) p(2) by (simp add: reads_fields_def)
  ultimately show thesis using that [OF build v(2)] nodes(4,5) by (auto simp: plan_def p(1))
qed

section \<open>Property\<close>

text \<open>
  C24: Type soundness of signals. A frozen expression the kernel accepts as a signal builds a plan, and
  for every instrument, whose fields and whose common inputs and windows cover the sessions, the plan
  gives one value per session; no key, index, value or type error is possible but that of \<open>rank\<close>,
  which one instrument cannot answer, and only an integer beyond the float range can stop it otherwise.
\<close>

theorem accepted_signal_evaluates:
  assumes "validate_normalized_alpha e bindings = Inr p"
  shows "\<exists>plan. build_series_execution_plan (pa_expression p) (pa_field_ids_by_identifier p) (pa_effective_lookback p) = Inr plan \<and>
    (\<forall>n vf cs ttm fw. aligned_fields n vf (pa_field_ids p) \<and> validate_ttm_windows ttm n = Inr fw \<and> covers_common n cs plan \<longrightarrow>
      (case evaluate_series_execution_plan flog plan vf (Some n) cs ttm of
         Inr s \<Rightarrow> length s = n
       | Inl er \<Rightarrow> er = OverflowError \<or> er = TypeError ''rank requires a complete cross-section''))"
proof -
  have types: "WINDOW \<notin> set [NUMERIC_SERIES]" by simp
  obtain plan t where plan: "build_series_execution_plan (pa_expression p) (pa_field_ids_by_identifier p) (pa_effective_lookback p) = Inr plan"
    and run: "\<forall>n vf cs ttm fw. aligned_fields n vf (pa_field_ids p) \<and> validate_ttm_windows ttm n = Inr fw \<and> covers_common n cs plan \<longrightarrow>
      (case evaluate_series_execution_plan flog plan vf (Some n) cs ttm of
         Inr s \<Rightarrow> length s = n | Inl er \<Rightarrow> er = OverflowError \<or> er = rank_error \<and> stock_type t)"
    by (rule accepted_evaluates [OF assms [unfolded validate_normalized_alpha_def] types, of flog]) (rule that)
  have "case evaluate_series_execution_plan flog plan vf (Some n) cs ttm of
      Inr s \<Rightarrow> length s = n | Inl er \<Rightarrow> er = OverflowError \<or> er = TypeError ''rank requires a complete cross-section''"
    if "aligned_fields n vf (pa_field_ids p) \<and> validate_ttm_windows ttm n = Inr fw \<and> covers_common n cs plan" for n vf cs ttm fw
    using run [rule_format, OF that] by (auto simp: rank_error_def split: sum.splits)
  then show ?thesis using plan by blast
qed

text \<open>The change of the Close over one session, weighted by the return of the market.\<close>

definition weighted_change :: pyval where
  "weighted_change =
     VDict [(''kind'', VStr ''binary''), (''operator'', VStr ''multiply''),
       (''left'', VDict [(''kind'', VStr ''call''), (''identifier'', VStr ''pct_change''),
          (''arguments'', VList [VDict [(''kind'', VStr ''field''), (''field_id'', VStr CLOSE_FIELD_ID)],
             VDict [(''kind'', VStr ''number''), (''value'', VInt 1)]])]),
       (''right'', VDict [(''kind'', VStr ''common''), (''identifier'', VStr ''universe_return''), (''industry_code'', VNone)])]"

definition weighted_parsed :: parsed_alpha where
  "weighted_parsed = projr (validate_normalized_alpha weighted_change [(CLOSE_FIELD_ID, ''close'')])"

definition weighted_plan :: series_plan where
  "weighted_plan = projr (build_series_execution_plan (pa_expression weighted_parsed)
     (pa_field_ids_by_identifier weighted_parsed) (pa_effective_lookback weighted_parsed))"

definition weighted_input :: "(string \<times> pyfloat option list) list" where
  "weighted_input = [(CLOSE_FIELD_ID, [Some (Finite 10), None, Some (Finite 12), Some (Finite 15)])]"

definition weighted_common :: common_values where
  "weighted_common = [((''universe_return'', None), [None, Some (NFloat (1 / 2)), Some (NFloat (1 / 4)), Some (NFloat (1 / 2))])]"

lemma weighted_parsed: "validate_normalized_alpha weighted_change [(CLOSE_FIELD_ID, ''close'')] = Inr weighted_parsed"
proof -
  have "\<not> isl (validate_normalized_alpha weighted_change [(CLOSE_FIELD_ID, ''close'')])" by code_simp
  then show ?thesis unfolding weighted_parsed_def by (simp add: sum.collapse(2))
qed

lemma accepted_signal_evaluates_witness:
  "case evaluate_series_execution_plan (\<lambda>x. x) weighted_plan weighted_input (Some 4) (Some weighted_common) None of
     Inr s \<Rightarrow> length s = 4
   | Inl er \<Rightarrow> er = OverflowError \<or> er = TypeError ''rank requires a complete cross-section''"
proof -
  have "aligned_fields 4 weighted_input (pa_field_ids weighted_parsed) \<and> validate_ttm_windows None 4 = Inr []
      \<and> covers_common 4 (Some weighted_common) weighted_plan" by code_simp
  moreover obtain plan where plan: "build_series_execution_plan (pa_expression weighted_parsed)
      (pa_field_ids_by_identifier weighted_parsed) (pa_effective_lookback weighted_parsed) = Inr plan"
    and run: "\<forall>n vf cs ttm fw. aligned_fields n vf (pa_field_ids weighted_parsed) \<and> validate_ttm_windows ttm n = Inr fw \<and>
        covers_common n cs plan \<longrightarrow>
      (case evaluate_series_execution_plan (\<lambda>x. x) plan vf (Some n) cs ttm of
         Inr s \<Rightarrow> length s = n
       | Inl er \<Rightarrow> er = OverflowError \<or> er = TypeError ''rank requires a complete cross-section'')"
    using accepted_signal_evaluates [OF weighted_parsed, of "\<lambda>x. x"] by (elim exE conjE)
  moreover have "weighted_plan = plan" using plan by (simp add: weighted_plan_def)
  ultimately show ?thesis by blast
qed

end
