(* ===== verification/AlphaSound.thy ===== *)
theory AlphaSound
  imports AlphaCompiler
begin

text \<open>
  What the compiler emits, the kernel accepts: every expression \<open>compile\<close> returns passes the
  validator of the kernel with the same type, lookback, work and fields. The two check the same
  limits on different objects, the tree of the formula and the dictionaries built from it.
\<close>

section \<open>Size and depth of an expression\<close>

lemma nested_nodes_less: "c \<in> set (nested_nodes v) \<Longrightarrow> size c < size v"
  using nested_nodes_size [of v] member_le_sum_list [of "Suc (size c)" "map (\<lambda>v. Suc (size v)) (nested_nodes v)"]
  by auto

function node_total :: "pyval \<Rightarrow> int" where
  "node_total v = 1 + literal_count v + sum_list (map node_total (nested_nodes v))"
  by pat_completeness auto
termination
  by (relation "measure size") (auto dest: nested_nodes_less)

function within_depth :: "pyval \<Rightarrow> int \<Rightarrow> bool" where
  "within_depth v d \<longleftrightarrow>
     d + literal_count v \<le> MAX_EXPRESSION_DEPTH \<and> list_all (\<lambda>c. within_depth c (d + 1)) (nested_nodes v)"
  by pat_completeness auto
termination
  by (relation "measure (\<lambda>(v, d). size v)") (auto dest: nested_nodes_less)

declare node_total.simps [simp del] within_depth.simps [simp del]

lemma literal_count_nonneg: "0 \<le> literal_count v"
  by (simp add: literal_count_def)

lemma node_total_pos: "1 \<le> node_total v"
proof (induction v rule: node_total.induct)
  case (1 v)
  have "0 \<le> sum_list (map node_total (nested_nodes v))"
    by (rule sum_list_nonneg) (use 1 in force)
  then show ?case using literal_count_nonneg [of v] by (simp add: node_total.simps [of v])
qed

lemma node_total_nonneg [simp]: "0 \<le> node_total v"
  using node_total_pos [of v] by simp

lemma within_depth_le: "within_depth v d \<Longrightarrow> e \<le> d \<Longrightarrow> within_depth v e"
proof (induction v d arbitrary: e rule: within_depth.induct)
  case (1 v d)
  then show ?case unfolding within_depth.simps [of v] by (auto simp: list_all_iff)
qed

lemma scan_nodes_accepts:
  assumes "\<forall>(v, d)\<in>set pending. within_depth v d"
    and "count + sum_list (map (\<lambda>(v, d). node_total v) pending) \<le> MAX_EXPRESSION_NODES"
  shows "scan_nodes pending count = Inr ()"
  using assms
proof (induction pending count rule: scan_nodes.induct)
  case (2 node depth pending count)
  let ?below = "map (\<lambda>v. (v, depth + 1)) (nested_nodes node)"
  have w: "depth + literal_count node \<le> MAX_EXPRESSION_DEPTH" "\<forall>c\<in>set (nested_nodes node). within_depth c (depth + 1)"
    using "2.prems"(1) by (auto simp: within_depth.simps [of node] list_all_iff)
  have t: "node_total node = 1 + literal_count node + sum_list (map node_total (nested_nodes node))"
    by (rule node_total.simps)
  have rest: "0 \<le> sum_list (map (\<lambda>(v, d). node_total v) pending)"
    by (auto intro!: sum_list_nonneg)
  have below: "0 \<le> sum_list (map node_total (nested_nodes node))"
    by (auto intro!: sum_list_nonneg)
  have c: "\<not> MAX_EXPRESSION_NODES < count + 1 + literal_count node" using "2.prems"(2) t rest below by simp
  have "scan_nodes (rev ?below @ pending) (count + 1 + literal_count node) = Inr ()"
  proof (rule "2.IH")
    show "\<forall>(v, d)\<in>set (rev ?below @ pending). within_depth v d" using "2.prems"(1) w(2) by auto
    show "count + 1 + literal_count node + sum_list (map (\<lambda>(v, d). node_total v) (rev ?below @ pending)) \<le> MAX_EXPRESSION_NODES"
      using "2.prems"(2) t by (simp add: rev_map [symmetric] sum_list_rev comp_def)
  qed (use w c in simp_all)
  then show ?case using w(1) c by (simp add: Let_def)
qed simp

section \<open>Dictionaries of fields\<close>

lemma update_same: "map_of d k = Some v \<Longrightarrow> AList.update k v d = d"
  by (induction d) (auto split: if_splits)

lemma merge_within:
  assumes "distinct (map fst F)" "set d \<subseteq> set F" "set e \<subseteq> set F" "distinct (map fst d)"
  shows "set (merge d e) = set d \<union> set e \<and> distinct (map fst (merge d e))"
  using assms(2-)
proof (induction e arbitrary: d)
  case Nil
  then show ?case by (simp add: merge_def)
next
  case (Cons x e)
  obtain k v where x: "x = (k, v)" by (cases x)
  have new: "set (AList.update k v d) = insert (k, v) (set d)"
  proof (cases "map_of d k")
    case None
    then have "AList.update k v d = d @ [(k, v)]" by (intro update_fresh) (simp add: map_of_eq_None_iff)
    then show ?thesis by simp
  next
    case (Some u)
    then have u: "(k, u) \<in> set d" by (rule map_of_SomeD)
    then have "(k, u) \<in> set F" "(k, v) \<in> set F" using Cons.prems(1,2) x by auto
    then have "u = v" using assms(1) by (metis map_of_is_SomeI option.inject)
    then show ?thesis using u Some by (auto simp: update_same)
  qed
  have "set (merge (AList.update k v d) e) = set (AList.update k v d) \<union> set e \<and> distinct (map fst (merge (AList.update k v d) e))"
  proof (rule Cons.IH)
    show "set (AList.update k v d) \<subseteq> set F" "set e \<subseteq> set F" using Cons.prems(1,2) x new by auto
    show "distinct (map fst (AList.update k v d))" by (rule distinct_keys_update [OF Cons.prems(3)])
  qed
  then show ?case using new x by (auto simp: merge_def)
qed

section \<open>The language\<close>

definition builtin_ok :: "builtin \<Rightarrow> bool" where
  "builtin_ok b \<longleftrightarrow>
     bi_parameters b = series_window \<and> bi_result_rule b = SameAsFirst
     \<or> (bi_parameters b = [(''value'', Numeric)] \<and> bi_result_rule b = SameAsFirst)
     \<or> (bi_result_rule b = NumericSeries \<and> bi_parameters b = [(''series'', Series)])
     \<or> (bi_result_rule b = Conditional
         \<and> bi_parameters b = [(''condition'', Boolean), (''when_true'', Value), (''when_false'', Value)])
     \<or> bi_result_rule b = CommonSeries \<and> (map_of COMMON_INPUTS (bi_identifier b) \<noteq> None)"

definition language_ok :: "language \<Rightarrow> bool" where
  "language_ok l \<longleftrightarrow> la_builtins l = BUILTIN_DEFINITIONS \<and> distinct (map fst (la_fields l)) \<and> distinct (map snd (la_fields l))"

lemma builtins_ok: "list_all builtin_ok BUILTIN_DEFINITIONS"
  by code_simp

lemma find_builtin_ok: "find_builtin i = Some b \<Longrightarrow> builtin_ok b \<and> bi_identifier b = i"
  using builtins_ok by (auto simp: find_builtin_def find_Some_iff list_all_length)

lemma language_builtin_eq: "language_ok l \<Longrightarrow> language_builtin l i = find_builtin i"
  by (simp add: language_ok_def language_builtin_def find_builtin_def)

lemma add_builtin_appends: "add_builtin by b bs = Inr cs \<Longrightarrow> cs = bs @ [b]"
  by (auto simp: add_builtin_def)

lemma add_builtins: "foldE (add_builtin by) xs bs = Inr cs \<Longrightarrow> cs = bs @ xs"
  by (induction xs arbitrary: bs) (force dest: add_builtin_appends)+

definition catalogue_ok :: "(string \<times> string) list \<Rightarrow> bool" where
  "catalogue_ok fs \<longleftrightarrow> distinct (map fst fs) \<and> distinct (map snd fs)"

interpretation catalogue: loop_invariant add_field "\<lambda>_. True" catalogue_ok
  by unfold_locales (auto simp: add_field_def catalogue_ok_def split: option.splits)

lemma alpha_language_ok: "alpha_language fds BUILTIN_DEFINITIONS = Inr l \<Longrightarrow> language_ok l"
  unfolding alpha_language_def language_ok_def
  by (auto dest!: add_builtins catalogue.loop_keeps [rotated 2] simp: catalogue_ok_def)

section \<open>Accepted expressions\<close>

definition covers :: "bindings \<Rightarrow> (string \<times> string) list \<Rightarrow> bool" where
  "covers bindings fs \<longleftrightarrow> (\<forall>(identifier, field_id)\<in>set fs. map_of bindings field_id = Some identifier)"

definition agrees :: "validated \<Rightarrow> built \<Rightarrow> bool" where
  "agrees v b \<longleftrightarrow> va_node v = bx_expression b \<and> va_type v = bx_type b \<and> va_lookback v = bx_lookback b \<and>
     va_work v = bx_work b \<and> set (va_field_ids v) = snd ` set (bx_fields b)"

definition accepted :: "built \<Rightarrow> bool" where
  "accepted b \<longleftrightarrow> (\<forall>bindings location. covers bindings (bx_fields b) \<longrightarrow>
     (\<exists>v. validate_compiled_node bindings location (bx_expression b) = Inr v \<and> agrees v b))"

text \<open>An expression that is no stock series reads no stock field.\<close>

definition account_only :: "built \<Rightarrow> bool" where
  "account_only b \<longleftrightarrow> bx_type b \<in> {NUMERIC_SERIES, BOOLEAN_SERIES} \<or> set (bx_fields b) \<subseteq> {(''close'', CLOSE_FIELD_ID)}"

definition fits_tree :: "built \<Rightarrow> int \<Rightarrow> bool" where
  "fits_tree b depth \<longleftrightarrow> is_dict (bx_expression b) \<and> within_depth (bx_expression b) depth \<and>
     node_total (bx_expression b) = bx_nodes b"

definition fields_within :: "language \<Rightarrow> (string \<times> string) list \<Rightarrow> bool" where
  "fields_within l fs \<longleftrightarrow> set fs \<subseteq> set (la_fields l) \<and> distinct (map fst fs)"

definition sound :: "language \<Rightarrow> int \<Rightarrow> built \<Rightarrow> bool" where
  "sound l depth b \<longleftrightarrow> accepted b \<and> account_only b \<and> fits_tree b depth \<and> fields_within l (bx_fields b) \<and> 0 \<le> bx_lookback b"

lemma sound_less: "sound l depth b \<Longrightarrow> d \<le> depth \<Longrightarrow> sound l d b"
  by (auto simp: sound_def fits_tree_def dest: within_depth_le)

lemma sound_depth: "sound l depth b \<Longrightarrow> depth \<le> MAX_EXPRESSION_DEPTH"
  using literal_count_nonneg [of "bx_expression b"]
  by (auto simp: sound_def fits_tree_def within_depth.simps [of "bx_expression b"])

lemma nested_in_dict: "is_dict v \<Longrightarrow> nested_in v = [v]"
  by (cases v) simp_all

lemmas dict_simps = node_total.simps [of "VDict d" for d] within_depth.simps [of "VDict d" for d] literal_count_def

lemma sound_field:
  assumes "language_ok l" "map_of (la_fields l) identifier = Some f" "depth \<le> MAX_EXPRESSION_DEPTH"
  shows "sound l depth (leaf (VDict [(''kind'', VStr ''field''), (''field_id'', VStr f)]) NUMERIC_SERIES [(identifier, f)] depth)"
  using assms map_of_SomeD [OF assms(2)]
  by (auto simp: sound_def accepted_def account_only_def fits_tree_def fields_within_def leaf_def dict_simps agrees_def
      covers_def validate_compiled_node.simps [of _ _ "VDict d" for d] validate_field_node_def lookupE_def)

lemma sound_number:
  assumes "depth \<le> MAX_EXPRESSION_DEPTH" "build_constant v depth = Inr b"
  shows "sound l depth b"
proof -
  have b: "b = leaf (VDict [(''kind'', VStr ''number''), (''value'', v)]) NUMBER [] depth \<and>
      require_literal location v = Inr ()" for location
    using assms(2) by (auto simp: build_constant_def Let_def require_literal_def split: pyval.splits pyfloat.splits sum.splits)
  have "nested_in v = []"
    using assms(2) by (auto simp: build_constant_def Let_def split: pyval.splits)
  then show ?thesis
    using assms(1) b
    by (auto simp: sound_def accepted_def account_only_def fits_tree_def fields_within_def leaf_def dict_simps agrees_def
        validate_compiled_node.simps [of _ _ "VDict d" for d] validate_number_node_def)
qed

lemma result_scope_account:
  "result_scope types boolean \<notin> {NUMERIC_SERIES, BOOLEAN_SERIES} \<Longrightarrow>
     list_all (\<lambda>t. t \<notin> {NUMERIC_SERIES, BOOLEAN_SERIES}) types"
  by (auto simp: result_scope_def list_ex_iff list_all_iff split: if_splits)

lemma sound_unary:
  assumes "sound l (depth + 1) child" "build_unary operator child depth = Inr b" "operator = ''negate'' \<or> operator = ''not''"
  shows "sound l depth b"
proof -
  obtain t where t: "unary_result_type operator (bx_type child) = Inr t" "t = bx_type child"
    and b: "b = \<lparr>bx_expression = VDict [(''kind'', VStr ''unary''), (''operator'', VStr operator), (''operand'', bx_expression child)],
          bx_type = t, bx_fields = bx_fields child, bx_lookback = bx_lookback child, bx_nodes = bx_nodes child + 1,
          bx_depth = max depth (bx_depth child), bx_work = bx_work child + 1\<rparr>"
    using assms(2) by (auto simp: build_unary_def type_mismatch_def unary_result_type_def Let_def)
  have d: "depth + 1 \<le> MAX_EXPRESSION_DEPTH" by (rule sound_depth [OF assms(1)])
  have acc: "accepted b"
    unfolding accepted_def
  proof (intro allI impI)
    fix bindings location
    assume "covers bindings (bx_fields b)"
    then obtain v where v: "validate_compiled_node bindings (location @ ''.operand'') (bx_expression child) = Inr v" "agrees v child"
      using assms(1) b by (auto simp: sound_def accepted_def)
    have o: "unary_operand location (bx_expression b) = Inr (bx_expression child)"
      using assms(1,3) b by (auto simp: unary_operand_def operator_in_def is_mapping_def sound_def fits_tree_def)
    show "\<exists>v. validate_compiled_node bindings location (bx_expression b) = Inr v \<and> agrees v b"
      using v t o b
      by (auto simp: validate_compiled_node.simps [of _ _ "VDict d" for d] text_at_def finish_unary_def agrees_def)
  qed
  show ?thesis
    using assms(1) acc d t(2) nested_in_dict [of "bx_expression child"]
    by (auto simp: sound_def account_only_def fits_tree_def b dict_simps)
qed

lemma sound_binary:
  assumes l: "language_ok l" and left: "sound l (depth + 1) left" and right: "sound l (depth + 1) right"
    and b: "build_binary operator e left right = Inr b"
  shows "sound l depth b"
proof -
  obtain t where t: "binary_result_type operator (bx_type left) (bx_type right) = Inr t"
    and b: "b = \<lparr>bx_expression = VDict [(''kind'', VStr ''binary''), (''operator'', VStr operator),
                                (''left'', bx_expression left), (''right'', bx_expression right)],
          bx_type = t, bx_fields = merge (bx_fields left) (bx_fields right),
          bx_lookback = max (bx_lookback left) (bx_lookback right), bx_nodes = bx_nodes left + bx_nodes right + 1,
          bx_depth = max e (max (bx_depth left) (bx_depth right)), bx_work = bx_work left + bx_work right + 1\<rparr>"
    using b by (auto simp: build_binary_def type_mismatch_def)
  have d: "depth + 1 \<le> MAX_EXPRESSION_DEPTH" by (rule sound_depth [OF left])
  have m: "set (merge (bx_fields left) (bx_fields right)) = set (bx_fields left) \<union> set (bx_fields right) \<and>
      distinct (map fst (merge (bx_fields left) (bx_fields right)))"
    by (rule merge_within [of "la_fields l"]) (use l left right in \<open>auto simp: language_ok_def sound_def fields_within_def\<close>)
  have known: "operator \<in> set (ARITHMETIC_OPERATORS @ COMPARISON_OPERATORS @ BOOLEAN_OPERATORS)"
    using t by (auto simp: binary_result_type_def operand_types_def split: if_splits)
  have acc: "accepted b"
    unfolding accepted_def
  proof (intro allI impI)
    fix bindings location
    assume "covers bindings (bx_fields b)"
    then have c: "covers bindings (bx_fields left)" "covers bindings (bx_fields right)"
      using b m by (auto simp: covers_def)
    obtain v where v: "validate_compiled_node bindings (location @ ''.left'') (bx_expression left) = Inr v" "agrees v left"
      using left c(1) unfolding sound_def accepted_def by blast
    obtain w where w: "validate_compiled_node bindings (location @ ''.right'') (bx_expression right) = Inr w" "agrees w right"
      using right c(2) unfolding sound_def accepted_def by blast
    have o: "binary_operands location (bx_expression b) = Inr (bx_expression left, bx_expression right)"
      using left right known b by (auto simp: binary_operands_def operator_in_def is_mapping_def sound_def fits_tree_def)
    show "\<exists>v. validate_compiled_node bindings location (bx_expression b) = Inr v \<and> agrees v b"
      using v w t o b m
      by (auto simp: validate_compiled_node.simps [of _ _ "VDict d" for d] text_at_def finish_binary_def agrees_def)
  qed
  have account: "account_only b"
  proof (cases "t \<in> {NUMERIC_SERIES, BOOLEAN_SERIES}")
    case False
    then have "list_all (\<lambda>t. t \<notin> {NUMERIC_SERIES, BOOLEAN_SERIES}) [bx_type left, bx_type right]"
      using t by (intro result_scope_account) (auto simp: binary_result_type_def)
    then show ?thesis using left right m by (auto simp: b sound_def account_only_def)
  qed (simp add: b account_only_def)
  show ?thesis
    using left right acc account d m nested_in_dict [of "bx_expression left"] nested_in_dict [of "bx_expression right"]
    by (auto simp: sound_def fits_tree_def b dict_simps fields_within_def)
qed

lemma sound_fold:
  assumes "language_ok l" "sound l (depth + int (length rest)) result"
    "\<forall>c\<in>set rest. sound l (depth + int (length rest)) c" "fold_binary operator depth result rest = Inr b"
  shows "sound l depth b"
  using assms(2-)
proof (induction operator depth result rest rule: fold_binary.induct)
  case (2 operator depth result child rest)
  obtain combined where n: "build_binary operator depth result child = Inr combined"
    "fold_binary operator depth combined rest = Inr b" using "2.prems"(3) by auto
  have r: "sound l (depth + int (length rest) + 1) result" "sound l (depth + int (length rest) + 1) child"
    using "2.prems"(1,2) by (simp_all add: ac_simps)
  have "sound l (depth + int (length rest)) combined" by (rule sound_binary [OF assms(1) r n(1)])
  moreover have "\<forall>c\<in>set rest. sound l (depth + int (length rest)) c"
    using "2.prems"(2) by (auto intro: sound_less [of l "depth + (1 + int (length rest))"])
  ultimately show ?case by (rule "2.IH" [OF n(1) _ _ n(2)])
qed simp

section \<open>Calls\<close>

lemma sw_digits: "c \<in> set SW2021_L1 \<Longrightarrow> c \<noteq> [] \<and> list_all is_digit c \<and> canonical_integer (int_of_digits c) = c"
proof -
  have "list_all (\<lambda>c. c \<noteq> [] \<and> list_all is_digit c \<and> canonical_integer (int_of_digits c) = c) SW2021_L1" by code_simp
  then show "c \<in> set SW2021_L1 \<Longrightarrow> c \<noteq> [] \<and> list_all is_digit c \<and> canonical_integer (int_of_digits c) = c"
    by (auto simp: list_all_iff)
qed

lemma common_reference_valid:
  assumes "common_reference identifier arguments = Inr e"
  shows "validate_common_reference e = Inr e \<and> nested_nodes e = [] \<and> is_dict e \<and>
    get e ''kind'' = Some (VStr ''common'') \<and> literal_count e = int (length arguments)"
proof -
  obtain metric industry code where i: "map_of COMMON_INPUTS identifier = Some (metric, industry)"
    and n: "length arguments = (if industry then 1 else 0)"
    and c: "if industry then \<exists>s. validate_sw2021_l1 (arguments ! 0) = Inr s \<and> code = VStr s else code = VNone"
    and e: "e = VDict [(''kind'', VStr ''common''), (''identifier'', VStr identifier), (''industry_code'', code)]"
    using assms by (auto simp: common_reference_def split: prod.splits if_splits)
  have k: "identifier \<in> set (map fst COMMON_INPUTS)" using map_of_SomeD [OF i] by force
  show ?thesis
  proof (cases industry)
    case True
    then obtain s where s: "validate_sw2021_l1 (arguments ! 0) = Inr s" "code = VStr s" using c by auto
    then have s': "s \<in> set SW2021_L1" by (auto simp: validate_sw2021_l1_def split: pyval.splits if_splits)
    have v: "validate_sw2021_l1 (VInt (int_of_digits s)) = Inr s"
      using sw_digits [OF s'] s' by (simp add: validate_sw2021_l1_def)
    show ?thesis
      using True i k n s(2) sw_digits [OF s'] v
      by (simp add: e validate_common_reference_def industry_arguments_def common_reference_def lookupE_def literal_count_def)
  next
    case False
    then show ?thesis
      using i k n c
      by (simp add: e validate_common_reference_def industry_arguments_def common_reference_def lookupE_def literal_count_def)
  qed
qed

lemma sound_common:
  assumes l: "language_ok l" and e: "common_expression identifier arguments = Inr e"
    and b: "finish_common l e arguments depth = Inr b"
    and d: "depth + int (length arguments) \<le> MAX_EXPRESSION_DEPTH"
  shows "sound l depth b"
proof -
  obtain "common_reference identifier (map static_value arguments) = Inr e"
    using e by (auto simp: common_expression_def)
  from common_reference_valid [OF this] have v: "validate_common_reference e = Inr e" "nested_nodes e = []" "is_dict e"
    "get e ''kind'' = Some (VStr ''common'')" "literal_count e = int (length arguments)" by simp_all
  have f: "(''close'', CLOSE_FIELD_ID) \<in> set (la_fields l)" using b by (auto simp: finish_common_def dest: map_of_SomeD)
  have b: "b = \<lparr>bx_expression = e, bx_type = COMMON_NUMERIC_SERIES, bx_fields = [(''close'', CLOSE_FIELD_ID)],
      bx_lookback = 1, bx_nodes = 1 + int (length arguments), bx_depth = depth + (if arguments = [] then 0 else 1),
      bx_work = COMMON_INPUT_WORK\<rparr>"
    using b by (auto simp: finish_common_def)
  show ?thesis
    using v f d
    by (auto simp: b sound_def accepted_def account_only_def fits_tree_def fields_within_def agrees_def covers_def
        node_total.simps [of e] within_depth.simps [of e] validate_compiled_node.simps [of _ _ e]
        validate_common_node_def lookupE_def)
qed

definition argument_ok :: "language \<Rightarrow> int \<Rightarrow> string \<times> parameter_rule \<Rightarrow> built \<Rightarrow> bool" where
  "argument_ok l depth p b \<longleftrightarrow>
     (if snd p = Window then \<exists>n. 1 \<le> n \<and> n \<le> 252 \<and> b = window_leaf n depth
      else sound l depth b \<and> accepts (snd p) (bx_type b))"

fun window_seen :: "(string \<times> parameter_rule) list \<Rightarrow> built list \<Rightarrow> int option \<Rightarrow> int option" where
  "window_seen ((name, rule) # ps) (b # bs) w =
     window_seen ps bs (if rule = Window then
        (case get (bx_expression b) ''value'' of Some (VInt n) \<Rightarrow> Some n | _ \<Rightarrow> w) else w)"
| "window_seen _ _ w = w"

lemma window_leaf_simps [simp]:
  "bx_expression (window_leaf n d) = VDict [(''kind'', VStr ''number''), (''value'', VInt n)]"
  "bx_type (window_leaf n d) = WINDOW" "bx_fields (window_leaf n d) = []" "bx_lookback (window_leaf n d) = 0"
  "bx_nodes (window_leaf n d) = 1" "bx_work (window_leaf n d) = 1"
  by (simp_all add: window_leaf_def leaf_def)

lemma window_seen_range:
  "list_all2 (argument_ok l depth) ps bs \<Longrightarrow> (\<forall>n. w = Some n \<longrightarrow> 1 \<le> n) \<Longrightarrow> window_seen ps bs w = Some n \<Longrightarrow> 1 \<le> n"
proof (induction ps bs w rule: window_seen.induct)
  case (1 name rule ps b bs w)
  show ?case
    by (rule "1.IH") (use "1.prems" in \<open>auto simp: argument_ok_def split: if_splits\<close>)
qed auto

lemma foldr_max_nonneg [simp]: "0 \<le> foldr max xs (0::int)"
  by (induction xs) auto

lemma foldr_max_append: "foldr max (xs @ ys) (0::int) = max (foldr max xs 0) (foldr max ys 0)"
  by (induction xs) auto

lemma validate_arguments_accepts:
  assumes "list_all2 (argument_ok l depth) ps bs" "\<forall>b\<in>set bs. covers bindings (bx_fields b)"
    "\<forall>x\<in>set (as_lookbacks a). 0 \<le> x"
  shows "\<exists>c. validate_arguments bindings location index ps (map bx_expression bs) a = Inr c \<and>
    as_compiled c = as_compiled a @ map bx_expression bs \<and> as_types c = as_types a @ map bx_type bs \<and>
    as_work c = as_work a + sum_list (map bx_work bs) \<and>
    foldr max (as_lookbacks c) 0 = max (foldr max (as_lookbacks a) 0) (foldr max (map bx_lookback bs) 0) \<and>
    set (as_field_ids c) = set (as_field_ids a) \<union> (\<Union>b\<in>set bs. snd ` set (bx_fields b)) \<and>
    as_window c = window_seen ps bs (as_window a)"
  using assms
proof (induction ps bs arbitrary: index a rule: list_all2_induct)
  case Nil
  then show ?case by simp
next
  case (Cons p ps b bs)
  obtain name rule where p: "p = (name, rule)" by (cases p)
  let ?goal = "\<lambda>a'. (\<forall>x\<in>set (as_lookbacks a'). 0 \<le> x) \<and> as_compiled a' = as_compiled a @ [bx_expression b] \<and>
      as_types a' = as_types a @ [bx_type b] \<and> as_work a' = as_work a + bx_work b \<and>
      foldr max (as_lookbacks a') 0 = max (foldr max (as_lookbacks a) 0) (bx_lookback b) \<and>
      set (as_field_ids a') = set (as_field_ids a) \<union> snd ` set (bx_fields b) \<and>
      as_window a' = window_seen [p] [b] (as_window a)"
  have "\<exists>a'. ?goal a' \<and> validate_arguments bindings location index (p # ps) (map bx_expression (b # bs)) a
      = validate_arguments bindings location (Suc index) ps (map bx_expression bs) a'"
  proof (cases "rule = Window")
    case True
    then obtain n where n: "1 \<le> n" "n \<le> 252" "b = window_leaf n depth"
      using Cons.hyps(1) p by (auto simp: argument_ok_def)
    show ?thesis
      by (rule exI [of _ "add_window (bx_expression b) n a"])
        (use True n Cons.prems(2) in \<open>simp add: p window_argument_def add_window_def\<close>)
  next
    case False
    then have b: "sound l depth b" "accepts rule (bx_type b)" using Cons.hyps(1) p by (auto simp: argument_ok_def)
    obtain v where v: "validate_compiled_node bindings (argument_location location index) (bx_expression b) = Inr v" "agrees v b"
      using b(1) Cons.prems(1) unfolding sound_def accepted_def by (metis list.set_intros(1))
    obtain a' where a': "add_argument location rule v a = Inr a'"
      "a' = a\<lparr>as_types := as_types a @ [va_type v], as_compiled := as_compiled a @ [va_node v],
            as_lookbacks := as_lookbacks a @ [va_lookback v], as_work := as_work a + va_work v,
            as_fields := List.union (as_fields a) (va_fields v),
            as_field_ids := List.union (as_field_ids a) (va_field_ids v)\<rparr>"
      using b(2) v(2) by (auto simp: add_argument_def agrees_def)
    have lb: "0 \<le> bx_lookback b" "is_dict (bx_expression b)" using b(1) by (auto simp: sound_def fits_tree_def)
    have m: "foldr max (as_lookbacks a @ [bx_lookback b]) 0 = max (foldr max (as_lookbacks a) 0) (bx_lookback b)"
      unfolding foldr_max_append using lb(1) by simp
    have "?goal a'"
      using v(2) Cons.prems(2) lb(1) m False by (auto simp: a'(2) agrees_def p)
    then show ?thesis
      using v(1) a'(1) lb(2) False by (intro exI [of _ a']) (simp add: p)
  qed
  then obtain a' where a': "?goal a'" and e: "validate_arguments bindings location index (p # ps) (map bx_expression (b # bs)) a
      = validate_arguments bindings location (Suc index) ps (map bx_expression bs) a'" by blast
  obtain c where "validate_arguments bindings location (Suc index) ps (map bx_expression bs) a' = Inr c \<and>
    as_compiled c = as_compiled a' @ map bx_expression bs \<and> as_types c = as_types a' @ map bx_type bs \<and>
    as_work c = as_work a' + sum_list (map bx_work bs) \<and>
    foldr max (as_lookbacks c) 0 = max (foldr max (as_lookbacks a') 0) (foldr max (map bx_lookback bs) 0) \<and>
    set (as_field_ids c) = set (as_field_ids a') \<union> (\<Union>b\<in>set bs. snd ` set (bx_fields b)) \<and>
    as_window c = window_seen ps bs (as_window a')"
    using Cons.IH [of a' "Suc index"] Cons.prems(1) a' by auto
  then show ?case using a' unfolding e by (intro exI [of _ c]) (auto simp: p)
qed

lemma effective_lookback_nonneg:
  assumes "0 \<le> x" "\<And>n. w = Some n \<Longrightarrow> 1 \<le> n"
  shows "0 \<le> effective_lookback builtin x w"
proof (cases w)
  case (Some n)
  then show ?thesis using assms(1) assms(2) [OF Some]
    by (simp add: effective_lookback_def split: lookback_rule.splits)
qed (simp add: effective_lookback_def assms(1) split: lookback_rule.splits)

lemma merges_within:
  assumes "distinct (map fst F)" "\<forall>b\<in>set bs. set (bx_fields b) \<subseteq> set F" "set d \<subseteq> set F" "distinct (map fst d)"
  shows "set (foldl (\<lambda>d a. merge d (bx_fields a)) d bs) = set d \<union> (\<Union>b\<in>set bs. set (bx_fields b)) \<and>
    distinct (map fst (foldl (\<lambda>d a. merge d (bx_fields a)) d bs))"
  using assms(2-)
proof (induction bs arbitrary: d)
  case (Cons b bs)
  have m: "set (merge d (bx_fields b)) = set d \<union> set (bx_fields b) \<and> distinct (map fst (merge d (bx_fields b)))"
    by (rule merge_within [OF assms(1)]) (use Cons.prems in auto)
  have "set (foldl (\<lambda>d a. merge d (bx_fields a)) (merge d (bx_fields b)) bs)
      = set (merge d (bx_fields b)) \<union> (\<Union>b\<in>set bs. set (bx_fields b)) \<and>
    distinct (map fst (foldl (\<lambda>d a. merge d (bx_fields a)) (merge d (bx_fields b)) bs))"
    by (rule Cons.IH) (use Cons.prems m in auto)
  then show ?case using m by auto
qed simp

lemma argument_tree:
  assumes "argument_ok l (depth + 1) p b" "depth + 1 \<le> MAX_EXPRESSION_DEPTH"
  shows "fits_tree b (depth + 1) \<and> 0 \<le> bx_lookback b \<and> set (bx_fields b) \<subseteq> set (la_fields l)"
proof (cases "snd p = Window")
  case True
  then show ?thesis using assms by (auto simp: argument_ok_def fits_tree_def dict_simps)
qed (use assms in \<open>auto simp: argument_ok_def sound_def fields_within_def\<close>)

lemma call_account_only:
  assumes ok: "builtin_ok builtin" "bi_result_rule builtin \<noteq> CommonSeries"
    and args: "list_all2 (argument_ok l depth) (bi_parameters builtin) bs"
    and t: "call_type builtin (map bx_type bs) = Inr t" "t \<notin> {NUMERIC_SERIES, BOOLEAN_SERIES}"
  shows "(\<Union>b\<in>set bs. set (bx_fields b)) \<subseteq> {(''close'', CLOSE_FIELD_ID)}"
proof -
  have one: "set (bx_fields b) \<subseteq> {(''close'', CLOSE_FIELD_ID)}"
    if "argument_ok l depth p b" "snd p = Window \<or> bx_type b \<notin> {NUMERIC_SERIES, BOOLEAN_SERIES}" for p b
    using that by (auto simp: argument_ok_def sound_def account_only_def split: if_splits)
  from ok consider
      "bi_parameters builtin = series_window" "bi_result_rule builtin = SameAsFirst"
    | "bi_parameters builtin = [(''value'', Numeric)]" "bi_result_rule builtin = SameAsFirst"
    | "bi_result_rule builtin = NumericSeries"
    | "bi_result_rule builtin = Conditional"
      "bi_parameters builtin = [(''condition'', Boolean), (''when_true'', Value), (''when_false'', Value)]"
    by (auto simp: builtin_ok_def)
  then show ?thesis
  proof cases
    case 1
    then obtain x y where "bs = [x, y]" "argument_ok l depth (''series'', Temporal) x" "argument_ok l depth (''window'', Window) y"
      using args by (auto simp: series_window_def list_all2_Cons1)
    then show ?thesis using one [of "(''series'', Temporal)" x] one [of "(''window'', Window)" y] 1 t
      by (auto simp: call_type_def)
  next
    case 2
    then obtain x where "bs = [x]" "argument_ok l depth (''value'', Numeric) x"
      using args by (auto simp: list_all2_Cons1)
    then show ?thesis using one [of "(''value'', Numeric)" x] 2 t by (auto simp: call_type_def)
  next
    case 3
    then show ?thesis using t by (simp add: call_type_def)
  next
    case 4
    then obtain x y z where bs: "bs = [x, y, z]" "argument_ok l depth (''condition'', Boolean) x"
      "argument_ok l depth (''when_true'', Value) y" "argument_ok l depth (''when_false'', Value) z"
      using args by (auto simp: list_all2_Cons1)
    obtain boolean where "t = result_scope [bx_type x, bx_type y, bx_type z] boolean"
      using t(1) 4 bs(1) by (auto simp: call_type_def conditional_result_type_def split: if_splits)
    then have "list_all (\<lambda>t. t \<notin> {NUMERIC_SERIES, BOOLEAN_SERIES}) [bx_type x, bx_type y, bx_type z]"
      using t(2) by (intro result_scope_account) simp
    then show ?thesis
      using bs one [OF bs(2)] one [OF bs(3)] one [OF bs(4)] by auto
  qed
qed

lemma sound_call:
  assumes l: "language_ok l" and f: "find_builtin (bi_identifier builtin) = Some builtin"
    and r: "bi_result_rule builtin \<noteq> CommonSeries"
    and args: "list_all2 (argument_ok l (depth + 1)) (bi_parameters builtin) bs"
    and d: "depth + 1 \<le> MAX_EXPRESSION_DEPTH"
    and b: "build_call builtin (window_seen (bi_parameters builtin) bs None) bs depth = Inr b"
  shows "sound l depth b"
proof -
  let ?w = "window_seen (bi_parameters builtin) bs None"
  obtain t where t: "call_type builtin (map bx_type bs) = Inr t"
    and b: "b = \<lparr>bx_expression = VDict [(''kind'', VStr ''call''), (''identifier'', VStr (bi_identifier builtin)),
                                (''arguments'', VList (map bx_expression bs))],
          bx_type = t, bx_fields = foldl (\<lambda>d a. merge d (bx_fields a)) [] bs,
          bx_lookback = effective_lookback builtin (foldr max (map bx_lookback bs) 0) ?w,
          bx_nodes = 1 + sum_list (map bx_nodes bs), bx_depth = foldr max (map bx_depth bs) depth,
          bx_work = estimated_work builtin (sum_list (map bx_work bs)) ?w\<rparr>"
    using b by (auto simp: build_call_def split: sum.splits py_error.splits)
  have each: "\<forall>b\<in>set bs. fits_tree b (depth + 1) \<and> 0 \<le> bx_lookback b \<and> set (bx_fields b) \<subseteq> set (la_fields l)"
  proof
    fix c
    assume "c \<in> set bs"
    then obtain i where "i < length bs" "c = bs ! i" by (auto simp: in_set_conv_nth)
    with list_all2_nthD2 [OF args] have "argument_ok l (depth + 1) (bi_parameters builtin ! i) c" by blast
    from argument_tree [OF this d]
    show "fits_tree c (depth + 1) \<and> 0 \<le> bx_lookback c \<and> set (bx_fields c) \<subseteq> set (la_fields l)" .
  qed
  have m: "set (bx_fields b) = (\<Union>b\<in>set bs. set (bx_fields b)) \<and> distinct (map fst (bx_fields b))"
    using merges_within [of "la_fields l" bs "[]"] l each by (simp add: b language_ok_def)
  have len: "length bs = length (bi_parameters builtin)" using args by (simp add: list_all2_lengthD)
  have acc: "accepted b"
    unfolding accepted_def
  proof (intro allI impI)
    fix bindings location
    assume "covers bindings (bx_fields b)"
    then have c: "\<forall>b\<in>set bs. covers bindings (bx_fields b)" using m by (fastforce simp: covers_def)
    from validate_arguments_accepts [OF args c, of no_arguments location 0] obtain a where a:
      "validate_arguments bindings location 0 (bi_parameters builtin) (map bx_expression bs) no_arguments = Inr a"
      "as_compiled a = map bx_expression bs" "as_types a = map bx_type bs" "as_work a = sum_list (map bx_work bs)"
      "foldr max (as_lookbacks a) 0 = foldr max (map bx_lookback bs) 0"
      "set (as_field_ids a) = (\<Union>b\<in>set bs. snd ` set (bx_fields b))" "as_window a = ?w"
      by (auto simp: no_arguments_def max_def)
    have s: "call_signature location (bx_expression b) = Inr (builtin, map bx_expression bs)"
      using f r len by (simp add: b call_signature_def)
    show "\<exists>v. validate_compiled_node bindings location (bx_expression b) = Inr v \<and> agrees v b"
      using a s t m by (auto simp: validate_compiled_node.simps [of _ _ "VDict d" for d] b finish_call_def agrees_def)
  qed
  have dicts: "filter is_dict (map bx_expression bs) = map bx_expression bs"
    using each by (auto simp: filter_id_conv fits_tree_def)
  have tree: "fits_tree b depth"
    using each d dicts
    by (auto simp: fits_tree_def b dict_simps list_all_iff intro!: arg_cong [of _ _ sum_list])
  have "0 \<le> bx_lookback b"
    unfolding b built.simps by (rule effective_lookback_nonneg) (simp_all add: window_seen_range [OF args, of None])
  moreover have "account_only b"
    using call_account_only [OF _ r args t] find_builtin_ok [OF f] m by (auto simp: account_only_def b)
  moreover have "fields_within l (bx_fields b)" using m each unfolding fields_within_def by blast
  ultimately show ?thesis unfolding sound_def using acc tree by blast
qed

section \<open>The induction over the syntax tree\<close>

lemma call_target_builtin:
  assumes "language_ok l" "call_target l callee arguments keywords = Inr builtin"
  shows "find_builtin (bi_identifier builtin) = Some builtin \<and> length arguments = length (bi_parameters builtin)"
  using assms language_builtin_eq [OF assms(1)] find_builtin_ok
  by (auto simp: call_target_def split: ast.splits if_splits option.splits list.splits)

lemma parameters_have_series:
  assumes "builtin_ok builtin" "bi_result_rule builtin \<noteq> CommonSeries"
    and "list_all2 (argument_ok l depth) (bi_parameters builtin) bs"
  shows "depth \<le> MAX_EXPRESSION_DEPTH"
proof -
  from assms obtain p ps b cs where "bi_parameters builtin = p # ps" "snd p \<noteq> Window" "bs = b # cs" "argument_ok l depth p b"
    by (auto simp: builtin_ok_def series_window_def list_all2_Cons1)
  then show ?thesis by (auto simp: argument_ok_def dest: sound_depth)
qed

lemma build_sound:
  assumes l: "language_ok l"
  shows "build l depth node = Inr b \<Longrightarrow> sound l depth b"
    and "build_all l depth nodes = Inr bs \<Longrightarrow> length bs = length nodes \<and> (\<forall>b\<in>set bs. sound l depth b)"
    and "build_arguments l depth parameters nodes window children = Inr (w, built) \<Longrightarrow>
      length nodes = length parameters \<Longrightarrow>
      \<exists>new. built = children @ new \<and> list_all2 (argument_ok l depth) parameters new \<and> w = window_seen parameters new window"
  using l
proof (induction l depth node and l depth nodes and l depth parameters nodes window children
    arbitrary: b and bs and w built rule: build_build_all_build_arguments.induct)
  case (1 l depth node)
  from "1.prems"(1) have d: "depth \<le> MAX_EXPRESSION_DEPTH" and r: "raiseIf (MAX_EXPRESSION_DEPTH < depth) (diagnostic ''EXPRESSION_TOO_DEEP'' ''resource_limit'') = Inr ()"
    by (simp_all add: build.simps [of l depth node] bindE_Inr_iff)
  note built = "1.prems"(1) [unfolded build.simps [of l depth node] r bindE_simps]
  show ?case
  proof (cases node)
    case (Name i)
    then show ?thesis using built d "1.prems"(2)
      by (auto simp: build_name_def intro: sound_field split: option.splits if_splits)
  next
    case (Constant v)
    then show ?thesis using built d by (auto intro: sound_number)
  next
    case (UnaryOp operator operand)
    then obtain name child where u: "unary_name operator = Some name" "build l (depth + 1) operand = Inr child" "build_unary name child depth = Inr b"
      using built by (auto split: option.splits)
    have "sound l (depth + 1) child" by (rule "1.IH"(1) [OF r UnaryOp u(1,2) "1.prems"(2)])
    moreover have "name = ''negate'' \<or> name = ''not''" using u(1) by (cases operator) auto
    ultimately show ?thesis by (rule sound_unary [OF _ u(3)])
  next
    case (BinOp left operator right)
    then obtain name x y where u: "arithmetic_name operator = Some name" "build l (depth + 1) left = Inr x"
      "build l (depth + 1) right = Inr y" "build_binary name depth x y = Inr b"
      using built by (auto split: option.splits)
    have "sound l (depth + 1) x" by (rule "1.IH"(2) [OF r BinOp u(1,2) "1.prems"(2)])
    moreover have "sound l (depth + 1) y" by (rule "1.IH"(3) [OF r BinOp u(1,2,3) "1.prems"(2)])
    ultimately show ?thesis by (rule sound_binary [OF "1.prems"(2) _ _ u(4)])
  next
    case (Compare left operators comparators)
    then obtain operator right name x y where u: "operators = [operator]" "comparators = [right]"
      "comparison_name operator = Some name" "build l (depth + 1) left = Inr x"
      "build l (depth + 1) right = Inr y" "build_binary name depth x y = Inr b"
      using built by (auto split: option.splits list.splits)
    have "sound l (depth + 1) x"
      by (rule "1.IH"(4) [OF r Compare refl u(1) refl u(2) refl u(3,4) "1.prems"(2)])
    moreover have "sound l (depth + 1) y"
      by (rule "1.IH"(5) [OF r Compare refl u(1) refl u(2) refl u(3,4,5) "1.prems"(2)])
    ultimately show ?thesis by (rule sound_binary [OF "1.prems"(2) _ _ u(6)])
  next
    case (BoolOp operator operands)
    then obtain x xs where u: "build_all l (depth + int (length operands) - 1) operands = Inr (x # xs)"
      "fold_binary (boolean_name operator) depth x xs = Inr b"
      using built by (auto split: list.splits)
    have "length (x # xs) = length operands \<and> (\<forall>b\<in>set (x # xs). sound l (depth + int (length operands) - 1) b)"
      by (rule "1.IH"(6) [OF r BoolOp u(1) "1.prems"(2)])
    moreover from this have "depth + int (length operands) - 1 = depth + int (length xs)" by auto
    ultimately have "sound l (depth + int (length xs)) x" "\<forall>c\<in>set xs. sound l (depth + int (length xs)) c" by auto
    then show ?thesis by (rule sound_fold [OF "1.prems"(2) _ _ u(2)])
  next
    case (Call callee arguments kwargs)
    then obtain builtin where t: "call_target l callee arguments kwargs = Inr builtin" using built by auto
    note f = call_target_builtin [OF "1.prems"(2) t]
    show ?thesis
    proof (cases "bi_result_rule builtin = CommonSeries")
      case True
      then obtain e bs where u: "common_expression (bi_identifier builtin) arguments = Inr e"
        "build_all l (depth + 1) arguments = Inr bs" "finish_common l e arguments depth = Inr b"
        using built t Call by auto
      have bs: "length bs = length arguments \<and> (\<forall>b\<in>set bs. sound l (depth + 1) b)"
        by (rule "1.IH"(7) [OF r Call t True u(1,2) "1.prems"(2)])
      have "length arguments \<le> 1"
        using u(1) by (auto simp: common_expression_def common_reference_def split: if_splits)
      then have "depth + int (length arguments) \<le> MAX_EXPRESSION_DEPTH"
        using bs d by (cases bs) (auto dest: sound_depth)
      then show ?thesis by (rule sound_common [OF "1.prems"(2) u(1,3)])
    next
      case False
      then obtain w new where u: "build_arguments l (depth + 1) (bi_parameters builtin) arguments None [] = Inr (w, new)"
        "build_call builtin w new depth = Inr b"
        using built t Call by auto
      have n: "list_all2 (argument_ok l (depth + 1)) (bi_parameters builtin) new" "w = window_seen (bi_parameters builtin) new None"
        using "1.IH"(8) [OF r Call t False u(1) _ "1.prems"(2)] f by auto
      have "depth + 1 \<le> MAX_EXPRESSION_DEPTH"
        by (rule parameters_have_series [OF _ False n(1)]) (use find_builtin_ok f in blast)
      then show ?thesis
        by (rule sound_call [OF "1.prems"(2) conjunct1 [OF f] False n(1) _ u(2) [unfolded n(2)]])
    qed
  qed (use built in auto)
next
  case (2 l depth)
  then show ?case by simp
next
  case (3 l depth node nodes)
  then show ?case by force
next
  case (4 l depth nodes window children)
  then show ?case by simp
next
  case (5 l depth p ps window children)
  then show ?case by simp
next
  case (6 l depth name rule parameters node nodes window children)
  show ?case
  proof (cases "rule = Window")
    case True
    then obtain n where n: "build_window node = Inr n"
      "build_arguments l depth parameters nodes (Some n) (children @ [window_leaf n depth]) = Inr (w, built)"
      using "6.prems"(1) by auto
    have "1 \<le> n \<and> n \<le> 252" using n(1) by (auto simp: build_window_def split: ast.splits pyval.splits if_splits)
    then have "argument_ok l depth (name, rule) (window_leaf n depth)" using True by (auto simp: argument_ok_def)
    moreover obtain new where "built = (children @ [window_leaf n depth]) @ new" "list_all2 (argument_ok l depth) parameters new"
      "w = window_seen parameters new (Some n)"
      using "6.IH"(1) [OF True n(1,2) _ "6.prems"(3)] "6.prems"(2) by auto
    ultimately show ?thesis
      using True by (intro exI [of _ "window_leaf n depth # new"]) simp
  next
    case False
    then obtain child u where c: "build l depth node = Inr child" "check_argument rule child = Inr u"
      "build_arguments l depth parameters nodes window (children @ [child]) = Inr (w, built)"
      using "6.prems"(1) by auto
    have "sound l depth child" by (rule "6.IH"(2) [OF False c(1) "6.prems"(3)])
    then have "argument_ok l depth (name, rule) child" using False c(2) by (simp add: argument_ok_def check_argument_def)
    moreover obtain new where "built = (children @ [child]) @ new" "list_all2 (argument_ok l depth) parameters new"
      "w = window_seen parameters new window"
      using "6.IH"(3) [OF False c(1,2,3) _ "6.prems"(3)] "6.prems"(2) by auto
    ultimately show ?thesis
      using False by (intro exI [of _ "child # new"]) simp
  qed
qed

section \<open>Compiled formulas\<close>

lemma compile_built:
  assumes "compile_formula flog parse l source context = Inr c"
  obtains tree b where "build l 1 tree = Inr b" and "bx_type b \<in> set (expected_types context)"
    and "bx_nodes b \<le> MAX_EXPRESSION_NODES" and "bx_lookback b \<le> MAX_EFFECTIVE_LOOKBACK"
    and "bx_work b \<le> MAX_ESTIMATED_WORK"
    and "c = \<lparr>co_source = source, co_context = context, co_expression = bx_expression b,
              co_field_ids_by_identifier = bx_fields b, co_result_type = bx_type b,
              co_effective_lookback = bx_lookback b, co_node_count = bx_nodes b,
              co_depth = bx_depth b, co_estimated_work = bx_work b\<rparr>"
  using assms by (auto simp: compile_formula_def check_limits_def split: option.splits)

lemma built_validates:
  assumes b: "sound l 1 b" and types: "bx_type b \<in> set types" and nodes: "bx_nodes b \<le> MAX_EXPRESSION_NODES"
    and lookback: "bx_lookback b \<le> MAX_EFFECTIVE_LOOKBACK" and work: "bx_work b \<le> MAX_ESTIMATED_WORK"
    and cov: "covers bindings (bx_fields b)"
  shows "\<exists>p. validate_normalized_expression (bx_expression b) bindings types = Inr p \<and>
    pa_expression p = bx_expression b \<and> pa_effective_lookback p = bx_lookback b \<and> pa_estimated_work p = bx_work b \<and>
    set (pa_field_ids p) = snd ` set (bx_fields b)"
proof -
  have "scan_nodes [(bx_expression b, 1)] 0 = Inr ()"
    by (rule scan_nodes_accepts) (use b nodes in \<open>auto simp: sound_def fits_tree_def\<close>)
  moreover obtain v where "validate_compiled_node bindings ''alpha.expression'' (bx_expression b) = Inr v" "agrees v b"
    using b cov unfolding sound_def accepted_def by blast
  ultimately show ?thesis
    using types lookback work
    by (auto simp: validate_normalized_expression_def agrees_def MAX_EFFECTIVE_LOOKBACK_def)
qed

lemma merge_bindings:
  assumes "\<forall>x\<in>set ps. fst x = k \<longrightarrow> snd x = v"
  shows "map_of (merge d ps) k = (if k \<in> set (map fst ps) then Some v else map_of d k)"
  using assms
proof (induction ps arbitrary: d)
  case Nil
  then show ?case by (simp add: merge_def)
next
  case (Cons p ps)
  obtain a b where p: "p = (a, b)" by (cases p)
  have "map_of (merge (AList.update a b d) ps) k = (if k \<in> set (map fst ps) then Some v else map_of (AList.update a b d) k)"
    by (rule Cons.IH) (use Cons.prems in auto)
  then show ?case using Cons.prems p by (auto simp: merge_def)
qed

lemma field_bindings_cover:
  assumes l: "language_ok l" and es: "\<forall>e\<in>set es. set (co_field_ids_by_identifier e) \<subseteq> set (la_fields l)" and c: "c \<in> set es"
    and close: "by_volatility \<longrightarrow> (''close'', CLOSE_FIELD_ID) \<in> set (la_fields l)"
  shows "covers (field_bindings es by_volatility) (co_field_ids_by_identifier c)"
  unfolding covers_def
proof (clarify)
  fix i f
  assume i: "(i, f) \<in> set (co_field_ids_by_identifier c)"
  let ?ps = "map (\<lambda>(identifier, field_id). (field_id, identifier)) (concat (map co_field_ids_by_identifier es))
       @ (if by_volatility then [(CLOSE_FIELD_ID, ''close'')] else [])"
  have es': "\<And>e j g. e \<in> set es \<Longrightarrow> (j, g) \<in> set (co_field_ids_by_identifier e) \<Longrightarrow> (j, g) \<in> set (la_fields l)"
    using es by blast
  have u: "j = i" if "(j, f) \<in> set (la_fields l)" for j
    using that i c es l unfolding language_ok_def distinct_map inj_on_def by force
  have "\<forall>x\<in>set ?ps. fst x = f \<longrightarrow> snd x = i"
    using es' close u by (auto split: if_splits)
  from merge_bindings [OF this, of "[]"] i c show "map_of (field_bindings es by_volatility) f = Some i"
    unfolding field_bindings_def by (fastforce simp: image_iff)
qed

lemma compiled_sound:
  assumes "language_ok l" "compile_formula flog parse l source context = Inr c"
  shows "set (co_field_ids_by_identifier c) \<subseteq> set (la_fields l)"
  using compile_built [OF assms(2)] build_sound(1) [OF assms(1)]
  by (metis compiled_alpha.simps(4) fields_within_def sound_def)

section \<open>Sample formulas\<close>

definition sample_fields :: "field_definition list" where
  "sample_fields =
     [\<lparr>fd_field_id = CLOSE_FIELD_ID, fd_alpha_identifier = Some ''close'', fd_has_series_reader = True\<rparr>,
      \<lparr>fd_field_id = ''market.turnover'', fd_alpha_identifier = None, fd_has_series_reader = False\<rparr>,
      \<lparr>fd_field_id = ''market.volume'', fd_alpha_identifier = Some ''volume'', fd_has_series_reader = True\<rparr>]"

definition sample_language :: language where
  "sample_language = projr (alpha_language sample_fields BUILTIN_DEFINITIONS)"

text \<open>The trees of \<open>rank(pct_change(close, 20))\<close> and \<open>if_else(universe_return() > 0, 1, 0.5)\<close>.\<close>

definition sample_parse :: "string \<Rightarrow> ast option" where
  "sample_parse source =
     (if source = ''momentum'' then
        Some (Call (Name ''rank'') [Call (Name ''pct_change'') [Name ''close'', Constant (VInt 20)] []] [])
      else if source = ''exposure'' then
        Some (Call (Name ''if_else'')
          [Compare (Call (Name ''universe_return'') [] []) [Gt] [Constant (VInt 0)],
           Constant (VInt 1), Constant (VFloat (Finite (1 / 2)))] [])
      else None)"

definition sample_signal :: compiled_alpha where
  "sample_signal = projr (compile_formula (\<lambda>x. x) sample_parse sample_language ''momentum'' Signal)"

definition sample_exposure :: compiled_alpha where
  "sample_exposure = projr (compile_formula (\<lambda>x. x) sample_parse sample_language ''exposure'' Exposure)"

definition sample_requirements :: expression_requirements where
  "sample_requirements = projr (expression_requirements [sample_signal, sample_exposure] ''inverse_volatility'' 60)"

lemma sample_language: "alpha_language sample_fields BUILTIN_DEFINITIONS = Inr sample_language"
proof -
  have "\<not> isl (alpha_language sample_fields BUILTIN_DEFINITIONS)" by code_simp
  then show ?thesis unfolding sample_language_def by (simp add: sum.collapse(2))
qed

lemma sample_signal: "compile_formula (\<lambda>x. x) sample_parse sample_language ''momentum'' Signal = Inr sample_signal"
proof -
  have "\<not> isl (compile_formula (\<lambda>x. x) sample_parse sample_language ''momentum'' Signal)" by code_simp
  then show ?thesis unfolding sample_signal_def by (simp add: sum.collapse(2))
qed

lemma sample_exposure: "compile_formula (\<lambda>x. x) sample_parse sample_language ''exposure'' Exposure = Inr sample_exposure"
proof -
  have "\<not> isl (compile_formula (\<lambda>x. x) sample_parse sample_language ''exposure'' Exposure)" by code_simp
  then show ?thesis unfolding sample_exposure_def by (simp add: sum.collapse(2))
qed

lemma sample_requirements:
  "expression_requirements [sample_signal, sample_exposure] ''inverse_volatility'' 60 = Inr sample_requirements"
proof -
  have "\<not> isl (expression_requirements [sample_signal, sample_exposure] ''inverse_volatility'' 60)" by code_simp
  then show ?thesis unfolding sample_requirements_def by (simp add: sum.collapse(2))
qed

lemma sample_values:
  "co_context sample_signal = Signal" "co_effective_lookback sample_signal = 20" "er_effective_lookback sample_requirements = 60"
  "(''close'', CLOSE_FIELD_ID) \<in> set (la_fields sample_language)" "co_effective_lookback sample_exposure = 1"
  by code_simp+

section \<open>Properties\<close>

text \<open>
  C16: A signal formula the compiler accepts passes the validation of the kernel under the field
  bindings the requirements of the research give, unchanged, with the lookback, the work and the
  fields the compiler announced, and the lookback required covers it.
\<close>

theorem compiled_signal_validates:
  assumes "alpha_language field_definitions BUILTIN_DEFINITIONS = Inr l"
    and "\<forall>e\<in>set es. \<exists>source context. compile_formula flog parse l source context = Inr e"
    and "c \<in> set es" and "co_context c = Signal"
    and "expression_requirements es weighting volatility_window = Inr q"
    and "weighting = ''inverse_volatility'' \<Longrightarrow> (''close'', CLOSE_FIELD_ID) \<in> set (la_fields l)"
  shows "\<exists>p. validate_normalized_alpha (co_expression c) (er_field_bindings q) = Inr p \<and>
    pa_expression p = co_expression c \<and> pa_effective_lookback p = co_effective_lookback c \<and>
    pa_estimated_work p = co_estimated_work c \<and>
    set (pa_field_ids p) = snd ` set (co_field_ids_by_identifier c) \<and>
    pa_effective_lookback p \<le> er_effective_lookback q"
proof -
  have l: "language_ok l" by (rule alpha_language_ok [OF assms(1)])
  obtain source mode where "compile_formula flog parse l source mode = Inr c" using assms(2,3) by blast
  then obtain tree b where b: "build l 1 tree = Inr b" "bx_type b \<in> set (expected_types mode)"
    "bx_nodes b \<le> MAX_EXPRESSION_NODES" "bx_lookback b \<le> MAX_EFFECTIVE_LOOKBACK" "bx_work b \<le> MAX_ESTIMATED_WORK"
    and c: "co_context c = mode" "co_expression c = bx_expression b" "co_field_ids_by_identifier c = bx_fields b"
      "co_effective_lookback c = bx_lookback b" "co_estimated_work c = bx_work b"
    by (auto elim!: compile_built)
  have q: "er_field_bindings q = field_bindings es (weighting = ''inverse_volatility'')"
    "co_effective_lookback c \<le> er_effective_lookback q"
    using assms(5) assms(3) by (auto simp: expression_requirements_def Let_def le_max_iff_disj)
  have "covers (er_field_bindings q) (bx_fields b)"
    using field_bindings_cover [OF l _ assms(3), of "weighting = ''inverse_volatility''"] assms(2,6) compiled_sound [OF l]
    unfolding q(1) c(3) [symmetric] by blast
  from built_validates [OF build_sound(1) [OF l b(1)] b(2) b(3-5) this]
  show ?thesis
    using assms(4) c q(2) by (auto simp: expected_types_def validate_normalized_alpha_def)
qed

lemma compiled_signal_validates_witness:
  "\<exists>p. validate_normalized_alpha (co_expression sample_signal) (er_field_bindings sample_requirements) = Inr p \<and>
    pa_effective_lookback p = 20"
proof -
  have "\<forall>e\<in>set [sample_signal, sample_exposure].
      \<exists>source mode. compile_formula (\<lambda>x. x) sample_parse sample_language source mode = Inr e"
    using sample_signal sample_exposure by auto
  from compiled_signal_validates [OF sample_language this _ sample_values(1) sample_requirements sample_values(4)]
  show ?thesis unfolding sample_values by auto
qed

text \<open>
  C17: An exposure formula the compiler accepts passes the exposure validation of the kernel, which
  knows no field but the adjusted close: a formula that is no stock series reads none.
\<close>

theorem compiled_exposure_validates:
  assumes "alpha_language field_definitions BUILTIN_DEFINITIONS = Inr l"
    and "compile_formula flog parse l source Exposure = Inr c"
  shows "\<exists>p. validate_normalized_exposure (co_expression c) = Inr p \<and> pa_expression p = co_expression c \<and>
    pa_effective_lookback p = co_effective_lookback c \<and>
    set (co_field_ids_by_identifier c) \<subseteq> {(''close'', CLOSE_FIELD_ID)}"
proof -
  have l: "language_ok l" by (rule alpha_language_ok [OF assms(1)])
  obtain tree b where b: "build l 1 tree = Inr b" "bx_type b \<in> set (expected_types Exposure)"
    "bx_nodes b \<le> MAX_EXPRESSION_NODES" "bx_lookback b \<le> MAX_EFFECTIVE_LOOKBACK" "bx_work b \<le> MAX_ESTIMATED_WORK"
    and c: "co_expression c = bx_expression b" "co_field_ids_by_identifier c = bx_fields b" "co_effective_lookback c = bx_lookback b"
    using assms(2) by (auto elim!: compile_built)
  have s: "sound l 1 b" by (rule build_sound(1) [OF l b(1)])
  have close: "set (bx_fields b) \<subseteq> {(''close'', CLOSE_FIELD_ID)}"
    using s b(2) by (auto simp: sound_def account_only_def expected_types_def)
  then have "covers [(CLOSE_FIELD_ID, ''close'')] (bx_fields b)" by (auto simp: covers_def)
  from built_validates [OF s b(2) b(3-5) this]
  show ?thesis
    using c close by (auto simp: expected_types_def validate_normalized_exposure_def)
qed

lemma compiled_exposure_validates_witness:
  "\<exists>p. validate_normalized_exposure (co_expression sample_exposure) = Inr p \<and> pa_effective_lookback p = 1"
  using compiled_exposure_validates [OF sample_language sample_exposure] unfolding sample_values by blast

end
