(* ===== verification/ExposureSeries.thy ===== *)
theory ExposureSeries
  imports PlanTypes AlphaSound
begin

text \<open>
  The daily exposure of an account: \<open>evaluate_exposure_series\<close> of \<open>research_kernel/exposure.py\<close>, with
  \<open>evaluate_common_execution_series\<close> and \<open>_common_values\<close> of \<open>research_kernel/series_plan.py\<close>.

  A market value of one session is a finite float or missing; the adjusted Close of an instrument is
  read as \<open>None\<close> when it is missing or not finite. The observer of the common inputs is left out.
\<close>

section \<open>Common values\<close>

type_synonym market = "string list \<times> string list \<times> rat option list list \<times> (string \<Rightarrow> string list) \<times> (string \<times> string \<Rightarrow> string option) option"

definition metric_values :: "string \<Rightarrow> common_market \<Rightarrow> rat option list" where
  "metric_values metric aggregate =
     (if metric = ''equal_weight_return'' then cm_equal_weight_return aggregate else cm_advancing_fraction aggregate)"

definition market_aggregate :: "market \<Rightarrow> string option \<Rightarrow> (string option \<times> common_market) list
    \<Rightarrow> py_error + common_market \<times> (string option \<times> common_market) list" where
  "market_aggregate market code aggregates =
     (case market of (instruments, sessions, closes, members_of, industries) \<Rightarrow>
      bindE (raiseIf (code \<noteq> None \<and> industries = None)
               (ValueError ''Industry common input requires historical classifications'')) (\<lambda>_.
      case map_of aggregates code of
        Some aggregate \<Rightarrow> Inr (aggregate, aggregates)
      | None \<Rightarrow>
          bindE (compute_common_market_series sessions instruments closes members_of
                   (case industries of None \<Rightarrow> (\<lambda>_. None) | Some f \<Rightarrow> f) code) (\<lambda>aggregate.
          Inr (aggregate, AList.update code aggregate aggregates))))"

definition common_step :: "market \<Rightarrow> plan_node
    \<Rightarrow> (string option \<times> common_market) list \<times> ((string \<times> string option) \<times> rat option list) list
    \<Rightarrow> py_error + (string option \<times> common_market) list \<times> ((string \<times> string option) \<times> rat option list) list" where
  "common_step market node s =
     (case s of (aggregates, values_by_key) \<Rightarrow>
      if pn_kind node \<noteq> KCommon then Inr (aggregates, values_by_key) else
      bindE (market_aggregate market (pn_industry_code node) aggregates) (\<lambda>(aggregate, aggregates).
      if map_of values_by_key (pn_identifier node, pn_industry_code node) \<noteq> None then Inr (aggregates, values_by_key) else
      bindE (lookupE COMMON_INPUTS (pn_identifier node) (KeyError (pn_identifier node))) (\<lambda>(metric, industry).
      Inr (aggregates, AList.update (pn_identifier node, pn_industry_code node) (metric_values metric aggregate) values_by_key))))"

definition common_values :: "market \<Rightarrow> series_plan \<Rightarrow> py_error + ((string \<times> string option) \<times> rat option list) list" where
  "common_values market plan =
     bindE (foldE (common_step market) (sp_nodes plan) ([], [])) (\<lambda>(aggregates, values_by_key). Inr values_by_key)"

definition common_cell :: "rat option \<Rightarrow> num option" where
  "common_cell v = map_option NFloat v"

definition evaluate_common_execution_series :: "(rat \<Rightarrow> rat) \<Rightarrow> series_plan \<Rightarrow> market \<Rightarrow> py_error + series" where
  "evaluate_common_execution_series flog plan market =
     bindE (raiseIf (list_ex (\<lambda>p. pn_kind p = KField \<or> pn_identifier p = ''rank'') (sp_nodes plan))
              (ValueError ''Account expressions cannot consume stock series'')) (\<lambda>_.
     bindE (common_values market plan) (\<lambda>values_by_key.
     evaluate_series_execution_plan flog (plan\<lparr>sp_field_names := []\<rparr>) [] (Some (length (fst (snd market))))
       (Some (map (\<lambda>(k, v). (k, map common_cell v)) values_by_key)) None))"

section \<open>Exposures\<close>

record exposure_data =
  rd_sessions :: "string list"
  rd_members :: "string \<Rightarrow> string list"
  rd_close :: "string \<times> string \<Rightarrow> rat option"
  rd_industries :: "string \<times> string \<Rightarrow> string option"

definition validate_exposure :: "(rat \<Rightarrow> rat) \<Rightarrow> pyval \<Rightarrow> alpha_error + parsed_alpha" where
  "validate_exposure flog expression =
     bindE (validate_normalized_exposure expression) (\<lambda>parsed.
     bindE (mapErr AlphaPython (common_input_references [expression])) (\<lambda>references.
     bindE (if references = [] then bindE (constant_exposure flog expression) (\<lambda>_. Inr ()) else Inr ()) (\<lambda>_.
     Inr parsed)))"

definition exposure_market :: "exposure_data \<Rightarrow> market" where
  "exposure_market data =
     (let sessions = rd_sessions data;
          instruments = sort (remdups (concat (map (rd_members data) sessions)))
      in (instruments, sessions, map (\<lambda>item. map (\<lambda>session. rd_close data (session, item)) sessions) instruments,
          rd_members data, Some (rd_industries data)))"

definition evaluate_exposure_series :: "(rat \<Rightarrow> rat) \<Rightarrow> exposure_data \<Rightarrow> pyval \<Rightarrow> alpha_error + (string \<times> num option) list" where
  "evaluate_exposure_series flog data expression =
     bindE (validate_exposure flog expression) (\<lambda>parsed.
     bindE (mapErr AlphaPython (common_input_references [expression])) (\<lambda>references.
     if references = [] then
       bindE (constant_exposure flog expression) (\<lambda>x. Inr (map (\<lambda>session. (session, Some (NFloat x))) (rd_sessions data)))
     else
       bindE (build_parsed_plan parsed) (\<lambda>plan.
       bindE (mapErr AlphaPython (evaluate_common_execution_series flog plan (exposure_market data))) (\<lambda>series.
       Inr (zip (rd_sessions data) series)))))"

definition require_exposure_value :: "num option \<Rightarrow> string \<Rightarrow> py_error + rat" where
  "require_exposure_value v session =
     (case v of
        Some n \<Rightarrow> if 0 \<le> nval n \<and> nval n \<le> 1 then to_float n
                  else Inl (ValueError (''Exposure must be finite and between zero and one on '' @ session))
      | None \<Rightarrow> Inl (ValueError (''Exposure must be finite and between zero and one on '' @ session)))"

section \<open>The market aggregates\<close>

definition market_ok :: "market \<Rightarrow> bool" where
  "market_ok market \<longleftrightarrow>
     (case market of (instruments, sessions, closes, members_of, industries) \<Rightarrow>
       length closes = length instruments \<and> list_all (\<lambda>row. length row = length sessions) closes \<and>
       distinct instruments \<and> sorted sessions \<and> distinct sessions \<and> industries \<noteq> None \<and>
       list_all (\<lambda>s. distinct (members_of s) \<and> list_all (\<lambda>m. m \<in> set instruments) (members_of s)) sessions)"

definition full_market :: "nat \<Rightarrow> common_market \<Rightarrow> bool" where
  "full_market n c \<longleftrightarrow> length (cm_equal_weight_return c) = n \<and> length (cm_advancing_fraction c) = n"

lemma overflow_common_day:
  assumes "distinct (members_of session)" "list_all (\<lambda>m. m \<in> set instruments) (members_of session)"
  shows "overflow_only (common_day instruments closes members_of industries code (day, session) acc)"
  using assms unfolding common_day_def mean_return_def advancing_fraction_def
  by (auto simp: Let_def raiseIf_def intro!: overflow_intros split: prod.splits)

lemma common_day_length:
  "common_day instruments closes members_of industries code dated acc = Inr acc' \<Longrightarrow> full_market n acc \<Longrightarrow> full_market (Suc n) acc'"
  by (auto simp: common_day_def Let_def full_market_def split: prod.splits)

lemma common_days:
  assumes "foldE (common_day instruments closes members_of industries code) days acc = Inr acc'" "full_market n acc"
  shows "full_market (n + length days) acc'"
  using assms
proof (induction days arbitrary: acc n)
  case (Cons d days)
  then show ?case using common_day_length by fastforce
qed simp

lemma market_series_safe:
  assumes "market_ok (instruments, sessions, closes, members_of, industries)"
  shows "overflow_only (compute_common_market_series sessions instruments closes members_of f code)"
    and "compute_common_market_series sessions instruments closes members_of f code = Inr c \<Longrightarrow> full_market (length sessions) c"
proof -
  have ok: "distinct (members_of s) \<and> list_all (\<lambda>m. m \<in> set instruments) (members_of s)" if "s \<in> set sessions" for s
    using assms that by (auto simp: market_ok_def list_all_iff)
  show "overflow_only (compute_common_market_series sessions instruments closes members_of f code)"
    using assms ok unfolding compute_common_market_series_def
    by (auto simp: raiseIf_def market_ok_def intro!: overflow_intros overflow_common_day dest: set_zip_rightD)
  show "full_market (length sessions) c"
    if "compute_common_market_series sessions instruments closes members_of f code = Inr c"
    using that common_days [where n = 0] unfolding compute_common_market_series_def
    by (fastforce simp: full_market_def)
qed

definition common_ok :: "nat \<Rightarrow> (string option \<times> common_market) list \<times> ((string \<times> string option) \<times> rat option list) list \<Rightarrow> bool" where
  "common_ok n s \<longleftrightarrow> (\<forall>a\<in>ran (map_of (fst s)). full_market n a) \<and> (\<forall>v\<in>ran (map_of (snd s)). length v = n)"

lemma market_aggregate_safe:
  assumes "market_ok market" "\<forall>a\<in>ran (map_of aggregates). full_market (length (fst (snd market))) a"
  shows "overflow_only (market_aggregate market code aggregates)"
    and "market_aggregate market code aggregates = Inr (c, aggregates') \<Longrightarrow>
      full_market (length (fst (snd market))) c \<and> (\<forall>a\<in>ran (map_of aggregates'). full_market (length (fst (snd market))) a)"
proof -
  obtain instruments sessions closes members_of industries
    where market: "market = (instruments, sessions, closes, members_of, industries)" by (metis prod.exhaust)
  note safe = market_series_safe [OF assms(1) [unfolded market]]
  have "industries \<noteq> None" using assms(1) by (simp add: market market_ok_def)
  then show "overflow_only (market_aggregate market code aggregates)"
    by (auto simp: market_aggregate_def market raiseIf_def intro!: overflow_intros safe(1) split: option.splits)
  show "full_market (length (fst (snd market))) c \<and> (\<forall>a\<in>ran (map_of aggregates'). full_market (length (fst (snd market))) a)"
    if "market_aggregate market code aggregates = Inr (c, aggregates')"
  proof (cases "map_of aggregates code")
    case (Some a)
    then show ?thesis using that assms(2) by (auto simp: market_aggregate_def market intro: ranI)
  next
    case None
    then have "full_market (length sessions) c" "aggregates' = AList.update code c aggregates"
      using that safe(2) by (auto simp: market_aggregate_def market)
    then show ?thesis using assms(2) by (auto simp: market ran_def split: if_splits)
  qed
qed

definition known_common :: "plan_node \<Rightarrow> bool" where
  "known_common node \<longleftrightarrow> (pn_kind node = KCommon \<longrightarrow> pn_identifier node \<in> set (map fst COMMON_INPUTS))"

lemma metric_length: "full_market n c \<Longrightarrow> length (metric_values metric c) = n"
  by (simp add: full_market_def metric_values_def)

lemma overflow_lookup: "k \<in> set (map fst d) \<Longrightarrow> overflow_only (lookupE d k e)"
  by (auto simp: lookupE_def overflow_only_def map_of_eq_None_iff split: option.splits)

text \<open>One node of the plan: the values found so far stay, and those of the node are there.\<close>

lemma ran_update: "v \<in> ran (f(k \<mapsto> x)) \<Longrightarrow> v = x \<or> v \<in> ran f"
  by (auto simp: ran_def split: if_splits)

lemma common_step_safe:
  assumes "market_ok market" "common_ok (length (fst (snd market))) s" "known_common node"
  shows "overflow_only (common_step market node s)"
    and "common_step market node s = Inr t \<Longrightarrow> common_ok (length (fst (snd market))) t \<and>
      dom (map_of (snd s)) \<subseteq> dom (map_of (snd t)) \<and>
      (pn_kind node = KCommon \<longrightarrow> (pn_identifier node, pn_industry_code node) \<in> dom (map_of (snd t)))"
proof -
  obtain aggregates values_by_key where s: "s = (aggregates, values_by_key)" by (cases s)
  let ?n = "length (fst (snd market))" and ?key = "(pn_identifier node, pn_industry_code node)"
  have ok: "\<forall>a\<in>ran (map_of aggregates). full_market ?n a" "\<forall>v\<in>ran (map_of values_by_key). length v = ?n"
    using assms(2) by (simp_all add: common_ok_def s)
  note aggregate = market_aggregate_safe [OF assms(1) ok(1)]
  have lookup: "overflow_only (lookupE COMMON_INPUTS (pn_identifier node) e)" if "pn_kind node = KCommon" for e
    by (rule overflow_lookup) (use assms(3) that in \<open>simp add: known_common_def\<close>)
  show "overflow_only (common_step market node s)"
    using aggregate(1) unfolding s common_step_def
    by (auto intro!: overflow_intros lookup split: prod.splits)
  assume step: "common_step market node s = Inr t"
  show "common_ok ?n t \<and> dom (map_of (snd s)) \<subseteq> dom (map_of (snd t)) \<and>
      (pn_kind node = KCommon \<longrightarrow> ?key \<in> dom (map_of (snd t)))"
  proof (cases "pn_kind node = KCommon")
    case False
    then show ?thesis using step assms(2) by (simp add: common_step_def s)
  next
    case True
    then obtain c aggregates' where c: "market_aggregate market (pn_industry_code node) aggregates = Inr (c, aggregates')"
      and rest: "(if map_of values_by_key ?key \<noteq> None then Inr (aggregates', values_by_key) else
        bindE (lookupE COMMON_INPUTS (pn_identifier node) (KeyError (pn_identifier node))) (\<lambda>(metric, industry).
        Inr (aggregates', AList.update ?key (metric_values metric c) values_by_key))) = Inr t"
      using step unfolding s common_step_def by (auto simp del: lookupE_Inr_iff)
    have full: "full_market ?n c" "\<forall>a\<in>ran (map_of aggregates'). full_market ?n a"
      using aggregate(2) [OF c] by simp_all
    show ?thesis
    proof (cases "map_of values_by_key ?key")
      case None
      then obtain metric where "t = (aggregates', AList.update ?key (metric_values metric c) values_by_key)"
        using rest by auto
      then show ?thesis
        using full ok(2) metric_length [OF full(1)]         by (auto simp: common_ok_def s dest!: ran_update)
    next
      case (Some v)
      then have "t = (aggregates', values_by_key)" using rest by simp
      then show ?thesis using full ok(2) Some by (auto simp: common_ok_def s)
    qed
  qed
qed

lemma common_steps_safe:
  assumes "market_ok market" "common_ok (length (fst (snd market))) s" "\<forall>p\<in>set nodes. known_common p"
  shows "overflow_only (foldE (common_step market) nodes s)"
    and "foldE (common_step market) nodes s = Inr t \<Longrightarrow> common_ok (length (fst (snd market))) t \<and>
      dom (map_of (snd s)) \<subseteq> dom (map_of (snd t)) \<and>
      (\<forall>p\<in>set nodes. pn_kind p = KCommon \<longrightarrow> (pn_identifier p, pn_industry_code p) \<in> dom (map_of (snd t)))"
  using assms(2,3)
proof (induction nodes arbitrary: s)
  case (Cons p nodes)
  {
    case 1
    note step = common_step_safe [OF assms(1) 1(1), of p]
    have "overflow_only (bindE (common_step market p s) (foldE (common_step market) nodes))"
      by (rule overflow_bind) (use step Cons.IH(1) 1(2) in auto)
    then show ?case by simp
  next
    case 2
    then obtain u where u: "common_step market p s = Inr u" "foldE (common_step market) nodes u = Inr t" by auto
    have "known_common p" "\<forall>q\<in>set nodes. known_common q" using 2(3) by simp_all
    note one = common_step_safe(2) [OF assms(1) 2(2) this(1) u(1)]
    with Cons.IH(2) [OF u(2)] \<open>\<forall>q\<in>set nodes. known_common q\<close>
    have rest: "common_ok (length (fst (snd market))) t" "dom (map_of (snd u)) \<subseteq> dom (map_of (snd t))"
      "\<forall>q\<in>set nodes. pn_kind q = KCommon \<longrightarrow> (pn_identifier q, pn_industry_code q) \<in> dom (map_of (snd t))"
      by blast+
    have "dom (map_of (snd s)) \<subseteq> dom (map_of (snd t))"
      "pn_kind p = KCommon \<longrightarrow> (pn_identifier p, pn_industry_code p) \<in> dom (map_of (snd t))"
      using one rest(2) by blast+
    then show ?case using rest(1,3) by simp
  }
qed (auto intro: overflow_intros)

text \<open>Every common node of the plan gets its values.\<close>

lemma common_values_safe:
  assumes "market_ok market" "\<forall>p\<in>set (sp_nodes plan). known_common p"
  shows "overflow_only (common_values market plan)"
    and "common_values market plan = Inr d \<Longrightarrow>
      covers_common (length (fst (snd market))) (Some (map (\<lambda>(k, v). (k, map common_cell v)) d)) plan"
proof -
  have start: "common_ok (length (fst (snd market))) ([], [])" by (simp add: common_ok_def)
  note safe = common_steps_safe [OF assms(1) start assms(2)]
  show "overflow_only (common_values market plan)"
    unfolding common_values_def by (auto intro!: overflow_intros safe(1))
  assume "common_values market plan = Inr d"
  then obtain t where t: "foldE (common_step market) (sp_nodes plan) ([], []) = Inr t" "d = snd t"
    by (auto simp: common_values_def)
  have "\<exists>s. map_of (map (\<lambda>(k, v). (k, map common_cell v)) d) (pn_identifier p, pn_industry_code p) = Some s \<and>
      length s = length (fst (snd market))" if "p \<in> set (sp_nodes plan)" "pn_kind p = KCommon" for p
  proof -
    have ok: "common_ok (length (fst (snd market))) t" and "(pn_identifier p, pn_industry_code p) \<in> dom (map_of d)"
      using safe(2) [OF t(1)] that t(2) by blast+
    then obtain v where "map_of d (pn_identifier p, pn_industry_code p) = Some v" by blast
    moreover from this ok have "length v = length (fst (snd market))" by (auto simp: common_ok_def t(2) intro: ranI)
    ultimately show ?thesis by (simp add: map_of_map)
  qed
  then show "covers_common (length (fst (snd market))) (Some (map (\<lambda>(k, v). (k, map common_cell v)) d)) plan"
    by (fastforce simp: covers_common_def list_all_iff split: option.splits)
qed

section \<open>Accepted exposures evaluate\<close>

lemma market_of_data:
  assumes "sorted (rd_sessions data)" "distinct (rd_sessions data)" "list_all (\<lambda>s. distinct (rd_members data s)) (rd_sessions data)"
  shows "market_ok (exposure_market data)"
  using assms by (auto simp: market_ok_def exposure_market_def Let_def list_all_iff)

lemma accepted_exposure_series:
  assumes "validate_normalized_exposure e = Inr p" "market_ok market"
  obtains plan where "build_parsed_plan p = Inr plan"
    "overflow_only (evaluate_common_execution_series flog plan market)"
    "\<forall>s. evaluate_common_execution_series flog plan market = Inr s \<longrightarrow> length s = length (fst (snd market))"
proof -
  let ?n = "length (fst (snd market))"
  have types: "WINDOW \<notin> set [NUMBER, COMMON_NUMERIC_SERIES]" by simp
  obtain plan t where build: "build_series_execution_plan (pa_expression p) (pa_field_ids_by_identifier p) (pa_effective_lookback p) = Inr plan"
    and t: "t \<in> set [NUMBER, COMMON_NUMERIC_SERIES]" "\<not> stock_type t \<longrightarrow> account_nodes (sp_nodes plan)"
    and fields: "reads_fields (sp_nodes plan) (pa_field_ids p)"
    and safe: "\<forall>n vf fw cs. env_ok n vf fw cs (sp_nodes plan) \<longrightarrow> safe n t (eval_node flog vf fw cs n (pa_expression p))"
    by (rule accepted_evaluates [OF assms(1) [unfolded validate_normalized_exposure_def] types, of flog]) (rule that)
  have account: "\<not> stock_type t" "t \<noteq> WINDOW" "account_nodes (sp_nodes plan)" using t by (auto simp: stock_type_def)
  have bare: "build_series_execution_plan (pa_expression p) [] (pa_effective_lookback p) = Inr (plan\<lparr>sp_field_names := []\<rparr>)"
    using build by (auto simp: build_series_execution_plan_def)
  have known: "\<forall>q\<in>set (sp_nodes plan). known_common q" using fields by (auto simp: reads_fields_def known_common_def)
  note common = common_values_safe [OF assms(2) known]
  have series: "overflow_only (evaluate_series_execution_plan flog (plan\<lparr>sp_field_names := []\<rparr>) [] (Some ?n) (Some cs) None) \<and>
      (\<forall>s. evaluate_series_execution_plan flog (plan\<lparr>sp_field_names := []\<rparr>) [] (Some ?n) (Some cs) None = Inr s \<longrightarrow> length s = ?n)"
    if cs: "covers_common ?n (Some cs) plan" for cs
  proof -
    have "\<exists>s. map_of cs (pn_identifier q, pn_industry_code q) = Some s \<and> length s = ?n"
      if "q \<in> set (sp_nodes plan)" "pn_kind q = KCommon" for q
    proof -
      have "case map_of cs (pn_identifier q, pn_industry_code q) of None \<Rightarrow> False | Some s \<Rightarrow> length s = ?n"
        using cs that by (simp add: covers_common_def list_all_iff)
      then show ?thesis by (auto split: option.splits)
    qed
    then have "env_ok ?n [] [] (Some cs) (sp_nodes plan)"
      using account(3) by (auto simp: env_ok_def account_nodes_def)
    then have s: "safe ?n t (eval_node flog [] [] (Some cs) ?n (pa_expression p))" using safe by blast
    have eval: "evaluate_series_execution_plan flog (plan\<lparr>sp_field_names := []\<rparr>) [] (Some ?n) (Some cs) None
        = bindE (eval_node flog [] [] (Some cs) ?n (pa_expression p)) (\<lambda>r. root_series ?n (fst r))"
      using built_plan_evaluates [OF bare, of flog "[]" "Some ?n" "Some cs" None]
      by (simp add: input_length_def result_length_def validate_ttm_windows_def)
    show ?thesis
      using s root_series_safe [of ?n t] account(1,2) unfolding eval
      by (cases "eval_node flog [] [] (Some cs) ?n (pa_expression p)") (auto simp: safe_def overflow_only_def)
  qed
  have no_stock: "\<not> list_ex (\<lambda>p. pn_kind p = KField \<or> pn_identifier p = ''rank'') (sp_nodes plan)"
    using account(3) by (auto simp: account_nodes_def list_ex_iff)
  have "overflow_only (evaluate_common_execution_series flog plan market)"
    using no_stock common(2) series unfolding evaluate_common_execution_series_def
    by (auto intro!: overflow_intros common(1) simp: raiseIf_def)
  moreover have "\<forall>s. evaluate_common_execution_series flog plan market = Inr s \<longrightarrow> length s = ?n"
    using common(2) series unfolding evaluate_common_execution_series_def by auto
  ultimately show thesis using that build by (simp add: build_parsed_plan_def)
qed

section \<open>Properties\<close>

text \<open>
  C26: Type soundness of exposures. An expression the kernel accepts as an exposure and that reads the
  market evaluates, on every history of closes and members, to one entry per session, in order; the
  only exception left is the overflow of a number beyond the float range. No stock field is read, no
  common input is missing, and nothing is misaligned.
\<close>

theorem accepted_exposure_evaluates:
  assumes "validate_normalized_exposure e = Inr p" and "common_input_references [e] = Inr (r # rs)"
    and "sorted (rd_sessions data)" and "distinct (rd_sessions data)"
    and "list_all (\<lambda>s. distinct (rd_members data s)) (rd_sessions data)"
  shows "case evaluate_exposure_series flog data e of
      Inr d \<Rightarrow> map fst d = rd_sessions data
    | Inl er \<Rightarrow> er = AlphaPython OverflowError"
proof -
  have market: "market_ok (exposure_market data)" using assms(3-5) by (rule market_of_data)
  obtain plan where plan: "build_parsed_plan p = Inr plan"
    "overflow_only (evaluate_common_execution_series flog plan (exposure_market data))"
    "\<forall>s. evaluate_common_execution_series flog plan (exposure_market data) = Inr s \<longrightarrow>
      length s = length (fst (snd (exposure_market data)))"
    by (rule accepted_exposure_series [OF assms(1) market, of flog])
  have "length (fst (snd (exposure_market data))) = length (rd_sessions data)"
    by (simp add: exposure_market_def Let_def)
  then show ?thesis
    using assms(1,2) plan
    by (cases "evaluate_common_execution_series flog plan (exposure_market data)")
      (auto simp: evaluate_exposure_series_def validate_exposure_def overflow_only_def map_fst_zip)
qed

definition sample_market :: exposure_data where
  "sample_market =
     \<lparr>rd_sessions = [''2024-01-02'', ''2024-01-03'', ''2024-01-04''], rd_members = (\<lambda>s. [''A'', ''B'']),
      rd_close = (\<lambda>(s, i). if i = ''A'' then Some (if s = ''2024-01-03'' then 12 else 10)
                            else if s = ''2024-01-02'' then None else Some 8),
      rd_industries = (\<lambda>_. None)\<rparr>"

text \<open>\<open>if_else(universe_return() > 0, 1, 0.5)\<close>\<close>

lemma accepted_exposure_evaluates_witness:
  "case evaluate_exposure_series (\<lambda>x. x) sample_market (co_expression sample_exposure) of
     Inr d \<Rightarrow> map fst d = [''2024-01-02'', ''2024-01-03'', ''2024-01-04'']
   | Inl er \<Rightarrow> er = AlphaPython OverflowError"
proof -
  have p: "validate_normalized_exposure (co_expression sample_exposure)
      = Inr (projr (validate_normalized_exposure (co_expression sample_exposure)))" by code_simp
  have r: "common_input_references [co_expression sample_exposure] = Inr [(''universe_return'', None)]" by code_simp
  have sessions: "sorted (rd_sessions sample_market)" "distinct (rd_sessions sample_market)"
    "list_all (\<lambda>s. distinct (rd_members sample_market s)) (rd_sessions sample_market)" by code_simp+
  have "rd_sessions sample_market = [''2024-01-02'', ''2024-01-03'', ''2024-01-04'']" by (simp add: sample_market_def)
  then show ?thesis using accepted_exposure_evaluates [OF p r sessions, of "\<lambda>x. x"] by metis
qed

text \<open>
  The tree of \<open>if_else(1 > 0, n, 0) * if_else(1 > 0, n, 0)\<close> for the integer \<open>n = 2 ^ 513\<close>, whose
  square no float holds.
\<close>

definition huge_parse :: "string \<Rightarrow> ast option" where
  "huge_parse source =
     (let branch = Call (Name ''if_else'') [Compare (Constant (VInt 1)) [Gt] [Constant (VInt 0)],
            Constant (VInt (2 ^ 513)), Constant (VInt 0)] []
      in if source = ''huge'' then Some (BinOp branch Mult branch) else None)"


end
