(* ===== verification/AlphaMatrix.thy ===== *)
theory AlphaMatrix
  imports Floats "HOL-Library.Multiset"
begin

text \<open>
  From evaluated series to the Alpha matrix: \<open>_compose_alpha_matrix\<close> and its variant for columnar data
  without neutralization (\<open>research_kernel/alpha.py\<close>).

  A value is \<open>None\<close> when it is missing or not finite. \<open>math.fsum\<close> rounds the exact sum once, and raises
  when it is out of range. Common observations are copied into the rows unchanged and the checksum is
  a hash: both are left out, as are the callbacks for cancellation.
\<close>

section \<open>The rows of a session\<close>

record alpha_session =
  as_session :: string
  as_values :: "(string \<times> rat) list"
  as_coverage_loss :: "(string \<times> int) list"

definition count_loss :: "string \<Rightarrow> int \<Rightarrow> (string \<times> int) list \<Rightarrow> (string \<times> int) list" where
  "count_loss k n coverage =
     AList.update k ((case map_of coverage k of None \<Rightarrow> 0 | Some m \<Rightarrow> m) + n) coverage"

fun raw_values :: "(string \<Rightarrow> rat option) \<Rightarrow> string list \<Rightarrow> (string \<times> int) list \<times> (string \<times> rat) list
    \<Rightarrow> (string \<times> int) list \<times> (string \<times> rat) list" where
  "raw_values value_at [] s = s"
| "raw_values value_at (i # members) (coverage, raw) =
     raw_values value_at members
       (case value_at i of
          None \<Rightarrow> (count_loss ''missing_expression'' 1 coverage, raw)
        | Some v \<Rightarrow> (coverage, AList.update i v raw))"

fun industry_groups :: "(string \<Rightarrow> string option) \<Rightarrow> (string \<times> rat) list
    \<Rightarrow> (string \<times> int) list \<times> (string \<times> (string \<times> rat) list) list
    \<Rightarrow> (string \<times> int) list \<times> (string \<times> (string \<times> rat) list) list" where
  "industry_groups industry_of_member [] s = s"
| "industry_groups industry_of_member ((i, v) # raw) (coverage, groups) =
     industry_groups industry_of_member raw
       (case industry_of_member i of
          None \<Rightarrow> (count_loss ''missing_industry'' 1 coverage, groups)
        | Some industry \<Rightarrow>
            (coverage, AList.update industry ((case map_of groups industry of None \<Rightarrow> [] | Some rows \<Rightarrow> rows) @ [(i, v)]) groups))"

definition group_mean :: "rat list \<Rightarrow> py_error + rat" where
  "group_mean vs = bindE (float_of (sum_list vs)) (\<lambda>total. fdiv total (of_int (int (length vs))))"

text \<open>\<open>finite_or_missing(value - mean) or 0.0\<close>\<close>

definition residual :: "rat \<Rightarrow> rat \<Rightarrow> rat" where
  "residual v mean = (case float_of (v - mean) of Inl e \<Rightarrow> 0 | Inr r \<Rightarrow> r)"

definition neutral_step :: "string \<times> (string \<times> rat) list \<Rightarrow> (string \<times> int) list \<times> (string \<times> rat) list
    \<Rightarrow> py_error + (string \<times> int) list \<times> (string \<times> rat) list" where
  "neutral_step grouped s =
     (case (grouped, s) of ((industry, rows), (coverage, final)) \<Rightarrow>
      if length rows < 2 then Inr (count_loss ''industry_group_too_small'' (int (length rows)) coverage, final)
      else bindE (group_mean (map snd rows)) (\<lambda>mean.
        Inr (coverage, foldl (\<lambda>d (i, v). AList.update i (residual v mean) d) final rows)))"

definition compose_session :: "bool \<Rightarrow> (string \<Rightarrow> rat option) \<Rightarrow> (string \<Rightarrow> string option) \<Rightarrow> string \<Rightarrow> string list
    \<Rightarrow> py_error + alpha_session" where
  "compose_session by_industry value_at industry_of_member session members =
     (case raw_values value_at members ([], []) of (coverage, raw) \<Rightarrow>
      bindE (if by_industry then
               (case industry_groups industry_of_member raw (coverage, []) of (coverage, groups) \<Rightarrow>
                foldE neutral_step groups (coverage, []))
             else Inr (coverage, raw)) (\<lambda>(coverage, final).
      Inr \<lparr>as_session = session, as_values = sort_key fst final, as_coverage_loss = sort_key fst coverage\<rparr>))"

definition compose_alpha_matrix :: "bool \<Rightarrow> (string \<Rightarrow> nat \<Rightarrow> rat option) \<Rightarrow> (string \<times> string \<Rightarrow> string option)
    \<Rightarrow> (string \<Rightarrow> string list) \<Rightarrow> string list \<Rightarrow> py_error + alpha_session list" where
  "compose_alpha_matrix by_industry value_at industries members_of sessions =
     mapE (\<lambda>(index, session). compose_session by_industry (\<lambda>i. value_at i index) (\<lambda>i. industries (session, i))
             session (members_of session)) (zip [0..<length sessions] sessions)"

text \<open>The variant for columnar data: a mask of the finite values of the sorted members.\<close>

definition unneutralized_session :: "(string \<Rightarrow> rat option) \<Rightarrow> string \<Rightarrow> string list \<Rightarrow> alpha_session" where
  "unneutralized_session value_at session members =
     (let instrument_ids = sort members;
          finite = filter (\<lambda>i. value_at i \<noteq> None) instrument_ids;
          missing_count = int (length instrument_ids) - int (length finite)
      in \<lparr>as_session = session, as_values = map (\<lambda>i. (i, the (value_at i))) finite,
          as_coverage_loss = (if missing_count \<noteq> 0 then [(''missing_expression'', missing_count)] else [])\<rparr>)"

definition compose_unneutralized :: "(string \<Rightarrow> nat \<Rightarrow> rat option) \<Rightarrow> (string \<Rightarrow> string list) \<Rightarrow> string list \<Rightarrow> alpha_session list" where
  "compose_unneutralized value_at members_of sessions =
     map (\<lambda>(index, session). unneutralized_session (\<lambda>i. value_at i index) session (members_of session))
       (zip [0..<length sessions] sessions)"

section \<open>What a session keeps\<close>

definition losses :: "(string \<times> int) list \<Rightarrow> int" where
  "losses coverage = sum_list (map snd coverage)"

lemma losses_update: "losses (AList.update k n d) = losses d + n - (case map_of d k of None \<Rightarrow> 0 | Some m \<Rightarrow> m)"
  by (induction d) (auto simp: losses_def)

lemma losses_count [simp]: "losses (count_loss k n coverage) = losses coverage + n"
  by (simp add: count_loss_def losses_update split: option.splits)

lemma losses_Nil [simp]: "losses [] = 0"
  by (simp add: losses_def)

lemma losses_sort [simp]: "losses (sort_key f coverage) = losses coverage"
proof -
  have "sum_mset (mset (map snd (sort_key f coverage))) = sum_mset (mset (map snd coverage))" by simp
  then show ?thesis unfolding losses_def sum_mset_sum_list .
qed

text \<open>Members with a value, in their order; the others are counted.\<close>

lemma raw_values_spec:
  assumes "distinct members" "set members \<inter> set (map fst raw) = {}"
    and "raw_values value_at members (coverage, raw) = (coverage', raw')"
  shows "raw' = raw @ map (\<lambda>i. (i, the (value_at i))) (filter (\<lambda>i. value_at i \<noteq> None) members) \<and>
    losses coverage' = losses coverage + int (length (filter (\<lambda>i. value_at i = None) members))"
  using assms
proof (induction members arbitrary: coverage raw)
  case (Cons i members)
  show ?case
  proof (cases "value_at i")
    case None
    then show ?thesis using Cons.IH [of raw "count_loss ''missing_expression'' 1 coverage"] Cons.prems by simp
  next
    case (Some v)
    have "AList.update i v raw = raw @ [(i, v)]" using Cons.prems(2) by (auto intro: update_fresh)
    moreover have "set members \<inter> set (map fst (raw @ [(i, v)])) = {}" using Cons.prems(1,2) by auto
    ultimately show ?thesis using Cons.IH [of "raw @ [(i, v)]" coverage] Cons.prems Some by simp
  qed
qed simp

lemma raw_values_coverage:
  "fst (raw_values value_at members (coverage, raw)) =
    (let n = length (filter (\<lambda>i. value_at i = None) members) in
     if n = 0 then coverage else count_loss ''missing_expression'' (int n) coverage)"
proof (induction members arbitrary: coverage raw)
  case (Cons i members)
  have twice: "count_loss k a (count_loss k b coverage) = count_loss k (b + a) coverage" for k a b
    by (simp add: count_loss_def update_last add.assoc split: option.splits)
  show ?case
    using Cons.IH by (cases "value_at i") (auto simp: Let_def twice)
qed simp

section \<open>Groups\<close>

definition rows_of :: "(string \<times> (string \<times> rat) list) list \<Rightarrow> string \<Rightarrow> (string \<times> rat) list" where
  "rows_of groups g = (case map_of groups g of None \<Rightarrow> [] | Some rows \<Rightarrow> rows)"

definition grouped_rows :: "(string \<times> (string \<times> rat) list) list \<Rightarrow> nat" where
  "grouped_rows groups = sum_list (map (\<lambda>x. length (snd x)) groups)"

lemma grouped_rows_update:
  "grouped_rows (AList.update g (rows_of groups g @ [x]) groups) = Suc (grouped_rows groups)"
  by (induction groups) (auto simp: grouped_rows_def rows_of_def)

lemma update_all: "\<forall>x\<in>set d. P (snd x) \<Longrightarrow> P v \<Longrightarrow> \<forall>x\<in>set (AList.update k v d). P (snd x)"
  by (induction d) auto

lemma industry_groups_spec:
  assumes "industry_groups industry_of raw (coverage, groups) = (coverage', groups')"
    and "distinct (map fst groups)" "\<forall>x\<in>set groups. snd x \<noteq> []"
  shows "(\<forall>g. rows_of groups' g = rows_of groups g @ filter (\<lambda>x. industry_of (fst x) = Some g) raw) \<and>
    distinct (map fst groups') \<and> (\<forall>x\<in>set groups'. snd x \<noteq> []) \<and>
    losses coverage' + int (grouped_rows groups') = losses coverage + int (grouped_rows groups) + int (length raw)"
  using assms
proof (induction raw arbitrary: coverage groups)
  case (Cons x raw)
  obtain i v where x: "x = (i, v)" by (cases x)
  show ?case
  proof (cases "industry_of i")
    case None
    then show ?thesis using Cons.IH [of "count_loss ''missing_industry'' 1 coverage" groups] Cons.prems by (simp add: x)
  next
    case (Some g)
    let ?groups = "AList.update g (rows_of groups g @ [x]) groups"
    have "industry_groups industry_of raw (coverage, ?groups) = (coverage', groups')"
      using Cons.prems(1) Some by (simp add: x rows_of_def)
    moreover have "distinct (map fst ?groups)" using Cons.prems(2) by (rule distinct_keys_update)
    moreover have "\<forall>y\<in>set ?groups. snd y \<noteq> []"
      using update_all [of groups "\<lambda>rows. rows \<noteq> []" "rows_of groups g @ [x]" g] Cons.prems(3) by simp
    moreover have "rows_of ?groups h = rows_of groups h @ (if h = g then [x] else [])" for h
      by (simp add: rows_of_def [of ?groups]) (simp add: rows_of_def)
    ultimately show ?thesis
      using Cons.IH [of coverage ?groups] Some by (auto simp: x grouped_rows_update)
  qed
qed simp

definition rows_distinct :: "(string \<times> (string \<times> rat) list) list \<Rightarrow> bool" where
  "rows_distinct groups \<longleftrightarrow> distinct (map fst (concat (map snd groups)))"

lemma groups_distinct:
  assumes "distinct (map fst raw)" "distinct (map fst groups)"
    and "\<forall>(g, rows)\<in>set groups. rows = filter (\<lambda>x. industry_of (fst x) = Some g) raw"
  shows "rows_distinct groups"
  using assms(2,3)
proof (induction groups)
  case (Cons y groups)
  obtain g rows where y: "y = (g, rows)" by (cases y)
  have rows: "rows = filter (\<lambda>x. industry_of (fst x) = Some g) raw" using Cons.prems(2) by (simp add: y)
  have one: "distinct (map fst rows)" unfolding rows using assms(1) by (rule distinct_map_filter)
  have "industry_of i = Some g" if "i \<in> set (map fst rows)" for i using that unfolding rows by auto
  moreover have "industry_of i \<noteq> Some g" if i: "i \<in> set (map fst (concat (map snd groups)))" for i
  proof -
    obtain h rs x where x: "(h, rs) \<in> set groups" "x \<in> set rs" "i = fst x" using i by fastforce
    then have "rs = filter (\<lambda>x. industry_of (fst x) = Some h) raw" using Cons.prems(2) by auto
    then have "industry_of i = Some h" using x(2,3) by simp
    moreover have "h \<noteq> g" using x(1) Cons.prems(1) by (auto simp: y image_iff)
    ultimately show ?thesis by simp
  qed
  ultimately have "set (map fst rows) \<inter> set (map fst (concat (map snd groups))) = {}" by blast
  then show ?case using Cons one by (auto simp: rows_distinct_def y)
qed (simp add: rows_distinct_def)

text \<open>The residuals of a group of at least two.\<close>

definition group_residuals :: "(string \<times> rat) list \<Rightarrow> (string \<times> rat) list" where
  "group_residuals rows =
     (if length rows < 2 then []
      else map (\<lambda>(i, v). (i, residual v (projr (group_mean (map snd rows))))) rows)"

lemma residuals_keys: "map fst (group_residuals rows) = (if length rows < 2 then [] else map fst rows)"
  by (simp add: group_residuals_def comp_def case_prod_beta)

lemma fold_updates:
  assumes "distinct (map fst rows)" "set (map fst rows) \<inter> set (map fst d) = {}"
  shows "foldl (\<lambda>d (i, v). AList.update i (f v) d) d rows = d @ map (\<lambda>(i, v). (i, f v)) rows"
  using assms
proof (induction rows arbitrary: d)
  case (Cons x rows)
  obtain i v where x: "x = (i, v)" by (cases x)
  have "AList.update i (f v) d = d @ [(i, f v)]" using Cons.prems(2) by (auto simp: x intro: update_fresh)
  moreover have "set (map fst rows) \<inter> set (map fst (d @ [(i, f v)])) = {}" using Cons.prems by (auto simp: x)
  ultimately show ?case using Cons.IH [of "d @ [(i, f v)]"] Cons.prems(1) by (simp add: x)
qed simp

lemma neutral_steps:
  assumes "foldE neutral_step groups (coverage, final) = Inr (coverage', final')"
    and "rows_distinct groups" "set (map fst (concat (map snd groups))) \<inter> set (map fst final) = {}"
  shows "final' = final @ concat (map (\<lambda>x. group_residuals (snd x)) groups) \<and>
    losses coverage' + int (length final') = losses coverage + int (length final) + int (grouped_rows groups) \<and>
    (\<forall>x\<in>set groups. 2 \<le> length (snd x) \<longrightarrow> (\<exists>mean. group_mean (map snd (snd x)) = Inr mean))"
  using assms
proof (induction groups arbitrary: coverage final)
  case (Cons y groups)
  obtain g rows where y: "y = (g, rows)" by (cases y)
  obtain c1 f1 where one: "neutral_step (g, rows) (coverage, final) = Inr (c1, f1)"
    and rest: "foldE neutral_step groups (c1, f1) = Inr (coverage', final')"
    using Cons.prems(1) by (auto simp: y)
  have fresh: "distinct (map fst rows)" "set (map fst rows) \<inter> set (map fst final) = {}" "rows_distinct groups"
    "set (map fst rows) \<inter> set (map fst (concat (map snd groups))) = {}"
    "set (map fst (concat (map snd groups))) \<inter> set (map fst final) = {}"
    using Cons.prems(2,3) by (auto simp: rows_distinct_def y)
  have step: "f1 = final @ group_residuals rows \<and> losses c1 + int (length f1) = losses coverage + int (length final) + int (length rows) \<and>
      (2 \<le> length rows \<longrightarrow> (\<exists>mean. group_mean (map snd rows) = Inr mean))"
  proof (cases "length rows < 2")
    case True
    then show ?thesis using one by (auto simp: neutral_step_def group_residuals_def)
  next
    case False
    then obtain mean where "group_mean (map snd rows) = Inr mean" using one by (auto simp: neutral_step_def)
    then show ?thesis using one False fold_updates [OF fresh(1,2)]
      by (auto simp: neutral_step_def group_residuals_def)
  qed
  have "set (map fst (concat (map snd groups))) \<inter> set (map fst f1) = {}"
  proof -
    have "set (map fst (group_residuals rows)) \<subseteq> set (map fst rows)" by (simp add: residuals_keys)
    then have "set (map fst f1) \<subseteq> set (map fst final) \<union> set (map fst rows)" using step by auto
    then show ?thesis using fresh(4,5) by blast
  qed
  from Cons.IH [OF rest fresh(3) this] step show ?case by (auto simp: y grouped_rows_def)
qed (simp add: grouped_rows_def)

section \<open>Properties of the matrix\<close>

text \<open>The values of the members of one industry.\<close>

definition peers :: "(string \<Rightarrow> rat option) \<Rightarrow> (string \<Rightarrow> string option) \<Rightarrow> string list \<Rightarrow> string \<Rightarrow> rat list" where
  "peers value_at industry_of members g =
     map (\<lambda>i. the (value_at i)) (filter (\<lambda>i. value_at i \<noteq> None \<and> industry_of i = Some g) members)"

lemma in_residuals: "2 \<le> length rows \<Longrightarrow> group_mean (map snd rows) = Inr mean \<Longrightarrow>
    (i, x) \<in> set (group_residuals rows) \<longleftrightarrow> (\<exists>v. (i, v) \<in> set rows \<and> x = residual v mean)"
  by (auto simp: group_residuals_def)

lemma residuals_distinct: "rows_distinct groups \<Longrightarrow> distinct (map fst (concat (map (\<lambda>x. group_residuals (snd x)) groups)))"
proof (induction groups)
  case (Cons y groups)
  have "set (map fst (concat (map (\<lambda>x. group_residuals (snd x)) groups))) \<subseteq> set (map fst (concat (map snd groups)))"
    by (induction groups) (auto simp: residuals_keys simp flip: set_map split: if_splits)
  then show ?case using Cons by (auto simp: rows_distinct_def residuals_keys)
qed simp

lemma row_filter:
  "filter (\<lambda>x. industry_of (fst x) = Some g) (map (\<lambda>i. (i, the (value_at i))) (filter (\<lambda>i. value_at i \<noteq> None) members))
    = map (\<lambda>i. (i, the (value_at i))) (filter (\<lambda>i. value_at i \<noteq> None \<and> industry_of i = Some g) members)"
  by (induction members) auto

text \<open>The whole industry branch, before the rows are sorted.\<close>

lemma neutralized:
  assumes "distinct members"
    and raw: "raw_values value_at members ([], []) = (c0, raw)"
    and groups: "industry_groups industry_of raw (c0, []) = (c1, groups)"
    and final: "foldE neutral_step groups (c1, []) = Inr (c2, final)"
  shows "(\<forall>i x. (i, x) \<in> set final \<longleftrightarrow> (\<exists>v g mean. i \<in> set members \<and> value_at i = Some v \<and> industry_of i = Some g \<and>
      2 \<le> length (peers value_at industry_of members g) \<and>
      group_mean (peers value_at industry_of members g) = Inr mean \<and> x = residual v mean)) \<and>
    losses c2 + int (length final) = int (length members) \<and> distinct (map fst final)"
proof -
  define rows where "rows g = map (\<lambda>i. (i, the (value_at i)))
      (filter (\<lambda>i. value_at i \<noteq> None \<and> industry_of i = Some g) members)" for g
  have r: "raw = map (\<lambda>i. (i, the (value_at i))) (filter (\<lambda>i. value_at i \<noteq> None) members)"
    "losses c0 = int (length (filter (\<lambda>i. value_at i = None) members))"
    using raw_values_spec [OF assms(1) _ raw] by simp_all
  have raw_distinct: "distinct (map fst raw)" using assms(1) by (simp add: r(1) comp_def)
  have g: "\<forall>g. rows_of groups g = rows g" "distinct (map fst groups)" "\<forall>x\<in>set groups. snd x \<noteq> []"
    "losses c1 + int (grouped_rows groups) = losses c0 + int (length raw)"
    using industry_groups_spec [OF groups] row_filter [of industry_of _ value_at members]
    by (simp_all add: rows_of_def [of "[]"] grouped_rows_def [of "[]"] r(1) rows_def)
  have entry: "h = rows g" if "(g, h) \<in> set groups" for g h
    using that g(1,2) by (metis map_of_eq_Some_iff option.simps(5) rows_of_def)
  have present: "(g, rows g) \<in> set groups" if "rows g \<noteq> []" for g
    using that g(1) map_of_SomeD [of groups g] by (auto simp: rows_of_def split: option.splits dest: spec [of _ g])
  have "\<forall>(g, h)\<in>set groups. h = filter (\<lambda>x. industry_of (fst x) = Some g) raw"
    using entry row_filter [of industry_of _ value_at members] by (auto simp: r(1) rows_def)
  from groups_distinct [OF raw_distinct g(2) this] have d: "rows_distinct groups" .
  have steps: "final = [] @ concat (map (\<lambda>x. group_residuals (snd x)) groups) \<and>
      losses c2 + int (length final) = losses c1 + int (length ([] :: (string \<times> rat) list)) + int (grouped_rows groups) \<and>
      (\<forall>x\<in>set groups. 2 \<le> length (snd x) \<longrightarrow> (\<exists>mean. group_mean (map snd (snd x)) = Inr mean))"
    by (rule neutral_steps [OF final d]) simp
  have f: "final = concat (map (\<lambda>x. group_residuals (snd x)) groups)"
    "\<forall>x\<in>set groups. 2 \<le> length (snd x) \<longrightarrow> (\<exists>mean. group_mean (map snd (snd x)) = Inr mean)"
    using steps by (elim conjE, simp)+
  have count: "losses c2 + int (length final) = losses c1 + int (grouped_rows groups)"
    using steps by (elim conjE) (simp only: list.size of_nat_0 add_0_right)
  have peers: "map snd (rows g) = peers value_at industry_of members g" for g by (simp add: rows_def peers_def)
  have "(i, x) \<in> set final \<longleftrightarrow> (\<exists>g mean v. 2 \<le> length (rows g) \<and> group_mean (map snd (rows g)) = Inr mean \<and>
      (i, v) \<in> set (rows g) \<and> x = residual v mean)" (is "?l \<longleftrightarrow> ?r") for i x
  proof
    assume ?l
    then obtain g h where gh: "(g, h) \<in> set groups" "(i, x) \<in> set (group_residuals h)" unfolding f(1) by auto
    then have two: "2 \<le> length h" by (auto simp: group_residuals_def split: if_splits)
    then obtain mean where "group_mean (map snd h) = Inr mean" using f(2) gh(1) by auto
    then show ?r using in_residuals [OF two] gh(2) two entry [OF gh(1)] by blast
  next
    assume ?r
    then obtain g mean v where v: "2 \<le> length (rows g)" "group_mean (map snd (rows g)) = Inr mean" "(i, v) \<in> set (rows g)"
      "x = residual v mean" by blast
    then have "(i, x) \<in> set (group_residuals (rows g))" by (simp add: in_residuals) blast
    moreover have "(g, rows g) \<in> set groups" using v(3) by (intro present) auto
    ultimately show ?l unfolding f(1) by force
  qed
  moreover have "(i, v) \<in> set (rows g) \<longleftrightarrow> i \<in> set members \<and> value_at i = Some v \<and> industry_of i = Some g" for i v g
    by (auto simp: rows_def)
  moreover have "length (rows g) = length (peers value_at industry_of members g)" for g by (simp add: rows_def peers_def)
  moreover have "int (length (filter (\<lambda>i. value_at i = None) members)) + int (length raw) = int (length members)"
    using sum_length_filter_compl [of "\<lambda>i. value_at i = None" members] by (simp add: r(1))
  ultimately show ?thesis
    using residuals_distinct [OF d] f(1) count g(4) r(2) unfolding peers by auto
qed

lemma overflow_neutral [overflow_intros]: "overflow_only (neutral_step x s)"
  unfolding neutral_step_def group_mean_def by (auto intro!: overflow_intros split: prod.splits)

lemma distinct_sort_fst: "distinct (map fst xs) \<Longrightarrow> distinct (map fst (sort_key fst xs))"
proof -
  have "mset (map fst (sort_key fst xs)) = mset (map fst xs)" by simp
  then show "distinct (map fst xs) \<Longrightarrow> distinct (map fst (sort_key fst xs))" using mset_eq_imp_distinct_iff by blast
qed

text \<open>
  C28: Neutralization by industry. For every session the composition either overflows or gives rows,
  ordered by instrument without repetition, that hold exactly the members with a value, an industry and
  at least one peer in it, each with the residual of its value to the mean of its industry; and each
  member of the universe is either in the rows or counted once as lost.
\<close>

theorem neutralized_session_correct:
  assumes "distinct members"
  shows "case compose_session True value_at industry_of session members of
      Inl e \<Rightarrow> e = OverflowError
    | Inr row \<Rightarrow>
        (\<forall>i x. (i, x) \<in> set (as_values row) \<longleftrightarrow> (\<exists>v g mean. i \<in> set members \<and> value_at i = Some v \<and> industry_of i = Some g \<and>
          2 \<le> length (peers value_at industry_of members g) \<and>
          group_mean (peers value_at industry_of members g) = Inr mean \<and> x = residual v mean)) \<and>
        losses (as_coverage_loss row) + int (length (as_values row)) = int (length members) \<and>
        sorted (map fst (as_values row)) \<and> distinct (map fst (as_values row))"
proof -
  obtain c0 raw where raw: "raw_values value_at members ([], []) = (c0, raw)" by fastforce
  obtain c1 groups where groups: "industry_groups industry_of raw (c0, []) = (c1, groups)" by fastforce
  show ?thesis
  proof (cases "foldE neutral_step groups (c1, [])")
    case (Inl e)
    moreover have "overflow_only (foldE neutral_step groups (c1, []))" by (intro overflow_intros)
    ultimately show ?thesis by (simp add: compose_session_def raw groups overflow_only_def)
  next
    case (Inr s)
    obtain c2 final where s: "s = (c2, final)" by (cases s)
    note final = neutralized [OF assms raw groups Inr [unfolded s]]
    have "compose_session True value_at industry_of session members
        = Inr \<lparr>as_session = session, as_values = sort_key fst final, as_coverage_loss = sort_key fst c2\<rparr>"
      by (simp add: compose_session_def raw groups Inr s)
    then show ?thesis using final distinct_sort_fst by auto
  qed
qed

definition sample_value :: "string \<Rightarrow> rat option" where
  "sample_value i = (if i = ''A'' then Some 3 else if i = ''B'' then Some 5 else if i = ''C'' then Some 7
     else if i = ''D'' then Some 11 else None)"

definition sample_industry :: "string \<Rightarrow> string option" where
  "sample_industry i = (if i = ''A'' \<or> i = ''C'' then Some ''bank'' else if i = ''B'' then Some ''steel'' else None)"

lemma neutralized_session_correct_witness:
  "compose_session True sample_value sample_industry ''2024-01-02'' [''E'', ''C'', ''A'', ''D'', ''B'']
     = Inr \<lparr>as_session = ''2024-01-02'', as_values = [(''A'', - 2), (''C'', 2)],
         as_coverage_loss = [(''industry_group_too_small'', 1), (''missing_expression'', 1), (''missing_industry'', 1)]\<rparr> \<and>
   losses [(''industry_group_too_small'', 1), (''missing_expression'', 1), (''missing_industry'', 1)]
     + int (length [(''A'', - 2 :: rat), (''C'', 2)]) = 5"
proof -
  have run: "compose_session True sample_value sample_industry ''2024-01-02'' [''E'', ''C'', ''A'', ''D'', ''B'']
     = Inr \<lparr>as_session = ''2024-01-02'', as_values = [(''A'', - 2), (''C'', 2)],
         as_coverage_loss = [(''industry_group_too_small'', 1), (''missing_expression'', 1), (''missing_industry'', 1)]\<rparr>"
    by code_simp
  have d: "distinct [''E'', ''C'', ''A'', ''D'', ''B'']" by code_simp
  show ?thesis
    using neutralized_session_correct [OF d, of sample_value sample_industry "''2024-01-02''"] unfolding run by auto
qed

section \<open>Two compositions without neutralization\<close>

lemma insort_map: "insort_key g (f x) (map f xs) = map f (insort_key (\<lambda>y. g (f y)) x xs)"
  by (induction xs) auto

lemma sort_map: "sort_key g (map f xs) = map f (sort_key (\<lambda>y. g (f y)) xs)"
  by (induction xs) (auto simp: insort_map)

text \<open>
  C29: Without neutralization the composition from single values and the one over the mask of a column
  give the same sessions: the same values in the same order, and the same loss.
\<close>

theorem unneutralized_compositions_equal:
  assumes "\<And>session. session \<in> set sessions \<Longrightarrow> distinct (members_of session)"
  shows "compose_alpha_matrix False value_at industries members_of sessions = Inr (compose_unneutralized value_at members_of sessions)"
proof -
  have "compose_session False f h session (members_of session) = Inr (unneutralized_session f session (members_of session))"
    if session: "session \<in> set sessions" for f h session
  proof -
    let ?members = "members_of session"
    obtain coverage raw where raw: "raw_values f ?members ([], []) = (coverage, raw)" by fastforce
    have "raw = map (\<lambda>i. (i, the (f i))) (filter (\<lambda>i. f i \<noteq> None) ?members)"
      using raw_values_spec [OF assms [OF session] _ raw] by simp
    then have "sort_key fst raw = map (\<lambda>i. (i, the (f i))) (filter (\<lambda>i. f i \<noteq> None) (sort ?members))"
      by (simp add: sort_map filter_sort)
    moreover have "sort_key fst coverage = (if length (filter (\<lambda>i. f i = None) ?members) = 0 then []
        else [(''missing_expression'', int (length (filter (\<lambda>i. f i = None) ?members)))])"
      using raw_values_coverage [of f ?members "[]" "[]"] raw by (simp add: Let_def count_loss_def)
    moreover have "int (length (sort ?members)) - int (length (filter (\<lambda>i. f i \<noteq> None) (sort ?members)))
        = int (length (filter (\<lambda>i. f i = None) ?members))"
    proof -
      have "length (filter P (sort ?members)) = length (filter P ?members)" for P by (simp add: filter_sort)
      then show ?thesis using sum_length_filter_compl [of "\<lambda>i. f i = None" ?members] by simp
    qed
    moreover have "length (filter (\<lambda>i. f i = None) ?members) = 0 \<longleftrightarrow> filter (\<lambda>i. f i = None) ?members = []" by simp
    ultimately show ?thesis
      unfolding compose_session_def raw unneutralized_session_def Let_def by (simp del: length_0_conv)
  qed
  then show ?thesis
    unfolding compose_alpha_matrix_def compose_unneutralized_def
    by (intro mapE_Inr_map) (auto dest: set_zip_rightD)
qed

lemma unneutralized_compositions_equal_witness:
  "compose_alpha_matrix False (\<lambda>i day. sample_value i) (\<lambda>_. None) (\<lambda>_. [''E'', ''C'', ''A'']) [''2024-01-02'']
    = Inr [\<lparr>as_session = ''2024-01-02'', as_values = [(''A'', 3), (''C'', 7)], as_coverage_loss = [(''missing_expression'', 1)]\<rparr>]"
proof -
  have "distinct [''E'', ''C'', ''A'']" by code_simp
  then have "compose_alpha_matrix False (\<lambda>i day. sample_value i) (\<lambda>_. None) (\<lambda>_. [''E'', ''C'', ''A'']) [''2024-01-02'']
    = Inr (compose_unneutralized (\<lambda>i day. sample_value i) (\<lambda>_. [''E'', ''C'', ''A'']) [''2024-01-02''])"
    by (intro unneutralized_compositions_equal)
  also have "compose_unneutralized (\<lambda>i day. sample_value i) (\<lambda>_. [''E'', ''C'', ''A'']) [''2024-01-02'']
    = [\<lparr>as_session = ''2024-01-02'', as_values = [(''A'', 3), (''C'', 7)], as_coverage_loss = [(''missing_expression'', 1)]\<rparr>]"
    by code_simp
  finally show ?thesis .
qed

end
