(* ===== verification/CrossSection.thy ===== *)
theory CrossSection
  imports Floats "HOL-Library.Multiset"
begin

text \<open>
  The two ranks of a cross-section in \<open>research_kernel/series_plan.py\<close>: \<open>_cross_section_ranks\<close>, a
  loop over the ordered sample, and \<open>_columnar_cross_section_rank\<close>, which counts the distinct values of
  a column. Both give each value the average of the positions of the values equal to it.

  A sample lists the instruments that have a finite value on a session, each once. \<open>numpy\<close>'s floats are
  binary64, as Python's.
\<close>

section \<open>Ranks of a cross-section\<close>

definition group_rank :: "nat \<Rightarrow> nat \<Rightarrow> nat \<Rightarrow> py_error + rat" where
  "group_rank start width n =
     bindE (fdiv (of_int (int start + int (start + width) - 1)) 2) (\<lambda>middle.
     fdiv middle (of_int (int n - 1)))"

text \<open>The \<open>while\<close> loop over the ordered sample; a group of equal values shares one rank.\<close>

function rank_loop :: "nat \<Rightarrow> nat \<Rightarrow> (string \<times> rat) list \<Rightarrow> (string \<times> rat) list \<Rightarrow> py_error + (string \<times> rat) list" where
  "rank_loop n position [] ranks = Inr ranks"
| "rank_loop n position ((i, v) # rest) ranks =
     (let same = (i, v) # takeWhile (\<lambda>x. snd x = v) rest in
      bindE (group_rank position (length same) n) (\<lambda>rank.
      rank_loop n (position + length same) (dropWhile (\<lambda>x. snd x = v) rest)
        (foldl (\<lambda>d x. AList.update (fst x) rank d) ranks same)))"
  by pat_completeness auto
termination rank_loop
  by (relation "measure (\<lambda>(n, position, ordered, ranks). length ordered)")
    (auto simp: le_imp_less_Suc length_dropWhile_le)

definition cross_section_ranks :: "(string \<times> rat) list \<Rightarrow> py_error + (string \<times> rat) list" where
  "cross_section_ranks sample =
     (case sample of
        [(i, v)] \<Rightarrow> Inr [(i, 1 / 2)]
      | _ \<Rightarrow> rank_loop (length sample) 0 (sort_key snd (sort_key fst sample)) [])"

text \<open>\<open>numpy.unique\<close> with the inverse and the counts.\<close>

definition unique_values :: "rat list \<Rightarrow> rat list" where
  "unique_values xs = remdups_adj (sort xs)"

definition unique_counts :: "rat list \<Rightarrow> nat list" where
  "unique_counts xs = map (count_list xs) (unique_values xs)"

fun position_of :: "rat \<Rightarrow> rat list \<Rightarrow> nat" where
  "position_of x [] = 0"
| "position_of x (y # ys) = (if x = y then 0 else Suc (position_of x ys))"

definition columnar_ranks :: "(string \<times> rat) list \<Rightarrow> py_error + (string \<times> rat) list" where
  "columnar_ranks sample =
     (case sample of
        [] \<Rightarrow> Inr []
      | [(i, v)] \<Rightarrow> Inr [(i, 1 / 2)]
      | _ \<Rightarrow>
          let finite_values = map snd sample;
              counts = unique_counts finite_values;
              starts = map (\<lambda>k. sum_list (take k counts)) [0..<length counts]
          in bindE (mapE (\<lambda>(start, width). group_rank start width (length sample)) (zip starts counts)) (\<lambda>group_ranks.
             Inr (map (\<lambda>(i, v). (i, group_ranks ! position_of v (unique_values finite_values))) sample)))"

section \<open>Floats that are exact\<close>

lemma float_exact:
  assumes x: "x = of_int a * 2 powi b" and a: "\<bar>a\<bar> < 2 ^ 53" and b: "- 1074 \<le> b" "b + 53 \<le> 1024"
  shows "float_of x = Inr x"
proof (cases "x = 0")
  case False
  then obtain e g where e: "2 powi e \<le> \<bar>x\<bar>" and g: "g = 2 powi (max (e - 52) (- 1074))" "0 < g"
    and f: "float_of x = (if \<bar>of_int (rhe (x / g)) * g\<bar> < pow2 1024 then Inr (of_int (rhe (x / g)) * g) else Inl OverflowError)"
    by (rule float_scale)
  have "\<bar>x\<bar> = of_int \<bar>a\<bar> * 2 powi b" using x by (simp add: abs_mult)
  moreover have "(of_int \<bar>a\<bar> :: rat) < of_int (2 ^ 53)" using a by (simp only: of_int_less_iff)
  ultimately have "\<bar>x\<bar> < 2 ^ 53 * 2 powi b" by simp
  also have "(2::rat) ^ 53 * 2 powi b = 2 powi (53 + b)"
    by (subst power_int_add) (simp_all add: power_int_def)
  finally have small: "\<bar>x\<bar> < 2 powi (53 + b)" .
  with e have "(2::rat) powi e < 2 powi (53 + b)" by simp
  then have "e < 53 + b" using power_int_increasing [of "53 + b" e "2::rat"] by linarith
  then have m: "max (e - 52) (- 1074) \<le> b" using b(1) by simp
  define k where "k = nat (b - max (e - 52) (- 1074))"
  have "x / g = of_int a * (2 powi b / 2 powi (max (e - 52) (- 1074)))" by (simp add: x g(1))
  also have "2 powi b / 2 powi (max (e - 52) (- 1074)) = (2::rat) powi (int k)"
    using m by (subst power_int_diff [symmetric]) (simp_all add: k_def)
  finally have "x / g = of_int (a * 2 ^ k)" by simp
  then have "rhe (x / g) = a * 2 ^ k" by (simp only: rhe_of_int)
  then have "of_int (rhe (x / g)) * g = x"
    using \<open>x / g = of_int (a * 2 ^ k)\<close> g(2) by (simp add: divide_eq_eq)
  moreover have "\<bar>x\<bar> < pow2 1024"
    using small b(2) power_int_increasing [of "53 + b" 1024 "2::rat"] unfolding pow2_powi by (simp add: add.commute)
  ultimately show ?thesis unfolding f by simp
qed (simp add: float_of_def)

lemma float_half: "\<bar>a\<bar> < 2 ^ 53 \<Longrightarrow> float_of (of_int a / 2) = Inr (of_int a / 2)"
  by (rule float_exact [of _ a "- 1"]) (simp only: power_int_minus1_right divide_inverse, assumption, simp_all)

section \<open>The average rank\<close>

definition below :: "rat list \<Rightarrow> rat \<Rightarrow> nat" where
  "below xs v = length (filter (\<lambda>u. u < v) xs)"

definition ties :: "rat list \<Rightarrow> rat \<Rightarrow> nat" where
  "ties xs v = length (filter (\<lambda>u. u = v) xs)"

text \<open>The mean of the positions \<open>start\<close> to \<open>start + width - 1\<close>, scaled to the unit interval.\<close>

definition scaled_position :: "nat \<Rightarrow> nat \<Rightarrow> nat \<Rightarrow> rat" where
  "scaled_position start width n = (of_nat (2 * start + width - 1) / 2) / of_nat (n - 1)"

lemma group_rank_value:
  assumes "1 \<le> width" "start + width \<le> n" "2 \<le> n" "n \<le> 2 ^ 50"
  shows "\<exists>r. group_rank start width n = Inr r \<and> float_of (scaled_position start width n) = Inr r \<and> 0 \<le> r \<and> r \<le> 1"
proof -
  define a where "a = int start + int (start + width) - 1"
  have a: "a = int (2 * start + width - 1)" "0 \<le> a" "a \<le> 2 * (int n - 1)" using assms by (auto simp: a_def)
  have "int n \<le> 2 ^ 50" using assms(4) by (metis of_nat_le_iff of_nat_numeral of_nat_power)
  then have "\<bar>a\<bar> < 2 ^ 53" using a by simp
  then have middle: "fdiv (of_int a) 2 = Inr (of_int a / 2)" by (simp add: fdiv_def float_half)
  have "int n - 1 = int (n - 1)" using assms(3) by simp
  then have n: "(of_int (int n - 1) :: rat) = of_nat (n - 1)" by (metis of_int_of_nat_eq)
  have x: "(of_int a :: rat) / 2 / of_nat (n - 1) = scaled_position start width n"
    unfolding scaled_position_def a(1) by simp
  have "0 < (of_nat (n - 1) :: rat)" using assms(3) by simp
  moreover have "(of_int a :: rat) \<le> of_int (2 * (int n - 1))" using a(3) by (simp only: of_int_le_iff)
  then have "(of_int a :: rat) / 2 \<le> of_nat (n - 1)" unfolding n [symmetric] by simp
  ultimately have "\<bar>scaled_position start width n\<bar> \<le> 2 ^ 0" "0 \<le> scaled_position start width n"
    unfolding x [symmetric] using a(2) by (simp_all add: divide_le_eq)
  with float_within [of "scaled_position start width n" 0]
  obtain r where "float_of (scaled_position start width n) = Inr r" "0 \<le> r" "r \<le> 1" by auto
  then show ?thesis
    using middle x assms(3) unfolding group_rank_def a_def [symmetric] n by (simp add: fdiv_def)
qed

definition rank_of :: "nat \<Rightarrow> nat \<Rightarrow> nat \<Rightarrow> rat" where
  "rank_of start width n = projr (group_rank start width n)"

lemma rank_of: "1 \<le> width \<Longrightarrow> start + width \<le> n \<Longrightarrow> 2 \<le> n \<Longrightarrow> n \<le> 2 ^ 50 \<Longrightarrow> group_rank start width n = Inr (rank_of start width n)"
  using group_rank_value [of width start n] by (auto simp: rank_of_def)

lemma rank_of_value:
  assumes "1 \<le> width" "start + width \<le> n" "2 \<le> n" "n \<le> 2 ^ 50"
  shows "float_of (scaled_position start width n) = Inr (rank_of start width n)" "0 \<le> rank_of start width n" "rank_of start width n \<le> 1"
  using group_rank_value [OF assms] unfolding rank_of_def by auto

section \<open>The loop over the ordered sample\<close>

lemma fold_same:
  "map_of (foldl (\<lambda>d x. AList.update (fst x) r d) ranks same) j
    = (if j \<in> fst ` set same then Some r else map_of ranks j)"
  by (induction same arbitrary: ranks) auto

lemma takeWhile_same: "x \<in> set (takeWhile (\<lambda>x. snd x = v) xs) \<Longrightarrow> snd x = v"
  by (auto dest: set_takeWhileD)

lemma after_group:
  assumes "sorted (map snd ((i, v) # rest))" "y \<in> set (dropWhile (\<lambda>x. snd x = v) rest)"
  shows "v < snd y"
proof -
  let ?d = "dropWhile (\<lambda>x. snd x = v) rest"
  obtain z zs where d: "?d = z # zs" using assms(2) by (cases ?d) auto
  have "snd z \<noteq> v" using hd_dropWhile [of "\<lambda>x. snd x = v" rest] d by auto
  moreover have "sorted (map snd ?d)"
  proof -
    have "map snd rest = map snd (takeWhile (\<lambda>x. snd x = v) rest) @ map snd ?d"
      by (metis map_append takeWhile_dropWhile_id)
    then show ?thesis using assms(1) by (simp add: sorted_append)
  qed
  moreover have "v \<le> snd z" using assms(1) d set_dropWhileD [of z "\<lambda>x. snd x = v" rest] by auto
  ultimately show ?thesis using assms(2) d by fastforce
qed

lemma rank_loop_ranks:
  assumes "2 \<le> n" "n \<le> 2 ^ 50" "length pre + length ordered = n"
    and "sorted (map snd ordered)" "\<forall>a\<in>set pre. \<forall>b\<in>set ordered. snd a < snd b" "distinct (map fst ordered)"
  shows "\<exists>d. rank_loop n (length pre) ordered ranks = Inr d \<and>
    (\<forall>(i, v)\<in>set ordered. map_of d i = Some (rank_of (below (map snd (pre @ ordered)) v) (ties (map snd (pre @ ordered)) v) n)) \<and>
    (\<forall>j. j \<notin> fst ` set ordered \<longrightarrow> map_of d j = map_of ranks j)"
  using assms(3-)
proof (induction "length ordered" arbitrary: pre ordered ranks rule: less_induct)
  case less
  show ?case
  proof (cases ordered)
    case Nil
    then show ?thesis by simp
  next
    case (Cons x rest)
    obtain i v where x: "x = (i, v)" by (cases x)
    define same where "same = (i, v) # takeWhile (\<lambda>x. snd x = v) rest"
    define later where "later = dropWhile (\<lambda>x. snd x = v) rest"
    have ordered: "ordered = same @ later" by (simp add: Cons x same_def later_def)
    have same: "snd y = v" if "y \<in> set same" for y using that takeWhile_same [of y v rest] by (cases "y = (i, v)") (simp_all add: same_def)
    have later: "v < snd y" if "y \<in> set later" for y
      using after_group [of i v rest y] less.prems(2) that by (simp add: Cons x later_def)
    have pre: "snd y < v" if "y \<in> set pre" for y using less.prems(3) that by (auto simp: Cons x)
    let ?vs = "map snd (pre @ ordered)" and ?r = "rank_of (length pre) (length same) n"
    have b: "below ?vs v = length pre"
    proof -
      have "filter (\<lambda>u. u < v) (map snd pre) = map snd pre" using pre by (intro filter_True) auto
      moreover have "filter (\<lambda>u. u < v) (map snd same) = []" "filter (\<lambda>u. u < v) (map snd later) = []"
        using same later by (force intro!: filter_False)+
      ultimately show ?thesis by (simp add: below_def ordered)
    qed
    have t: "ties ?vs v = length same"
    proof -
      have "filter (\<lambda>u. u = v) (map snd same) = map snd same" using same by (intro filter_True) auto
      moreover have "filter (\<lambda>u. u = v) (map snd pre) = []" "filter (\<lambda>u. u = v) (map snd later) = []"
        using pre later by (force intro!: filter_False)+
      ultimately show ?thesis by (simp add: ties_def ordered)
    qed
    have rank: "group_rank (length pre) (length same) n = Inr ?r"
      using less.prems(1) assms(1,2) by (intro rank_of) (auto simp: ordered same_def)
    let ?ranks = "foldl (\<lambda>d x. AList.update (fst x) ?r d) ranks same"
    have "length later < length ordered" by (simp add: ordered same_def)
    moreover have "length (pre @ same) + length later = n" using less.prems(1) by (simp add: ordered)
    moreover have "sorted (map snd later)" using less.prems(2) by (simp add: ordered sorted_append)
    moreover have "\<forall>a\<in>set (pre @ same). \<forall>b\<in>set later. snd a < snd b"
      using pre same later by (metis Un_iff order_less_trans set_append)
    moreover have ids: "distinct (map fst later)" "fst ` set same \<inter> fst ` set later = {}"
      using less.prems(4) by (auto simp: ordered)
    ultimately obtain d where d: "rank_loop n (length (pre @ same)) later ?ranks = Inr d"
      "\<forall>(i, v)\<in>set later. map_of d i = Some (rank_of (below (map snd ((pre @ same) @ later)) v) (ties (map snd ((pre @ same) @ later)) v) n)"
      "\<forall>j. j \<notin> fst ` set later \<longrightarrow> map_of d j = map_of ?ranks j"
      using less.hyps by blast
    have "rank_loop n (length pre) ordered ranks = Inr d"
      using d(1) rank by (simp add: Cons x same_def later_def Let_def)
    moreover have "map_of d j = Some (rank_of (below ?vs u) (ties ?vs u) n)" if "(j, u) \<in> set ordered" for j u
    proof (cases "(j, u) \<in> set same")
      case True
      then have "j \<notin> fst ` set later" "u = v" "j \<in> fst ` set same" using ids(2) same by force+
      then show ?thesis using d(3) b t by (simp add: fold_same)
    next
      case False
      then have "(j, u) \<in> set later" using that by (simp add: ordered)
      then show ?thesis using d(2) by (auto simp: ordered)
    qed
    moreover have "map_of d j = map_of ranks j" if "j \<notin> fst ` set ordered" for j
      using that d(3) by (simp add: ordered fold_same image_Un)
    ultimately show ?thesis by blast
  qed
qed

section \<open>The counts of a column\<close>

lemma distinct_remdups_adj_sorted: "sorted (xs :: 'a :: linorder list) \<Longrightarrow> distinct (remdups_adj xs)"
  by (induction xs rule: remdups_adj.induct) (auto simp: order_le_less)

lemma unique_values: "sorted (unique_values xs)" "distinct (unique_values xs)" "set (unique_values xs) = set xs"
  by (simp_all add: unique_values_def sorted_remdups_adj distinct_remdups_adj_sorted)

lemma position_of_nth: "v \<in> set us \<Longrightarrow> position_of v us < length us \<and> us ! position_of v us = v"
  by (induction us) auto

lemma counts_of_values: "distinct us \<Longrightarrow> sum_list (map (count_list xs) us) = length (filter (\<lambda>x. x \<in> set us) xs)"
proof (induction us)
  case (Cons u us)
  have "length (filter (\<lambda>x. x \<in> set (u # us)) xs) = length (filter (\<lambda>x. x = u) xs) + length (filter (\<lambda>x. x \<in> set us) xs)"
    using Cons.prems by (induction xs) auto
  moreover have "count_list xs u = length (filter (\<lambda>x. x = u) xs)" by (induction xs) auto
  ultimately show ?case using Cons by simp
qed simp

lemma take_below:
  assumes "sorted us" "distinct us" "k < length us"
  shows "set (take k us) = {u \<in> set us. u < us ! k}"
proof -
  have "sorted_wrt (<) us" using assms(1,2) by (simp add: strict_sorted_iff)
  then have "us ! i < us ! k \<longleftrightarrow> i < k" if "i < length us" for i
    using that assms(3) by (metis linorder_neqE_nat order_less_asym order_less_irrefl sorted_wrt_nth_less)
  then show ?thesis using assms(3) by (force simp: set_conv_nth)
qed

lemma position_of_distinct: "distinct us \<Longrightarrow> k < length us \<Longrightarrow> position_of (us ! k) us = k"
  by (induction us arbitrary: k) (auto simp: nth_Cons split: nat.splits)

lemma column_counts:
  assumes "v \<in> set xs"
  defines "k \<equiv> position_of v (unique_values xs)"
  shows "k < length (unique_counts xs)" "unique_counts xs ! k = ties xs v" "sum_list (take k (unique_counts xs)) = below xs v"
proof -
  note u = unique_values [of xs]
  have k: "k < length (unique_values xs)" "unique_values xs ! k = v"
    using position_of_nth [of v "unique_values xs"] assms(1) u(3) by (simp_all add: k_def)
  then show "k < length (unique_counts xs)" by (simp add: unique_counts_def)
  show "unique_counts xs ! k = ties xs v"
  proof -
    have "unique_counts xs ! k = length (filter ((=) v) xs)" using k by (simp add: unique_counts_def count_list_eq_length_filter)
    also have "(=) v = (\<lambda>u. u = v)" by (rule ext) (rule eq_commute)
    finally show ?thesis by (simp add: ties_def)
  qed
  have "sum_list (take k (unique_counts xs)) = length (filter (\<lambda>x. x \<in> set (take k (unique_values xs))) xs)"
    unfolding unique_counts_def take_map using u(2) by (intro counts_of_values) simp
  also have "filter (\<lambda>x. x \<in> set (take k (unique_values xs))) xs = filter (\<lambda>x. x < v) xs"
    unfolding take_below [OF u(1,2) k(1)] k(2) u(3) by (rule filter_cong) auto
  finally show "sum_list (take k (unique_counts xs)) = below xs v" by (simp add: below_def)
qed

lemma ties_below: "v \<in> set xs \<Longrightarrow> 1 \<le> ties xs v \<and> below xs v + ties xs v \<le> length xs"
proof -
  assume v: "v \<in> set xs"
  have "length (filter (\<lambda>u. u < v) xs) + length (filter (\<lambda>u. u = v) xs) \<le> length xs" by (induction xs) auto
  moreover have "filter (\<lambda>u. u = v) xs \<noteq> []" using v by (auto simp: filter_empty_conv)
  then have "1 \<le> length (filter (\<lambda>u. u = v) xs)" by (simp add: Suc_le_eq)
  ultimately show ?thesis by (simp add: ties_def below_def)
qed

lemma columnar_ranks_value:
  assumes "2 \<le> length sample" "length sample \<le> 2 ^ 50"
  shows "columnar_ranks sample = Inr (map (\<lambda>(i, v). (i, rank_of (below (map snd sample) v) (ties (map snd sample) v) (length sample))) sample)"
proof -
  let ?vs = "map snd sample"
  let ?counts = "unique_counts ?vs"
  let ?starts = "map (\<lambda>k. sum_list (take k ?counts)) [0..<length ?counts]"
  define position where "position v = position_of v (unique_values ?vs)" for v
  note column = column_counts [of _ ?vs, folded position_def]
  have pair: "zip ?starts ?counts ! position v = (below ?vs v, ties ?vs v)" if "v \<in> set ?vs" for v
    using column [OF that] by simp
  have rank: "group_rank start width (length sample) = Inr (rank_of start width (length sample))"
    if z: "(start, width) \<in> set (zip ?starts ?counts)" for start width
  proof -
    obtain k where k: "k < length ?counts" "start = sum_list (take k ?counts)" "width = ?counts ! k"
      using z by (auto simp: in_set_zip)
    define v where "v = unique_values ?vs ! k"
    have len: "k < length (unique_values ?vs)" using k(1) by (simp add: unique_counts_def)
    then have v: "v \<in> set ?vs" using unique_values(3) [of ?vs] nth_mem [of k "unique_values ?vs"] by (simp add: v_def)
    have "position v = k" using position_of_distinct [OF unique_values(2) len] by (simp add: position_def v_def)
    then have "start = below ?vs v" "width = ties ?vs v" using k column [OF v] by simp_all
    then show ?thesis using ties_below [OF v] assms by (intro rank_of) simp_all
  qed
  have ranks: "mapE (\<lambda>(start, width). group_rank start width (length sample)) (zip ?starts ?counts)
      = Inr (map (\<lambda>(start, width). rank_of start width (length sample)) (zip ?starts ?counts))"
    by (rule mapE_Inr_map) (auto simp: rank)
  have "map (\<lambda>(start, width). rank_of start width (length sample)) (zip ?starts ?counts) ! position v
      = rank_of (below ?vs v) (ties ?vs v) (length sample)" if "v \<in> set ?vs" for v
    using pair [OF that] column(1) [OF that] by (subst nth_map) simp_all
  then have "\<forall>v\<in>set ?vs. map (\<lambda>(start, width). rank_of start width (length sample)) (zip ?starts ?counts) ! position v
      = rank_of (below ?vs v) (ties ?vs v) (length sample)" by blast
  then have "map (\<lambda>(i, v). (i, map (\<lambda>(start, width). rank_of start width (length sample)) (zip ?starts ?counts) ! position v)) sample
      = map (\<lambda>(i, v). (i, rank_of (below ?vs v) (ties ?vs v) (length sample))) sample"
    by (intro map_cong) (auto simp del: map_map)
  moreover obtain x y zs where "sample = x # y # zs" using assms(1) by (cases sample rule: remdups_adj.cases) auto
  ultimately show ?thesis
    using ranks unfolding columnar_ranks_def Let_def position_def by (cases x) (simp only: list.case prod.case bindE_simps)
qed

section \<open>Both evaluators agree\<close>

lemma below_mset: "mset xs = mset ys \<Longrightarrow> below xs v = below ys v" "mset xs = mset ys \<Longrightarrow> ties xs v = ties ys v"
  by (metis below_def mset_filter size_mset) (metis ties_def mset_filter size_mset)

lemma cross_section_ranks_value:
  assumes "distinct (map fst sample)" "2 \<le> length sample" "length sample \<le> 2 ^ 50"
  shows "\<exists>d. cross_section_ranks sample = Inr d \<and> (\<forall>(i, v)\<in>set sample.
    map_of d i = Some (rank_of (below (map snd sample) v) (ties (map snd sample) v) (length sample)))"
proof -
  let ?ordered = "sort_key snd (sort_key fst sample)"
  have "distinct (map fst ?ordered)"
    using assms(1) by (metis distinct_map mset_eq_imp_distinct_iff mset_sort set_sort)
  moreover have "mset (map snd ?ordered) = mset (map snd sample)" by simp
  note same = below_mset [OF this]
  ultimately have "\<exists>d. rank_loop (length sample) 0 ?ordered [] = Inr d \<and> (\<forall>(i, v)\<in>set sample.
      map_of d i = Some (rank_of (below (map snd sample) v) (ties (map snd sample) v) (length sample)))"
    using rank_loop_ranks [of "length sample" "[]" ?ordered "[]"] assms(2,3) by (auto simp: same)
  moreover obtain x y zs where "sample = x # y # zs" using assms(2) by (cases sample rule: remdups_adj.cases) auto
  then have "cross_section_ranks sample = rank_loop (length sample) 0 ?ordered []" by (cases x) (simp only: cross_section_ranks_def list.case prod.case)
  ultimately show ?thesis by simp
qed

text \<open>
  C30: the row evaluator and the columnar evaluator rank a session's cross-section alike. On every sample
  that names no instrument twice neither fails (no division by zero, no overflow), both rank every instrument
  of the sample, both give it the same binary64 value, that value lies between 0 and 1, and when there are
  two instruments or more it is the mean of the positions its value occupies in the order, scaled by
  \<open>n - 1\<close> and rounded once; a single instrument ranks 1/2.
\<close>

theorem ranks_agree:
  assumes "distinct (map fst sample)" and "length sample \<le> 2 ^ 50"
  shows "\<exists>d e. cross_section_ranks sample = Inr d \<and> columnar_ranks sample = Inr e \<and>
    (\<forall>(i, v)\<in>set sample. \<exists>r. map_of d i = Some r \<and> map_of e i = Some r \<and> 0 \<le> r \<and> r \<le> 1 \<and>
      (length sample = 1 \<longrightarrow> r = 1 / 2) \<and>
      (2 \<le> length sample \<longrightarrow> float_of (scaled_position (below (map snd sample) v) (ties (map snd sample) v) (length sample)) = Inr r))"
proof (cases "2 \<le> length sample")
  case True
  let ?vs = "map snd sample"
  obtain d where d: "cross_section_ranks sample = Inr d"
    "\<forall>(i, v)\<in>set sample. map_of d i = Some (rank_of (below ?vs v) (ties ?vs v) (length sample))"
    using cross_section_ranks_value [OF assms(1) True assms(2)] by blast
  let ?e = "map (\<lambda>(i, v). (i, rank_of (below ?vs v) (ties ?vs v) (length sample))) sample"
  have e: "columnar_ranks sample = Inr ?e" by (rule columnar_ranks_value [OF True assms(2)])
  have keys: "map fst ?e = map fst sample" by (induction sample) auto
  have "\<exists>r. map_of d i = Some r \<and> map_of ?e i = Some r \<and> 0 \<le> r \<and> r \<le> 1 \<and> (length sample = 1 \<longrightarrow> r = 1 / 2) \<and>
      (2 \<le> length sample \<longrightarrow> float_of (scaled_position (below ?vs v) (ties ?vs v) (length sample)) = Inr r)"
    if iv: "(i, v) \<in> set sample" for i v
  proof -
    let ?r = "rank_of (below ?vs v) (ties ?vs v) (length sample)"
    have "v \<in> set ?vs" using iv by force
    then have "1 \<le> ties ?vs v" "below ?vs v + ties ?vs v \<le> length sample" using ties_below [of v ?vs] by simp_all
    note r = rank_of_value [OF this True assms(2)]
    have "distinct (map fst ?e)" unfolding keys by (rule assms(1))
    then have "map_of ?e i = Some ?r" by (rule map_of_is_SomeI) (use iv in force)
    moreover have "map_of d i = Some ?r" using d(2) iv by auto
    ultimately show ?thesis using r True by (intro exI [of _ ?r] conjI impI) simp_all
  qed
  then show ?thesis using d(1) e by blast
next
  case False
  then consider "sample = []" | x where "sample = [x]" by (cases sample rule: remdups_adj.cases) auto
  then show ?thesis
    by cases (auto simp: cross_section_ranks_def columnar_ranks_def intro: exI [of _ "1 / 2"] split: prod.splits)
qed

lemma ranks_agree_witness:
  "\<exists>d e. cross_section_ranks [(''B'', 3), (''A'', 1), (''C'', 3)] = Inr d \<and>
     columnar_ranks [(''B'', 3), (''A'', 1), (''C'', 3)] = Inr e \<and> map_of d ''C'' = map_of e ''C'' \<and> map_of e ''C'' = Some (3 / 4)"
proof -
  let ?s = "[(''B'', 3), (''A'', 1), (''C'', 3)] :: (string \<times> rat) list"
  obtain d e r where d: "cross_section_ranks ?s = Inr d" "columnar_ranks ?s = Inr e" "map_of d ''C'' = Some r" "map_of e ''C'' = Some r"
    and r: "float_of (scaled_position (below (map snd ?s) 3) (ties (map snd ?s) 3) (length ?s)) = Inr r"
    using ranks_agree [of ?s] by auto
  have "below (map snd ?s) 3 = 1" "ties (map snd ?s) 3 = 2" by (simp_all add: below_def ties_def)
  then have "float_of (3 / 4) = Inr r" using r by (simp add: scaled_position_def)
  moreover have "float_of (3 / 4) = Inr (3 / 4)" by code_simp
  ultimately show ?thesis using d by simp
qed

end
