(* ===== verification/RiskPolicies.thy ===== *)
theory RiskPolicies
  imports Account
begin

text \<open>
  The builtin Close policies: \<open>research_kernel/builtin_risk.py\<close> (stop loss and maximum holding
  period), \<open>take_profit.py\<close> and \<open>portfolio_drawdown.py\<close>.

  A policy's threshold is a float that the code only compares with another float or turns into
  \<open>Decimal(str(x))\<close>: it is the decimal of its shortest text, which orders like the float. A decimal
  text of a state or of an observation is the canonical decimal it reads back as; the length limit of
  such a text is a check on \<open>canonical_decimal\<close>. The account is the list of positions of
  \<open>_position_payload\<close>. Sessions are ISO dates, compared as text.
\<close>

section \<open>Policies\<close>

record take_profit_tier =
  tier_profit_threshold :: dec
  tier_cumulative_reduction :: dec

record drawdown_policy =
  dp_drawdown_threshold :: dec
  dp_maximum_stock_exposure :: dec
  dp_cooldown_sessions :: int

record builtin_risk =
  br_stop_loss_threshold :: "dec option"
  br_maximum_holding_sessions :: "int option"
  br_take_profit_tiers :: "take_profit_tier list"
  br_portfolio_drawdown :: "drawdown_policy option"

definition validate_tier :: "take_profit_tier \<Rightarrow> py_error + unit" where
  "validate_tier tier =
     raiseIf (\<not> dlt dzero (tier_profit_threshold tier) \<or> \<not> dlt dzero (tier_cumulative_reduction tier)
         \<or> \<not> dle (tier_cumulative_reduction tier) (dec_of_int 1)) (ValueError ''take_profit_tiers'')"

definition validate_drawdown_policy :: "drawdown_policy \<Rightarrow> py_error + unit" where
  "validate_drawdown_policy policy =
     raiseIf (\<not> dlt dzero (dp_drawdown_threshold policy) \<or> \<not> dle (dp_drawdown_threshold policy) (dec_of_int 1)
         \<or> \<not> dle dzero (dp_maximum_stock_exposure policy) \<or> \<not> dle (dp_maximum_stock_exposure policy) (dec_of_int 1)
         \<or> dp_cooldown_sessions policy < 1) (ValueError ''portfolio_drawdown'')"

fun increasing_tiers :: "take_profit_tier list \<Rightarrow> bool" where
  "increasing_tiers (a # b # tiers) \<longleftrightarrow>
     dlt (tier_profit_threshold a) (tier_profit_threshold b) \<and>
     dlt (tier_cumulative_reduction a) (tier_cumulative_reduction b) \<and> increasing_tiers (b # tiers)"
| "increasing_tiers tiers \<longleftrightarrow> True"

definition validate_builtin_risk :: "builtin_risk \<Rightarrow> py_error + unit" where
  "validate_builtin_risk risk =
     bindE (case br_stop_loss_threshold risk of None \<Rightarrow> Inr ()
            | Some x \<Rightarrow> raiseIf (\<not> dlt dzero x \<or> \<not> dlt x (dec_of_int 1)) (ValueError ''stop_loss_threshold'')) (\<lambda>_.
     bindE (case br_maximum_holding_sessions risk of None \<Rightarrow> Inr ()
            | Some n \<Rightarrow> raiseIf (n < 1) (ValueError ''maximum_holding_sessions'')) (\<lambda>_.
     bindE (raiseIf (100 < length (br_take_profit_tiers risk)) (ValueError ''take_profit_tiers'')) (\<lambda>_.
     bindE (foldE (\<lambda>tier _. validate_tier tier) (br_take_profit_tiers risk) ()) (\<lambda>_.
     bindE (raiseIf (\<not> increasing_tiers (br_take_profit_tiers risk))
              (ValueError ''Take-profit tiers must strictly increase'')) (\<lambda>_.
     bindE (case br_portfolio_drawdown risk of None \<Rightarrow> Inr () | Some policy \<Rightarrow> validate_drawdown_policy policy) (\<lambda>_.
     raiseIf (br_stop_loss_threshold risk = None \<and> br_maximum_holding_sessions risk = None
         \<and> br_take_profit_tiers risk = [] \<and> br_portfolio_drawdown risk = None)
       (ValueError ''builtin_risk requires at least one enabled policy'')))))))"

section \<open>Observations\<close>

record stop_loss_observation =
  slo_instrument_id :: string
  slo_cost :: dec
  slo_close_value :: dec
  slo_holding_return :: dec
  slo_threshold :: dec
  slo_execution_shares :: int
  slo_holding_age :: int

record expiry_observation =
  exo_instrument_id :: string
  exo_execution_shares :: int
  exo_holding_age :: int
  exo_maximum_holding_sessions :: int

record take_profit_observation =
  tpo_instrument_id :: string
  tpo_cycle_ended :: bool
  tpo_holding_return :: "dec option"
  tpo_profit_threshold :: dec
  tpo_cumulative_reduction :: dec
  tpo_baseline_execution_shares :: int
  tpo_baseline_adjusted_units :: dec
  tpo_target_adjusted_units :: dec
  tpo_executed_reduction_units :: dec
  tpo_remaining_reduction_units :: dec
  tpo_execution_shares :: int
  tpo_position_limit :: "int option"

datatype drawdown_status = Observing | ThresholdReached | Cooldown | AwaitingNewPortfolio | NewPortfolioRecovery

record drawdown_observation =
  ddo_status :: drawdown_status
  ddo_cycle_started_session :: string
  ddo_peak_close_nav :: dec
  ddo_close_risk_nav :: dec
  ddo_drawdown :: dec
  ddo_drawdown_threshold :: dec
  ddo_maximum_stock_exposure :: "dec option"
  ddo_cooldown_sessions :: int
  ddo_completed_cooldown_sessions :: int
  ddo_triggered_session :: "string option"

datatype observation =
    StopLoss stop_loss_observation
  | MaximumHoldingPeriod expiry_observation
  | TakeProfit take_profit_observation
  | PortfolioDrawdown drawdown_observation

text \<open>\<open>Decimal(None)\<close> is a \<open>TypeError\<close>.\<close>

definition close_price :: "position \<Rightarrow> py_error + dec" where
  "close_price p = (case last_close_adjusted_price p of None \<Rightarrow> Inl (TypeError ''NoneType to Decimal'') | Some x \<Rightarrow> Inr x)"

section \<open>Stop loss and maximum holding period\<close>

definition stop_loss_of :: "dec \<Rightarrow> string \<times> position \<Rightarrow> py_error + observation list" where
  "stop_loss_of threshold held =
     (case held of (item, p) \<Rightarrow>
      let cost = remaining_acquisition_cost_cny p in
      bindE (close_price p) (\<lambda>price.
      bindE (acc_mul (adjusted_units p) price) (\<lambda>v.
      if \<not> dlt dzero cost then Inr [] else
      bindE (acc_sub (dec_of_int 1) threshold) (\<lambda>kept.
      bindE (acc_mul cost kept) (\<lambda>floor_value.
      if \<not> dle v floor_value then Inr [] else
      bindE (acc_div v cost) (\<lambda>ratio.
      bindE (acc_sub ratio (dec_of_int 1)) (\<lambda>holding_return.
      Inr [StopLoss \<lparr>slo_instrument_id = item, slo_cost = canon cost, slo_close_value = canon v,
             slo_holding_return = canon holding_return, slo_threshold = canon threshold,
             slo_execution_shares = execution_shares p, slo_holding_age = holding_age p\<rparr>])))))))"

definition stop_loss_observations :: "builtin_risk \<Rightarrow> positions \<Rightarrow> py_error + observation list" where
  "stop_loss_observations risk ps =
     (case br_stop_loss_threshold risk of None \<Rightarrow> Inr []
      | Some threshold \<Rightarrow> bindE (mapE (stop_loss_of threshold) ps) (\<lambda>xs. Inr (concat xs)))"

definition holding_observations :: "builtin_risk \<Rightarrow> positions \<Rightarrow> py_error + observation list" where
  "holding_observations risk ps =
     bindE (stop_loss_observations risk ps) (\<lambda>observations.
     Inr (observations @
       (case br_maximum_holding_sessions risk of None \<Rightarrow> []
        | Some n \<Rightarrow> map (\<lambda>(item, p). MaximumHoldingPeriod \<lparr>exo_instrument_id = item,
              exo_execution_shares = execution_shares p, exo_holding_age = holding_age p,
              exo_maximum_holding_sessions = n\<rparr>) (filter (\<lambda>(item, p). n \<le> holding_age p) ps))))"

section \<open>Take profit\<close>

record take_profit_cycle =
  cyc_started_session :: string
  cyc_baseline_units :: dec
  cyc_baseline_shares :: int
  cyc_highest_tier :: nat
  cyc_executed_units :: dec
  cyc_last_units :: dec
  cyc_last_shares :: int

type_synonym cycles = "(string \<times> take_profit_cycle) list"

definition date_pattern :: "string \<Rightarrow> bool" where
  "date_pattern s \<longleftrightarrow> length s = 10 \<and> s ! 4 = CHR ''-'' \<and> s ! 7 = CHR ''-'' \<and>
     list_all (\<lambda>k. is_digit (s ! k)) [0, 1, 2, 3, 5, 6, 8, 9]"

definition canonical_units :: "dec \<Rightarrow> bool" where
  "canonical_units d \<longleftrightarrow> dle dzero d \<and> canon d = d \<and> length (canonical_decimal d) \<le> 128"

definition validate_cycle :: "take_profit_cycle \<Rightarrow> py_error + unit" where
  "validate_cycle c =
     bindE (raiseIf (\<not> date_pattern (cyc_started_session c) \<or> cyc_baseline_shares c \<le> 0 \<or>
              100 \<le> cyc_highest_tier c \<or> cyc_last_shares c \<le> 0) (ValueError ''take_profit_cycles'')) (\<lambda>_.
     bindE (raiseIf (\<not> canonical_units (cyc_baseline_units c)) (ValueError ''Invalid take-profit baseline_adjusted_units'')) (\<lambda>_.
     bindE (raiseIf (\<not> canonical_units (cyc_executed_units c)) (ValueError ''Invalid take-profit executed_reduction_units'')) (\<lambda>_.
     bindE (raiseIf (\<not> canonical_units (cyc_last_units c)) (ValueError ''Invalid take-profit last_adjusted_units'')) (\<lambda>_.
     raiseIf (dle (cyc_baseline_units c) dzero \<or>
         \<not> (dlt dzero (cyc_last_units c) \<and> dle (cyc_last_units c) (cyc_baseline_units c)) \<or>
         dlt (cyc_baseline_units c) (cyc_executed_units c))
       (ValueError ''Invalid take-profit baseline or actual progress'')))))"

definition validate_cycles :: "cycles \<Rightarrow> py_error + unit" where
  "validate_cycles cycles =
     bindE (raiseIf (3000 < length cycles) (ValueError ''too_long: take_profit_cycles'')) (\<lambda>_.
     foldE (\<lambda>c _. validate_cycle (snd c)) cycles ())"

definition sold_quantities :: "fill_row list \<Rightarrow> (string \<times> int) list" where
  "sold_quantities executed =
     foldl (\<lambda>sold f. if fill_side f = Sell
         then AList.update (fill_instrument f) ((case map_of sold (fill_instrument f) of None \<Rightarrow> 0 | Some n \<Rightarrow> n) + fill_quantity f) sold
         else sold) [] executed"

definition reached_tiers :: "take_profit_tier list \<Rightarrow> dec \<Rightarrow> nat list" where
  "reached_tiers tiers holding_return =
     filter (\<lambda>k. dle (tier_profit_threshold (tiers ! k)) holding_return) [0..<length tiers]"

definition holding_return_of :: "dec \<Rightarrow> dec \<Rightarrow> py_error + dec" where
  "holding_return_of v cost =
     (if dlt dzero cost then bindE (acc_div v cost) (\<lambda>ratio. acc_sub ratio (dec_of_int 1)) else Inr dzero)"

text \<open>A new cycle starts when a tier is reached; a running one records the actual sales first.\<close>

definition start_cycle :: "position \<Rightarrow> nat list \<Rightarrow> take_profit_cycle" where
  "start_cycle p reached =
     \<lparr>cyc_started_session = holding_cycle_started_session p, cyc_baseline_units = canon (adjusted_units p),
      cyc_baseline_shares = execution_shares p, cyc_highest_tier = Max (set reached),
      cyc_executed_units = dzero, cyc_last_units = canon (adjusted_units p),
      cyc_last_shares = execution_shares p\<rparr>"

definition continue_cycle :: "bool \<Rightarrow> position \<Rightarrow> nat list \<Rightarrow> take_profit_cycle \<Rightarrow> py_error + take_profit_cycle" where
  "continue_cycle sold p reached c =
     bindE (if sold then
              bindE (acc_sub (cyc_last_units c) (adjusted_units p)) (\<lambda>difference.
              bindE (acc_add (cyc_executed_units c) (dmax dzero difference)) (\<lambda>executed. Inr (canon executed)))
            else Inr (cyc_executed_units c)) (\<lambda>executed.
     Inr (c\<lparr>cyc_executed_units := executed,
            cyc_highest_tier := (if reached = [] then cyc_highest_tier c else max (cyc_highest_tier c) (Max (set reached))),
            cyc_last_units := canon (adjusted_units p), cyc_last_shares := execution_shares p\<rparr>))"

definition current_cycle :: "cycles \<Rightarrow> string \<Rightarrow> position \<Rightarrow> take_profit_cycle option" where
  "current_cycle previous item p =
     (case map_of previous item of None \<Rightarrow> None
      | Some c \<Rightarrow> if cyc_started_session c \<noteq> holding_cycle_started_session p then None else Some c)"

definition position_cap :: "take_profit_tier \<Rightarrow> take_profit_cycle \<Rightarrow> position \<Rightarrow> py_error + dec \<times> int" where
  "position_cap tier c p =
     bindE (acc_sub (dec_of_int 1) (tier_cumulative_reduction tier)) (\<lambda>kept.
     bindE (acc_mul (cyc_baseline_units c) kept) (\<lambda>target_units.
     bindE (acc_mul target_units (dec_of_int (execution_shares p))) (\<lambda>scaled.
     bindE (acc_div scaled (adjusted_units p)) (\<lambda>shares.
     Inr (target_units, min (execution_shares p) (dec_to_int shares))))))"

definition take_profit_row :: "take_profit_tier \<Rightarrow> take_profit_cycle \<Rightarrow> string \<Rightarrow> position \<Rightarrow> dec \<Rightarrow> dec \<Rightarrow> int \<Rightarrow> py_error + observation" where
  "take_profit_row tier c item p holding_return target_units maximum =
     bindE (acc_sub (adjusted_units p) target_units) (\<lambda>remaining.
     Inr (TakeProfit \<lparr>tpo_instrument_id = item, tpo_cycle_ended = False,
       tpo_holding_return = Some (canon holding_return), tpo_profit_threshold = canon (tier_profit_threshold tier),
       tpo_cumulative_reduction = canon (tier_cumulative_reduction tier),
       tpo_baseline_execution_shares = cyc_baseline_shares c, tpo_baseline_adjusted_units = cyc_baseline_units c,
       tpo_target_adjusted_units = canon target_units, tpo_executed_reduction_units = cyc_executed_units c,
       tpo_remaining_reduction_units = canon (dmax dzero remaining),
       tpo_execution_shares = execution_shares p, tpo_position_limit = Some maximum\<rparr>))"

type_synonym take_profit_result = "cycles \<times> (string \<times> int) list \<times> observation list"

definition take_profit_position :: "take_profit_tier list \<Rightarrow> cycles \<Rightarrow> (string \<times> int) list \<Rightarrow> string \<times> position
    \<Rightarrow> take_profit_result \<Rightarrow> py_error + take_profit_result" where
  "take_profit_position tiers previous sold held s =
     (case (held, s) of ((item, p), (state, limits, observations)) \<Rightarrow>
      bindE (close_price p) (\<lambda>price.
      bindE (acc_mul (adjusted_units p) price) (\<lambda>v.
      bindE (holding_return_of v (remaining_acquisition_cost_cny p)) (\<lambda>holding_return.
      let reached = reached_tiers tiers holding_return;
          cycle = current_cycle previous item p
      in if cycle = None \<and> reached = [] then Inr s else
      bindE (case cycle of None \<Rightarrow> Inr (start_cycle p reached)
             | Some c \<Rightarrow> continue_cycle (map_of sold item \<noteq> None) p reached c) (\<lambda>c.
      bindE (nthE tiers (cyc_highest_tier c)) (\<lambda>tier.
      bindE (position_cap tier c p) (\<lambda>(target_units, maximum).
      bindE (take_profit_row tier c item p holding_return target_units maximum) (\<lambda>row.
      Inr (AList.update item c state, AList.update item maximum limits, observations @ [row])))))))))"

definition ended_cycle :: "take_profit_tier list \<Rightarrow> (string \<times> int) list \<Rightarrow> string \<times> take_profit_cycle \<Rightarrow> py_error + observation" where
  "ended_cycle tiers sold ended =
     (case ended of (item, c) \<Rightarrow>
      bindE (nthE tiers (cyc_highest_tier c)) (\<lambda>tier.
      bindE (acc_mul (cyc_baseline_units c) (tier_cumulative_reduction tier)) (\<lambda>planned.
      bindE (acc_mul (cyc_last_units c) (dec_of_int (case map_of sold item of None \<Rightarrow> 0 | Some n \<Rightarrow> n))) (\<lambda>sold_units.
      bindE (acc_div sold_units (dec_of_int (cyc_last_shares c))) (\<lambda>last_reduction.
      bindE (acc_add (cyc_executed_units c) last_reduction) (\<lambda>executed.
      bindE (acc_sub (cyc_baseline_units c) planned) (\<lambda>target_units.
      bindE (acc_sub planned executed) (\<lambda>remaining.
      Inr (TakeProfit \<lparr>tpo_instrument_id = item, tpo_cycle_ended = True, tpo_holding_return = None,
        tpo_profit_threshold = canon (tier_profit_threshold tier),
        tpo_cumulative_reduction = canon (tier_cumulative_reduction tier),
        tpo_baseline_execution_shares = cyc_baseline_shares c, tpo_baseline_adjusted_units = cyc_baseline_units c,
        tpo_target_adjusted_units = canon target_units, tpo_executed_reduction_units = canon executed,
        tpo_remaining_reduction_units = canon (dmax dzero remaining),
        tpo_execution_shares = 0, tpo_position_limit = None\<rparr>)))))))))"

definition take_profit_decision :: "take_profit_tier list \<Rightarrow> positions \<Rightarrow> cycles \<Rightarrow> fill_row list \<Rightarrow> py_error + take_profit_result" where
  "take_profit_decision tiers ps previous executions =
     bindE (validate_cycles previous) (\<lambda>_.
     bindE (raiseIf (\<exists>c\<in>set (map snd previous). length tiers \<le> cyc_highest_tier c)
              (ValueError ''Take-profit progress differs from configured tiers'')) (\<lambda>_.
     let sold = sold_quantities executions in
     bindE (foldE (take_profit_position tiers previous sold) ps ([], [], [])) (\<lambda>(state, limits, observations).
     bindE (mapE (ended_cycle tiers sold) (filter (\<lambda>(item, c). map_of state item = None) previous)) (\<lambda>ended.
     Inr (state, limits, observations @ ended)))))"

section \<open>Portfolio drawdown\<close>

record drawdown_state =
  dds_cycle_started_session :: string
  dds_peak_close_nav :: dec
  dds_triggered_session :: "string option"
  dds_triggered_session_number :: "int option"

text \<open>\<open>date.fromisoformat(s).isoformat() == s\<close>\<close>

definition days_in_month :: "int \<Rightarrow> int \<Rightarrow> int" where
  "days_in_month year month =
     (if month = 2 then (if year mod 4 = 0 \<and> (year mod 100 \<noteq> 0 \<or> year mod 400 = 0) then 29 else 28)
      else if month \<in> {4, 6, 9, 11} then 30 else 31)"

definition iso_date :: "string \<Rightarrow> bool" where
  "iso_date s \<longleftrightarrow> date_pattern s \<and>
     (let year = int_of_digits (take 4 s); month = int_of_digits (take 2 (drop 5 s)); day = int_of_digits (drop 8 s)
      in 1 \<le> year \<and> 1 \<le> month \<and> month \<le> 12 \<and> 1 \<le> day \<and> day \<le> days_in_month year month)"

definition validate_drawdown_state :: "drawdown_state \<Rightarrow> py_error + unit" where
  "validate_drawdown_state s =
     bindE (raiseIf (128 < length (canonical_decimal (dds_peak_close_nav s))) (ValueError ''too_long: peak_close_nav_cny'')) (\<lambda>_.
     bindE (raiseIf (case dds_triggered_session_number s of None \<Rightarrow> False | Some n \<Rightarrow> n < 1)
              (ValueError ''triggered_session_number'')) (\<lambda>_.
     raiseIf (\<not> iso_date (dds_cycle_started_session s) \<or>
         (case dds_triggered_session s of None \<Rightarrow> False | Some t \<Rightarrow> \<not> iso_date t \<or> t < dds_cycle_started_session s) \<or>
         dlt (dds_peak_close_nav s) dzero \<or> canon (dds_peak_close_nav s) \<noteq> dds_peak_close_nav s \<or>
         (dds_triggered_session s = None) \<noteq> (dds_triggered_session_number s = None))
       (ValueError ''Invalid drawdown risk cycle'')))"

definition validate_drawdown_boundary :: "string \<Rightarrow> int \<Rightarrow> dec \<Rightarrow> drawdown_state \<Rightarrow> py_error + unit" where
  "validate_drawdown_boundary session completed_sessions close_nav s =
     raiseIf (session < dds_cycle_started_session s \<or> dlt (dds_peak_close_nav s) close_nav \<or>
         (case dds_triggered_session s of None \<Rightarrow> False | Some t \<Rightarrow> session < t) \<or>
         (case dds_triggered_session_number s of None \<Rightarrow> False | Some n \<Rightarrow> completed_sessions < n))
       (ValueError ''Drawdown risk cycle exceeds its checkpoint boundary'')"

definition fresh_drawdown :: "string \<Rightarrow> dec \<Rightarrow> drawdown_state" where
  "fresh_drawdown session current =
     \<lparr>dds_cycle_started_session = session, dds_peak_close_nav = canon current,
      dds_triggered_session = None, dds_triggered_session_number = None\<rparr>"

definition relative_drawdown :: "dec \<Rightarrow> dec \<Rightarrow> py_error + dec" where
  "relative_drawdown current peak =
     (if dlt dzero peak then bindE (acc_div current peak) (\<lambda>ratio. acc_sub (dec_of_int 1) ratio) else Inr dzero)"

text \<open>The status, the state, the peak, the drawdown and the sessions elapsed after the transition.\<close>

definition drawdown_transition :: "drawdown_policy \<Rightarrow> dec \<Rightarrow> string \<Rightarrow> int \<Rightarrow> bool \<Rightarrow> drawdown_state \<Rightarrow> dec \<Rightarrow> dec
    \<Rightarrow> drawdown_status \<times> drawdown_state \<times> dec \<times> dec \<times> int" where
  "drawdown_transition policy current session session_number new_proposal s peak drawdown =
     (case dds_triggered_session_number s of
        Some triggered \<Rightarrow>
          let elapsed = session_number - triggered in
          if dp_cooldown_sessions policy \<le> elapsed \<and> new_proposal
          then (NewPortfolioRecovery, fresh_drawdown session current, current, dzero, elapsed)
          else (if dp_cooldown_sessions policy \<le> elapsed then AwaitingNewPortfolio else Cooldown, s, peak, drawdown, elapsed)
      | None \<Rightarrow>
          if dle (dp_drawdown_threshold policy) drawdown
          then (ThresholdReached, s\<lparr>dds_triggered_session := Some session, dds_triggered_session_number := Some session_number\<rparr>,
                peak, drawdown, 0)
          else (Observing, s, peak, drawdown, 0))"

definition portfolio_drawdown_decision :: "drawdown_policy \<Rightarrow> pydec \<Rightarrow> string \<Rightarrow> int \<Rightarrow> bool \<Rightarrow> drawdown_state option
    \<Rightarrow> py_error + drawdown_state \<times> dec option \<times> observation" where
  "portfolio_drawdown_decision policy nav session session_number new_proposal previous =
     (case nav of Finite current \<Rightarrow>
        bindE (raiseIf (dlt current dzero) (ValueError ''Close Risk NAV must be finite and nonnegative'')) (\<lambda>_.
        bindE (case previous of None \<Rightarrow> Inr (fresh_drawdown session current)
               | Some s \<Rightarrow> bindE (validate_drawdown_state s) (\<lambda>_. Inr s)) (\<lambda>s.
        let highest = dmax (dds_peak_close_nav s) current in
        bindE (relative_drawdown current highest) (\<lambda>loss.
        case drawdown_transition policy current session session_number new_proposal s highest loss of
          (status, s, peak, drawdown, elapsed) \<Rightarrow>
            let s = s\<lparr>dds_peak_close_nav := canon peak\<rparr>;
                cap = (if dds_triggered_session_number s = None then None else Some (dp_maximum_stock_exposure policy))
            in Inr (s, cap, PortfolioDrawdown \<lparr>ddo_status = status, ddo_cycle_started_session = dds_cycle_started_session s,
                  ddo_peak_close_nav = dds_peak_close_nav s, ddo_close_risk_nav = canon current,
                  ddo_drawdown = canon drawdown, ddo_drawdown_threshold = dp_drawdown_threshold policy,
                  ddo_maximum_stock_exposure = cap, ddo_cooldown_sessions = dp_cooldown_sessions policy,
                  ddo_completed_cooldown_sessions = elapsed, ddo_triggered_session = dds_triggered_session s\<rparr>))))
      | _ \<Rightarrow> Inl (ValueError ''Close Risk NAV must be finite and nonnegative''))"

section \<open>The drawdown cycle\<close>

lemma canonical_decimal_canon [simp]: "canonical_decimal (canon d) = canonical_decimal d"
proof -
  have "coeff (canon d) = 0 \<longleftrightarrow> coeff d = 0" using dval_canon [of d] by (simp flip: dval_eq_0_iff)
  then show ?thesis by (simp add: canonical_decimal_def)
qed

lemma fits_one_acc: "fits ACCOUNTING_CONTEXT 1"
  using fits_int [of 1] by simp

lemma relative_drawdown_returns:
  assumes "0 \<le> dval c" "dval c \<le> dval p"
  shows "\<exists>d. relative_drawdown c p = Inr d \<and> 0 \<le> dval d"
proof (cases "dlt dzero p")
  case False
  then show ?thesis by (simp add: relative_drawdown_def)
next
  case True
  then have p: "0 < dval p" "coeff p \<noteq> 0" by (auto simp: dlt_val simp flip: dval_eq_0_iff)
  have "(10 :: rat) powi 1 \<le> 10 powi (emax ACCOUNTING_CONTEXT)" by (rule ten_powi_mono) (simp add: ACCOUNTING_CONTEXT_def)
  then have big: "(10 :: rat) \<le> 10 powi (emax ACCOUNTING_CONTEXT)" by simp
  have ratio: "0 \<le> dval c / dval p" "dval c / dval p \<le> 1" using assms p by (simp_all add: divide_le_eq)
  then obtain r where r: "acc_div c p = Inr r"
    using dec_div_total [OF ctx_wide_contexts(1) p(2), of c] big by fastforce
  note rounds = dec_div_rounds(2) [OF ctx_ok_ACCOUNTING r]
  have r01: "0 \<le> dval r" "dval r \<le> 1"
    using rounds_nonneg [OF rounds ratio(1)] rounded_le_fits [OF rounds fits_one_acc] ratio by auto
  then obtain d where d: "acc_sub (dec_of_int 1) r = Inr d"
    using dec_sub_total [OF ctx_wide_contexts(1), of "dec_of_int 1" r] big by fastforce
  have "0 \<le> dval d" using rounds_nonneg [OF dec_sub_rounds [OF ctx_ok_ACCOUNTING d]] r01 by simp
  then show ?thesis using r d True by (simp add: relative_drawdown_def)
qed

text \<open>What a session brings: a date, a net asset value and whether the portfolio proposes a target.\<close>

definition drawdown_day :: "string \<Rightarrow> dec \<Rightarrow> bool" where
  "drawdown_day session nav \<longleftrightarrow> iso_date session \<and> 0 \<le> dval nav \<and> length (canonical_decimal nav) \<le> 128"

definition drawdown_valid :: "string \<Rightarrow> int \<Rightarrow> dec \<Rightarrow> drawdown_state \<Rightarrow> bool" where
  "drawdown_valid session n nav s \<longleftrightarrow>
     validate_drawdown_state s = Inr () \<and> validate_drawdown_boundary session n nav s = Inr ()"

lemma fresh_drawdown_valid: "drawdown_day session nav \<Longrightarrow> validate_drawdown_state (fresh_drawdown session nav) = Inr ()"
  by (simp add: drawdown_day_def validate_drawdown_state_def fresh_drawdown_def dlt_val not_less)

lemma first_drawdown:
  "drawdown_day session nav \<Longrightarrow> portfolio_drawdown_decision policy (Finite nav) session n new None
     = portfolio_drawdown_decision policy (Finite nav) session n new (Some (fresh_drawdown session nav))"
  by (simp add: portfolio_drawdown_decision_def fresh_drawdown_valid)

text \<open>
  One Close: the decision returns, its state passes the validator and the checkpoint boundary, and the
  cap is on exactly when the state it returns is triggered.
\<close>

lemma drawdown_close:
  assumes valid: "validate_drawdown_state s = Inr ()" and day: "drawdown_day session nav" and n: "1 \<le> n"
    and past: "dds_cycle_started_session s \<le> session" "\<And>t. dds_triggered_session s = Some t \<Longrightarrow> t \<le> session"
      "\<And>k. dds_triggered_session_number s = Some k \<Longrightarrow> k \<le> n"
  shows "\<exists>s' row. portfolio_drawdown_decision policy (Finite nav) session n new (Some s)
      = Inr (s', (if dds_triggered_session_number s' = None then None else Some (dp_maximum_stock_exposure policy)), row) \<and>
    drawdown_valid session n nav s' \<and>
    (\<forall>k. dds_triggered_session_number s = Some k \<longrightarrow>
      dds_triggered_session_number s' = (if dp_cooldown_sessions policy \<le> n - k \<and> new then None else Some k))"
proof -
  let ?peak = "dmax (dds_peak_close_nav s) nav"
  have nav: "iso_date session" "0 \<le> dval nav" "length (canonical_decimal nav) \<le> 128"
    using day by (simp_all add: drawdown_day_def)
  obtain drawdown where d: "relative_drawdown nav ?peak = Inr drawdown"
    using relative_drawdown_returns [of nav ?peak] nav(2) by fastforce
  obtain status t peak loss elapsed where move:
    "drawdown_transition policy nav session n new s ?peak drawdown = (status, t, peak, loss, elapsed)"
    by (cases "drawdown_transition policy nav session n new s ?peak drawdown")
  let ?t = "t\<lparr>dds_peak_close_nav := canon peak\<rparr>"
  have run: "\<exists>row. portfolio_drawdown_decision policy (Finite nav) session n new (Some s)
      = Inr (?t, (if dds_triggered_session_number ?t = None then None else Some (dp_maximum_stock_exposure policy)), row)"
    using valid nav(2) d move by (simp add: portfolio_drawdown_decision_def dlt_val Let_def)
  have s: "iso_date (dds_cycle_started_session s)" "0 \<le> dval (dds_peak_close_nav s)"
    "(dds_triggered_session s = None) = (dds_triggered_session_number s = None)"
    "\<And>u. dds_triggered_session s = Some u \<Longrightarrow> iso_date u \<and> dds_cycle_started_session s \<le> u"
    "\<And>k. dds_triggered_session_number s = Some k \<Longrightarrow> 1 \<le> k"
    "length (canonical_decimal (dds_peak_close_nav s)) \<le> 128"
    using valid by (auto simp: validate_drawdown_state_def dlt_val not_less elim!: bindE_InrE)
  have "drawdown_valid session n nav ?t"
  proof (cases "dds_triggered_session_number s")
    case None
    then have "dds_triggered_session s = None" using s(3) by simp
    with None have "peak = ?peak" "t = s \<or> t = s\<lparr>dds_triggered_session := Some session, dds_triggered_session_number := Some n\<rparr>"
      using move by (auto simp: drawdown_transition_def split: if_splits)
    then show ?thesis
      using s nav past(1) n None \<open>dds_triggered_session s = None\<close>
      by (auto simp: drawdown_valid_def validate_drawdown_state_def validate_drawdown_boundary_def dlt_val not_less dmax_def)
  next
    case (Some k)
    then obtain u where u: "dds_triggered_session s = Some u" using s(3) by auto
    have "t = s \<and> peak = ?peak \<or> t = fresh_drawdown session nav \<and> peak = nav"
      using move Some by (auto simp: drawdown_transition_def Let_def split: if_splits)
    then show ?thesis
      using s(1,2,6) s(4) [OF u] s(5) [OF Some] nav past(1) past(2) [OF u] past(3) [OF Some] n Some u
      by (auto simp: drawdown_valid_def validate_drawdown_state_def validate_drawdown_boundary_def dlt_val not_less
          dmax_def fresh_drawdown_def)
  qed
  moreover have "dds_triggered_session_number ?t = (if dp_cooldown_sessions policy \<le> n - k \<and> new then None else Some k)"
    if "dds_triggered_session_number s = Some k" for k
    using move that by (auto simp: drawdown_transition_def fresh_drawdown_def Let_def split: if_splits)
  ultimately show ?thesis using run by blast
qed

text \<open>The states a continuing run keeps at its checkpoints.\<close>

inductive drawdown_run :: "drawdown_policy \<Rightarrow> string \<Rightarrow> int \<Rightarrow> dec \<Rightarrow> drawdown_state \<Rightarrow> bool" for policy where
  first_close: "drawdown_day session nav \<Longrightarrow> 1 \<le> n \<Longrightarrow>
    portfolio_drawdown_decision policy (Finite nav) session n new None = Inr (s, cap, row) \<Longrightarrow>
    drawdown_run policy session n nav s"
| later_close: "drawdown_run policy session n nav s \<Longrightarrow> session < session' \<Longrightarrow> drawdown_day session' nav' \<Longrightarrow>
    portfolio_drawdown_decision policy (Finite nav') session' (n + 1) new (Some s) = Inr (s', cap, row) \<Longrightarrow>
    drawdown_run policy session' (n + 1) nav' s'"

lemma drawdown_run_valid: "drawdown_run policy session n nav s \<Longrightarrow> 1 \<le> n \<and> drawdown_valid session n nav s"
proof (induction rule: drawdown_run.induct)
  case (first_close session nav n new s cap row)
  then show ?case
    using drawdown_close [OF fresh_drawdown_valid [OF first_close(1)] first_close(1,2), of policy new]
    by (auto simp: first_drawdown fresh_drawdown_def)
next
  case (later_close session n nav s session' nav' new s' cap row)
  have s: "validate_drawdown_state s = Inr ()" "dds_cycle_started_session s \<le> session" "1 \<le> n + 1"
    "\<And>t. dds_triggered_session s = Some t \<Longrightarrow> t \<le> session" "\<And>k. dds_triggered_session_number s = Some k \<Longrightarrow> k \<le> n"
    using later_close.IH by (auto simp: drawdown_valid_def validate_drawdown_boundary_def not_less)
  have "drawdown_valid session' (n + 1) nav' s'"
    using drawdown_close [OF s(1) later_close(3) s(3), of policy new] s(2,4,5) later_close(2,4) by fastforce
  then show ?case using s(3) by simp
qed

text \<open>
  C31: Every state the drawdown policy leaves at a Close is accepted again: over any run of sessions with
  later and later dates and non-negative net asset values, its peak is at least the value of the Close,
  it passes its own validator and the checkpoint boundary, and the decision of the next session returns.
\<close>

theorem drawdown_checkpoint_accepted:
  assumes "drawdown_run policy session n nav s" and "session < session'" and "drawdown_day session' nav'"
  shows "validate_drawdown_state s = Inr () \<and> validate_drawdown_boundary session n nav s = Inr () \<and>
    dval nav \<le> dval (dds_peak_close_nav s) \<and>
    (\<exists>r. portfolio_drawdown_decision policy (Finite nav') session' (n + 1) new (Some s) = Inr r)"
proof -
  have s: "1 \<le> n + 1" "validate_drawdown_state s = Inr ()" "validate_drawdown_boundary session n nav s = Inr ()"
    using drawdown_run_valid [OF assms(1)] by (simp_all add: drawdown_valid_def)
  then have "dds_cycle_started_session s \<le> session" "dval nav \<le> dval (dds_peak_close_nav s)"
    "\<And>t. dds_triggered_session s = Some t \<Longrightarrow> t \<le> session" "\<And>k. dds_triggered_session_number s = Some k \<Longrightarrow> k \<le> n"
    by (auto simp: validate_drawdown_boundary_def not_less dlt_val)
  then show ?thesis using drawdown_close [OF s(2) assms(3) s(1), of policy new] s assms(2) by fastforce
qed

section \<open>The cap over a list of sessions\<close>

fun drawdown_sessions :: "drawdown_policy \<Rightarrow> int \<Rightarrow> (string \<times> dec \<times> bool) list \<Rightarrow> drawdown_state
    \<Rightarrow> py_error + drawdown_state \<times> dec option list" where
  "drawdown_sessions policy n [] s = Inr (s, [])"
| "drawdown_sessions policy n ((session, nav, new) # days) s =
     bindE (portfolio_drawdown_decision policy (Finite nav) session n new (Some s)) (\<lambda>(s, cap, row).
     bindE (drawdown_sessions policy (n + 1) days s) (\<lambda>(s, caps). Inr (s, cap # caps)))"

text \<open>The first day a triggered cycle may be released on: the cooldown is over and there is a proposal.\<close>

definition holds_cap :: "drawdown_policy \<Rightarrow> int \<Rightarrow> int \<Rightarrow> (string \<times> dec \<times> bool) list \<Rightarrow> nat \<Rightarrow> bool" where
  "holds_cap policy n k days j \<longleftrightarrow> n + int j - k < dp_cooldown_sessions policy \<or> \<not> snd (snd (days ! j))"

lemma drawdown_sessions_return:
  assumes "validate_drawdown_state s = Inr ()" "1 \<le> n" "\<forall>(session, nav, new)\<in>set days. drawdown_day session nav"
    and "sorted (dds_cycle_started_session s # map fst days)" "\<And>t. dds_triggered_session s = Some t \<Longrightarrow> sorted (t # map fst days)"
    and "\<And>k. dds_triggered_session_number s = Some k \<Longrightarrow> k \<le> n"
  shows "\<exists>s' caps. drawdown_sessions policy n days s = Inr (s', caps) \<and> length caps = length days \<and>
    (\<forall>k j. dds_triggered_session_number s = Some k \<longrightarrow> j < length days \<longrightarrow> (\<forall>i<j. holds_cap policy n k days i) \<longrightarrow>
      caps ! j = (if holds_cap policy n k days j then Some (dp_maximum_stock_exposure policy) else None))"
  using assms
proof (induction days arbitrary: s n)
  case Nil
  then show ?case by simp
next
  case (Cons day days)
  obtain session nav new where day: "day = (session, nav, new)" by (cases day)
  have dd: "drawdown_day session nav" "dds_cycle_started_session s \<le> session"
    "\<And>t. dds_triggered_session s = Some t \<Longrightarrow> t \<le> session"
    using Cons.prems(3,4,5) by (auto simp: day)
  obtain s' row where close: "portfolio_drawdown_decision policy (Finite nav) session n new (Some s)
      = Inr (s', (if dds_triggered_session_number s' = None then None else Some (dp_maximum_stock_exposure policy)), row)"
    and v: "drawdown_valid session n nav s'"
    and next_k: "\<And>k. dds_triggered_session_number s = Some k \<Longrightarrow>
      dds_triggered_session_number s' = (if dp_cooldown_sessions policy \<le> n - k \<and> new then None else Some k)"
    using drawdown_close [OF Cons.prems(1) dd(1) Cons.prems(2), of policy new] dd(2,3) Cons.prems(6) by blast
  have later: "\<forall>x\<in>set (map fst days). session \<le> x" "sorted (map fst days)" using Cons.prems(4) by (auto simp: day)
  have s': "validate_drawdown_state s' = Inr ()" "dds_cycle_started_session s' \<le> session"
    "\<And>t. dds_triggered_session s' = Some t \<Longrightarrow> t \<le> session" "\<And>k. dds_triggered_session_number s' = Some k \<Longrightarrow> k \<le> n"
    using v by (auto simp: drawdown_valid_def validate_drawdown_boundary_def not_less)
  have "sorted (u # map fst days)" if "u \<le> session" for u using later that by fastforce
  then obtain t caps where rest: "drawdown_sessions policy (n + 1) days s' = Inr (t, caps)" "length caps = length days"
    and caps: "\<And>k j. dds_triggered_session_number s' = Some k \<Longrightarrow> j < length days \<Longrightarrow> (\<forall>i<j. holds_cap policy (n + 1) k days i) \<Longrightarrow>
      caps ! j = (if holds_cap policy (n + 1) k days j then Some (dp_maximum_stock_exposure policy) else None)"
    using Cons.IH [of s' "n + 1"] s' Cons.prems(2,3) by (fastforce simp: day)
  let ?cap = "if dds_triggered_session_number s' = None then None else Some (dp_maximum_stock_exposure policy)"
  have "(?cap # caps) ! j = (if holds_cap policy n k (day # days) j then Some (dp_maximum_stock_exposure policy) else None)"
    if k: "dds_triggered_session_number s = Some k" and j: "j < length (day # days)" and held: "\<forall>i<j. holds_cap policy n k (day # days) i" for k j
  proof (cases j)
    case 0
    then show ?thesis using next_k [OF k] by (auto simp: holds_cap_def day)
  next
    case (Suc i)
    have shift: "holds_cap policy n k (day # days) (Suc i) = holds_cap policy (n + 1) k days i" for i by (simp add: holds_cap_def add.assoc)
    have "holds_cap policy n k (day # days) 0" using held Suc by blast
    then have "dds_triggered_session_number s' = Some k" using next_k [OF k] by (auto simp: holds_cap_def day)
    moreover have "\<forall>i'<i. holds_cap policy (n + 1) k days i'" using held Suc shift by (metis Suc_mono)
    ultimately show ?thesis using caps [of k i] j Suc shift by simp
  qed
  then show ?case using close rest by (simp add: day)
qed

text \<open>
  C32: Once triggered, the exposure cap stays on until its release. From a checkpoint triggered at
  session number \<open>k\<close>, over any further sessions in order, every decision returns; on each session before
  the first one on which the cooldown is over and the portfolio proposes a target the cap is the policy's
  maximum exposure, whatever the net asset values do, and on that session there is no cap.
\<close>

theorem drawdown_cap_until_release:
  assumes "drawdown_run policy session n nav s" and "dds_triggered_session_number s = Some k"
    and "\<forall>(session, nav, new)\<in>set days. drawdown_day session nav" and "sorted_wrt (<) (session # map fst days)"
  shows "\<exists>s' caps. drawdown_sessions policy (n + 1) days s = Inr (s', caps) \<and> length caps = length days \<and>
    (\<forall>j<length days. (\<forall>i<j. holds_cap policy (n + 1) k days i) \<longrightarrow>
      caps ! j = (if holds_cap policy (n + 1) k days j then Some (dp_maximum_stock_exposure policy) else None))"
proof -
  have n: "1 \<le> n + 1" and s: "validate_drawdown_state s = Inr ()" "dds_cycle_started_session s \<le> session"
    "\<And>t. dds_triggered_session s = Some t \<Longrightarrow> t \<le> session" "\<And>k. dds_triggered_session_number s = Some k \<Longrightarrow> k \<le> n + 1"
    using drawdown_run_valid [OF assms(1)] by (auto simp: drawdown_valid_def validate_drawdown_boundary_def not_less)
  have "sorted (session # map fst days)" using assms(4) by (rule strict_sorted_imp_sorted)
  then have "sorted (u # map fst days)" if "u \<le> session" for u using that by (auto intro: order_trans)
  then show ?thesis using drawdown_sessions_return [OF s(1) n assms(3)] s(2-4) assms(2) by blast
qed

definition sample_drawdown :: drawdown_policy where
  "sample_drawdown = \<lparr>dp_drawdown_threshold = Dec 1 (- 1), dp_maximum_stock_exposure = Dec 5 (- 1), dp_cooldown_sessions = 2\<rparr>"

definition sample_drawdown_state :: drawdown_state where
  "sample_drawdown_state = \<lparr>dds_cycle_started_session = ''2024-01-02'', dds_peak_close_nav = Dec 1 3,
     dds_triggered_session = Some ''2024-01-03'', dds_triggered_session_number = Some 2\<rparr>"

lemma sample_drawdown_run: "drawdown_run sample_drawdown ''2024-01-03'' 2 (Dec 8 2) sample_drawdown_state"
proof -
  have "case portfolio_drawdown_decision sample_drawdown (Finite (Dec 1 3)) ''2024-01-02'' 1 False None of
      Inl e \<Rightarrow> False | Inr (s, cap, row) \<Rightarrow> s = fresh_drawdown ''2024-01-02'' (Dec 1 3)" by code_simp
  then obtain cap row where one: "portfolio_drawdown_decision sample_drawdown (Finite (Dec 1 3)) ''2024-01-02'' 1 False None
      = Inr (fresh_drawdown ''2024-01-02'' (Dec 1 3), cap, row)" by (auto split: sum.splits)
  have "case portfolio_drawdown_decision sample_drawdown (Finite (Dec 8 2)) ''2024-01-03'' 2 False (Some (fresh_drawdown ''2024-01-02'' (Dec 1 3))) of
      Inl e \<Rightarrow> False | Inr (s, cap, row) \<Rightarrow> s = sample_drawdown_state" by code_simp
  then obtain cap' row' where two: "portfolio_drawdown_decision sample_drawdown (Finite (Dec 8 2)) ''2024-01-03'' (1 + 1) False
      (Some (fresh_drawdown ''2024-01-02'' (Dec 1 3))) = Inr (sample_drawdown_state, cap', row')" by (auto split: sum.splits)
  have days: "drawdown_day ''2024-01-02'' (Dec 1 3)" "drawdown_day ''2024-01-03'' (Dec 8 2)" by code_simp+
  have "drawdown_run sample_drawdown ''2024-01-02'' 1 (Dec 1 3) (fresh_drawdown ''2024-01-02'' (Dec 1 3))"
    by (rule first_close [OF days(1) _ one]) simp
  moreover have "''2024-01-02'' < (''2024-01-03'' :: string)" by code_simp
  ultimately have "drawdown_run sample_drawdown ''2024-01-03'' (1 + 1) (Dec 8 2) sample_drawdown_state"
    by (rule later_close [OF _ _ days(2) two])
  then show ?thesis by simp
qed

lemma drawdown_checkpoint_accepted_witness:
  "\<exists>s r. drawdown_run sample_drawdown ''2024-01-03'' 2 (Dec 8 2) s \<and>
     portfolio_drawdown_decision sample_drawdown (Finite (Dec 9 2)) ''2024-01-04'' 3 False (Some s) = Inr r"
proof -
  have "''2024-01-03'' < (''2024-01-04'' :: string)" "drawdown_day ''2024-01-04'' (Dec 9 2)" by code_simp+
  from drawdown_checkpoint_accepted [OF sample_drawdown_run this] show ?thesis using sample_drawdown_run by fastforce
qed

lemma drawdown_cap_until_release_witness:
  "\<exists>s' caps. drawdown_sessions sample_drawdown 3 [(''2024-01-04'', Dec 12 2, True), (''2024-01-05'', Dec 12 2, True)]
      sample_drawdown_state = Inr (s', caps) \<and> caps = [Some (Dec 5 (- 1)), None]"
proof -
  let ?days = "[(''2024-01-04'', Dec 12 2, True), (''2024-01-05'', Dec 12 2, True)]"
  have "drawdown_day ''2024-01-04'' (Dec 12 2)" "drawdown_day ''2024-01-05'' (Dec 12 2)" by code_simp+
  then have "\<forall>(session, nav, new)\<in>set ?days. drawdown_day session nav" by simp
  moreover have "sorted_wrt (<) (''2024-01-03'' # map fst ?days)" by code_simp
  ultimately obtain s' caps where c: "drawdown_sessions sample_drawdown (2 + 1) ?days sample_drawdown_state = Inr (s', caps)"
    "length caps = length ?days" "\<forall>j<length ?days. (\<forall>i<j. holds_cap sample_drawdown (2 + 1) 2 ?days i) \<longrightarrow>
      caps ! j = (if holds_cap sample_drawdown (2 + 1) 2 ?days j then Some (dp_maximum_stock_exposure sample_drawdown) else None)"
    using drawdown_cap_until_release [OF sample_drawdown_run, of 2 ?days] by (auto simp: sample_drawdown_state_def)
  have held: "holds_cap sample_drawdown (2 + 1) 2 ?days 0" "\<not> holds_cap sample_drawdown (2 + 1) 2 ?days 1"
    by (simp_all add: holds_cap_def sample_drawdown_def)
  have "caps ! 0 = Some (dp_maximum_stock_exposure sample_drawdown)" using c(3) held(1) by (auto dest: spec [of _ 0])
  moreover have "caps ! 1 = None" using c(3) held by (auto dest: spec [of _ 1])
  ultimately have "caps = [Some (Dec 5 (- 1)), None]" using c(2) by (auto simp: length_Suc_conv sample_drawdown_def)
  then show ?thesis using c(1) by simp
qed

section \<open>The cap of a take-profit cycle\<close>

lemma dec_to_int_floor: "0 \<le> dval d \<Longrightarrow> dec_to_int d = \<lfloor>dval d\<rfloor>"
proof -
  assume "0 \<le> dval d"
  then have c: "0 \<le> coeff d" by (metis dval_pos_iff dval_eq_0_iff order_le_less)
  show ?thesis
  proof (cases "0 \<le> expo d")
    case True
    then have "dval d = of_int (coeff d * 10 ^ nat (expo d))" by (simp add: dval_def ten_powi_nat)
    then show ?thesis using True by (simp add: dec_to_int_def del: of_int_mult of_int_power)
  next
    case False
    define p :: int where "p = 10 ^ nat (- expo d)"
    have "(10 :: rat) powi (expo d) = inverse (10 powi (- expo d))" by (simp add: power_int_minus)
    also have "10 powi (- expo d) = (of_int p :: rat)" using False unfolding p_def by (intro ten_powi_nat) simp
    finally have "dval d = of_int (coeff d) / of_int p" by (simp add: dval_def divide_inverse)
    then have "\<lfloor>dval d\<rfloor> = coeff d div p" by (simp only: floor_divide_of_int_eq)
    moreover have "dec_to_int d = coeff d div p"
      using False c by (cases "coeff d = 0") (simp_all add: dec_to_int_def flip: p_def)
    ultimately show ?thesis by simp
  qed
qed

lemma fits_at_least: "fits ctx v \<Longrightarrow> 0 < v \<Longrightarrow> 10 powi (etiny ctx) \<le> v"
proof -
  assume "fits ctx v" "0 < v"
  then obtain m g where v: "v = of_int m * 10 powi g" "etiny ctx \<le> g" by (auto simp: fits_def)
  then have "0 < m" using \<open>0 < v\<close> by (simp add: zero_less_mult_iff) (use ten_powi_pos [of g] in linarith)
  then have "(1 :: rat) \<le> of_int m" by simp
  then have "10 powi g \<le> v" unfolding v(1) using mult_right_mono [of 1 "of_int m" "10 powi g :: rat"] by simp
  then show ?thesis using ten_powi_mono [OF v(2)] by linarith
qed

text \<open>Rounding a multiple of a number moves it by less than the number.\<close>

lemma rounded_multiple:
  assumes r: "rounds_to ACCOUNTING_CONTEXT (u * of_int n) x" and u: "fits ACCOUNTING_CONTEXT u" "0 < u" and n: "1 \<le> n" "n \<le> 10 ^ 30"
  shows "u * of_int (n - 1) \<le> x"
proof -
  have pos: "0 < u * of_int n" using u(2) n(1) by simp
  then obtain k where k: "decade (u * of_int n) k" "x = rgrid (u * of_int n) (vgrid ACCOUNTING_CONTEXT k)"
    using r by (auto simp: rounds_to_def)
  have "\<bar>x - u * of_int n\<bar> \<le> 10 powi (vgrid ACCOUNTING_CONTEXT k) / 2" by (rule rounds_error [OF r k(1)])
  moreover have "(10 :: rat) powi (vgrid ACCOUNTING_CONTEXT k) \<le> u"
  proof (cases "k - 33 \<le> etiny ACCOUNTING_CONTEXT")
    case True
    then have "vgrid ACCOUNTING_CONTEXT k = etiny ACCOUNTING_CONTEXT" by (simp add: vgrid_def ACCOUNTING_CONTEXT_def)
    then show ?thesis using fits_at_least [OF u] by simp
  next
    case False
    then have "vgrid ACCOUNTING_CONTEXT k = k + (- 33)" by (simp add: vgrid_def ACCOUNTING_CONTEXT_def)
    then have g: "(10 :: rat) powi (vgrid ACCOUNTING_CONTEXT k) = 10 powi k * 10 powi (- 33)"
      using power_int_add [of "10 :: rat" k "- 33"] by (simp only: simp_thms) simp
    have "(10 :: rat) powi k \<le> u * of_int n" using k(1) pos by (simp add: decade_def)
    moreover have "(of_int n :: rat) \<le> of_int (10 ^ 30)" using n(2) by (simp only: of_int_le_iff)
    then have "u * of_int n \<le> u * 10 ^ 30" using u(2) by simp
    ultimately have "(10 :: rat) powi k * 10 powi (- 33) \<le> u * 10 ^ 30 * 10 powi (- 33)" by (intro mult_right_mono) simp_all
    also have "\<dots> \<le> u" using u(2) by (simp add: power_int_def field_simps)
    finally show ?thesis unfolding g .
  qed
  ultimately have "\<bar>x - u * of_int n\<bar> \<le> u" using u(2) by linarith
  then show ?thesis by (simp add: right_diff_distrib abs_le_iff)
qed

text \<open>What a cap promises for a holding of \<open>p\<close> in the cycle \<open>c\<close>.\<close>

definition caps_holding :: "take_profit_tier \<Rightarrow> take_profit_cycle \<Rightarrow> position \<Rightarrow> int \<Rightarrow> bool" where
  "caps_holding tier c p m \<longleftrightarrow> 0 \<le> m \<and> m \<le> execution_shares p \<and>
     (dval (tier_cumulative_reduction tier) = 1 \<longrightarrow> m = 0) \<and>
     (\<exists>target. position_cap tier c p = Inr (target, m) \<and> 0 \<le> dval target \<and>
       (dval (adjusted_units p) \<le> dval target \<longrightarrow> execution_shares p - 1 \<le> m))"

lemma position_cap_bounds:
  assumes cap: "position_cap tier c p = Inr (target, m)"
    and p: "1 \<le> execution_shares p" "execution_shares p \<le> 10 ^ 30" "0 < dval (adjusted_units p)"
    and c: "0 \<le> dval (cyc_baseline_units c)" "dval (tier_cumulative_reduction tier) \<le> 1"
  shows "caps_holding tier c p m"
proof -
  let ?n = "execution_shares p" and ?u = "dval (adjusted_units p)"
  obtain kept scaled shares where steps: "acc_sub (dec_of_int 1) (tier_cumulative_reduction tier) = Inr kept"
    "acc_mul (cyc_baseline_units c) kept = Inr target" "acc_mul target (dec_of_int ?n) = Inr scaled"
    "acc_div scaled (adjusted_units p) = Inr shares" "m = min ?n (dec_to_int shares)"
    using cap unfolding position_cap_def by (elim bindE_InrE) simp
  note r = dec_sub_rounds [OF ctx_ok_ACCOUNTING steps(1)] dec_mul_rounds [OF ctx_ok_ACCOUNTING steps(2)]
    dec_mul_rounds [OF ctx_ok_ACCOUNTING steps(3)] dec_div_rounds(2) [OF ctx_ok_ACCOUNTING steps(4)]
  have kept: "0 \<le> dval kept" using rounds_nonneg [OF r(1)] c(2) by simp
  have target: "0 \<le> dval target" using rounds_nonneg [OF r(2)] kept c(1) by simp
  have scaled: "0 \<le> dval scaled" using rounds_nonneg [OF r(3)] target p(1) by simp
  have shares: "0 \<le> dval shares" using rounds_nonneg [OF r(4)] scaled p(3) by simp
  have m: "m = min ?n \<lfloor>dval shares\<rfloor>" using steps(5) dec_to_int_floor [OF shares] by simp
  have zero: "dval x = 0" if "rounds_to ACCOUNTING_CONTEXT 0 (dval x)" for x
    using that decade_nonzero by (auto simp: rounds_to_def)
  have "m = 0" if "dval (tier_cumulative_reduction tier) = 1"
  proof -
    have "dval kept = 0" using zero [of kept] r(1) that by simp
    then have "dval target = 0" using zero [of target] r(2) by simp
    then have "dval scaled = 0" using zero [of scaled] r(3) by simp
    then have "dval shares = 0" using zero [of shares] r(4) by simp
    then show ?thesis using m p(1) by simp
  qed
  moreover have "?n - 1 \<le> m" if le: "?u \<le> dval target"
  proof -
    have "dval target * of_int (?n - 1) \<le> dval scaled"
      using rounded_multiple [of "dval target" ?n "dval scaled"] r(3) rounds_fits [OF ctx_ok_ACCOUNTING r(2)] le p by simp
    moreover have "?u * of_int (?n - 1) \<le> dval target * of_int (?n - 1)" using le p(1) by (intro mult_right_mono) simp_all
    ultimately have "?u * of_int (?n - 1) \<le> dval scaled" by linarith
    then have "of_int (?n - 1) \<le> dval scaled / ?u" using p(3) by (simp add: field_simps)
    moreover have "fits ACCOUNTING_CONTEXT (of_int (?n - 1))" using p(1,2) by (intro fits_int) simp
    ultimately have "of_int (?n - 1) \<le> dval shares"
      using fits_le_rounded [OF ctx_ok_ACCOUNTING r(4)] p(1) by simp
    then show ?thesis using m by (simp add: le_floor_iff)
  qed
  ultimately show ?thesis using cap target m shares p(1) by (auto simp: caps_holding_def le_floor_iff)
qed

text \<open>How the cycle of a holding follows from the one before: the baseline is kept and progress never shrinks.\<close>

definition follows :: "take_profit_tier list \<Rightarrow> cycles \<Rightarrow> string \<Rightarrow> position \<Rightarrow> take_profit_cycle \<Rightarrow> bool" where
  "follows tiers previous item p c \<longleftrightarrow>
     cyc_started_session c = holding_cycle_started_session p \<and> cyc_last_units c = canon (adjusted_units p) \<and>
     cyc_last_shares c = execution_shares p \<and> cyc_highest_tier c < length tiers \<and>
     fits ACCOUNTING_CONTEXT (dval (cyc_executed_units c)) \<and>
     (case current_cycle previous item p of
        None \<Rightarrow> cyc_baseline_units c = canon (adjusted_units p) \<and> cyc_executed_units c = dzero
      | Some c0 \<Rightarrow> cyc_baseline_units c = cyc_baseline_units c0 \<and> cyc_baseline_shares c = cyc_baseline_shares c0 \<and>
          cyc_highest_tier c0 \<le> cyc_highest_tier c \<and> dval (cyc_executed_units c0) \<le> dval (cyc_executed_units c))"

lemma reached_below: "k \<in> set (reached_tiers tiers x) \<Longrightarrow> k < length tiers"
  by (simp add: reached_tiers_def)

lemma executed_grows:
  assumes "continue_cycle sold p reached c0 = Inr c" and "fits ACCOUNTING_CONTEXT (dval (cyc_executed_units c0))" "0 \<le> dval (cyc_executed_units c0)"
  shows "dval (cyc_executed_units c0) \<le> dval (cyc_executed_units c) \<and> fits ACCOUNTING_CONTEXT (dval (cyc_executed_units c))"
proof (cases sold)
  case True
  then obtain difference executed where e: "acc_add (cyc_executed_units c0) (dmax dzero difference) = Inr executed"
    "cyc_executed_units c = canon executed"
    using assms(1) unfolding continue_cycle_def by (elim bindE_InrE) (auto elim!: bindE_InrE)
  show ?thesis
    using fits_le_rounded [OF ctx_ok_ACCOUNTING dec_add_rounds [OF ctx_ok_ACCOUNTING e(1)] assms(2,3)]
      rounds_fits [OF ctx_ok_ACCOUNTING dec_add_rounds [OF ctx_ok_ACCOUNTING e(1)]] e(2) by simp
next
  case False
  then show ?thesis using assms(1,2) by (auto simp: continue_cycle_def)
qed

definition cycle_sane :: "take_profit_cycle \<Rightarrow> bool" where
  "cycle_sane c \<longleftrightarrow> 0 \<le> dval (cyc_baseline_units c) \<and> 0 \<le> dval (cyc_executed_units c) \<and>
     fits ACCOUNTING_CONTEXT (dval (cyc_executed_units c))"

definition holding_ok :: "position \<Rightarrow> bool" where
  "holding_ok p \<longleftrightarrow> 1 \<le> execution_shares p \<and> execution_shares p \<le> 10 ^ 30 \<and> 0 < dval (adjusted_units p)"

lemma take_profit_position_step:
  assumes step: "take_profit_position tiers previous sold (item, p) (state, limits, rows) = Inr (state', limits', rows')"
    and fresh: "item \<notin> set (map fst state)" "item \<notin> set (map fst limits)" and p: "holding_ok p"
    and tiers: "\<forall>tier\<in>set tiers. dval (tier_cumulative_reduction tier) \<le> 1"
    and prev: "\<forall>c\<in>set (map snd previous). cycle_sane c \<and> cyc_highest_tier c < length tiers"
  shows "state' = state \<and> limits' = limits \<or>
    (\<exists>c m. state' = state @ [(item, c)] \<and> limits' = limits @ [(item, m)] \<and> follows tiers previous item p c \<and>
      caps_holding (tiers ! cyc_highest_tier c) c p m)"
proof -
  obtain price v holding_return where hr: "close_price p = Inr price" "acc_mul (adjusted_units p) price = Inr v"
    "holding_return_of v (remaining_acquisition_cost_cny p) = Inr holding_return"
    using step by (auto simp: take_profit_position_def elim!: bindE_InrE)
  let ?reached = "reached_tiers tiers holding_return" and ?cycle = "current_cycle previous item p"
  show ?thesis
  proof (cases "?cycle = None \<and> ?reached = []")
    case True
    then show ?thesis using step hr by (simp add: take_profit_position_def Let_def)
  next
    case False
    then obtain c tier target m row where c: "(case ?cycle of None \<Rightarrow> Inr (start_cycle p ?reached)
             | Some c \<Rightarrow> continue_cycle (map_of sold item \<noteq> None) p ?reached c) = Inr c"
      and tier: "nthE tiers (cyc_highest_tier c) = Inr tier" and cap: "position_cap tier c p = Inr (target, m)"
      and out: "state' = AList.update item c state" "limits' = AList.update item m limits"
      using step hr by (auto simp: take_profit_position_def Let_def elim!: bindE_InrE)
    have t: "cyc_highest_tier c < length tiers" "tier = tiers ! cyc_highest_tier c"
      using tier by (simp_all add: nthE_def split: if_splits)
    have "follows tiers previous item p c \<and> 0 \<le> dval (cyc_baseline_units c)"
    proof (cases ?cycle)
      case None
      then show ?thesis using c t(1) p fits_int [of 0] by (auto simp: follows_def start_cycle_def holding_ok_def)
    next
      case (Some c0)
      then have "map_of previous item = Some c0" "cyc_started_session c0 = holding_cycle_started_session p"
        by (auto simp: current_cycle_def split: option.splits if_splits)
      then have "c0 \<in> set (map snd previous)" by (force dest: map_of_SomeD)
      then have sane: "cycle_sane c0" using prev by blast
      have cont: "continue_cycle (map_of sold item \<noteq> None) p ?reached c0 = Inr c" using c Some by simp
      have "dval (cyc_executed_units c0) \<le> dval (cyc_executed_units c) \<and> fits ACCOUNTING_CONTEXT (dval (cyc_executed_units c))"
        using executed_grows [OF cont] sane by (simp add: cycle_sane_def)
      then show ?thesis
        using cont Some t(1) sane \<open>cyc_started_session c0 = _\<close>
        by (auto simp: follows_def continue_cycle_def cycle_sane_def elim!: bindE_InrE split: if_splits)
    qed
    moreover from this have "caps_holding tier c p m"
      using position_cap_bounds [OF cap] p tiers t by (auto simp: holding_ok_def)
    ultimately show ?thesis using out fresh t(2) by (auto simp: update_fresh)
  qed
qed

lemma take_profit_loop:
  assumes "foldE (take_profit_position tiers previous sold) held (state, limits, rows) = Inr (state', limits', rows')"
    and "distinct (map fst held)" "set (map fst held) \<inter> set (map fst state) = {}" "map fst limits = map fst state"
    and "\<forall>(item, p)\<in>set held. holding_ok p"
    and tiers: "\<forall>tier\<in>set tiers. dval (tier_cumulative_reduction tier) \<le> 1"
    and prev: "\<forall>c\<in>set (map snd previous). cycle_sane c \<and> cyc_highest_tier c < length tiers"
  shows "\<exists>new. state' = state @ map (\<lambda>(i, p, c, m). (i, c)) new \<and> limits' = limits @ map (\<lambda>(i, p, c, m). (i, m)) new \<and>
    distinct (map fst new) \<and> (\<forall>(i, p, c, m)\<in>set new. (i, p) \<in> set held \<and> follows tiers previous i p c \<and>
      caps_holding (tiers ! cyc_highest_tier c) c p m)"
  using assms(1-5)
proof (induction held arbitrary: state limits rows)
  case Nil
  then show ?case by simp
next
  case (Cons x held)
  obtain item p where x: "x = (item, p)" by (cases x)
  obtain s where first: "take_profit_position tiers previous sold (item, p) (state, limits, rows) = Inr s"
    and rest: "foldE (take_profit_position tiers previous sold) held s = Inr (state', limits', rows')"
    using Cons.prems(1) by (auto simp: x)
  obtain state1 limits1 rows1 where s: "s = (state1, limits1, rows1)" by (cases s)
  have fresh: "item \<notin> set (map fst state)" "item \<notin> set (map fst limits)" "holding_ok p"
    using Cons.prems(3-5) by (auto simp: x)
  have held: "distinct (map fst held)" "item \<notin> set (map fst held)" "\<forall>(item, p)\<in>set held. holding_ok p"
    "set (map fst held) \<inter> set (map fst state) = {}"
    using Cons.prems(2,3,5) by (auto simp: x)
  consider "state1 = state" "limits1 = limits"
    | c m where "state1 = state @ [(item, c)]" "limits1 = limits @ [(item, m)]" "follows tiers previous item p c"
      "caps_holding (tiers ! cyc_highest_tier c) c p m"
    using take_profit_position_step [OF first [unfolded s] fresh tiers prev] by blast
  then show ?case
  proof cases
    case 1
    then obtain new where "state' = state @ map (\<lambda>(i, p, c, m). (i, c)) new" "limits' = limits @ map (\<lambda>(i, p, c, m). (i, m)) new"
      "distinct (map fst new)" "\<forall>(i, p, c, m)\<in>set new. (i, p) \<in> set held \<and> follows tiers previous i p c \<and>
        caps_holding (tiers ! cyc_highest_tier c) c p m"
      using Cons.IH [OF rest [unfolded s] held(1)] held Cons.prems(4) by auto
    then show ?thesis by (intro exI [of _ new]) auto
  next
    case 2
    then have "set (map fst held) \<inter> set (map fst state1) = {}" "map fst limits1 = map fst state1"
      using held Cons.prems(4) by auto
    then obtain new where new: "state' = state1 @ map (\<lambda>(i, p, c, m). (i, c)) new" "limits' = limits1 @ map (\<lambda>(i, p, c, m). (i, m)) new"
      "distinct (map fst new)" "\<forall>(i, p, c, m)\<in>set new. (i, p) \<in> set held \<and> follows tiers previous i p c \<and>
        caps_holding (tiers ! cyc_highest_tier c) c p m"
      using Cons.IH [OF rest [unfolded s] held(1)] held(3) by blast
    moreover from new(4) have "item \<notin> set (map fst new)" using held(2) by force
    ultimately show ?thesis
      using 2 by (intro exI [of _ "(item, p, c, m) # new"]) (auto simp: x)
  qed
qed

lemma validated_cycles: "validate_cycles previous = Inr () \<Longrightarrow> c \<in> set (map snd previous) \<Longrightarrow>
    0 \<le> dval (cyc_baseline_units c) \<and> 0 \<le> dval (cyc_executed_units c)"
proof -
  assume v: "validate_cycles previous = Inr ()" and c: "c \<in> set (map snd previous)"
  have "validate_cycle c = Inr ()" if "foldE (\<lambda>c _. validate_cycle (snd c)) previous () = Inr ()" "c \<in> set (map snd previous)" for previous
    using that by (induction previous) auto
  then have "validate_cycle c = Inr ()" using v c by (auto simp: validate_cycles_def elim!: bindE_InrE)
  then show ?thesis by (auto simp: validate_cycle_def canonical_units_def dle_val elim!: bindE_InrE)
qed

lemma take_profit_capped:
  assumes "take_profit_decision tiers ps previous executions = Inr (state, limits, rows)" and "distinct (map fst ps)"
    and "\<forall>(item, p)\<in>set ps. holding_ok p" and "\<forall>tier\<in>set tiers. dval (tier_cumulative_reduction tier) \<le> 1"
    and "\<forall>c\<in>set (map snd previous). fits ACCOUNTING_CONTEXT (dval (cyc_executed_units c))"
  shows "map fst limits = map fst state \<and> distinct (map fst limits) \<and>
    (\<forall>(item, m)\<in>set limits. \<exists>p c. map_of ps item = Some p \<and> map_of state item = Some c \<and>
      follows tiers previous item p c \<and> caps_holding (tiers ! cyc_highest_tier c) c p m)"
proof -
  have v: "validate_cycles previous = Inr ()" "\<forall>c\<in>set (map snd previous). cyc_highest_tier c < length tiers"
    using assms(1) by (auto simp: take_profit_decision_def not_le elim!: bindE_InrE) fastforce
  obtain seen where loop: "foldE (take_profit_position tiers previous (sold_quantities executions)) ps ([], [], []) = Inr (state, limits, seen)"
    using assms(1) by (auto simp: take_profit_decision_def Let_def elim!: bindE_InrE)
  have sane: "\<forall>c\<in>set (map snd previous). cycle_sane c \<and> cyc_highest_tier c < length tiers"
    using v validated_cycles [OF v(1)] assms(5) by (simp add: cycle_sane_def)
  obtain new where new: "state = map (\<lambda>(i, p, c, m). (i, c)) new" "limits = map (\<lambda>(i, p, c, m). (i, m)) new"
    "distinct (map fst new)" "\<forall>(i, p, c, m)\<in>set new. (i, p) \<in> set ps \<and> follows tiers previous i p c \<and>
      caps_holding (tiers ! cyc_highest_tier c) c p m"
    using take_profit_loop [OF loop assms(2) _ _ assms(3,4) sane] by auto
  have keys: "map fst state = map fst new" "map fst limits = map fst new" unfolding new(1,2) by (induction new) auto
  have "\<exists>p c. map_of ps item = Some p \<and> map_of state item = Some c \<and> follows tiers previous item p c \<and>
      caps_holding (tiers ! cyc_highest_tier c) c p m" if "(item, m) \<in> set limits" for item m
  proof -
    obtain p c where r: "(item, p, c, m) \<in> set new" using \<open>(item, m) \<in> set limits\<close> new(2) by auto
    then have "(item, c) \<in> set state" unfolding new(1) by force
    then have "map_of state item = Some c" using keys(1) new(3) by (intro map_of_is_SomeI) simp_all
    moreover have "map_of ps item = Some p" using new(4) r assms(2) by (intro map_of_is_SomeI) auto
    ultimately show ?thesis using new(4) r by auto
  qed
  then show ?thesis using keys new(3) by auto
qed

text \<open>
  C33: What the take-profit policy caps. For every holding it limits, the limit lies between zero and the
  shares held; a tier that takes all leaves none; a holding whose units already are within the target
  gives up one share at most. The cycle it records ends at the holding as it is, keeps the baseline of a
  running cycle, never lowers its tier or the reduction already executed, and starts from the holding
  with nothing executed otherwise. No other instrument is limited or recorded.
\<close>

theorem take_profit_caps:
  assumes "take_profit_decision tiers ps previous executions = Inr (state, limits, rows)" and "distinct (map fst ps)"
    and "\<forall>(item, p)\<in>set ps. holding_ok p" and "\<forall>tier\<in>set tiers. dval (tier_cumulative_reduction tier) \<le> 1"
    and "\<forall>c\<in>set (map snd previous). fits ACCOUNTING_CONTEXT (dval (cyc_executed_units c))"
  shows "map fst limits = map fst state \<and> distinct (map fst limits) \<and>
    (\<forall>(item, m)\<in>set limits. \<exists>p c. map_of ps item = Some p \<and> map_of state item = Some c \<and>
      follows tiers previous item p c \<and> caps_holding (tiers ! cyc_highest_tier c) c p m)"
  using assms by (rule take_profit_capped)

text \<open>Half of a holding bought at 10 is due at a gain of one tenth; three quarters of it are left.\<close>

definition sample_tiers :: "take_profit_tier list" where
  "sample_tiers = [\<lparr>tier_profit_threshold = Dec 1 (- 1), tier_cumulative_reduction = Dec 5 (- 1)\<rparr>,
     \<lparr>tier_profit_threshold = Dec 5 (- 1), tier_cumulative_reduction = Dec 1 0\<rparr>]"

definition sample_holding :: position where
  "sample_holding = \<lparr>execution_shares = 300, adjusted_units = Dec 6 2, last_adjusted_price = Dec 5 0,
     remaining_acquisition_cost_cny = Dec 3 3, holding_cycle_started_session = ''2024-01-02'', holding_age = 4,
     last_close_adjusted_price = Some (Dec 55 (- 1))\<rparr>"

definition sample_cycle :: take_profit_cycle where
  "sample_cycle = \<lparr>cyc_started_session = ''2024-01-02'', cyc_baseline_units = Dec 8 2, cyc_baseline_shares = 400,
     cyc_highest_tier = 0, cyc_executed_units = Dec 0 0, cyc_last_units = Dec 8 2, cyc_last_shares = 400\<rparr>"

lemma sample_take_profit:
  "take_profit_decision sample_tiers [(''A'', sample_holding)] [(''A'', sample_cycle)] []
     = Inr (projr (take_profit_decision sample_tiers [(''A'', sample_holding)] [(''A'', sample_cycle)] []))"
proof -
  have "\<not> isl (take_profit_decision sample_tiers [(''A'', sample_holding)] [(''A'', sample_cycle)] [])" by code_simp
  then show ?thesis by (simp add: sum.collapse(2))
qed

lemma take_profit_caps_witness:
  "\<exists>state limits rows. take_profit_decision sample_tiers [(''A'', sample_holding)] [(''A'', sample_cycle)] [] = Inr (state, limits, rows) \<and>
     limits = [(''A'', 200)] \<and> 200 \<le> execution_shares sample_holding"
proof -
  let ?run = "take_profit_decision sample_tiers [(''A'', sample_holding)] [(''A'', sample_cycle)] []"
  obtain state limits rows where r: "projr ?run = (state, limits, rows)" by (cases "projr ?run") auto
  have run: "?run = Inr (state, limits, rows)" using sample_take_profit unfolding r .
  have "(case ?run of Inl e \<Rightarrow> [] | Inr (state, limits, rows) \<Rightarrow> limits) = [(''A'', 200)]" by code_simp
  then have limits: "limits = [(''A'', 200)]" by (simp add: run)
  have "fits ACCOUNTING_CONTEXT (dval (cyc_executed_units sample_cycle))" using fits_int [of 0] by (simp add: sample_cycle_def)
  moreover have "holding_ok sample_holding" by (simp add: holding_ok_def sample_holding_def)
  moreover have "\<forall>tier\<in>set sample_tiers. dval (tier_cumulative_reduction tier) \<le> 1"
    by (simp add: sample_tiers_def power_int_minus)
  ultimately obtain p c where "map_of [(''A'', sample_holding)] ''A'' = Some p" "caps_holding (sample_tiers ! cyc_highest_tier c) c p 200"
    using take_profit_caps [OF run] limits by fastforce
  then have "200 \<le> execution_shares sample_holding" by (simp add: caps_holding_def)
  then show ?thesis using run limits by blast
qed


end
