(* ===== verification/Framework.thy ===== *)
theory Framework
  imports Session Weights
begin

text \<open>
  The form-authored framework: \<open>research_kernel/builtin_framework.py\<close> (\<open>BuiltinFramework.decide\<close>,
  \<open>PreparedBuiltinPortfolio.decide\<close>) and \<open>_BuiltinDailyStrategy.decide\<close> of \<open>daily_strategy.py\<close>.

  An exposure is a float that is only compared and turned into \<open>Decimal(str(x))\<close>: it is the decimal of
  its shortest text. The volatility of a window and the SHA-256 of the selected rows are parameters, the
  latter an injective name for the rows. The account of a decision is the list of its positions.
\<close>

section \<open>The periodic policy\<close>

record builtin_framework =
  bf_holdings_count :: int
  bf_selection_interval :: int
  bf_weighting :: string
  bf_volatility_window :: int
  bf_contract_checksum :: string
  bf_minimum_holding_sessions :: "int option"

record framework_decision =
  fd_state :: builtin_state
  fd_target :: "pending_target option"
  fd_diagnostics :: "diagnostic list"

definition validate_builtin_framework :: "builtin_framework \<Rightarrow> py_error + unit" where
  "validate_builtin_framework f =
     raiseIf (\<not> (1 \<le> bf_holdings_count f \<and> bf_holdings_count f \<le> 100) \<or>
              \<not> (1 \<le> bf_selection_interval f \<and> bf_selection_interval f \<le> 20))
       (ValueError ''invalid Strategy breadth or schedule'')"

definition require_exposure :: "pydec option \<Rightarrow> string \<Rightarrow> py_error + dec" where
  "require_exposure v session =
     (case v of
        Some (Finite d) \<Rightarrow> if dle dzero d \<and> dle d (dec_of_int 1) then Inr d
                           else Inl (ValueError (''Exposure must be finite and between zero and one on '' @ session))
      | _ \<Rightarrow> Inl (ValueError (''Exposure must be finite and between zero and one on '' @ session)))"

definition retained_holdings :: "builtin_framework \<Rightarrow> positions \<Rightarrow> string list" where
  "retained_holdings f ps =
     (case bf_minimum_holding_sessions f of None \<Rightarrow> []
      | Some n \<Rightarrow> sort (map fst (filter (\<lambda>(i, p). holding_age p < n) ps)))"

text \<open>\<open>dict(Counter(reasons))\<close>\<close>

definition counter_of :: "string list \<Rightarrow> (string \<times> int) list" where
  "counter_of reasons =
     foldl (\<lambda>d r. AList.update r ((case map_of d r of None \<Rightarrow> 0 | Some n \<Rightarrow> n) + 1) d) [] reasons"

definition update_selection :: "(dec list \<Rightarrow> py_error + dec) \<Rightarrow> (string \<Rightarrow> candidate list \<Rightarrow> string) \<Rightarrow> builtin_framework
    \<Rightarrow> string \<Rightarrow> candidate list \<Rightarrow> (string \<times> pydec list) list \<Rightarrow> string list \<Rightarrow> py_error + target_selection \<times> diagnostic list" where
  "update_selection volatility digest f session alpha_values close_windows retained =
     (let eligible = filter (\<lambda>c. cand_instrument_id c \<notin> set retained) alpha_values;
          capacity = max 0 (bf_holdings_count f - int (length retained))
      in bindE (if bf_weighting f = ''inverse_volatility''
                then inverse_volatility_selection volatility eligible capacity close_windows (bf_volatility_window f)
                else bindE (select_portfolio eligible capacity (bf_weighting f)) (\<lambda>(selected, weights). Inr (selected, weights, [])))
           (\<lambda>(selected, weights, exclusions).
         let selection = \<lparr>sel_signal_session = session, sel_instrument_ids = map cand_instrument_id selected,
               sel_relative_weights = weights, sel_exclusions = counter_of (map snd exclusions),
               sel_signal_checksum = digest session selected, sel_contract_checksum = bf_contract_checksum f\<rparr>
         in bindE (validate_selection selection) (\<lambda>_.
            Inr (selection, map (\<lambda>(i, reason). Ineligible i reason) exclusions))))"

definition allocation_weights :: "target_selection \<Rightarrow> string list \<Rightarrow> py_error + weights" where
  "allocation_weights selection retained =
     (let available = map (\<lambda>(i, w). (i, fraction_of_text w)) (filter (\<lambda>(i, w). i \<notin> set retained) (sel_relative_weights selection));
          total_weight = sum_list (map snd available)
      in bindE (raiseIf (available \<noteq> [] \<and> total_weight = 0) ZeroDivisionError) (\<lambda>_.
         Inr (map (\<lambda>(i, w). (i, str_fraction (w / total_weight))) available)))"

definition builtin_target :: "builtin_framework \<Rightarrow> string \<Rightarrow> bool \<Rightarrow> string \<Rightarrow> target_selection \<Rightarrow> string list \<Rightarrow> dec
    \<Rightarrow> py_error + pending_target" where
  "builtin_target f session selection_updated reason selection retained exposure =
     bindE (allocation_weights selection retained) (\<lambda>weights.
     let target = \<lparr>pt_decision_session = session, pt_execution = ''next_research_session_open'',
           pt_contract_checksum = bf_contract_checksum f, pt_reason = reason,
           pt_allocation = Some \<lparr>alloc_mode = (if selection_updated then ''rebalance'' else reason),
             alloc_instrument_ids = filter (\<lambda>i. i \<notin> set retained) (sel_instrument_ids selection),
             alloc_relative_weights = weights, alloc_exposure = Finite exposure, alloc_retained = retained\<rparr>,
           pt_position_limits = [], pt_maximum_stock_exposure = None\<rparr>
     in bindE (validate_pending_target target) (\<lambda>_. Inr target))"

text \<open>Which target a decision needs: after a selection, or when the exposure has changed.\<close>

definition target_reason :: "bool \<Rightarrow> dec \<Rightarrow> builtin_state option \<Rightarrow> string option" where
  "target_reason selection_updated exposure previous =
     (if selection_updated then Some ''selection''
      else case previous of None \<Rightarrow> None
        | Some s \<Rightarrow> (case bs_exposure s of Finite before \<Rightarrow>
            if deq exposure before then None else Some (if dlt exposure before then ''reduce'' else ''increase'')
          | _ \<Rightarrow> Some ''increase''))"

definition builtin_decide :: "(dec list \<Rightarrow> py_error + dec) \<Rightarrow> (string \<Rightarrow> candidate list \<Rightarrow> string) \<Rightarrow> builtin_framework
    \<Rightarrow> string \<Rightarrow> int \<Rightarrow> candidate list \<Rightarrow> (string \<times> pydec list) list \<Rightarrow> pydec option \<Rightarrow> builtin_state option
    \<Rightarrow> positions \<Rightarrow> py_error + framework_decision" where
  "builtin_decide volatility digest f session report_index alpha_values close_windows exposure_value previous ps =
     bindE (require_exposure exposure_value session) (\<lambda>exposure.
     let selection_updated = report_index mod bf_selection_interval f = 0;
         retained = retained_holdings f ps
     in bindE (if selection_updated
               then bindE (update_selection volatility digest f session alpha_values close_windows retained) (\<lambda>(s, d). Inr (Some s, d))
               else Inr (map_option bs_selection previous, [])) (\<lambda>(selection, diagnostics).
        case selection of
          None \<Rightarrow> Inl (ValueError ''Framework decision has no retained Selection'')
        | Some selection \<Rightarrow>
            bindE (case target_reason selection_updated exposure previous of
                     None \<Rightarrow> Inr None
                   | Some reason \<Rightarrow> bindE (builtin_target f session selection_updated reason selection retained exposure) (\<lambda>t. Inr (Some t)))
              (\<lambda>target.
            let state = \<lparr>bs_selection = selection, bs_exposure = Finite exposure\<rparr>
            in bindE (validate_builtin_state state) (\<lambda>_.
               Inr \<lparr>fd_state = state, fd_target = target, fd_diagnostics = diagnostics\<rparr>))))"

section \<open>The prepared portfolio\<close>

text \<open>The series a strategy reads: the sessions, the exposure of each, the Close history of each instrument if weights need it.\<close>

record prepared_portfolio =
  pp_policy :: builtin_framework
  pp_sessions :: "string list"
  pp_exposures :: "(string \<times> pydec option) list"
  pp_closes :: "(string \<times> pydec list) list option"

definition close_window :: "int \<Rightarrow> int \<Rightarrow> pydec list \<Rightarrow> pydec list" where
  "close_window window_end window closes =
     (let start = max 0 (window_end - window - 1) in drop (nat start) (take (nat window_end) closes))"

definition close_windows_of :: "prepared_portfolio \<Rightarrow> int \<Rightarrow> candidate list \<Rightarrow> py_error + (string \<times> pydec list) list" where
  "close_windows_of p window_end alpha_values =
     (case pp_closes p of None \<Rightarrow> Inr []
      | Some closes \<Rightarrow>
          foldE (\<lambda>c windows.
            bindE (lookupE closes (cand_instrument_id c) (KeyError (cand_instrument_id c))) (\<lambda>history.
            Inr (AList.update (cand_instrument_id c) (close_window window_end (bf_volatility_window (pp_policy p)) history) windows)))
            alpha_values [])"

definition restore_portfolio :: "prepared_portfolio \<Rightarrow> string \<Rightarrow> builtin_state option \<Rightarrow> py_error + builtin_state option" where
  "restore_portfolio p session previous =
     (case previous of None \<Rightarrow> Inr None
      | Some s \<Rightarrow>
          bindE (validate_selection (bs_selection s)) (\<lambda>_.
          bindE (raiseIf (sel_contract_checksum (bs_selection s) \<noteq> bf_contract_checksum (pp_policy p))
                   (ValueError ''Retained Selection differs from Strategy contract'')) (\<lambda>_.
          bindE (require_exposure (Some (bs_exposure s)) session) (\<lambda>exposure.
          Inr (Some (s\<lparr>bs_exposure := Finite exposure\<rparr>))))))"

definition prepared_decide :: "(dec list \<Rightarrow> py_error + dec) \<Rightarrow> (string \<Rightarrow> candidate list \<Rightarrow> string) \<Rightarrow> prepared_portfolio
    \<Rightarrow> string \<Rightarrow> int \<Rightarrow> candidate list \<Rightarrow> builtin_state option \<Rightarrow> positions \<Rightarrow> py_error + framework_decision" where
  "prepared_decide volatility digest p session report_index alpha_values previous ps =
     bindE (restore_portfolio p session previous) (\<lambda>state.
     bindE (index_of (pp_sessions p) session) (\<lambda>position.
     bindE (close_windows_of p (position + 1) alpha_values) (\<lambda>close_windows.
     bindE (lookupE (pp_exposures p) session (KeyError session)) (\<lambda>exposure_value.
     builtin_decide volatility digest (pp_policy p) session report_index alpha_values close_windows exposure_value state ps))))"

section \<open>The strategy of the builtin modules\<close>

record builtin_evidence =
  be_universe :: "string list"
  be_values :: "candidate list"
  be_proposal :: "pending_target option"

record builtin_strategy =
  bst_portfolio :: prepared_portfolio
  bst_alpha :: "(string \<times> candidate list) list"
  bst_universe :: "(string \<times> string list) list"

text \<open>
  The state of the mode is the retained selection, its exposure and the interval it was made with; the
  account is not read, so no holding is retained by age.
\<close>

definition builtin_strategy_decide :: "(dec list \<Rightarrow> py_error + dec) \<Rightarrow> (string \<Rightarrow> candidate list \<Rightarrow> string) \<Rightarrow> builtin_strategy
    \<Rightarrow> string \<Rightarrow> int \<Rightarrow> account_view \<Rightarrow> fill_row list \<Rightarrow> rejection_row list \<Rightarrow> (builtin_state \<times> int) option
    \<Rightarrow> py_error + (builtin_state \<times> int, builtin_evidence) daily_decision" where
  "builtin_strategy_decide volatility digest strategy session report_index account executions refusals previous =
     (let interval = bf_selection_interval (pp_policy (bst_portfolio strategy)) in
      bindE (raiseIf (case previous of None \<Rightarrow> False | Some (s, n) \<Rightarrow> n \<noteq> interval)
               (ValueError ''Framework state does not match the active mode'')) (\<lambda>_.
      bindE (lookupE (bst_alpha strategy) session (KeyError session)) (\<lambda>alpha_values.
      bindE (prepared_decide volatility digest (bst_portfolio strategy) session report_index alpha_values (map_option fst previous) [])
        (\<lambda>d.
      bindE (lookupE (bst_universe strategy) session (KeyError session)) (\<lambda>universe.
      Inr \<lparr>dec_state = (fd_state d, interval), dec_target = fd_target d, dec_diagnostics = fd_diagnostics d,
           dec_framework = Some \<lparr>be_universe = universe, be_values = alpha_values, be_proposal = fd_target d\<rparr>\<rparr>)))))"

section \<open>Weights of what is left\<close>

lemma ratio_sum: "\<forall>x\<in>set items. ratio_over b (snd x) \<Longrightarrow> \<exists>a. sum_list (map snd items) = (of_int a / of_int b :: rat)"
proof (induction items)
  case Nil
  then show ?case by (intro exI [of _ 0]) simp
next
  case (Cons x items)
  then obtain a c where "sum_list (map snd items) = of_int a / of_int b" "snd x = of_int c / of_int b"
    by (auto simp: ratio_over_def)
  then show ?case by (intro exI [of _ "c + a"]) (simp add: add_divide_distrib)
qed

lemma ratio_positive: "0 < b \<Longrightarrow> ratio_over b r \<Longrightarrow> 0 < r"
  by (auto simp: ratio_over_def)

lemma positive_sum: "\<forall>x\<in>set xs. 0 < x \<Longrightarrow> 0 \<le> sum_list xs \<and> (\<forall>x\<in>set xs. x \<le> sum_list xs)" for xs :: "rat list"
  by (induction xs) fastforce+

lemma filtered_sum: "\<forall>x\<in>set xs. 0 < snd x \<Longrightarrow> sum_list (map snd (filter P xs)) \<le> sum_list (map snd xs)" for xs :: "('a \<times> rat) list"
  by (induction xs) (auto intro: add_increasing add_mono)

text \<open>Dividing the ratios that are left by their sum keeps a small common denominator.\<close>

lemma rescaled_ratios:
  assumes b: "0 < b" "b < 2 ^ 30" and over: "\<forall>x\<in>set items. ratio_over b (snd x)" and one: "sum_list (map snd items) = 1"
    and left: "left = filter P items" "left \<noteq> []"
  obtains a where "0 < a" "a < 2 ^ 30" "\<forall>x\<in>set left. ratio_over a (snd x / sum_list (map snd left))" "0 < sum_list (map snd left)"
proof -
  have over': "\<forall>x\<in>set left. ratio_over b (snd x)" using over left(1) by simp
  obtain a where a: "sum_list (map snd left) = (of_int a / of_int b :: rat)" using ratio_sum [OF over'] by blast
  have pos: "\<forall>x\<in>set items. 0 < snd x" using over ratio_positive [OF b(1)] by blast
  then have "\<forall>x\<in>set (map snd left). 0 < x" using left(1) by auto
  note sums = positive_sum [OF this]
  obtain y where y: "y \<in> set left" using left(2) by (cases left) auto
  then have "0 < snd y" "snd y \<in> set (map snd left)" using pos left(1) by auto
  then have "0 < snd y" "snd y \<le> sum_list (map snd left)" using sums by blast+
  then have total: "0 < sum_list (map snd left)" by linarith
  then have "0 < a" using a b(1) by (simp add: zero_less_divide_iff)
  moreover have "sum_list (map snd left) \<le> 1" using filtered_sum [OF pos, of P] one left(1) by simp
  then have "(of_int a :: rat) \<le> of_int b" using a b(1) by (simp add: divide_le_eq)
  then have "a \<le> b" by simp
  then have "a < 2 ^ 30" using b(2) by linarith
  moreover have "ratio_over a (snd x / sum_list (map snd left))" if "x \<in> set left" for x
  proof -
    have "ratio_over b (snd x)" using over' that by blast
    then obtain c where c: "snd x = of_int c / of_int b" "0 < c" by (auto simp: ratio_over_def)
    have "snd x \<le> sum_list (map snd left)" using sums that by simp
    then have "(of_int c :: rat) \<le> of_int a" using c(1) a b(1) by (simp add: divide_le_cancel)
    then have "c \<le> a" by simp
    moreover have "snd x / sum_list (map snd left) = of_int c / of_int a" using c(1) a b(1) by simp
    ultimately show ?thesis using c(2) by (auto simp: ratio_over_def)
  qed
  ultimately show thesis using total by (intro that ballI) assumption+
qed

text \<open>A selection whose weights are ratios over a small common denominator.\<close>

definition small_selection :: "target_selection \<Rightarrow> bool" where
  "small_selection s \<longleftrightarrow> (\<exists>b items. 0 < b \<and> b < 2 ^ 30 \<and> distinct (map fst items) \<and>
     sel_instrument_ids s = map fst items \<and> sel_relative_weights s = map (\<lambda>(i, x). (i, str_fraction x)) items \<and>
     (\<forall>x\<in>set items. ratio_over b (snd x)) \<and> (items \<noteq> [] \<longrightarrow> sum_list (map snd items) = 1) \<and>
     (\<forall>n\<in>set (map snd (sel_exclusions s)). 0 < n))"

lemma small_selection_valid: "small_selection s \<Longrightarrow> validate_selection s = Inr ()"
proof -
  assume "small_selection s"
  then obtain b items where s: "0 < b" "b < 2 ^ 30" "distinct (map fst items)"
     "sel_instrument_ids s = map fst items" "sel_relative_weights s = map (\<lambda>(i, x). (i, str_fraction x)) items"
     "\<forall>x\<in>set items. ratio_over b (snd x)" "items \<noteq> [] \<longrightarrow> sum_list (map snd items) = 1"
     "\<forall>n\<in>set (map snd (sel_exclusions s)). 0 < n"
    by (auto simp: small_selection_def)
  have "validate_target_weights (map fst items) (map (\<lambda>(i, x). (i, str_fraction x)) items) = Inr ()"
    using accepted_weights [OF s(1,2,6,3)] s(7) by blast
  then show ?thesis using s(8) by (auto simp: validate_selection_def s(4,5) raiseIf_def)
qed

lemma allocation_weights_valid:
  assumes "small_selection s"
  shows "\<exists>w. allocation_weights s retained = Inr w \<and>
    validate_target_weights (filter (\<lambda>i. i \<notin> set retained) (sel_instrument_ids s)) w = Inr ()"
proof -
  obtain b items where s: "0 < b" "b < 2 ^ 30" "distinct (map fst items)"
     "sel_instrument_ids s = map fst items" "sel_relative_weights s = map (\<lambda>(i, x). (i, str_fraction x)) items"
     "\<forall>x\<in>set items. ratio_over b (snd x)" "items \<noteq> [] \<longrightarrow> sum_list (map snd items) = 1"
    using assms by (auto simp: small_selection_def)
  define left where "left = filter (\<lambda>(i, x). i \<notin> set retained) items"
  have texts: "filter (\<lambda>(i, w). i \<notin> set retained) (map (\<lambda>(i, x). (i, str_fraction x)) items) = map (\<lambda>(i, x). (i, str_fraction x)) left"
    unfolding left_def by (induction items) auto
  have read: "map (\<lambda>(i, w). (i, fraction_of_text w)) (map (\<lambda>(i, x). (i, str_fraction x)) left) = left"
    using s(6) ratio_over_text(2) [OF s(1,2)] unfolding left_def by (induction items) auto
  have ids: "filter (\<lambda>i. i \<notin> set retained) (map fst items) = map fst left" unfolding left_def by (induction items) auto
  have distinct: "distinct (map fst left)" using s(3) unfolding ids [symmetric] by simp
  show ?thesis
  proof (cases "left = []")
    case True
    have "validate_target_weights [] [] = Inr ()" by (simp add: validate_target_weights_def)
    then show ?thesis unfolding allocation_weights_def s(4,5) texts read ids Let_def True by simp
  next
    case False
    then have one: "sum_list (map snd items) = 1" using s(7) by (auto simp: left_def)
    obtain a where a: "0 < a" "a < 2 ^ 30" "\<forall>x\<in>set left. ratio_over a (snd x / sum_list (map snd left))"
      "0 < sum_list (map snd left)"
      by (rule rescaled_ratios [OF s(1,2,6) one left_def False])
    let ?scaled = "map (\<lambda>(i, x). (i, x / sum_list (map snd left))) left"
    have keys: "map fst ?scaled = map fst left" by (simp add: case_prod_beta comp_def)
    have "sum_list (map snd (map (\<lambda>(i, x). (i, x / t)) xs)) = sum_list (map snd xs) / t" for t :: rat and xs :: "(string \<times> rat) list"
      by (induction xs) (auto simp: add_divide_distrib)
    then have "sum_list (map snd ?scaled) = 1" using a(4) by simp
    then have "validate_target_weights (map fst left) (map (\<lambda>(i, x). (i, str_fraction x)) ?scaled) = Inr ()"
      using accepted_weights [OF a(1,2), of ?scaled] a(3) distinct unfolding keys by fastforce
    moreover have texts': "map (\<lambda>(i, x). (i, str_fraction x)) ?scaled = map (\<lambda>(i, w). (i, str_fraction (w / sum_list (map snd left)))) left"
      by (simp add: case_prod_beta comp_def)
    ultimately have "validate_target_weights (map fst left) (map (\<lambda>(i, w). (i, str_fraction (w / sum_list (map snd left)))) left) = Inr ()"
      by (simp only: texts')
    then show ?thesis
      unfolding allocation_weights_def s(4,5) texts read ids Let_def using a(4) by simp
  qed
qed

section \<open>The decision\<close>

lemma selected_small:
  assumes r: "select_portfolio candidates n weighting = Inr (selected, weights)"
    and d: "distinct (map cand_instrument_id candidates)" "n \<le> 100"
  shows "small_selection \<lparr>sel_signal_session = session, sel_instrument_ids = map cand_instrument_id selected,
      sel_relative_weights = weights, sel_exclusions = [], sel_signal_checksum = ck, sel_contract_checksum = cc\<rparr>"
proof (rule select_portfolio_result [OF assms])
  fix b :: int and items :: "(string \<times> rat) list"
  assume i: "0 < b" "b < 2 ^ 30" "map fst items = map cand_instrument_id selected"
    "weights = map (\<lambda>(i, x). (i, str_fraction x)) items" "\<forall>x\<in>set items. ratio_over b (snd x)"
    "items \<noteq> [] \<Longrightarrow> sum_list (map snd items) = 1"
  have "selected = take (nat n) (sorted_candidates candidates)"
    using r by (auto simp: select_portfolio_def Let_def split: if_splits)
  then have "distinct (map fst items)" unfolding i(3) using sorted_ids_distinct [OF d(1)] by simp
  then show ?thesis unfolding small_selection_def using i by (intro exI [of _ b] exI [of _ items]) auto
qed

lemma select_portfolio_returns:
  "weighting = ''equal_weight'' \<or> weighting = ''rank_weight'' \<Longrightarrow> \<exists>selected weights. select_portfolio cs n weighting = Inr (selected, weights)"
  by (auto simp: select_portfolio_def Let_def)

text \<open>What a checkpoint of the policy keeps, so that the next decision can use it.\<close>

definition reusable :: "builtin_framework \<Rightarrow> builtin_state \<Rightarrow> bool" where
  "reusable f s \<longleftrightarrow> small_selection (bs_selection s) \<and> unit_interval (bs_exposure s) \<and>
     sel_contract_checksum (bs_selection s) = bf_contract_checksum f"

lemma builtin_target_returns:
  assumes s: "small_selection selection" and e: "unit_interval (Finite exposure)"
    and reason: "reason = ''selection'' \<and> selection_updated \<or> reason = ''reduce'' \<or> reason = ''increase''"
    and d: "distinct retained"
  shows "\<exists>t a. builtin_target f session selection_updated reason selection retained exposure = Inr t \<and>
    validate_pending_target t = Inr () \<and> pt_allocation t = Some a \<and> alloc_exposure a = Finite exposure \<and>
    alloc_retained a = retained \<and> alloc_instrument_ids a = filter (\<lambda>i. i \<notin> set retained) (sel_instrument_ids selection) \<and>
    pt_position_limits t = []"
proof -
  obtain w where w: "allocation_weights selection retained = Inr w"
    "validate_target_weights (filter (\<lambda>i. i \<notin> set retained) (sel_instrument_ids selection)) w = Inr ()"
    using allocation_weights_valid [OF s] by blast
  let ?a = "\<lparr>alloc_mode = (if selection_updated then ''rebalance'' else reason),
             alloc_instrument_ids = filter (\<lambda>i. i \<notin> set retained) (sel_instrument_ids selection),
             alloc_relative_weights = w, alloc_exposure = Finite exposure, alloc_retained = retained\<rparr>"
  have "validate_allocation ?a = Inr ()"
    using w(2) e d reason by (auto simp: validate_allocation_def raiseIf_def)
  then have "validate_pending_target \<lparr>pt_decision_session = session, pt_execution = ''next_research_session_open'',
           pt_contract_checksum = bf_contract_checksum f, pt_reason = reason, pt_allocation = Some ?a,
           pt_position_limits = [], pt_maximum_stock_exposure = None\<rparr> = Inr ()"
    using reason by (auto simp: validate_pending_target_def raiseIf_def)
  then show ?thesis by (simp add: builtin_target_def w(1) Let_def)
qed

lemma target_reason_cases:
  "target_reason updated exposure previous = Some reason \<Longrightarrow> reason = ''selection'' \<and> updated \<or> reason = ''reduce'' \<or> reason = ''increase''"
  by (auto simp: target_reason_def split: if_splits option.splits pydec.splits)

lemma update_selection_returns:
  assumes "bf_weighting f = ''equal_weight'' \<or> bf_weighting f = ''rank_weight''" "bf_holdings_count f \<le> 100"
    and "distinct (map cand_instrument_id alpha_values)"
  shows "\<exists>s. update_selection volatility digest f session alpha_values close_windows retained = Inr (s, []) \<and> small_selection s \<and>
    sel_contract_checksum s = bf_contract_checksum f \<and> set (sel_instrument_ids s) \<subseteq> set (map cand_instrument_id alpha_values) - set retained"
proof -
  let ?eligible = "filter (\<lambda>c. cand_instrument_id c \<notin> set retained) alpha_values"
  let ?n = "max 0 (bf_holdings_count f - int (length retained))"
  obtain selected weights where sel: "select_portfolio ?eligible ?n (bf_weighting f) = Inr (selected, weights)"
    using select_portfolio_returns [OF assms(1)] by blast
  have small: "small_selection \<lparr>sel_signal_session = session, sel_instrument_ids = map cand_instrument_id selected,
      sel_relative_weights = weights, sel_exclusions = [], sel_signal_checksum = digest session selected,
      sel_contract_checksum = bf_contract_checksum f\<rparr>"
    by (rule selected_small [OF sel]) (use assms(2,3) in \<open>auto simp: distinct_map inj_on_def\<close>)
  have "selected = take (nat ?n) (sorted_candidates ?eligible)"
    using sel by (auto simp: select_portfolio_def Let_def split: if_splits)
  then have "set selected \<subseteq> set ?eligible" by (auto simp: sorted_candidates_def dest: in_set_takeD)
  then have "cand_instrument_id ` set selected \<subseteq> cand_instrument_id ` set alpha_values - set retained" by auto
  then show ?thesis
    using assms(1) sel small small_selection_valid [OF small] by (auto simp: update_selection_def Let_def counter_of_def)
qed

lemma builtin_decide_returns:
  assumes policy: "validate_builtin_framework f = Inr ()" "bf_weighting f = ''equal_weight'' \<or> bf_weighting f = ''rank_weight''"
    and values_ok: "distinct (map cand_instrument_id alpha_values)" and ps: "distinct (map fst ps)"
    and exposure: "exposure_value = Some (Finite exposure)" "unit_interval (Finite exposure)"
    and previous: "case previous of None \<Rightarrow> report_index mod bf_selection_interval f = 0 | Some s \<Rightarrow> reusable f s"
  shows "\<exists>d. builtin_decide volatility digest f session report_index alpha_values close_windows exposure_value previous ps = Inr d \<and>
    reusable f (fd_state d) \<and> bs_exposure (fd_state d) = Finite exposure \<and>
    (\<forall>K. set (map cand_instrument_id alpha_values) \<subseteq> K \<longrightarrow> (\<forall>s. previous = Some s \<longrightarrow> set (sel_instrument_ids (bs_selection s)) \<subseteq> K) \<longrightarrow>
      set (sel_instrument_ids (bs_selection (fd_state d))) \<subseteq> K) \<and>
    (fd_target d = None \<longleftrightarrow> target_reason (report_index mod bf_selection_interval f = 0) exposure previous = None) \<and>
    (case fd_target d of None \<Rightarrow> True
     | Some t \<Rightarrow> validate_pending_target t = Inr () \<and> pt_position_limits t = [] \<and>
        (\<exists>a. pt_allocation t = Some a \<and> alloc_exposure a = Finite exposure \<and> alloc_retained a = retained_holdings f ps \<and>
          alloc_instrument_ids a = filter (\<lambda>i. i \<notin> set (retained_holdings f ps)) (sel_instrument_ids (bs_selection (fd_state d)))))"
proof -
  let ?updated = "report_index mod bf_selection_interval f = 0" and ?retained = "retained_holdings f ps"
  have req: "require_exposure exposure_value session = Inr exposure"
    using exposure by (simp add: require_exposure_def unit_interval_def)
  have d: "distinct ?retained"
    using ps by (auto simp: retained_holdings_def distinct_map inj_on_def split: option.splits)
  obtain s where s: "(if ?updated
               then bindE (update_selection volatility digest f session alpha_values close_windows ?retained) (\<lambda>(s, d). Inr (Some s, d))
               else Inr (map_option bs_selection previous, [])) = Inr (Some s, [])"
    and small: "small_selection s" "sel_contract_checksum s = bf_contract_checksum f"
    and known: "\<forall>K. set (map cand_instrument_id alpha_values) \<subseteq> K \<longrightarrow> (\<forall>s. previous = Some s \<longrightarrow> set (sel_instrument_ids (bs_selection s)) \<subseteq> K) \<longrightarrow>
      set (sel_instrument_ids s) \<subseteq> K"
  proof (cases ?updated)
    case True
    have "bf_holdings_count f \<le> 100" using policy(1) by (auto simp: validate_builtin_framework_def)
    then show thesis
      using update_selection_returns [OF policy(2) _ values_ok, of volatility digest session close_windows ?retained] True
      by (auto intro!: that) blast
  next
    case False
    then show thesis using previous by (auto simp: reusable_def intro!: that split: option.splits)
  qed
  have state: "validate_builtin_state \<lparr>bs_selection = s, bs_exposure = Finite exposure\<rparr> = Inr ()"
    using small_selection_valid [OF small(1)] exposure(2) by (simp add: validate_builtin_state_def)
  show ?thesis
  proof (cases "target_reason ?updated exposure previous")
    case None
    then show ?thesis
      using req s state small known exposure(2) by (simp add: builtin_decide_def Let_def reusable_def)
  next
    case (Some reason)
    obtain t a where t: "builtin_target f session ?updated reason s ?retained exposure = Inr t"
      "validate_pending_target t = Inr ()" "pt_allocation t = Some a" "alloc_exposure a = Finite exposure"
      "alloc_retained a = ?retained" "alloc_instrument_ids a = filter (\<lambda>i. i \<notin> set ?retained) (sel_instrument_ids s)"
      "pt_position_limits t = []"
      using builtin_target_returns [OF small(1) exposure(2) target_reason_cases [OF Some] d] by blast
    then show ?thesis
      using req s state small known exposure(2) Some by (simp add: builtin_decide_def Let_def reusable_def)
  qed
qed

section \<open>The strategy over its sessions\<close>

fun strategy_decisions :: "(builtin_state \<times> int, 'f) program \<Rightarrow> (string \<Rightarrow> account_view) \<Rightarrow> int \<Rightarrow> string list
    \<Rightarrow> (builtin_state \<times> int) option \<Rightarrow> py_error + (builtin_state \<times> int, 'f) daily_decision list" where
  "strategy_decisions decide accounts n [] previous = Inr []"
| "strategy_decisions decide accounts n (session # sessions) previous =
     bindE (decide session n (accounts session) [] [] previous) (\<lambda>d.
     bindE (strategy_decisions decide accounts (n + 1) sessions (Some (dec_state d))) (\<lambda>ds. Inr (d # ds)))"

text \<open>A strategy whose data cover a session.\<close>

definition covers_session :: "builtin_strategy \<Rightarrow> string \<Rightarrow> bool" where
  "covers_session strategy session \<longleftrightarrow> session \<in> set (pp_sessions (bst_portfolio strategy)) \<and>
     (\<exists>xs. map_of (bst_alpha strategy) session = Some xs \<and> distinct (map cand_instrument_id xs)) \<and>
     (\<exists>us. map_of (bst_universe strategy) session = Some us) \<and>
     (\<exists>x. map_of (pp_exposures (bst_portfolio strategy)) session = Some (Some (Finite x)) \<and> unit_interval (Finite x))"

definition simple_weights :: "builtin_strategy \<Rightarrow> bool" where
  "simple_weights strategy \<longleftrightarrow> validate_builtin_framework (pp_policy (bst_portfolio strategy)) = Inr () \<and>
     (bf_weighting (pp_policy (bst_portfolio strategy)) = ''equal_weight'' \<or> bf_weighting (pp_policy (bst_portfolio strategy)) = ''rank_weight'') \<and>
     pp_closes (bst_portfolio strategy) = None"

lemma index_of_member: "x \<in> set xs \<Longrightarrow> \<exists>k. index_of xs x = Inr k"
  by (induction xs) auto

lemma restore_reusable: "reusable (pp_policy p) s \<Longrightarrow> restore_portfolio p session (Some s) = Inr (Some s)"
proof -
  assume r: "reusable (pp_policy p) s"
  then obtain x where x: "bs_exposure s = Finite x" "unit_interval (Finite x)" "dle dzero x \<and> dle x (dec_of_int 1)"
    by (auto simp: reusable_def unit_interval_def split: pydec.splits)
  moreover have "s\<lparr>bs_exposure := Finite x\<rparr> = s" using x(1) by (cases s) simp
  ultimately show ?thesis
    using r small_selection_valid [of "bs_selection s"] by (simp add: restore_portfolio_def reusable_def require_exposure_def raiseIf_def)
qed

lemma strategy_decides:
  assumes ok: "simple_weights strategy" and covered: "covers_session strategy session"
    and previous: "case previous of None \<Rightarrow> n mod bf_selection_interval (pp_policy (bst_portfolio strategy)) = 0
      | Some (s, k) \<Rightarrow> reusable (pp_policy (bst_portfolio strategy)) s \<and> k = bf_selection_interval (pp_policy (bst_portfolio strategy)) \<and>
          set (sel_instrument_ids (bs_selection s)) \<subseteq> K"
    and known: "\<forall>xs. map_of (bst_alpha strategy) session = Some xs \<longrightarrow> set (map cand_instrument_id xs) \<subseteq> K"
  shows "\<exists>d. builtin_strategy_decide volatility digest strategy session n account executions refusals previous = Inr d \<and>
    reusable (pp_policy (bst_portfolio strategy)) (fst (dec_state d)) \<and>
    snd (dec_state d) = bf_selection_interval (pp_policy (bst_portfolio strategy)) \<and>
    set (sel_instrument_ids (bs_selection (fst (dec_state d)))) \<subseteq> K \<and>
    (case dec_target d of None \<Rightarrow> True | Some t \<Rightarrow> validate_pending_target t = Inr () \<and> pt_position_limits t = [] \<and> set (pt_instrument_ids t) \<subseteq> K)"
proof -
  let ?p = "bst_portfolio strategy" let ?f = "pp_policy ?p"
  obtain xs us x where data: "map_of (bst_alpha strategy) session = Some xs" "distinct (map cand_instrument_id xs)"
    "map_of (bst_universe strategy) session = Some us" "map_of (pp_exposures ?p) session = Some (Some (Finite x))" "unit_interval (Finite x)"
    and "session \<in> set (pp_sessions ?p)"
    using covered by (auto simp: covers_session_def)
  then obtain k where k: "index_of (pp_sessions ?p) session = Inr k" using index_of_member by blast
  have state: "restore_portfolio ?p session (map_option fst previous) = Inr (map_option fst previous)"
    using previous restore_reusable [of ?p _ session] by (cases previous) (auto simp: restore_portfolio_def)
  have "case map_option fst previous of None \<Rightarrow> n mod bf_selection_interval ?f = 0 | Some s \<Rightarrow> reusable ?f s"
    using previous by (auto split: option.splits)
  from builtin_decide_returns [OF _ _ data(2) _ refl data(5) this, where ps = "[]" and volatility = volatility and digest = digest and session = session and close_windows = "[]"]
  obtain d where d: "builtin_decide volatility digest ?f session n xs [] (Some (Finite x)) (map_option fst previous) [] = Inr d"
    "reusable ?f (fd_state d)"
    "\<forall>K. set (map cand_instrument_id xs) \<subseteq> K \<longrightarrow> (\<forall>s. map_option fst previous = Some s \<longrightarrow> set (sel_instrument_ids (bs_selection s)) \<subseteq> K) \<longrightarrow>
      set (sel_instrument_ids (bs_selection (fd_state d))) \<subseteq> K"
    "case fd_target d of None \<Rightarrow> True
     | Some t \<Rightarrow> validate_pending_target t = Inr () \<and> pt_position_limits t = [] \<and>
        (\<exists>a. pt_allocation t = Some a \<and> alloc_exposure a = Finite x \<and> alloc_retained a = retained_holdings ?f [] \<and>
          alloc_instrument_ids a = filter (\<lambda>i. i \<notin> set (retained_holdings ?f [])) (sel_instrument_ids (bs_selection (fd_state d))))"
    using ok by (auto simp: simple_weights_def)
  have ids: "set (sel_instrument_ids (bs_selection (fd_state d))) \<subseteq> K"
    using d(3) known data(1) previous by (auto split: option.splits)
  have none: "retained_holdings ?f [] = []" by (simp add: retained_holdings_def split: option.splits)
  have target: "case fd_target d of None \<Rightarrow> True
     | Some t \<Rightarrow> validate_pending_target t = Inr () \<and> pt_position_limits t = [] \<and> set (pt_instrument_ids t) \<subseteq> K"
    using d(4) ids by (auto simp: none pt_instrument_ids_def split: option.splits)
  have "builtin_strategy_decide volatility digest strategy session n account executions refusals previous
      = Inr \<lparr>dec_state = (fd_state d, bf_selection_interval ?f), dec_target = fd_target d, dec_diagnostics = fd_diagnostics d,
           dec_framework = Some \<lparr>be_universe = us, be_values = xs, be_proposal = fd_target d\<rparr>\<rparr>"
    using previous data k state d(1) ok
    by (auto simp: builtin_strategy_decide_def prepared_decide_def close_windows_of_def simple_weights_def lookupE_def Let_def
        raiseIf_def split: option.splits)
  then show ?thesis using d(2) ids target by simp
qed

lemma strategy_decisions_return:
  assumes ok: "simple_weights strategy"
    and "\<forall>session\<in>set sessions. covers_session strategy session"
    and "\<forall>session\<in>set sessions. \<forall>xs. map_of (bst_alpha strategy) session = Some xs \<longrightarrow> set (map cand_instrument_id xs) \<subseteq> K"
    and "case previous of None \<Rightarrow> n mod bf_selection_interval (pp_policy (bst_portfolio strategy)) = 0
      | Some (s, k) \<Rightarrow> reusable (pp_policy (bst_portfolio strategy)) s \<and> k = bf_selection_interval (pp_policy (bst_portfolio strategy)) \<and>
          set (sel_instrument_ids (bs_selection s)) \<subseteq> K"
  shows "\<exists>ds. strategy_decisions (builtin_strategy_decide volatility digest strategy) accounts n sessions previous = Inr ds \<and>
    length ds = length sessions \<and> (\<forall>d\<in>set ds. case dec_target d of None \<Rightarrow> True
      | Some t \<Rightarrow> validate_pending_target t = Inr () \<and> pt_position_limits t = [] \<and> set (pt_instrument_ids t) \<subseteq> K)"
  using assms(2-)
proof (induction sessions arbitrary: n previous)
  case (Cons session sessions)
  have covered: "covers_session strategy session" and known: "\<forall>xs. map_of (bst_alpha strategy) session = Some xs \<longrightarrow> set (map cand_instrument_id xs) \<subseteq> K"
    using Cons.prems(1,2) by auto
  obtain d where d: "builtin_strategy_decide volatility digest strategy session n (accounts session) [] [] previous = Inr d"
    "reusable (pp_policy (bst_portfolio strategy)) (fst (dec_state d))"
    "snd (dec_state d) = bf_selection_interval (pp_policy (bst_portfolio strategy))"
    "set (sel_instrument_ids (bs_selection (fst (dec_state d)))) \<subseteq> K"
    "case dec_target d of None \<Rightarrow> True | Some t \<Rightarrow> validate_pending_target t = Inr () \<and> pt_position_limits t = [] \<and> set (pt_instrument_ids t) \<subseteq> K"
    using strategy_decides [OF ok covered Cons.prems(3) known, of volatility digest "accounts session" "[]" "[]"] by blast
  obtain ds where "strategy_decisions (builtin_strategy_decide volatility digest strategy) accounts (n + 1) sessions (Some (dec_state d)) = Inr ds"
    "length ds = length sessions" "\<forall>d\<in>set ds. case dec_target d of None \<Rightarrow> True
      | Some t \<Rightarrow> validate_pending_target t = Inr () \<and> pt_position_limits t = [] \<and> set (pt_instrument_ids t) \<subseteq> K"
    using Cons.IH [of "n + 1" "Some (dec_state d)"] Cons.prems(1,2) d(2-4) by (auto simp: case_prod_beta)
  then show ?case using d(1,5) by simp
qed simp

section \<open>Properties\<close>



definition sample_framework :: builtin_framework where
  "sample_framework = \<lparr>bf_holdings_count = 3, bf_selection_interval = 2, bf_weighting = ''rank_weight'',
     bf_volatility_window = 20, bf_contract_checksum = ''c'', bf_minimum_holding_sessions = Some 3\<rparr>"

definition young_holding :: position where
  "young_holding = \<lparr>execution_shares = 100, adjusted_units = Dec 1 2, last_adjusted_price = Dec 5 0,
     remaining_acquisition_cost_cny = Dec 5 2, holding_cycle_started_session = ''2024-01-02'', holding_age = 2,
     last_close_adjusted_price = Some (Dec 5 0)\<rparr>"


definition sample_strategy :: builtin_strategy where
  "sample_strategy = \<lparr>bst_portfolio = \<lparr>pp_policy = sample_framework, pp_sessions = [''2024-01-02'', ''2024-01-03''],
       pp_exposures = [(''2024-01-02'', Some (Finite (Dec 1 0))), (''2024-01-03'', Some (Finite (Dec 5 (- 1))))], pp_closes = None\<rparr>,
     bst_alpha = [(''2024-01-02'', sample_candidates), (''2024-01-03'', [])],
     bst_universe = [(''2024-01-02'', [''a'', ''b'', ''c'', ''d'']), (''2024-01-03'', [''a''])]\<rparr>"

definition sample_view :: account_view where
  "sample_view = \<lparr>view_cash = Dec 1 6, view_post_open_net_nav = Dec 1 6, view_close_risk_nav = Dec 1 6, view_positions = []\<rparr>"


end
