(* ===== verification/FrameworkModules.thy ===== *)
theory FrameworkModules
  imports Framework RiskPolicies Boundaries
begin

text \<open>
  A strategy of framework modules: \<open>FrameworkStrategy.decide\<close> of \<open>research_kernel/framework_strategy.py\<close>
  with its stages for universe, signals, portfolio and risk, and the checks on a continuation.

  Each of the four modules is builtin or an isolated program. What a program returns for a view and its
  own state is a parameter; an output is no update, malformed, or the fields its stage reads. The JSON
  state of a program is opaque. History reads and printed text of programs are its diagnostics. The
  names of the modules in the evidence are constants and left out. The code updates the risk state of
  the previous decision in place; the model returns the new one.
\<close>

section \<open>Modules\<close>

datatype portfolio_module = PeriodicTopN | HoldingPeriod int | PortfolioProgram

datatype risk_module = NoRisk | BuiltinRisk builtin_risk | RiskProgram

record framework_modules =
  fm_universe_program :: bool
  fm_alpha_program :: bool
  fm_portfolio :: portfolio_module
  fm_risk :: risk_module

definition validate_modules :: "framework_modules \<Rightarrow> py_error + unit" where
  "validate_modules m =
     bindE (case fm_portfolio m of HoldingPeriod n \<Rightarrow> raiseIf (n < 1) (ValueError ''minimum_holding_sessions'') | _ \<Rightarrow> Inr ()) (\<lambda>_.
     bindE (case fm_risk m of BuiltinRisk risk \<Rightarrow> validate_builtin_risk risk | _ \<Rightarrow> Inr ()) (\<lambda>_.
     case (fm_portfolio m, fm_risk m) of
       (HoldingPeriod n, BuiltinRisk risk) \<Rightarrow>
         raiseIf (case br_maximum_holding_sessions risk of None \<Rightarrow> False | Some k \<Rightarrow> k < n)
           (ValueError ''Maximum holding sessions must be at least minimum'')
     | _ \<Rightarrow> Inr ()))"

record universe_update =
  uu_reason :: string
  uu_instrument_ids :: "string list"

record signal_value =
  sv_instrument_id :: string
  sv_value :: dec
  sv_valid_for_sessions :: int

record signal_update =
  su_reason :: string
  su_signals :: "signal_value list"

datatype risk_output = Replace string "program_output option" | LimitPositions string "(string \<times> int) list"

datatype 'u program_result = NoUpdate | Malformed | Update 'u

definition valid_reason :: "string \<Rightarrow> bool" where
  "valid_reason reason \<longleftrightarrow> 1 \<le> length reason \<and> length reason \<le> 512"

definition validate_universe_update :: "universe_update \<Rightarrow> py_error + unit" where
  "validate_universe_update u =
     bindE (raiseIf (\<not> valid_reason (uu_reason u) \<or> MAX_ACTIVE_SIGNALS < length (uu_instrument_ids u)) (ValueError ''UniverseUpdate'')) (\<lambda>_.
     raiseIf (\<not> distinct (uu_instrument_ids u)) (ValueError ''Universe instruments must be unique''))"

definition validate_signal_update :: "signal_update \<Rightarrow> py_error + unit" where
  "validate_signal_update u =
     bindE (raiseIf (\<not> valid_reason (su_reason u) \<or> MAX_ACTIVE_SIGNALS < length (su_signals u) \<or>
              (\<exists>s\<in>set (su_signals u). sv_valid_for_sessions s < 1 \<or> MAX_SIGNAL_VALIDITY_SESSIONS < sv_valid_for_sessions s))
              (ValueError ''SignalUpdate'')) (\<lambda>_.
     raiseIf (\<not> distinct (map sv_instrument_id (su_signals u))) (ValueError ''Signals must have unique instruments''))"

section \<open>State and evidence\<close>

record risk_state =
  rs_cycles :: "cycles option"
  rs_drawdown :: "drawdown_state option"

definition empty_risk :: risk_state where
  "empty_risk = \<lparr>rs_cycles = None, rs_drawdown = None\<rparr>"

datatype 'p module_state = NoModuleState | ProgramState 'p | PortfolioState builtin_state | RiskModuleState risk_state

record framework_view =
  vw_universe :: "string list"
  vw_signals :: "active_signal list"
  vw_universe_changed :: bool
  vw_signals_updated :: bool
  vw_expired :: "string list"
  vw_removed :: "string list"
  vw_proposal :: "pending_target option"
  vw_retained_proposal :: "pending_target option"

record daily_input =
  di_session :: string
  di_completed_sessions :: int
  di_account :: account_view
  di_fills :: "fill_row list"
  di_rejections :: "rejection_row list"

text \<open>
  The programs of a strategy: the output, the state and the diagnostics for an input; and the size of an encoded state.
\<close>

record 'p stage_programs =
  run_universe :: "framework_view \<Rightarrow> daily_input \<Rightarrow> 'p \<Rightarrow> py_error + universe_update program_result \<times> 'p \<times> diagnostic list"
  run_alpha :: "framework_view \<Rightarrow> daily_input \<Rightarrow> 'p \<Rightarrow> py_error + signal_update program_result \<times> 'p \<times> diagnostic list"
  run_portfolio :: "framework_view \<Rightarrow> daily_input \<Rightarrow> 'p \<Rightarrow> py_error + program_output option \<times> 'p \<times> diagnostic list"
  run_risk :: "framework_view \<Rightarrow> daily_input \<Rightarrow> 'p \<Rightarrow> py_error + risk_output program_result \<times> 'p \<times> diagnostic list"

record 'p framework_strategy =
  fst_modules :: framework_modules
  fst_programs :: "'p stage_programs"
  fst_initial :: 'p
  fst_portfolio :: prepared_portfolio
  fst_checksum :: string
  fst_sessions :: "string list"
  fst_universe :: "(string \<times> string list) list"
  fst_alpha :: "(string \<times> candidate list) list"
  fst_encoded :: "'p module_state \<Rightarrow> int"
  fst_encoded_state :: "'p module_state framework_state \<Rightarrow> int"
  fst_state_bytes :: int

record universe_evidence =
  ue_instrument_ids :: "string list"
  ue_updated :: bool
  ue_reason :: "string option"

datatype alpha_evidence =
    FormulaEvidence "(string \<times> dec) list"
  | SignalEvidence "active_signal list" bool "string option" "string list" "string list"

datatype risk_evidence =
    PositionLimitEvidence string "(string \<times> int) list"
  | ReplacementEvidence string "pending_target option"
  | BuiltinRiskEvidence string "(string \<times> int) list" "observation list"

record retention =
  ret_instrument_id :: string
  ret_execution_shares :: int
  ret_holding_age :: int
  ret_minimum_holding_sessions :: int

definition validate_retentions :: "retention list \<Rightarrow> py_error + unit" where
  "validate_retentions rows =
     raiseIf (\<exists>r\<in>set rows. ret_execution_shares r \<le> 0 \<or> ret_holding_age r < 1 \<or> ret_minimum_holding_sessions r < 1)
       (ValueError ''HoldingRetentionEvidence'')"

record framework_evidence =
  fe_universe :: universe_evidence
  fe_alpha :: alpha_evidence
  fe_proposal :: "pending_target option"
  fe_risk :: "risk_evidence option"
  fe_retentions :: "retention list"

definition observation_instrument :: "observation \<Rightarrow> string set" where
  "observation_instrument x = (case x of StopLoss s \<Rightarrow> {slo_instrument_id s} | MaximumHoldingPeriod e \<Rightarrow> {exo_instrument_id e}
     | TakeProfit t \<Rightarrow> {tpo_instrument_id t} | PortfolioDrawdown _ \<Rightarrow> {})"

definition evidence_instrument_ids :: "framework_evidence \<Rightarrow> string set" where
  "evidence_instrument_ids e =
     set (ue_instrument_ids (fe_universe e)) \<union>
     (case fe_alpha e of
        SignalEvidence signals _ _ expired removed \<Rightarrow> set (map sig_instrument_id signals) \<union> set expired \<union> set removed
      | FormulaEvidence xs \<Rightarrow> set (map fst xs)) \<union>
     (case fe_proposal e of None \<Rightarrow> {} | Some t \<Rightarrow> set (pt_instrument_ids t)) \<union>
     set (map ret_instrument_id (fe_retentions e)) \<union>
     (case fe_risk e of
        None \<Rightarrow> {}
      | Some (PositionLimitEvidence _ limits) \<Rightarrow> set (map fst limits)
      | Some (BuiltinRiskEvidence _ limits rows) \<Rightarrow> set (map fst limits) \<union> \<Union> (set (map observation_instrument rows))
      | Some (ReplacementEvidence _ target) \<Rightarrow> (case target of None \<Rightarrow> {} | Some t \<Rightarrow> set (pt_instrument_ids t)))"

text \<open>\<open>_fail\<close> names the stage; every \<open>ValueError\<close> of a stage becomes an error of the program.\<close>

definition fail_stage :: "string \<Rightarrow> py_error + 'a \<Rightarrow> py_error + 'a" where
  "fail_stage stage m =
     mapErr (\<lambda>e. case e of
         ValueError text \<Rightarrow> StrategyProgramError (stage @ '': '' @ text)
       | NumericContractError text \<Rightarrow> StrategyProgramError (stage @ '': '' @ text)
       | StrategyProgramError text \<Rightarrow> StrategyProgramError (stage @ '': '' @ text)
       | _ \<Rightarrow> e) m"

definition program_state :: "'p module_state option \<Rightarrow> py_error + 'p" where
  "program_state s = (case s of Some (ProgramState p) \<Rightarrow> Inr p
     | _ \<Rightarrow> Inl (ValueError ''Python module state requires compute and decision state''))"

section \<open>Universe and signals\<close>

definition universe_stage :: "'p framework_strategy \<Rightarrow> framework_view \<Rightarrow> daily_input \<Rightarrow> (string \<times> 'p module_state) list \<Rightarrow> diagnostic list
    \<Rightarrow> py_error + universe_evidence \<times> (string \<times> 'p module_state) list \<times> diagnostic list" where
  "universe_stage strategy view daily states diagnostics =
     bindE (lookupE (fst_universe strategy) (di_session daily) (KeyError (di_session daily))) (\<lambda>available.
     if \<not> fm_universe_program (fst_modules strategy) then
       Inr (\<lparr>ue_instrument_ids = available, ue_updated = True, ue_reason = Some ''dataset_universe''\<rparr>, states, diagnostics)
     else
       bindE (fail_stage ''universe_selection'' (program_state (map_of states ''universe_selection''))) (\<lambda>p.
       bindE (fail_stage ''universe_selection'' (run_universe (fst_programs strategy) view daily p)) (\<lambda>(output, p, printed).
       let states = AList.update ''universe_selection'' (ProgramState p) states; diagnostics = diagnostics @ printed in
       case output of
         NoUpdate \<Rightarrow> Inr (\<lparr>ue_instrument_ids = filter (\<lambda>i. i \<in> set available) (vw_universe view), ue_updated = False, ue_reason = None\<rparr>,
             states, diagnostics)
       | Malformed \<Rightarrow> fail_stage ''universe_selection'' (Inl (ValueError ''UniverseUpdate''))
       | Update u \<Rightarrow> fail_stage ''universe_selection''
           (bindE (validate_universe_update u) (\<lambda>_.
            bindE (raiseIf (\<not> set (uu_instrument_ids u) \<subseteq> set available)
                     (ValueError ''Universe contains an unavailable current candidate'')) (\<lambda>_.
            Inr (\<lparr>ue_instrument_ids = uu_instrument_ids u, ue_updated = True, ue_reason = Some (uu_reason u)\<rparr>, states, diagnostics)))))))"

text \<open>Signals expire with their validity and are removed with their instrument.\<close>

definition age_signals :: "int \<Rightarrow> framework_view \<Rightarrow> framework_view" where
  "age_signals ordinal view =
     (let expired = filter (signal_expired ordinal) (vw_signals view);
          live = filter (\<lambda>s. \<not> signal_expired ordinal s) (vw_signals view);
          selected = set (vw_universe view)
      in view\<lparr>vw_signals := filter (\<lambda>s. sig_instrument_id s \<in> selected) live,
              vw_expired := map sig_instrument_id expired,
              vw_removed := map sig_instrument_id (filter (\<lambda>s. sig_instrument_id s \<notin> selected) live)\<rparr>)"

definition new_signal :: "string \<Rightarrow> int \<Rightarrow> int \<Rightarrow> string \<Rightarrow> dec \<Rightarrow> active_signal" where
  "new_signal session ordinal valid i x =
     \<lparr>sig_instrument_id = i, sig_value = x, sig_created_session = session,
      sig_created_session_number = ordinal, sig_valid_for_sessions = valid\<rparr>"

definition signals_stage :: "'p framework_strategy \<Rightarrow> framework_view \<Rightarrow> daily_input \<Rightarrow> (string \<times> 'p module_state) list \<Rightarrow> diagnostic list
    \<Rightarrow> py_error + alpha_evidence \<times> framework_view \<times> (string \<times> 'p module_state) list \<times> diagnostic list" where
  "signals_stage strategy view daily states diagnostics =
     (let session = di_session daily; ordinal = di_completed_sessions daily;
          view = age_signals ordinal view; selected = set (vw_universe view)
      in if \<not> fm_alpha_program (fst_modules strategy) then
           bindE (lookupE (fst_alpha strategy) session (KeyError session)) (\<lambda>rows.
           let view = view\<lparr>vw_signals := map (\<lambda>c. new_signal session ordinal 1 (cand_instrument_id c) (cand_value c))
                   (filter (\<lambda>c. cand_instrument_id c \<in> selected) rows), vw_signals_updated := True\<rparr>
           in Inr (FormulaEvidence (map (\<lambda>s. (sig_instrument_id s, sig_value s)) (vw_signals view)), view, states, diagnostics))
         else
           bindE (fail_stage ''alpha'' (program_state (map_of states ''alpha''))) (\<lambda>p.
           bindE (fail_stage ''alpha'' (run_alpha (fst_programs strategy) view daily p)) (\<lambda>(output, p, printed).
           let states = AList.update ''alpha'' (ProgramState p) states; diagnostics = diagnostics @ printed in
           bindE (case output of
                NoUpdate \<Rightarrow> Inr (view, None)
              | Malformed \<Rightarrow> fail_stage ''alpha'' (Inl (ValueError ''SignalUpdate''))
              | Update u \<Rightarrow> fail_stage ''alpha''
                  (bindE (validate_signal_update u) (\<lambda>_.
                   bindE (raiseIf (\<exists>s\<in>set (su_signals u). sv_instrument_id s \<notin> selected)
                            (ValueError ''Signal instrument must belong to the selected Universe'')) (\<lambda>_.
                   Inr (view\<lparr>vw_signals := map (\<lambda>s. new_signal session ordinal (sv_valid_for_sessions s) (sv_instrument_id s) (sv_value s)) (su_signals u),
                             vw_signals_updated := True\<rparr>, Some (su_reason u)))))) (\<lambda>(view, reason).
           Inr (SignalEvidence (vw_signals view) (vw_signals_updated view) reason (vw_expired view) (vw_removed view),
                view, states, diagnostics)))))"

section \<open>Portfolio\<close>

definition stage_context :: "'p framework_strategy \<Rightarrow> framework_view \<Rightarrow> daily_input \<Rightarrow> py_error + program_context" where
  "stage_context strategy view daily =
     bindE (lookupE (fst_universe strategy) (di_session daily) (KeyError (di_session daily))) (\<lambda>candidates.
     Inr \<lparr>pc_session = di_session daily,
          pc_holdings = map (\<lambda>(i, p). (i, execution_shares p)) (view_positions (di_account daily)),
          pc_candidates = filter (\<lambda>i. i \<in> set (vw_universe view)) candidates\<rparr>)"

definition retained_portfolio :: "'p module_state option \<Rightarrow> py_error + builtin_state option" where
  "retained_portfolio s =
     (case s of Some (PortfolioState b) \<Rightarrow> Inr (Some b) | Some NoModuleState \<Rightarrow> Inr None | _ \<Rightarrow> Inl (KeyError ''selection''))"

definition portfolio_stage :: "(dec list \<Rightarrow> py_error + dec) \<Rightarrow> (string \<Rightarrow> candidate list \<Rightarrow> string) \<Rightarrow> 'p framework_strategy
    \<Rightarrow> framework_view \<Rightarrow> daily_input \<Rightarrow> (string \<times> 'p module_state) list \<Rightarrow> diagnostic list
    \<Rightarrow> py_error + pending_target option \<times> (string \<times> 'p module_state) list \<times> diagnostic list" where
  "portfolio_stage volatility digest strategy view daily states diagnostics =
     (if fm_portfolio (fst_modules strategy) = PortfolioProgram then
        bindE (fail_stage ''portfolio_construction'' (program_state (map_of states ''portfolio_construction''))) (\<lambda>p.
        bindE (fail_stage ''portfolio_construction'' (run_portfolio (fst_programs strategy) view daily p)) (\<lambda>(output, p, printed).
        bindE (stage_context strategy view daily) (\<lambda>context.
        bindE (fail_stage ''portfolio_construction'' (program_target output context (fst_checksum strategy))) (\<lambda>target.
        Inr (target, AList.update ''portfolio_construction'' (ProgramState p) states, diagnostics @ printed)))))
      else
        bindE (retained_portfolio (map_of states ''portfolio_construction'')) (\<lambda>previous.
        bindE (prepared_decide volatility digest (fst_portfolio strategy) (di_session daily) (di_completed_sessions daily - 1)
                 (map (\<lambda>s. \<lparr>cand_instrument_id = sig_instrument_id s, cand_value = sig_value s\<rparr>) (vw_signals view))
                 previous (view_positions (di_account daily))) (\<lambda>d.
        Inr (fd_target d, AList.update ''portfolio_construction'' (PortfolioState (fd_state d)) states, diagnostics @ fd_diagnostics d))))"

definition retentions_of :: "portfolio_module \<Rightarrow> pending_target option \<Rightarrow> positions \<Rightarrow> retention list" where
  "retentions_of portfolio target ps =
     (case (portfolio, target) of
        (HoldingPeriod n, Some t) \<Rightarrow> (case pt_allocation t of None \<Rightarrow> []
          | Some a \<Rightarrow> map (\<lambda>(i, p). \<lparr>ret_instrument_id = i, ret_execution_shares = execution_shares p,
                ret_holding_age = holding_age p, ret_minimum_holding_sessions = n\<rparr>)
              (filter (\<lambda>(i, p). i \<in> set (alloc_retained a)) ps))
      | _ \<Rightarrow> [])"

section \<open>Risk\<close>

text \<open>\<open>limits[item] = min(maximum, limits.get(item, maximum))\<close> over a list of limits.\<close>

definition merge_limits :: "(string \<times> int) list \<Rightarrow> (string \<times> int) list \<Rightarrow> (string \<times> int) list" where
  "merge_limits limits extra =
     foldl (\<lambda>d (i, m). AList.update i (case map_of d i of None \<Rightarrow> m | Some k \<Rightarrow> min m k) d) limits extra"

definition internal_output :: "string \<Rightarrow> target_allocation option \<Rightarrow> (string \<times> int) list \<Rightarrow> pydec option \<Rightarrow> program_output" where
  "internal_output reason allocation limits cap =
     \<lparr>out_is_dict = True, out_keys = [''reason'', ''allocation'', ''position_limits'', ''maximum_stock_exposure''],
      out_reason = reason, out_allocation = allocation, out_position_limits = limits, out_maximum_stock_exposure = cap\<rparr>"

text \<open>\<open>_risk\<close>: a program replaces the target, or adds limits after its own limits have been checked alone.\<close>

definition program_risk :: "risk_output program_result \<Rightarrow> program_context \<Rightarrow> string \<Rightarrow> pending_target option \<Rightarrow> py_error + pending_target option" where
  "program_risk output context checksum proposal =
     (case output of
        NoUpdate \<Rightarrow> Inr proposal
      | Malformed \<Rightarrow> fail_stage ''risk_management'' (Inl (ValueError ''Risk output requires an explicit adjustment mode''))
      | Update (Replace reason target) \<Rightarrow> fail_stage ''risk_management''
          (bindE (raiseIf (\<not> valid_reason reason) (ValueError ''ReplacementAdjustment'')) (\<lambda>_.
           program_target target context checksum))
      | Update (LimitPositions reason limits) \<Rightarrow> fail_stage ''risk_management''
          (bindE (raiseIf (\<not> valid_reason reason \<or> limits = [] \<or> (\<exists>m\<in>set (map snd limits). m < 0))
                    (ValueError ''PositionLimitAdjustment'')) (\<lambda>_.
           bindE (program_target (Some (internal_output reason None limits None)) context checksum) (\<lambda>_.
           program_target (Some (internal_output reason
               (case proposal of None \<Rightarrow> None | Some t \<Rightarrow> pt_allocation t)
               (merge_limits limits (case proposal of None \<Rightarrow> [] | Some t \<Rightarrow> pt_position_limits t))
               (case proposal of None \<Rightarrow> None | Some t \<Rightarrow> pt_maximum_stock_exposure t))) context checksum))))"

definition program_risk_evidence :: "risk_output program_result \<Rightarrow> pending_target option \<Rightarrow> risk_evidence option" where
  "program_risk_evidence output target =
     (case output of
        Update (Replace reason _) \<Rightarrow> Some (ReplacementEvidence reason target)
      | Update (LimitPositions reason limits) \<Rightarrow> Some (PositionLimitEvidence reason limits)
      | _ \<Rightarrow> None)"

definition observation_reason :: "observation \<Rightarrow> string" where
  "observation_reason x = (case x of StopLoss _ \<Rightarrow> ''stop_loss'' | MaximumHoldingPeriod _ \<Rightarrow> ''maximum_holding_period''
     | TakeProfit _ \<Rightarrow> ''take_profit'' | PortfolioDrawdown _ \<Rightarrow> ''portfolio_drawdown'')"

fun join_plus :: "string list \<Rightarrow> string" where
  "join_plus [] = []"
| "join_plus [x] = x"
| "join_plus (x # xs) = x @ ''+'' @ join_plus xs"

definition risk_reason :: "observation list \<Rightarrow> string" where
  "risk_reason observations = join_plus (rev (remdups (rev (map observation_reason observations))))"

definition observation_ok :: "observation \<Rightarrow> bool" where
  "observation_ok x = (case x of
       StopLoss s \<Rightarrow> 0 < slo_execution_shares s \<and> 1 \<le> slo_holding_age s
     | MaximumHoldingPeriod e \<Rightarrow> 0 < exo_execution_shares e \<and> 1 \<le> exo_holding_age e \<and> 1 \<le> exo_maximum_holding_sessions e
     | TakeProfit t \<Rightarrow> 0 < tpo_baseline_execution_shares t \<and> 0 \<le> tpo_execution_shares t \<and>
         (case tpo_position_limit t of None \<Rightarrow> True | Some m \<Rightarrow> 0 \<le> m)
     | PortfolioDrawdown _ \<Rightarrow> True)"

definition validate_risk_evidence :: "string \<Rightarrow> (string \<times> int) list \<Rightarrow> observation list \<Rightarrow> py_error + unit" where
  "validate_risk_evidence reason limits observations =
     raiseIf (\<not> valid_reason reason \<or> (\<exists>m\<in>set (map snd limits). m < 0) \<or> observations = [] \<or> 6000 < length observations \<or>
         \<not> list_all observation_ok observations) (ValueError ''BuiltinRiskEvidence'')"

definition sold_out :: "observation list \<Rightarrow> (string \<times> int) list" where
  "sold_out observations =
     foldl (\<lambda>d x. case x of StopLoss s \<Rightarrow> AList.update (slo_instrument_id s) 0 d
       | MaximumHoldingPeriod e \<Rightarrow> AList.update (exo_instrument_id e) 0 d | _ \<Rightarrow> d) [] observations"

definition kept_cycles :: "risk_state \<Rightarrow> py_error + cycles" where
  "kept_cycles r = (case rs_cycles r of Some c \<Rightarrow> Inr c
     | None \<Rightarrow> if r = empty_risk then Inr [] else Inl (KeyError ''take_profit_cycles''))"

text \<open>The observations, the limits and the state of the holding policies.\<close>

definition holding_risk :: "builtin_risk \<Rightarrow> account_view \<Rightarrow> fill_row list \<Rightarrow> risk_state
    \<Rightarrow> py_error + observation list \<times> (string \<times> int) list \<times> risk_state" where
  "holding_risk risk account executions r =
     bindE (holding_observations risk (view_positions account)) (\<lambda>observations.
     if br_take_profit_tiers risk = [] then Inr (observations, sold_out observations, r) else
     bindE (kept_cycles r) (\<lambda>previous.
     bindE (take_profit_decision (br_take_profit_tiers risk) (view_positions account) previous executions) (\<lambda>(cycles, limits, printed).
     Inr (observations @ printed, merge_limits (sold_out observations) limits, r\<lparr>rs_cycles := Some cycles\<rparr>))))"

text \<open>\<open>min(cap, exposure_cap) if exposure_cap is not None else cap\<close>\<close>

definition lower_cap :: "dec \<Rightarrow> pydec option \<Rightarrow> pydec" where
  "lower_cap cap exposure_cap =
     (case exposure_cap of Some (Finite x) \<Rightarrow> Finite (if dlt x cap then x else cap) | _ \<Rightarrow> Finite cap)"

definition drawdown_risk :: "builtin_risk \<Rightarrow> daily_input \<Rightarrow> pending_target option \<Rightarrow> risk_state
    \<Rightarrow> py_error + observation list \<times> pydec option \<times> risk_state" where
  "drawdown_risk risk daily target r =
     (let exposure_cap = (case target of None \<Rightarrow> None | Some t \<Rightarrow> pt_maximum_stock_exposure t)
      in case br_portfolio_drawdown risk of
           None \<Rightarrow> Inr ([], exposure_cap, r)
         | Some policy \<Rightarrow>
             bindE (portfolio_drawdown_decision policy (Finite (view_close_risk_nav (di_account daily))) (di_session daily)
                      (di_completed_sessions daily) (target \<noteq> None) (rs_drawdown r)) (\<lambda>(s, cap, row).
             Inr ([row], (case cap of None \<Rightarrow> exposure_cap | Some c \<Rightarrow> Some (lower_cap c exposure_cap)), r\<lparr>rs_drawdown := Some s\<rparr>)))"

definition builtin_risk_target :: "string \<Rightarrow> string \<Rightarrow> pending_target option \<Rightarrow> observation list \<Rightarrow> (string \<times> int) list \<Rightarrow> pydec option
    \<Rightarrow> py_error + pending_target option \<times> risk_evidence option" where
  "builtin_risk_target session checksum target observations risk_limits exposure_cap =
     (if observations = [] then Inr (target, None) else
      let reason = risk_reason observations;
          limits = merge_limits (case target of None \<Rightarrow> [] | Some t \<Rightarrow> pt_position_limits t) risk_limits
      in bindE (if risk_limits \<noteq> [] \<or> exposure_cap \<noteq> None then
             let t = \<lparr>pt_decision_session = session, pt_execution = ''next_research_session_open'', pt_contract_checksum = checksum,
                   pt_reason = reason, pt_allocation = (case target of None \<Rightarrow> None | Some t \<Rightarrow> pt_allocation t),
                   pt_position_limits = limits, pt_maximum_stock_exposure = exposure_cap\<rparr>
             in bindE (validate_pending_target t) (\<lambda>_. Inr (Some t))
           else Inr target) (\<lambda>target.
         bindE (validate_risk_evidence reason limits observations) (\<lambda>_.
         Inr (target, Some (BuiltinRiskEvidence reason limits observations)))))"

definition builtin_risk_stage :: "builtin_risk \<Rightarrow> daily_input \<Rightarrow> string \<Rightarrow> pending_target option \<Rightarrow> risk_state
    \<Rightarrow> py_error + pending_target option \<times> risk_evidence option \<times> risk_state" where
  "builtin_risk_stage risk daily checksum target r =
     bindE (holding_risk risk (di_account daily) (di_fills daily) r) (\<lambda>(observations, risk_limits, r).
     bindE (drawdown_risk risk daily target r) (\<lambda>(printed, exposure_cap, r).
     bindE (builtin_risk_target (di_session daily) checksum target (observations @ printed) risk_limits exposure_cap) (\<lambda>(target, evidence).
     Inr (target, evidence, r))))"

definition risk_state_of :: "'p module_state option \<Rightarrow> py_error + risk_state" where
  "risk_state_of s = (case s of Some NoModuleState \<Rightarrow> Inr empty_risk | Some (RiskModuleState r) \<Rightarrow> Inr r
     | _ \<Rightarrow> Inl (KeyError ''take_profit_cycles''))"

definition risk_stage :: "'p framework_strategy \<Rightarrow> framework_view \<Rightarrow> daily_input \<Rightarrow> pending_target option
    \<Rightarrow> (string \<times> 'p module_state) list \<Rightarrow> diagnostic list
    \<Rightarrow> py_error + pending_target option \<times> risk_evidence option \<times> (string \<times> 'p module_state) list \<times> diagnostic list" where
  "risk_stage strategy view daily target states diagnostics =
     (case fm_risk (fst_modules strategy) of
        NoRisk \<Rightarrow> Inr (target, None, states, diagnostics)
      | RiskProgram \<Rightarrow>
          bindE (fail_stage ''risk_management'' (program_state (map_of states ''risk_management''))) (\<lambda>p.
          bindE (fail_stage ''risk_management'' (run_risk (fst_programs strategy) view daily p)) (\<lambda>(output, p, printed).
          bindE (stage_context strategy view daily) (\<lambda>context.
          bindE (program_risk output context (fst_checksum strategy) target) (\<lambda>target.
          Inr (target, program_risk_evidence output target, AList.update ''risk_management'' (ProgramState p) states, diagnostics @ printed)))))
      | BuiltinRisk risk \<Rightarrow>
          bindE (risk_state_of (map_of states ''risk_management'')) (\<lambda>r.
          bindE (builtin_risk_stage risk daily (fst_checksum strategy) target r) (\<lambda>(target, evidence, r).
          Inr (target, evidence, AList.update ''risk_management'' (if r = empty_risk then NoModuleState else RiskModuleState r) states,
               diagnostics))))"

section \<open>The decision\<close>

definition module_interval :: "'p framework_strategy \<Rightarrow> int option" where
  "module_interval strategy =
     (if fm_portfolio (fst_modules strategy) = PortfolioProgram then None
      else Some (bf_selection_interval (pp_policy (fst_portfolio strategy))))"

definition check_modules_state :: "'p framework_strategy \<Rightarrow> 'p module_state framework_state \<Rightarrow> py_error + unit" where
  "check_modules_state strategy s =
     validate_framework_state (fst_encoded strategy) (fst_encoded_state strategy) (fst_state_bytes strategy) s"

definition restore_modules :: "'p framework_strategy \<Rightarrow> string \<Rightarrow> int \<Rightarrow> 'p module_state framework_state option \<Rightarrow> py_error + unit" where
  "restore_modules strategy session report_index previous =
     (case previous of None \<Rightarrow> Inr ()
      | Some s \<Rightarrow>
          bindE (raiseIf (fs_contract_checksum s \<noteq> fst_checksum strategy)
                   (ValueError ''Framework state does not match the frozen modules'')) (\<lambda>_.
          bindE (check_modules_state strategy s) (\<lambda>_.
          bindE (raiseIf (fs_selection_interval s \<noteq> module_interval strategy)
                   (ValueError ''Framework state differs from its Portfolio module'')) (\<lambda>_.
          bindE (index_of (fst_sessions strategy) session) (\<lambda>k.
          validate_boundary (py_nth (fst_sessions strategy) (k - 1)) report_index s)))))"

definition initial_states :: "'p framework_strategy \<Rightarrow> (string \<times> 'p module_state) list" where
  "initial_states strategy =
     (let m = fst_modules strategy; initial = (\<lambda>is_program. if is_program then ProgramState (fst_initial strategy) else NoModuleState)
      in [(''universe_selection'', initial (fm_universe_program m)), (''alpha'', initial (fm_alpha_program m)),
          (''portfolio_construction'', initial (fm_portfolio m = PortfolioProgram)), (''risk_management'', initial (fm_risk m = RiskProgram))])"

definition portfolio_of :: "(string \<times> 'p module_state) list \<Rightarrow> builtin_state option" where
  "portfolio_of states = (case map_of states ''portfolio_construction'' of Some (PortfolioState b) \<Rightarrow> Some b | _ \<Rightarrow> None)"

definition first_view :: "'p module_state framework_state option \<Rightarrow> framework_view" where
  "first_view previous =
     \<lparr>vw_universe = (case previous of None \<Rightarrow> [] | Some s \<Rightarrow> fs_universe s),
      vw_signals = (case previous of None \<Rightarrow> [] | Some s \<Rightarrow> fs_signals s),
      vw_universe_changed = False, vw_signals_updated = False, vw_expired = [], vw_removed = [], vw_proposal = None,
      vw_retained_proposal = (case previous of None \<Rightarrow> None | Some s \<Rightarrow> fs_retained_proposal s)\<rparr>"

definition framework_decide :: "(dec list \<Rightarrow> py_error + dec) \<Rightarrow> (string \<Rightarrow> candidate list \<Rightarrow> string) \<Rightarrow> 'p framework_strategy
    \<Rightarrow> ('p module_state framework_state, framework_evidence) program" where
  "framework_decide volatility digest strategy session report_index account executions refusals previous =
     bindE (restore_modules strategy session report_index previous) (\<lambda>_.
     let states = (case previous of None \<Rightarrow> initial_states strategy | Some s \<Rightarrow> fs_module_states s);
         daily = \<lparr>di_session = session, di_completed_sessions = report_index + 1, di_account = account,
                  di_fills = executions, di_rejections = refusals\<rparr>;
         view = first_view previous
     in bindE (universe_stage strategy view daily states []) (\<lambda>(universe, states, diagnostics).
        let view = view\<lparr>vw_universe_changed := ue_instrument_ids universe \<noteq> vw_universe view, vw_universe := ue_instrument_ids universe\<rparr>
        in bindE (signals_stage strategy view daily states diagnostics) (\<lambda>(alpha, view, states, diagnostics).
        bindE (portfolio_stage volatility digest strategy view daily states diagnostics) (\<lambda>(proposal, states, diagnostics).
        let retentions = retentions_of (fm_portfolio (fst_modules strategy)) proposal (view_positions account);
            view = view\<lparr>vw_proposal := proposal\<rparr>
        in bindE (risk_stage strategy view daily proposal states diagnostics) (\<lambda>(target, risk, states, diagnostics).
        let state = \<lparr>fs_contract_checksum = fst_checksum strategy, fs_selection_interval = module_interval strategy,
              fs_module_states = states, fs_universe = ue_instrument_ids universe, fs_signals = vw_signals view,
              fs_retained_proposal = (case proposal of Some t \<Rightarrow> Some t
                | None \<Rightarrow> (case previous of None \<Rightarrow> None | Some s \<Rightarrow> fs_retained_proposal s)),
              fs_portfolio = portfolio_of states\<rparr>
        in bindE (check_modules_state strategy state) (\<lambda>_.
           bindE (validate_retentions retentions) (\<lambda>_.
           Inr \<lparr>dec_state = state, dec_target = target, dec_diagnostics = diagnostics,
                dec_framework = Some \<lparr>fe_universe = universe, fe_alpha = alpha, fe_proposal = proposal, fe_risk = risk,
                  fe_retentions = retentions\<rparr>\<rparr>)))))))"

section \<open>Continuations\<close>

definition validate_continuation_cycles :: "take_profit_tier list \<Rightarrow> positions \<Rightarrow> cycles \<Rightarrow> py_error + unit" where
  "validate_continuation_cycles tiers ps cycles =
     raiseIf (\<exists>(item, c)\<in>set cycles. case map_of ps item of None \<Rightarrow> True
        | Some p \<Rightarrow> length tiers \<le> cyc_highest_tier c \<or> cyc_started_session c \<noteq> holding_cycle_started_session p \<or>
            cyc_last_shares c \<noteq> execution_shares p \<or> cyc_last_units c \<noteq> canon (adjusted_units p))
       (ValueError ''Take-profit continuation differs from its actual holding cycle'')"

text \<open>The facts of the risk module at the last session of the continuation.\<close>

definition validate_continuation :: "'p framework_strategy \<Rightarrow> 'p module_state framework_state \<Rightarrow> string \<Rightarrow> int \<Rightarrow> dec \<Rightarrow> positions
    \<Rightarrow> py_error + unit" where
  "validate_continuation strategy s session completed_sessions close_nav ps =
     (case fm_risk (fst_modules strategy) of
        BuiltinRisk risk \<Rightarrow>
          bindE (check_modules_state strategy s) (\<lambda>_.
          bindE (raiseIf (fs_contract_checksum s \<noteq> fst_checksum strategy)
                   (ValueError ''Framework state differs from the frozen modules'')) (\<lambda>_.
          bindE (risk_state_of (map_of (fs_module_states s) ''risk_management'')) (\<lambda>r.
          bindE (raiseIf ((rs_cycles r \<noteq> None) \<noteq> (br_take_profit_tiers risk \<noteq> []) \<or>
                     (rs_drawdown r \<noteq> None) \<noteq> (br_portfolio_drawdown risk \<noteq> None))
                   (ValueError ''Builtin risk checkpoint differs from configured policies'')) (\<lambda>_.
          bindE (case rs_drawdown r of None \<Rightarrow> Inr ()
                 | Some d \<Rightarrow> bindE (validate_drawdown_state d) (\<lambda>_. validate_drawdown_boundary session completed_sessions close_nav d)) (\<lambda>_.
          case rs_cycles r of None \<Rightarrow> Inr ()
          | Some cycles \<Rightarrow> bindE (validate_cycles cycles) (\<lambda>_.
              validate_continuation_cycles (br_take_profit_tiers risk) ps cycles))))))
      | _ \<Rightarrow> Inr ())"

section \<open>Limits\<close>

lemma merge_limits_simps [simp]:
  "merge_limits limits [] = limits"
  "merge_limits limits ((i, m) # extra) = merge_limits (AList.update i (case map_of limits i of None \<Rightarrow> m | Some k \<Rightarrow> min m k) limits) extra"
  by (simp_all add: merge_limits_def)

lemma merge_limits_keeps: "map_of limits i = Some m \<Longrightarrow> \<exists>k\<le>m. map_of (merge_limits limits extra) i = Some k"
proof (induction extra arbitrary: limits m)
  case Nil
  then show ?case by simp
next
  case (Cons x extra)
  obtain j n where x: "x = (j, n)" by (cases x)
  let ?next = "AList.update j (case map_of limits j of None \<Rightarrow> n | Some k \<Rightarrow> min n k) limits"
  obtain k where "map_of ?next i = Some k" "k \<le> m" using Cons.prems by (cases "i = j") (auto simp: update_conv)
  then show ?case using Cons.IH [of ?next k] by (auto simp: x)
qed

lemma merge_limits_adds: "(i, m) \<in> set extra \<Longrightarrow> \<exists>k\<le>m. map_of (merge_limits limits extra) i = Some k"
proof (induction extra arbitrary: limits)
  case Nil
  then show ?case by simp
next
  case (Cons x extra)
  obtain j n where x: "x = (j, n)" by (cases x)
  let ?next = "AList.update j (case map_of limits j of None \<Rightarrow> n | Some k \<Rightarrow> min n k) limits"
  show ?case
  proof (cases "(i, m) = (j, n)")
    case True
    then have "\<exists>k\<le>m. map_of ?next i = Some k" by (cases "map_of limits j") (auto simp: update_conv)
    then obtain k where k: "k \<le> m" "map_of ?next i = Some k" by blast
    then show ?thesis using merge_limits_keeps [OF k(2), of extra] by (auto simp: x)
  next
    case False
    then have "(i, m) \<in> set extra" using Cons.prems by (simp add: x del: prod.inject)
    then show ?thesis using Cons.IH [of ?next] by (simp add: x)
  qed
qed

lemma update_set: "(i, m) \<in> set (AList.update j n xs) \<Longrightarrow> (i, m) = (j, n) \<or> (i, m) \<in> set xs"
  by (induction xs) (auto split: if_splits)

lemma merge_limits_all:
  assumes "\<And>i m. (i, m) \<in> set limits \<Longrightarrow> P i m" and "\<And>i m. (i, m) \<in> set extra \<Longrightarrow> P i m"
  shows "(i, m) \<in> set (merge_limits limits extra) \<Longrightarrow> P i m"
  using assms
proof (induction extra arbitrary: limits)
  case Nil
  then show ?case by simp
next
  case (Cons x extra)
  obtain j n where x: "x = (j, n)" by (cases x)
  let ?next = "AList.update j (case map_of limits j of None \<Rightarrow> n | Some k \<Rightarrow> min n k) limits"
  have jn: "P j n" using Cons.prems(3) [of j n] by (simp add: x)
  have "P a b" if ab: "(a, b) \<in> set ?next" for a b
  proof -
    consider "(a, b) = (j, case map_of limits j of None \<Rightarrow> n | Some k \<Rightarrow> min n k)" | "(a, b) \<in> set limits"
      using update_set [OF ab] by blast
    then show ?thesis
    proof cases
      case 1
      then show ?thesis using jn Cons.prems(2) by (cases "map_of limits j") (auto simp: min_def dest: map_of_SomeD split: if_splits)
    qed (rule Cons.prems(2))
  qed
  moreover have "P a b" if "(a, b) \<in> set extra" for a b using that Cons.prems(3) by simp
  ultimately show ?case using Cons.IH [of ?next] Cons.prems(1) by (simp add: x)
qed

definition sells :: "observation \<Rightarrow> string option" where
  "sells x = (case x of StopLoss s \<Rightarrow> Some (slo_instrument_id s) | MaximumHoldingPeriod e \<Rightarrow> Some (exo_instrument_id e) | _ \<Rightarrow> None)"

lemma sold_out_loop:
  "foldl (\<lambda>d x. case x of StopLoss s \<Rightarrow> AList.update (slo_instrument_id s) 0 d
       | MaximumHoldingPeriod e \<Rightarrow> AList.update (exo_instrument_id e) 0 d | _ \<Rightarrow> d) d xs
     = merge_sales (map sells xs) d" if "merge_sales = fold (\<lambda>x d. case x of None \<Rightarrow> d | Some i \<Rightarrow> AList.update i (0 :: int) d)"
  unfolding that by (induction xs arbitrary: d) (auto simp: sells_def split: observation.splits)

lemma sold_out_fold: "sold_out xs = fold (\<lambda>x d. case x of None \<Rightarrow> d | Some i \<Rightarrow> AList.update i 0 d) (map sells xs) []"
  by (simp add: sold_out_def sold_out_loop [OF refl])

lemma sales_fold:
  fixes d :: "(string \<times> int) list"
  shows "map_of (fold (\<lambda>x d. case x of None \<Rightarrow> d | Some i \<Rightarrow> AList.update i 0 d) xs d) i
      = (if Some i \<in> set xs then Some 0 else map_of d i)"
    and "(i, m) \<in> set (fold (\<lambda>x d. case x of None \<Rightarrow> d | Some i \<Rightarrow> AList.update i 0 d) xs d) \<Longrightarrow> m = 0 \<and> Some i \<in> set xs \<or> (i, m) \<in> set d"
proof -
  show "map_of (fold (\<lambda>x d. case x of None \<Rightarrow> d | Some i \<Rightarrow> AList.update i 0 d) xs d) i
      = (if Some i \<in> set xs then Some 0 else map_of d i)"
    by (induction xs arbitrary: d) (auto simp: update_conv split: option.splits)
  show "(i, m) \<in> set (fold (\<lambda>x d. case x of None \<Rightarrow> d | Some i \<Rightarrow> AList.update i 0 d) xs d) \<Longrightarrow> m = 0 \<and> Some i \<in> set xs \<or> (i, m) \<in> set d"
    by (induction xs arbitrary: d) (force split: option.splits dest: update_set)+
qed

lemma sold_out_iff: "map_of (sold_out xs) i = (if Some i \<in> sells ` set xs then Some 0 else None)"
  by (simp add: sold_out_fold sales_fold)

lemma sold_out_zero: "(i, m) \<in> set (sold_out xs) \<Longrightarrow> m = 0 \<and> Some i \<in> sells ` set xs"
  using sales_fold(2) [of i m "map sells xs" "[]"] by (simp add: sold_out_fold)

section \<open>The builtin risk module\<close>

definition limits_of :: "pending_target option \<Rightarrow> (string \<times> int) list" where
  "limits_of target = (case target of None \<Rightarrow> [] | Some t \<Rightarrow> pt_position_limits t)"

definition cap_of :: "pending_target option \<Rightarrow> pydec option" where
  "cap_of target = (case target of None \<Rightarrow> None | Some t \<Rightarrow> pt_maximum_stock_exposure t)"

definition allocation_of :: "pending_target option \<Rightarrow> target_allocation option" where
  "allocation_of target = (case target of None \<Rightarrow> None | Some t \<Rightarrow> pt_allocation t)"

text \<open>A holding the module sells: its maximum age is reached or its loss exceeds the threshold.\<close>

definition due_for_sale :: "builtin_risk \<Rightarrow> string \<times> position \<Rightarrow> bool" where
  "due_for_sale risk held \<longleftrightarrow>
     (case br_maximum_holding_sessions risk of None \<Rightarrow> False | Some n \<Rightarrow> n \<le> holding_age (snd held)) \<or>
     (case br_stop_loss_threshold risk of None \<Rightarrow> False | Some x \<Rightarrow> stop_loss_of x held \<noteq> Inr [])"

lemma stop_loss_of_shape: "stop_loss_of x (item, p) = Inr rows \<Longrightarrow> rows \<noteq> [] \<Longrightarrow> \<exists>s. rows = [StopLoss s] \<and> slo_instrument_id s = item"
  unfolding stop_loss_of_def Let_def prod.case by (elim bindE_InrE; (simp split: if_splits)?; (elim bindE_InrE)?; (simp split: if_splits)?; (elim bindE_InrE)?; auto)

lemma holding_observations_sell:
  assumes "holding_observations risk ps = Inr rows"
  shows "(i, p) \<in> set ps \<Longrightarrow> due_for_sale risk (i, p) \<Longrightarrow> Some i \<in> sells ` set rows"
    and "Some i \<in> sells ` set rows \<Longrightarrow> i \<in> fst ` set ps"
proof -
  obtain losses where losses: "stop_loss_observations risk ps = Inr losses"
    and rows: "rows = losses @ (case br_maximum_holding_sessions risk of None \<Rightarrow> []
        | Some n \<Rightarrow> map (\<lambda>(item, p). MaximumHoldingPeriod \<lparr>exo_instrument_id = item,
              exo_execution_shares = execution_shares p, exo_holding_age = holding_age p,
              exo_maximum_holding_sessions = n\<rparr>) (filter (\<lambda>(item, p). n \<le> holding_age p) ps))"
    using assms by (auto simp: holding_observations_def elim!: bindE_InrE)
  show "Some i \<in> sells ` set rows" if held: "(i, p) \<in> set ps" and due: "due_for_sale risk (i, p)"
  proof (cases "\<exists>n. br_maximum_holding_sessions risk = Some n \<and> n \<le> holding_age p")
    case True
    then show ?thesis using held by (force simp: rows sells_def)
  next
    case False
    then obtain x where x: "br_stop_loss_threshold risk = Some x" "stop_loss_of x (i, p) \<noteq> Inr []"
      using due by (auto simp: due_for_sale_def split: option.splits)
    then obtain yss where yss: "mapE (stop_loss_of x) ps = Inr yss" "losses = concat yss"
      using losses by (auto simp: stop_loss_observations_def elim!: bindE_InrE)
    obtain ys where ys: "ys \<in> set yss" "stop_loss_of x (i, p) = Inr ys" using mapE_InrE(1) [OF yss(1) held] by blast
    then obtain s where "ys = [StopLoss s]" "slo_instrument_id s = i" using x(2) stop_loss_of_shape by blast
    then show ?thesis using ys(1) yss(2) by (force simp: rows sells_def)
  qed
  show "i \<in> fst ` set ps" if "Some i \<in> sells ` set rows"
  proof -
    obtain row where row: "row \<in> set rows" "sells row = Some i" using \<open>Some i \<in> sells ` set rows\<close> by force
    show ?thesis
    proof (cases "row \<in> set losses")
      case True
      then obtain x yss where yss: "mapE (stop_loss_of x) ps = Inr yss" "losses = concat yss"
        using losses by (auto simp: stop_loss_observations_def split: option.splits elim!: bindE_InrE)
      then obtain ys where ys: "ys \<in> set yss" "row \<in> set ys" using True by auto
      then obtain j p where jp: "(j, p) \<in> set ps" "stop_loss_of x (j, p) = Inr ys" using mapE_InrE(2) [OF yss(1)] by fastforce
      then have "j = i" using stop_loss_of_shape [OF jp(2)] ys(2) row(2) by (fastforce simp: sells_def)
      then show ?thesis using jp(1) by force
    next
      case False
      then show ?thesis using row by (force simp: rows sells_def split: option.splits)
    qed
  qed
qed

text \<open>What the policies may assume of the account and of the cycles they kept.\<close>

definition account_ok :: "builtin_risk \<Rightarrow> positions \<Rightarrow> risk_state \<Rightarrow> bool" where
  "account_ok risk ps r \<longleftrightarrow> distinct (map fst ps) \<and> list_all (holding_ok \<circ> snd) ps \<and>
     list_all (\<lambda>tier. dval (tier_cumulative_reduction tier) \<le> 1) (br_take_profit_tiers risk) \<and>
     (case rs_cycles r of None \<Rightarrow> True | Some cycles \<Rightarrow> list_all (\<lambda>(i, c). fits ACCOUNTING_CONTEXT (dval (cyc_executed_units c))) cycles)"

definition reduces :: "positions \<Rightarrow> string \<Rightarrow> int \<Rightarrow> bool" where
  "reduces ps i m \<longleftrightarrow> (case map_of ps i of None \<Rightarrow> False | Some p \<Rightarrow> 0 \<le> m \<and> m \<le> execution_shares p)"

lemma sold_out_reduces:
  assumes "holding_observations risk ps = Inr rows" and "account_ok risk ps r" and "(i, m) \<in> set (sold_out rows)"
  shows "reduces ps i m"
proof -
  have "i \<in> fst ` set ps" "m = 0"
    using holding_observations_sell(2) [OF assms(1)] sold_out_zero [OF assms(3)] by blast+
  then obtain p where p: "map_of ps i = Some p" by (auto simp: image_iff dest: weak_map_of_SomeI)
  then have "1 \<le> execution_shares p"
    using assms(2) by (fastforce simp: account_ok_def list_all_iff holding_ok_def dest: map_of_SomeD)
  then show ?thesis using p \<open>m = 0\<close> by (simp add: reduces_def)
qed

lemma take_profit_reduces:
  assumes "take_profit_decision (br_take_profit_tiers risk) ps previous executions = Inr (cycles, limits, rows)"
    and "account_ok risk ps r" and "kept_cycles r = Inr previous" and "(i, m) \<in> set limits"
  shows "reduces ps i m"
proof -
  have "\<forall>c\<in>set (map snd previous). fits ACCOUNTING_CONTEXT (dval (cyc_executed_units c))"
    using assms(2,3) by (fastforce simp: account_ok_def kept_cycles_def list_all_iff split: option.splits if_splits)
  then have "\<exists>p c. map_of ps i = Some p \<and> caps_holding (br_take_profit_tiers risk ! cyc_highest_tier c) c p m"
    using take_profit_capped [OF assms(1)] assms(2,4) by (fastforce simp: account_ok_def list_all_iff)
  then show ?thesis by (auto simp: reduces_def caps_holding_def)
qed

lemma take_profit_position_rows:
  "take_profit_position tiers previous sold held (state, limits, rows) = Inr (state', limits', rows')
    \<Longrightarrow> rows = [] \<longrightarrow> limits = [] \<Longrightarrow> rows' = [] \<longrightarrow> limits' = []"
  by (cases held) (auto simp: take_profit_position_def Let_def split: if_splits elim!: bindE_InrE)

lemma take_profit_rows:
  assumes "take_profit_decision tiers ps previous executions = Inr (cycles, limits, rows)" and "limits \<noteq> []"
  shows "rows \<noteq> []"
proof -
  have loop: "rows' = [] \<longrightarrow> limits' = []"
    if "foldE (take_profit_position tiers previous sold) ps (state, limits, rows) = Inr (state', limits', rows')" "rows = [] \<longrightarrow> limits = []"
    for sold and state state' :: cycles and limits limits' rows rows'
    using that
  proof (induction ps arbitrary: state limits rows)
    case (Cons x ps)
    obtain s l r where step: "take_profit_position tiers previous sold x (state, limits, rows) = Inr (s, l, r)"
      "foldE (take_profit_position tiers previous sold) ps (s, l, r) = Inr (state', limits', rows')"
      using Cons.prems(1) by (auto elim!: bindE_InrE)
    show ?case by (rule Cons.IH [OF step(2) take_profit_position_rows [OF step(1) Cons.prems(2)]])
  qed simp
  obtain state limits' seen ended where "foldE (take_profit_position tiers previous (sold_quantities executions)) ps ([], [], []) = Inr (state, limits', seen)"
    "limits = limits'" "rows = seen @ ended"
    using assms(1) by (auto simp: take_profit_decision_def Let_def elim!: bindE_InrE)
  then show ?thesis using loop assms(2) by fastforce
qed

lemma holding_risk_reduces:
  assumes risk: "holding_risk risk account executions r = Inr (rows, limits, r')" and ok: "account_ok risk (view_positions account) r"
  shows "(i, m) \<in> set limits \<Longrightarrow> reduces (view_positions account) i m"
    and "held \<in> set (view_positions account) \<Longrightarrow> due_for_sale risk held \<Longrightarrow> \<exists>k\<le>0. map_of limits (fst held) = Some k"
    and "limits \<noteq> [] \<Longrightarrow> rows \<noteq> []"
proof -
  obtain xs where xs: "holding_observations risk (view_positions account) = Inr xs"
    and shape: "rows = xs \<and> limits = sold_out xs \<or> (\<exists>previous cycles extra ys. kept_cycles r = Inr previous \<and>
      take_profit_decision (br_take_profit_tiers risk) (view_positions account) previous executions = Inr (cycles, extra, ys) \<and>
      rows = xs @ ys \<and> limits = merge_limits (sold_out xs) extra)"
    using risk by (auto simp: holding_risk_def split: if_splits elim!: bindE_InrE)
  note sold = sold_out_reduces [OF xs ok]
  show "reduces (view_positions account) i m" if "(i, m) \<in> set limits"
    using shape
  proof (elim disjE exE conjE)
    fix previous cycles extra ys
    assume p: "kept_cycles r = Inr previous" "take_profit_decision (br_take_profit_tiers risk) (view_positions account) previous executions = Inr (cycles, extra, ys)"
      and l: "limits = merge_limits (sold_out xs) extra"
    show ?thesis
      using merge_limits_all [where P = "reduces (view_positions account)", OF sold take_profit_reduces [OF p(2) ok p(1)]] that l by blast
  qed (use that sold in blast)
  show "\<exists>k\<le>0. map_of limits (fst held) = Some k" if "held \<in> set (view_positions account)" "due_for_sale risk held"
  proof -
    have "Some (fst held) \<in> sells ` set xs" using holding_observations_sell(1) [OF xs, of "fst held" "snd held"] that by simp
    then have "map_of (sold_out xs) (fst held) = Some 0" by (simp add: sold_out_iff)
    then show ?thesis using shape merge_limits_keeps by fastforce
  qed
  show "rows \<noteq> []" if "limits \<noteq> []"
  proof -
    have "xs = [] \<Longrightarrow> sold_out xs = []" by (simp add: sold_out_def)
    then show ?thesis using shape that take_profit_rows by fastforce
  qed
qed

lemma drawdown_risk_cap:
  assumes "drawdown_risk risk daily proposal r = Inr (rows, cap, r')"
  shows "cap_of proposal = Some (Finite x) \<Longrightarrow> \<exists>y. cap = Some (Finite y) \<and> dval y \<le> dval x"
    and "cap \<noteq> None \<Longrightarrow> cap_of proposal = None \<Longrightarrow> rows \<noteq> []"
  using assms by (auto simp: drawdown_risk_def cap_of_def lower_cap_def dlt_val Let_def not_less less_imp_le
      split: option.splits if_splits elim!: bindE_InrE) (metis order_refl)

definition pending_ok :: "engine \<Rightarrow> positions \<Rightarrow> pending_target option \<Rightarrow> bool" where
  "pending_ok en ps target \<longleftrightarrow> (case target of None \<Rightarrow> True | Some t \<Rightarrow> check_pending en ps t = Inr ())"

lemma pending_ok_iff:
  "pending_ok en ps (Some t) \<longleftrightarrow> validate_pending_target t = Inr () \<and>
     (\<forall>i\<in>set (pt_instrument_ids t). instruments (en_market en) i \<noteq> None) \<and>
     (\<forall>(i, m)\<in>set (pt_position_limits t). reduces ps i m)"
proof -
  have "0 \<le> m" if "validate_pending_target t = Inr ()" "(i, m) \<in> set (pt_position_limits t)" for i m
    using that by (force simp: validate_pending_target_def elim!: bindE_InrE)
  then show ?thesis
    by (auto simp: pending_ok_def check_pending_def reduces_def raiseIf_def not_less split: option.splits elim!: bindE_InrE)
qed

lemma pending_ok_limits: "pending_ok en ps proposal \<Longrightarrow> (i, m) \<in> set (limits_of proposal) \<Longrightarrow> reduces ps i m"
  by (cases proposal) (auto simp: limits_of_def pending_ok_iff)

text \<open>The target of the module: its own, with the limits of the proposal merged, or the proposal itself.\<close>

lemma builtin_risk_target_shape:
  assumes "builtin_risk_target session checksum proposal rows limits cap = Inr (target, evidence)"
    and "cap = None \<or> rows \<noteq> [] \<or> cap = cap_of proposal" "limits \<noteq> [] \<Longrightarrow> rows \<noteq> []"
  shows "target = proposal \<and> limits = [] \<and> cap = cap_of proposal \<or>
    target = proposal \<and> limits = [] \<and> cap = None \<or>
    (\<exists>t. target = Some t \<and> validate_pending_target t = Inr () \<and> pt_allocation t = allocation_of proposal \<and>
      pt_position_limits t = merge_limits (limits_of proposal) limits \<and> pt_maximum_stock_exposure t = cap)"
  using assms by (auto simp: builtin_risk_target_def Let_def allocation_of_def limits_of_def split: if_splits elim!: bindE_InrE)

lemma merged_target_ok:
  assumes proposal: "pending_ok en ps proposal" and known: "\<forall>i\<in>set (map fst ps). instruments (en_market en) i \<noteq> None"
    and sold: "\<And>i m. (i, m) \<in> set limits \<Longrightarrow> reduces ps i m"
    and t: "validate_pending_target t = Inr ()" "pt_allocation t = allocation_of proposal"
      "pt_position_limits t = merge_limits (limits_of proposal) limits"
  shows "(i, m) \<in> set (pt_position_limits t) \<Longrightarrow> reduces ps i m" and "pending_ok en ps (Some t)"
proof -
  have all: "reduces ps i m" if im: "(i, m) \<in> set (pt_position_limits t)" for i m
    by (rule merge_limits_all [OF _ _ im [unfolded t(3)]]) (simp_all add: pending_ok_limits [OF proposal] sold)
  then show "(i, m) \<in> set (pt_position_limits t) \<Longrightarrow> reduces ps i m" .
  have held: "instruments (en_market en) i \<noteq> None" if "reduces ps i m" for i m
    using that known by (force simp: reduces_def split: option.splits dest: map_of_SomeD)
  have alloc: "set (pt_instrument_ids t) \<subseteq> set (map fst (pt_position_limits t)) \<union> (case proposal of None \<Rightarrow> {} | Some p \<Rightarrow> set (pt_instrument_ids p))"
    using t(2) by (auto simp: pt_instrument_ids_def allocation_of_def split: option.splits)
  have "instruments (en_market en) i \<noteq> None" if i: "i \<in> set (pt_instrument_ids t)" for i
  proof (cases "i \<in> set (map fst (pt_position_limits t))")
    case True
    then show ?thesis using all held by fastforce
  next
    case False
    then obtain p where p: "proposal = Some p" "i \<in> set (pt_instrument_ids p)" using alloc i by (cases proposal) auto
    then show ?thesis using proposal by (simp add: pending_ok_iff)
  qed
  then show "pending_ok en ps (Some t)" using all t(1) unfolding pending_ok_iff by blast
qed

text \<open>
  C37: The builtin risk module only reduces risk, and what it proposes can be traded. If the proposal of
  the portfolio is accepted at the next Open then so is the target the module returns. It keeps the
  allocation; a limit of the proposal is never raised or dropped; a holding whose maximum age or loss is
  reached is limited to zero, whatever the take-profit policy would leave of it; every limit is one of an
  actual holding and leaves at most its shares; and the exposure cap is at most the one of the proposal.
\<close>

theorem risk_target_executable:
  assumes "builtin_risk_stage risk daily checksum proposal r = Inr (target, evidence, r')"
    and "account_ok risk (view_positions (di_account daily)) r"
    and "\<forall>i\<in>set (map fst (view_positions (di_account daily))). instruments (en_market en) i \<noteq> None"
    and "pending_ok en (view_positions (di_account daily)) proposal"
  shows "pending_ok en (view_positions (di_account daily)) target \<and> allocation_of target = allocation_of proposal \<and>
    (\<forall>i m. map_of (limits_of proposal) i = Some m \<longrightarrow> (\<exists>k\<le>m. map_of (limits_of target) i = Some k)) \<and>
    (\<forall>held\<in>set (view_positions (di_account daily)). due_for_sale risk held \<longrightarrow> map_of (limits_of target) (fst held) = Some 0) \<and>
    (\<forall>(i, m)\<in>set (limits_of target). reduces (view_positions (di_account daily)) i m) \<and>
    (case cap_of proposal of Some (Finite x) \<Rightarrow> \<exists>y. cap_of target = Some (Finite y) \<and> dval y \<le> dval x | _ \<Rightarrow> True)"
proof -
  let ?ps = "view_positions (di_account daily)"
  obtain rows limits r1 where holding: "holding_risk risk (di_account daily) (di_fills daily) r = Inr (rows, limits, r1)"
    and rest: "bindE (drawdown_risk risk daily proposal r1) (\<lambda>(printed, exposure_cap, r).
      bindE (builtin_risk_target (di_session daily) checksum proposal (rows @ printed) limits exposure_cap) (\<lambda>(target, evidence).
      Inr (target, evidence, r))) = Inr (target, evidence, r')"
    using assms(1) unfolding builtin_risk_stage_def by (elim bindE_InrE) auto
  obtain printed cap r2 where drawdown: "drawdown_risk risk daily proposal r1 = Inr (printed, cap, r2)"
    and built: "builtin_risk_target (di_session daily) checksum proposal (rows @ printed) limits cap = Inr (target, evidence)"
    using rest by (elim bindE_InrE) (auto elim!: bindE_InrE)
  note sold = holding_risk_reduces [OF holding assms(2)]
  have cap: "cap = None \<or> rows @ printed \<noteq> [] \<or> cap = cap_of proposal"
    using drawdown by (auto simp: drawdown_risk_def cap_of_def Let_def split: option.splits elim!: bindE_InrE)
  have "limits \<noteq> [] \<Longrightarrow> rows @ printed \<noteq> []" using sold(3) by simp
  note shape = builtin_risk_target_shape [OF built cap this]
  have keep: "\<not> due_for_sale risk held" if "held \<in> set ?ps" "limits = []" for held
    using sold(2) [OF that(1)] that(2) by fastforce
  consider "target = proposal" "limits = []"
    | t where "target = Some t" "validate_pending_target t = Inr ()" "pt_allocation t = allocation_of proposal"
      "pt_position_limits t = merge_limits (limits_of proposal) limits" "pt_maximum_stock_exposure t = cap"
    using shape by blast
  then show ?thesis
  proof cases
    case 1
    then show ?thesis using keep assms(4) pending_ok_limits [OF assms(4)] by (auto split: option.splits pydec.splits)
  next
    case 2
    note merged = merged_target_ok [OF assms(4,3) sold(1) 2(2-4)]
    have all: "\<forall>(i, m)\<in>set (limits_of target). reduces ?ps i m" using merged(1) 2(1) by (auto simp: limits_of_def)
    have ok: "pending_ok en ?ps target" using merged(2) 2(1) by simp
    have sales: "map_of (limits_of target) (fst held) = Some 0" if held: "held \<in> set ?ps" "due_for_sale risk held" for held
    proof -
      obtain k where k: "k \<le> 0" "map_of limits (fst held) = Some k" using sold(2) [OF held] by blast
      obtain n where n: "n \<le> k" "map_of (limits_of target) (fst held) = Some n"
        using merge_limits_adds [OF map_of_SomeD [OF k(2)], of "limits_of proposal"] 2(1,4) by (auto simp: limits_of_def)
      have "0 \<le> n" using all map_of_SomeD [OF n(2)] by (fastforce simp: reduces_def split: option.splits)
      then show ?thesis using n k(1) by simp
    qed
    have "\<exists>k\<le>m. map_of (limits_of target) i = Some k" if "map_of (limits_of proposal) i = Some m" for i m
      using merge_limits_keeps [OF that, of limits] 2(1,4) by (simp add: limits_of_def)
    moreover have "allocation_of target = allocation_of proposal" using 2(1,3) by (simp add: allocation_of_def)
    moreover have "cap_of target = cap" using 2(1,5) by (simp add: cap_of_def)
    ultimately show ?thesis using ok sales all drawdown_risk_cap(1) [OF drawdown] by (auto split: option.splits pydec.splits)
  qed
qed

definition sample_risk :: builtin_risk where
  "sample_risk = \<lparr>br_stop_loss_threshold = Some (Dec 1 (- 1)), br_maximum_holding_sessions = Some 4,
     br_take_profit_tiers = sample_tiers, br_portfolio_drawdown = None\<rparr>"

definition sample_day :: daily_input where
  "sample_day = \<lparr>di_session = ''2024-01-09'', di_completed_sessions = 5,
     di_account = \<lparr>view_cash = Dec 1 6, view_post_open_net_nav = Dec 1 6, view_close_risk_nav = Dec 1 6,
       view_positions = [(''A'', sample_holding)]\<rparr>, di_fills = [], di_rejections = []\<rparr>"

definition sample_proposal :: pending_target where
  "sample_proposal = \<lparr>pt_decision_session = ''2024-01-09'', pt_execution = ''next_research_session_open'', pt_contract_checksum = ''c'',
     pt_reason = ''trim'', pt_allocation = None, pt_position_limits = [(''A'', 250)], pt_maximum_stock_exposure = Some (Finite (Dec 5 (- 1)))\<rparr>"

definition sample_risk_state :: risk_state where
  "sample_risk_state = \<lparr>rs_cycles = Some [(''A'', sample_cycle)], rs_drawdown = None\<rparr>"

lemma risk_target_executable_witness:
  "\<exists>target evidence r. builtin_risk_stage sample_risk sample_day ''c'' (Some sample_proposal) sample_risk_state = Inr (target, evidence, r) \<and>
     map_of (limits_of target) ''A'' = Some 0 \<and> (\<exists>y. cap_of target = Some (Finite y) \<and> dval y \<le> 1 / 2)"
proof -
  let ?run = "builtin_risk_stage sample_risk sample_day ''c'' (Some sample_proposal) sample_risk_state"
  let ?en = "sample_engine\<lparr>en_market := closing_market\<lparr>instruments := \<lambda>_. Some \<lparr>profile_board = ''main'', profile_listed_to = None\<rparr>\<rparr>\<rparr>"
  have "\<not> isl ?run" by code_simp
  then obtain target evidence r where run: "?run = Inr (target, evidence, r)" by (cases ?run) auto
  have "fits ACCOUNTING_CONTEXT (dval (cyc_executed_units sample_cycle))" using fits_int [of 0] by (simp add: sample_cycle_def)
  then have account: "account_ok sample_risk (view_positions (di_account sample_day)) sample_risk_state"
    by (simp add: account_ok_def sample_day_def sample_risk_def sample_risk_state_def sample_tiers_def sample_holding_def
        holding_ok_def power_int_minus)
  have known: "\<forall>i\<in>set (map fst (view_positions (di_account sample_day))). instruments (en_market ?en) i \<noteq> None" by simp
  have "validate_pending_target sample_proposal = Inr ()" by code_simp
  then have pending: "pending_ok ?en (view_positions (di_account sample_day)) (Some sample_proposal)"
    by (simp add: pending_ok_iff reduces_def sample_day_def sample_proposal_def sample_holding_def)
  have due: "(''A'', sample_holding) \<in> set (view_positions (di_account sample_day))" "due_for_sale sample_risk (''A'', sample_holding)"
    by (simp_all add: sample_day_def due_for_sale_def sample_risk_def sample_holding_def)
  show ?thesis
    using risk_target_executable [OF run account known pending] due run
    by (fastforce simp: cap_of_def sample_proposal_def power_int_minus)
qed

section \<open>Continuing a run\<close>

lemma fail_stage_Inr: "fail_stage stage m = Inr x \<longleftrightarrow> m = Inr x"
  by (cases m) (simp_all add: fail_stage_def mapErr_def)

lemma update_selection_session: "update_selection volatility digest f session xs windows retained = Inr (s, rows) \<Longrightarrow> sel_signal_session s = session"
  by (auto simp: update_selection_def Let_def elim!: bindE_InrE)

lemma builtin_decide_sessions:
  assumes "builtin_decide volatility digest f session n xs windows exposure previous ps = Inr d"
  shows "fd_target d = Some t \<Longrightarrow> pt_decision_session t = session"
    and "sel_signal_session (bs_selection (fd_state d)) = session \<or>
      (\<exists>b. previous = Some b \<and> bs_selection (fd_state d) = bs_selection b)"
  using assms by (auto simp: builtin_decide_def builtin_target_def Let_def update_selection_session
      split: option.splits if_splits elim!: bindE_InrE)

lemma prepared_decide_sessions:
  assumes "prepared_decide volatility digest p session n xs previous ps = Inr d"
  shows "fd_target d = Some t \<Longrightarrow> pt_decision_session t = session"
    and "sel_signal_session (bs_selection (fd_state d)) = session \<or>
      (\<exists>b. previous = Some b \<and> bs_selection (fd_state d) = bs_selection b)"
proof -
  obtain state windows exposure where restored: "restore_portfolio p session previous = Inr state"
    and d: "builtin_decide volatility digest (pp_policy p) session n xs windows exposure state ps = Inr d"
    using assms by (auto simp: prepared_decide_def elim!: bindE_InrE)
  show "fd_target d = Some t \<Longrightarrow> pt_decision_session t = session" by (rule builtin_decide_sessions(1) [OF d])
  have "\<exists>b. previous = Some b \<and> bs_selection c = bs_selection b" if "state = Some c" for c
    using restored that by (auto simp: restore_portfolio_def split: option.splits elim!: bindE_InrE)
  then show "sel_signal_session (bs_selection (fd_state d)) = session \<or> (\<exists>b. previous = Some b \<and> bs_selection (fd_state d) = bs_selection b)"
    using builtin_decide_sessions(2) [OF d] by fastforce
qed

text \<open>The signals a stage leaves: those of the session, and the earlier ones that have not expired.\<close>

definition signal_live :: "string \<Rightarrow> int \<Rightarrow> active_signal \<Rightarrow> bool" where
  "signal_live session n x \<longleftrightarrow> \<not> session < sig_created_session x \<and> \<not> n < sig_created_session_number x \<and> \<not> signal_expired n x"

lemma new_signal_live: "1 \<le> valid \<Longrightarrow> signal_live session n (new_signal session n valid i x)"
  by (simp add: signal_live_def new_signal_def signal_expired_def)

lemma later_signal_live: "signal_live before n x \<Longrightarrow> before < session \<Longrightarrow> \<not> signal_expired (n + 1) x \<Longrightarrow> signal_live session (n + 1) x"
  by (auto simp: signal_live_def)

lemma age_signals_live:
  "\<forall>x\<in>set (vw_signals view). signal_live before n x \<Longrightarrow> before < session
    \<Longrightarrow> \<forall>x\<in>set (vw_signals (age_signals (n + 1) view)). signal_live session (n + 1) x"
  by (auto simp: age_signals_def Let_def intro: later_signal_live)

lemma universe_stage_portfolio:
  "universe_stage strategy view daily states diagnostics = Inr (evidence, states', diagnostics')
    \<Longrightarrow> map_of states' ''portfolio_construction'' = map_of states ''portfolio_construction''"
  by (auto simp: universe_stage_def Let_def fail_stage_Inr update_conv split: program_result.splits if_splits elim!: bindE_InrE)

lemma risk_stage_portfolio:
  "risk_stage strategy view daily target states diagnostics = Inr (target', evidence, states', diagnostics')
    \<Longrightarrow> map_of states' ''portfolio_construction'' = map_of states ''portfolio_construction''"
  by (auto simp: risk_stage_def Let_def fail_stage_Inr update_conv split: risk_module.splits if_splits elim!: bindE_InrE)

lemma signals_stage_result:
  assumes run: "signals_stage strategy view daily states diagnostics = Inr (evidence, view', states', diagnostics')"
    and aged: "\<forall>x\<in>set (vw_signals (age_signals (di_completed_sessions daily) view)). signal_live (di_session daily) (di_completed_sessions daily) x"
  shows "map_of states' ''portfolio_construction'' = map_of states ''portfolio_construction''"
    and "\<forall>x\<in>set (vw_signals view'). signal_live (di_session daily) (di_completed_sessions daily) x"
proof -
  have valid: "1 \<le> sv_valid_for_sessions x" if "validate_signal_update u = Inr ()" "x \<in> set (su_signals u)" for u x
    using that by (force simp: validate_signal_update_def elim!: bindE_InrE)
  show "map_of states' ''portfolio_construction'' = map_of states ''portfolio_construction''"
    using run by (auto simp: signals_stage_def Let_def fail_stage_Inr update_conv split: program_result.splits if_splits elim!: bindE_InrE)
  show "\<forall>x\<in>set (vw_signals view'). signal_live (di_session daily) (di_completed_sessions daily) x"
    using run aged by (auto simp: signals_stage_def Let_def fail_stage_Inr valid new_signal_live
        split: program_result.splits if_splits elim!: bindE_InrE)
qed

lemma portfolio_stage_result:
  assumes "portfolio_stage volatility digest strategy view daily states diagnostics = Inr (target, states', diagnostics')"
  shows "target = Some t \<Longrightarrow> pt_decision_session t = di_session daily"
    and "fm_portfolio (fst_modules strategy) \<noteq> PortfolioProgram \<Longrightarrow> \<exists>b. portfolio_of states' = Some b \<and>
      (sel_signal_session (bs_selection b) = di_session daily \<or>
       (\<exists>c. portfolio_of states = Some c \<and> bs_selection b = bs_selection c))"
proof -
  have program: "pt_decision_session t = di_session daily"
    if "program_target out ctx checksum = Inr (Some t)" "stage_context strategy view daily = Inr ctx" for out ctx checksum t
    using that by (auto simp: program_target_def stage_context_def Let_def split: option.splits elim!: bindE_InrE)
  show "pt_decision_session t = di_session daily" if "target = Some t"
    using assms that by (auto simp: portfolio_stage_def fail_stage_Inr split: if_splits elim!: bindE_InrE
        dest: program prepared_decide_sessions(1))
  assume builtin: "fm_portfolio (fst_modules strategy) \<noteq> PortfolioProgram"
  then obtain previous xs d where d: "retained_portfolio (map_of states ''portfolio_construction'') = Inr previous"
    "prepared_decide volatility digest (fst_portfolio strategy) (di_session daily) (di_completed_sessions daily - 1) xs previous
      (view_positions (di_account daily)) = Inr d" "states' = AList.update ''portfolio_construction'' (PortfolioState (fd_state d)) states"
    using assms by (auto simp: portfolio_stage_def elim!: bindE_InrE)
  have "portfolio_of states' = Some (fd_state d)" using d(3) by (simp add: portfolio_of_def update_conv)
  moreover have "portfolio_of states = previous" using d(1)
    by (auto simp: retained_portfolio_def portfolio_of_def split: option.splits module_state.splits)
  ultimately show "\<exists>b. portfolio_of states' = Some b \<and> (sel_signal_session (bs_selection b) = di_session daily \<or>
       (\<exists>c. portfolio_of states = Some c \<and> bs_selection b = bs_selection c))"
    using prepared_decide_sessions(2) [OF d(2)] by auto
qed

text \<open>The states a run of consecutive sessions keeps, with the sessions completed.\<close>

definition next_session :: "'p framework_strategy \<Rightarrow> string \<Rightarrow> string \<Rightarrow> bool" where
  "next_session strategy before session \<longleftrightarrow>
     (\<exists>k. index_of (fst_sessions strategy) before = Inr k \<and> index_of (fst_sessions strategy) session = Inr (k + 1))"

inductive modules_run :: "(dec list \<Rightarrow> py_error + dec) \<Rightarrow> (string \<Rightarrow> candidate list \<Rightarrow> string) \<Rightarrow> 'p framework_strategy
    \<Rightarrow> string \<Rightarrow> int \<Rightarrow> 'p module_state framework_state \<Rightarrow> bool" for volatility digest strategy where
  first_decision: "framework_decide volatility digest strategy session 0 account executions refusals None = Inr d
    \<Longrightarrow> modules_run volatility digest strategy session 1 (dec_state d)"
| later_decision: "modules_run volatility digest strategy before n s \<Longrightarrow> next_session strategy before session
    \<Longrightarrow> framework_decide volatility digest strategy session n account executions refusals (Some s) = Inr d
    \<Longrightarrow> modules_run volatility digest strategy session (n + 1) (dec_state d)"

definition state_of_boundary :: "'p framework_strategy \<Rightarrow> string \<Rightarrow> int \<Rightarrow> 'p module_state framework_state \<Rightarrow> bool" where
  "state_of_boundary strategy session n s \<longleftrightarrow>
     fs_contract_checksum s = fst_checksum strategy \<and> fs_selection_interval s = module_interval strategy \<and>
     check_modules_state strategy s = Inr () \<and> fs_portfolio s = portfolio_of (fs_module_states s) \<and>
     (\<forall>x\<in>set (fs_signals s). signal_live session n x) \<and>
     (case fs_retained_proposal s of None \<Rightarrow> True | Some t \<Rightarrow> pt_decision_session t \<le> session) \<and>
     (fm_portfolio (fst_modules strategy) \<noteq> PortfolioProgram \<longrightarrow>
       (case fs_portfolio s of None \<Rightarrow> True | Some b \<Rightarrow> sel_signal_session (bs_selection b) \<le> session))"

lemma state_portfolio_contract:
  "validate_framework_state encoded encoded_state state_bytes s = Inr u \<Longrightarrow> builtin_portfolio s = Some b
    \<Longrightarrow> sel_contract_checksum (bs_selection b) = fs_contract_checksum s"
  unfolding validate_framework_state_def Let_def by (elim bindE_InrE) simp

lemma boundary_accepted:
  assumes "state_of_boundary strategy session n s"
  shows "validate_boundary session n s = Inr ()"
proof -
  note s = assms [unfolded state_of_boundary_def]
  have checked: "check_modules_state strategy s = Inr ()" using s by blast
  have portfolio: "validate_selection_boundary b session (fs_contract_checksum s) = Inr ()" if "builtin_portfolio s = Some b" for b
  proof -
    have "sel_contract_checksum (bs_selection b) = fs_contract_checksum s"
      using state_portfolio_contract [OF checked [unfolded check_modules_state_def] that] .
    moreover have "sel_signal_session (bs_selection b) \<le> session"
      using conjunct1 [OF conjunct2 [OF s]] conjunct2 [OF conjunct2 [OF s]] that
      by (auto simp: builtin_portfolio_def module_interval_def split: if_splits)
    ultimately show ?thesis by (simp add: validate_selection_boundary_def raiseIf_def leD)
  qed
  have signals: "\<not> (\<exists>x\<in>set (fs_signals s). session < sig_created_session x \<or> n < sig_created_session_number x \<or> signal_expired n x)"
    using s by (auto simp: signal_live_def)
  have proposal: "\<not> (case fs_retained_proposal s of None \<Rightarrow> False | Some t \<Rightarrow> session < pt_decision_session t)"
    using s by (auto split: option.splits)
  show ?thesis
    unfolding validate_boundary_def raiseIf_def
    using signals proposal portfolio by (cases "builtin_portfolio s") simp_all
qed

lemma decision_of_boundary:
  assumes run: "framework_decide volatility digest strategy session n account executions refusals previous = Inr d"
    and before: "case previous of None \<Rightarrow> True | Some s \<Rightarrow> before < session \<and> state_of_boundary strategy before n s"
  shows "state_of_boundary strategy session (n + 1) (dec_state d)"
proof -
  let ?daily = "\<lparr>di_session = session, di_completed_sessions = n + 1, di_account = account, di_fills = executions, di_rejections = refusals\<rparr>"
  let ?states = "case previous of None \<Rightarrow> initial_states strategy | Some s \<Rightarrow> fs_module_states s"
  obtain universe s1 d1 alpha view s2 d2 proposal s3 d3 target risk s4 d4 where
    stage1: "universe_stage strategy (first_view previous) ?daily ?states [] = Inr (universe, s1, d1)" and
    stage2: "signals_stage strategy ((first_view previous)\<lparr>vw_universe_changed := ue_instrument_ids universe \<noteq> vw_universe (first_view previous),
        vw_universe := ue_instrument_ids universe\<rparr>) ?daily s1 d1 = Inr (alpha, view, s2, d2)" and
    stage3: "portfolio_stage volatility digest strategy view ?daily s2 d2 = Inr (proposal, s3, d3)" and
    stage4: "risk_stage strategy (view\<lparr>vw_proposal := proposal\<rparr>) ?daily proposal s3 d3 = Inr (target, risk, s4, d4)" and
    state: "check_modules_state strategy (dec_state d) = Inr ()" "dec_state d = \<lparr>fs_contract_checksum = fst_checksum strategy,
        fs_selection_interval = module_interval strategy, fs_module_states = s4, fs_universe = ue_instrument_ids universe, fs_signals = vw_signals view,
        fs_retained_proposal = (case proposal of Some t \<Rightarrow> Some t
          | None \<Rightarrow> (case previous of None \<Rightarrow> None | Some s \<Rightarrow> fs_retained_proposal s)), fs_portfolio = portfolio_of s4\<rparr>"
    using run unfolding framework_decide_def Let_def by (elim bindE_InrE) (auto elim!: bindE_InrE)
  let ?view = "(first_view previous)\<lparr>vw_universe_changed := ue_instrument_ids universe \<noteq> vw_universe (first_view previous),
        vw_universe := ue_instrument_ids universe\<rparr>"
  have "\<forall>x\<in>set (vw_signals (age_signals (n + 1) ?view)). signal_live session (n + 1) x"
    using before age_signals_live [of ?view before n session]
    by (cases previous) (simp_all add: first_view_def age_signals_def Let_def state_of_boundary_def)
  then have aged: "\<forall>x\<in>set (vw_signals (age_signals (di_completed_sessions ?daily) ?view)). signal_live (di_session ?daily) (di_completed_sessions ?daily) x"
    by simp
  note signals = signals_stage_result [OF stage2 aged]
  have states: "portfolio_of s2 = portfolio_of ?states" "portfolio_of s4 = portfolio_of s3"
    using universe_stage_portfolio [OF stage1] signals(1) risk_stage_portfolio [OF stage4] by (simp_all add: portfolio_of_def)
  have earlier: "case previous of None \<Rightarrow> True | Some s \<Rightarrow> (case fs_retained_proposal s of None \<Rightarrow> True | Some t \<Rightarrow> pt_decision_session t \<le> session) \<and>
      (fm_portfolio (fst_modules strategy) \<noteq> PortfolioProgram \<longrightarrow>
        (case portfolio_of (fs_module_states s) of None \<Rightarrow> True | Some b \<Rightarrow> sel_signal_session (bs_selection b) \<le> session))"
    using before by (auto simp: state_of_boundary_def split: option.splits)
  have proposal: "case fs_retained_proposal (dec_state d) of None \<Rightarrow> True | Some t \<Rightarrow> pt_decision_session t \<le> session"
    using earlier portfolio_stage_result(1) [OF stage3] unfolding state(2) by (cases proposal; cases previous) simp_all
  have selection: "case portfolio_of s4 of None \<Rightarrow> True | Some b \<Rightarrow> sel_signal_session (bs_selection b) \<le> session"
    if builtin: "fm_portfolio (fst_modules strategy) \<noteq> PortfolioProgram"
  proof -
    obtain b where b: "portfolio_of s3 = Some b" "sel_signal_session (bs_selection b) = session \<or>
        (\<exists>c. portfolio_of s2 = Some c \<and> bs_selection b = bs_selection c)"
      using portfolio_stage_result(2) [OF stage3 builtin] by auto
    have "sel_signal_session (bs_selection b) \<le> session"
    proof (cases previous)
      case None
      then have "portfolio_of s2 = None" using states(1) by (simp add: portfolio_of_def initial_states_def Let_def)
      then show ?thesis using b(2) by simp
    next
      case (Some s)
      then show ?thesis using b(2) states(1) earlier builtin by auto
    qed
    then show ?thesis using b(1) states(2) by simp
  qed
  show ?thesis
    using state(1) signals(2) proposal selection unfolding state_of_boundary_def state(2) by simp
qed

lemma next_session_later:
  assumes "sorted_wrt (<) (fst_sessions strategy)" and "next_session strategy before session"
  shows "before < session"
proof -
  obtain k where "index_of (fst_sessions strategy) before = Inr k" "index_of (fst_sessions strategy) session = Inr (k + 1)"
    using assms(2) by (auto simp: next_session_def)
  then have "0 \<le> k" "before = fst_sessions strategy ! nat k" "session = fst_sessions strategy ! nat (k + 1)"
    "nat (k + 1) < length (fst_sessions strategy)"
    by (auto dest!: index_of_bounds)
  then show ?thesis using sorted_wrt_nth_less [OF assms(1), of "nat k" "nat (k + 1)"] by simp
qed

lemma modules_run_boundary:
  assumes "sorted_wrt (<) (fst_sessions strategy)"
  shows "modules_run volatility digest strategy session n s \<Longrightarrow> state_of_boundary strategy session n s"
proof (induction rule: modules_run.induct)
  case (first_decision session account executions refusals d)
  then show ?case using decision_of_boundary [OF first_decision] by simp
next
  case (later_decision before n s session account executions refusals d)
  then show ?case using decision_of_boundary [OF later_decision(3), of before] next_session_later [OF assms later_decision(2)] by simp
qed

text \<open>
  C38: A run of framework modules can always be continued. Whatever the programs return, the state a
  decision leaves is within its own contract and belongs to the session it was made at: no signal or
  proposal is from a later session, no signal has expired, the retained selection is not from the future
  and of the frozen contract. So the decision of the next session restores it without an error.
\<close>

theorem framework_state_accepted:
  assumes "modules_run volatility digest strategy session n s" and "sorted_wrt (<) (fst_sessions strategy)"
  shows "check_modules_state strategy s = Inr () \<and> validate_boundary session n s = Inr () \<and>
    (\<forall>x\<in>set (fs_signals s). sig_created_session x \<le> session \<and> sig_created_session_number x \<le> n \<and> \<not> signal_expired n x) \<and>
    (\<forall>session'. next_session strategy session session' \<longrightarrow> restore_modules strategy session' n (Some s) = Inr ())"
proof -
  have s: "state_of_boundary strategy session n s" by (rule modules_run_boundary [OF assms(2,1)])
  note accepted = boundary_accepted [OF s]
  have "restore_modules strategy session' n (Some s) = Inr ()" if later: "next_session strategy session session'" for session'
  proof -
    obtain k where k: "index_of (fst_sessions strategy) session = Inr k" "index_of (fst_sessions strategy) session' = Inr (k + 1)"
      using later by (auto simp: next_session_def)
    then have "py_nth (fst_sessions strategy) k = session" using index_of_bounds [OF k(1)] by (simp add: py_nth_def)
    then show ?thesis using s accepted k(2) by (simp add: restore_modules_def state_of_boundary_def)
  qed
  then show ?thesis using s accepted by (auto simp: state_of_boundary_def signal_live_def not_less)
qed

text \<open>An alpha program that counts its days and signals one instrument on the first; the risk module is builtin.\<close>

definition sample_programs :: "nat stage_programs" where
  "sample_programs = \<lparr>run_universe = (\<lambda>_ _ p. Inr (NoUpdate, p, [])),
     run_alpha = (\<lambda>_ _ p. Inr (if p = 0 then Update \<lparr>su_reason = ''start'',
         su_signals = [\<lparr>sv_instrument_id = ''a'', sv_value = Dec 7 0, sv_valid_for_sessions = 2\<rparr>]\<rparr> else NoUpdate, Suc p, [])),
     run_portfolio = (\<lambda>_ _ p. Inr (None, p, [])), run_risk = (\<lambda>_ _ p. Inr (NoUpdate, p, []))\<rparr>"

definition sample_modules :: "nat framework_strategy" where
  "sample_modules = \<lparr>fst_modules = \<lparr>fm_universe_program = False, fm_alpha_program = True, fm_portfolio = PeriodicTopN,
       fm_risk = BuiltinRisk sample_risk\<rparr>,
     fst_programs = sample_programs, fst_initial = 0, fst_portfolio = bst_portfolio sample_strategy,
     fst_checksum = bf_contract_checksum sample_framework, fst_sessions = [''2024-01-02'', ''2024-01-03'', ''2024-01-04''],
     fst_universe = bst_universe sample_strategy, fst_alpha = [], fst_encoded = (\<lambda>_. 0), fst_encoded_state = (\<lambda>_. 0), fst_state_bytes = 1\<rparr>"

definition sample_first :: "(nat module_state framework_state, framework_evidence) daily_decision" where
  "sample_first = projr (framework_decide (\<lambda>_. Inr dzero) (\<lambda>s _. s) sample_modules ''2024-01-02'' 0 sample_view [] [] None)"

definition sample_second :: "(nat module_state framework_state, framework_evidence) daily_decision" where
  "sample_second = projr (framework_decide (\<lambda>_. Inr dzero) (\<lambda>s _. s) sample_modules ''2024-01-03'' 1 sample_view [] [] (Some (dec_state sample_first)))"

lemma sample_modules_run: "modules_run (\<lambda>_. Inr dzero) (\<lambda>s _. s) sample_modules ''2024-01-03'' 2 (dec_state sample_second)"
proof -
  have "\<not> isl (framework_decide (\<lambda>_. Inr dzero) (\<lambda>s _. s) sample_modules ''2024-01-02'' 0 sample_view [] [] None)" by code_simp
  then have "framework_decide (\<lambda>_. Inr dzero) (\<lambda>s _. s) sample_modules ''2024-01-02'' 0 sample_view [] [] None = Inr sample_first"
    by (simp add: sample_first_def sum.collapse(2))
  then have first: "modules_run (\<lambda>_. Inr dzero) (\<lambda>s _. s) sample_modules ''2024-01-02'' 1 (dec_state sample_first)"
    by (rule modules_run.first_decision)
  have follows: "next_session sample_modules ''2024-01-02'' ''2024-01-03''" by (simp add: next_session_def sample_modules_def)
  have "\<not> isl (framework_decide (\<lambda>_. Inr dzero) (\<lambda>s _. s) sample_modules ''2024-01-03'' 1 sample_view [] [] (Some (dec_state sample_first)))"
    by code_simp
  then have "framework_decide (\<lambda>_. Inr dzero) (\<lambda>s _. s) sample_modules ''2024-01-03'' 1 sample_view [] [] (Some (dec_state sample_first)) = Inr sample_second"
    by (simp add: sample_second_def sum.collapse(2))
  from modules_run.later_decision [OF first follows this] show ?thesis by simp
qed

lemma framework_state_accepted_witness:
  "map sig_instrument_id (fs_signals (dec_state sample_second)) = [''a''] \<and>
     restore_modules sample_modules ''2024-01-04'' 2 (Some (dec_state sample_second)) = Inr ()"
proof -
  have "sorted_wrt (<) (fst_sessions sample_modules)" by code_simp
  moreover have "next_session sample_modules ''2024-01-03'' ''2024-01-04''" by (simp add: next_session_def sample_modules_def)
  ultimately have "restore_modules sample_modules ''2024-01-04'' 2 (Some (dec_state sample_second)) = Inr ()"
    using framework_state_accepted [OF sample_modules_run] by blast
  moreover have "map sig_instrument_id (fs_signals (dec_state sample_second)) = [''a'']" by code_simp
  ultimately show ?thesis by blast
qed

end
