(* ===== verification/FactorLabels.thy ===== *)
theory FactorLabels
  imports AlphaMatrix Boundaries
begin

text \<open>
  Forward labels of \<open>research_kernel/factor.py\<close>: the return of an instrument from the Open after a
  signal to the Open \<open>horizon\<close> sessions later, once row by row (\<open>build_forward_labels\<close>) and once over
  matrices of all instruments and sessions (\<open>prepare_columnar_forward_labels\<close> and
  \<open>factor_days_by_horizon\<close>), and the daily observation both end in.

  The text of an adjusted Open and its entry in the matrix are the same float, a finite one; \<open>None\<close> is
  a missing price and NaN. An array is the function of its cell. Checksums and the cancellation check
  are left out. The metrics of a sample are a parameter of this theory.
\<close>

section \<open>Data\<close>

definition HORIZONS :: "nat list" where
  "HORIZONS = [1, 5, 20]"

record factor_data =
  fa_sessions :: "string list"
  fa_instruments :: "(string \<times> instrument_profile) list"
  fa_opens :: "string \<times> string \<Rightarrow> rat option"
  fa_states :: "string \<times> string \<Rightarrow> string option"

definition unavailable_reason :: "string option \<Rightarrow> instrument_profile \<Rightarrow> string \<Rightarrow> bool \<Rightarrow> string" where
  "unavailable_reason trading_state profile session valid_entry =
     (if listing_ended profile session then
        (if valid_entry then ''terminal_delisting'' else ''confirmed_market_open_unavailable'')
      else if trading_state = Some ''full_session_suspension'' then ''confirmed_market_open_unavailable''
      else if trading_state = Some ''data_unavailable'' then ''data_unavailable''
      else ''unexplained_missing_or_invalid_data'')"

text \<open>\<open>exit_open / entry_open - 1.0\<close>, \<open>None\<close> when it is not finite.\<close>

definition label_of :: "rat \<Rightarrow> rat \<Rightarrow> rat option" where
  "label_of exit_open entry_open =
     (case bindE (float_of (exit_open / entry_open)) (\<lambda>q. float_of (q - 1)) of Inl _ \<Rightarrow> None | Inr x \<Rightarrow> Some x)"

text \<open>\<open>{str(item["session"]): item for item in alpha_matrix["sessions"]}[session]\<close>\<close>

definition alpha_of_session :: "alpha_session list \<Rightarrow> string \<Rightarrow> py_error + alpha_session" where
  "alpha_of_session matrix session =
     lookupE (rev (map (\<lambda>s. (as_session s, s)) matrix)) session (KeyError session)"

section \<open>Observations\<close>

record 'm factor_observation =
  fo_session :: string
  fo_horizon :: nat
  fo_entry_session :: "string option"
  fo_exit_session :: "string option"
  fo_censored :: bool
  fo_candidate_count :: int
  fo_alpha_count :: int
  fo_alpha_exclusions :: "(string \<times> int) list"
  fo_sample_count :: int
  fo_label_exclusions :: "(string \<times> int) list"
  fo_metrics :: 'm

definition factor_observation :: "string \<Rightarrow> nat \<Rightarrow> string option \<Rightarrow> string option \<Rightarrow> int \<Rightarrow> (string \<times> int) list
    \<Rightarrow> (string \<times> int) list \<Rightarrow> int \<Rightarrow> 'm \<Rightarrow> py_error + 'm factor_observation" where
  "factor_observation session horizon entry_session exit_session alpha_count alpha_exclusions label_exclusions sample_count metrics =
     bindE (raiseIf (sample_count + sum_list (map snd label_exclusions) \<noteq> alpha_count)
              (FactorDataError ''Factor label sample accounting is inconsistent'' [])) (\<lambda>_.
     Inr \<lparr>fo_session = session, fo_horizon = horizon, fo_entry_session = entry_session, fo_exit_session = exit_session,
          fo_censored = (exit_session = None), fo_candidate_count = alpha_count + sum_list (map snd alpha_exclusions),
          fo_alpha_count = alpha_count, fo_alpha_exclusions = sort_key fst alpha_exclusions, fo_sample_count = sample_count,
          fo_label_exclusions = sort_key fst label_exclusions, fo_metrics = metrics\<rparr>)"

section \<open>Row by row\<close>

text \<open>One instrument: its label, or the reason it has none.\<close>

datatype resolution = Label rat | Excluded string

definition row_label :: "factor_data \<Rightarrow> nat \<Rightarrow> nat \<Rightarrow> string \<Rightarrow> string \<Rightarrow> py_error + resolution" where
  "row_label data entry_index exit_index signal_session instrument_id =
     (if length (fa_sessions data) \<le> exit_index then Inr (Excluded ''right_censored_by_research_period_end'') else
      let entry_session = fa_sessions data ! entry_index; exit_session = fa_sessions data ! exit_index;
          profile = lookupE (fa_instruments data) instrument_id (KeyError instrument_id)
      in case fa_opens data (entry_session, instrument_id) of
           None \<Rightarrow>
             bindE profile (\<lambda>p.
             let reason = unavailable_reason (fa_states data (entry_session, instrument_id)) p entry_session False in
             if reason = ''unexplained_missing_or_invalid_data''
             then Inl (FactorDataError ''unexplained Label entry Open'' [instrument_id, entry_session])
             else Inr (Excluded reason))
         | Some entry_open \<Rightarrow>
             if entry_open = 0 then Inl (FactorDataError ''invalid Label entry Open'' [instrument_id, entry_session]) else
             case fa_opens data (exit_session, instrument_id) of
               None \<Rightarrow>
                 bindE profile (\<lambda>p.
                 let reason = unavailable_reason (fa_states data (exit_session, instrument_id)) p exit_session True in
                 if reason = ''terminal_delisting'' then Inr (Label (- 1))
                 else if reason = ''unexplained_missing_or_invalid_data''
                 then Inl (FactorDataError ''unexplained Label exit Open'' [instrument_id, exit_session])
                 else Inr (Excluded reason))
             | Some exit_open \<Rightarrow>
                 (case label_of exit_open entry_open of
                    None \<Rightarrow> Inl (FactorDataError ''non-finite Label'' [instrument_id, signal_session])
                  | Some label \<Rightarrow> Inr (Label label)))"

record label_session =
  ls_session :: string
  ls_alpha_values :: "(string \<times> rat) list"
  ls_coverage_loss :: "(string \<times> int) list"
  ls_entry_session :: "string option"
  ls_exit_session :: "string option"
  ls_samples :: "(string \<times> rat \<times> rat) list"
  ls_resolutions :: "(string \<times> rat \<times> resolution) list"
  ls_unavailable :: "(string \<times> int) list"

definition resolve_step :: "(string \<Rightarrow> py_error + resolution) \<Rightarrow> string \<times> rat
    \<Rightarrow> (string \<times> rat \<times> rat) list \<times> (string \<times> rat \<times> resolution) list \<times> (string \<times> int) list
    \<Rightarrow> py_error + (string \<times> rat \<times> rat) list \<times> (string \<times> rat \<times> resolution) list \<times> (string \<times> int) list" where
  "resolve_step label alpha s =
     (case (alpha, s) of ((instrument_id, x), (samples, resolutions, unavailable)) \<Rightarrow>
      bindE (label instrument_id) (\<lambda>r.
      case r of
        Excluded reason \<Rightarrow> Inr (samples, resolutions @ [(instrument_id, x, r)], count_loss reason 1 unavailable)
      | Label y \<Rightarrow> Inr (samples @ [(instrument_id, x, y)], resolutions @ [(instrument_id, x, r)], unavailable)))"

definition session_at :: "string list \<Rightarrow> nat \<Rightarrow> string option" where
  "session_at sessions k = (if k < length sessions then Some (sessions ! k) else None)"

definition label_session_of :: "factor_data \<Rightarrow> alpha_session list \<Rightarrow> nat \<Rightarrow> string \<Rightarrow> py_error + label_session" where
  "label_session_of data matrix horizon signal_session =
     bindE (index_of (fa_sessions data) signal_session) (\<lambda>signal_index.
     bindE (alpha_of_session matrix signal_session) (\<lambda>alpha.
     let entry_index = nat signal_index + 1; exit_index = nat signal_index + 1 + horizon in
     bindE (foldE (resolve_step (row_label data entry_index exit_index signal_session)) (as_values alpha) ([], [], []))
       (\<lambda>(samples, resolutions, unavailable).
     Inr \<lparr>ls_session = signal_session, ls_alpha_values = as_values alpha, ls_coverage_loss = as_coverage_loss alpha,
          ls_entry_session = session_at (fa_sessions data) entry_index, ls_exit_session = session_at (fa_sessions data) exit_index,
          ls_samples = sort_key fst samples, ls_resolutions = sort_key fst resolutions,
          ls_unavailable = sort_key fst unavailable\<rparr>)))"

definition build_forward_labels :: "factor_data \<Rightarrow> alpha_session list \<Rightarrow> string list \<Rightarrow> nat list \<Rightarrow> py_error + (nat \<times> label_session list) list" where
  "build_forward_labels data matrix signal_sessions horizons =
     mapE (\<lambda>horizon. bindE (mapE (label_session_of data matrix horizon) signal_sessions) (\<lambda>rows. Inr (horizon, rows))) horizons"

definition factor_observation_from_labels :: "(rat list \<Rightarrow> rat list \<Rightarrow> py_error + 'm) \<Rightarrow> nat \<Rightarrow> label_session \<Rightarrow> py_error + 'm factor_observation" where
  "factor_observation_from_labels factor_values horizon item =
     bindE (factor_values (map (\<lambda>(i, x, y). x) (ls_samples item)) (map (\<lambda>(i, x, y). y) (ls_samples item))) (\<lambda>metrics.
     factor_observation (ls_session item) horizon (ls_entry_session item) (ls_exit_session item)
       (int (length (ls_alpha_values item))) (ls_coverage_loss item) (ls_unavailable item) (int (length (ls_samples item))) metrics)"

definition evaluate_factor :: "(rat list \<Rightarrow> rat list \<Rightarrow> py_error + 'm) \<Rightarrow> (nat \<times> label_session list) list
    \<Rightarrow> py_error + (nat \<times> 'm factor_observation list) list" where
  "evaluate_factor factor_values labels =
     mapE (\<lambda>(horizon, rows). bindE (mapE (factor_observation_from_labels factor_values horizon) rows) (\<lambda>days. Inr (horizon, days))) labels"

section \<open>Over matrices\<close>

text \<open>What a missing coordinate is; a coordinate with a price or a confirmed reason has none of them.\<close>

datatype missing_reason = NotMissing | TerminalDelisting | Unexplained | DataUnavailable

definition missing_reason_of :: "factor_data \<Rightarrow> string \<times> instrument_profile \<Rightarrow> string \<Rightarrow> missing_reason" where
  "missing_reason_of data instrument session =
     (case instrument of (i, profile) \<Rightarrow>
      if fa_opens data (session, i) \<noteq> None then NotMissing else
      let reason = unavailable_reason (fa_states data (session, i)) profile session True in
      if reason = ''terminal_delisting'' then TerminalDelisting
      else if reason = ''unexplained_missing_or_invalid_data'' then Unexplained
      else if reason = ''data_unavailable'' then DataUnavailable
      else NotMissing)"

datatype label_state = Projected | Unavailable | InvalidZeroEntry | InvalidEntry | InvalidExit | InvalidNonFinite
  | Censored | MissingData

text \<open>The masked assignments to one cell of \<open>labels\<close> and \<open>states\<close>, in their order.\<close>

definition label_cell :: "factor_data \<Rightarrow> nat \<Rightarrow> string \<times> instrument_profile \<Rightarrow> nat \<Rightarrow> label_state \<times> rat option" where
  "label_cell data horizon instrument k =
     (let sessions = fa_sessions data; width = length sessions - horizon - 1 in
      if width \<le> k then (Censored, None) else
      let entry_session = sessions ! (k + 1); exit_session = sessions ! (k + 1 + horizon);
          entry_open = fa_opens data (entry_session, fst instrument); exit_open = fa_opens data (exit_session, fst instrument);
          entry_reason = missing_reason_of data instrument entry_session; exit_reason = missing_reason_of data instrument exit_session;
          valid_entry = entry_open \<noteq> None; valid_exit = exit_open \<noteq> None;
          zero_entry = (entry_open = Some 0);
          valid = (valid_entry \<and> valid_exit \<and> \<not> zero_entry);
          missing_exit = (valid_entry \<and> \<not> valid_exit \<and> \<not> zero_entry);
          label = (if valid then label_of (the exit_open) (the entry_open) else None);
          s1 = (if zero_entry then InvalidZeroEntry else Unavailable);
          s2 = (if valid then Projected else s1);
          s3 = (if \<not> valid_entry \<and> entry_reason = DataUnavailable then MissingData else s2);
          s4 = (if \<not> valid_entry \<and> entry_reason = Unexplained then InvalidEntry else s3);
          terminal = (missing_exit \<and> exit_reason = TerminalDelisting);
          label = (if terminal then Some (- 1) else label);
          s5 = (if terminal then Projected else s4);
          s6 = (if missing_exit \<and> exit_reason = DataUnavailable then MissingData else s5);
          s7 = (if missing_exit \<and> exit_reason = Unexplained then InvalidExit else s6);
          s8 = (if s7 = Projected \<and> label = None then InvalidNonFinite else s7)
      in (s8, label))"

definition prepare_columnar_forward_labels :: "factor_data \<Rightarrow> nat \<Rightarrow> (string \<times> (nat \<Rightarrow> label_state \<times> rat option)) list" where
  "prepare_columnar_forward_labels data horizon =
     map (\<lambda>instrument. (fst instrument, label_cell data horizon instrument)) (sort_key fst (fa_instruments data))"

text \<open>The first instrument with the first kind of error raises.\<close>

definition raise_selected_label_error :: "(string \<times> label_state) list \<Rightarrow> string \<Rightarrow> string \<Rightarrow> string \<Rightarrow> py_error + unit" where
  "raise_selected_label_error states signal_session entry_session exit_session =
     foldE (\<lambda>(code, text, session) _.
         case filter (\<lambda>(i, s). s = code) states of [] \<Rightarrow> Inr () | (i, s) # _ \<Rightarrow> Inl (FactorDataError text [i, session]))
       [(InvalidZeroEntry, ''invalid Label entry Open'', entry_session), (InvalidEntry, ''unexplained Label entry Open'', entry_session),
        (InvalidExit, ''unexplained Label exit Open'', exit_session), (InvalidNonFinite, ''non-finite Label'', signal_session)] ()"

definition session_or :: "string list \<Rightarrow> nat \<Rightarrow> string \<Rightarrow> string" where
  "session_or sessions k s = (if k < length sessions then sessions ! k else s)"

definition count_states :: "label_state list \<Rightarrow> label_state \<times> string \<Rightarrow> (string \<times> int) list" where
  "count_states states entry =
     (case entry of (code, reason) \<Rightarrow> if code \<in> set states then [(reason, int (count_list states code))] else [])"

definition factor_day_of :: "(rat list \<Rightarrow> rat list \<Rightarrow> py_error + 'm) \<Rightarrow> factor_data \<Rightarrow> alpha_session list \<Rightarrow> nat \<Rightarrow> string
    \<Rightarrow> py_error + 'm factor_observation" where
  "factor_day_of factor_values data matrix horizon signal_session =
     bindE (mapErr (\<lambda>_. KeyError signal_session) (index_of (fa_sessions data) signal_session)) (\<lambda>signal_index.
     bindE (alpha_of_session matrix signal_session) (\<lambda>alpha.
     let k = nat signal_index; sessions = fa_sessions data; labels = prepare_columnar_forward_labels data horizon in
     bindE (mapE (\<lambda>(i, x). bindE (lookupE labels i (KeyError i)) (\<lambda>column. Inr (i, x, column k))) (as_values alpha)) (\<lambda>selected.
     bindE (raise_selected_label_error (map (\<lambda>(i, x, s, y). (i, s)) selected) signal_session
              (session_or sessions (k + 1) signal_session) (session_or sessions (k + 1 + horizon) signal_session)) (\<lambda>_.
     let included = filter (\<lambda>(i, x, s, y). s = Projected) selected; states = map (\<lambda>(i, x, s, y). s) selected in
     bindE (factor_values (map (\<lambda>(i, x, s, y). x) included) (map (\<lambda>(i, x, s, y). the y) included)) (\<lambda>metrics.
     factor_observation signal_session horizon (session_at sessions (k + 1)) (session_at sessions (k + 1 + horizon))
       (int (length (as_values alpha))) (as_coverage_loss alpha)
       (concat (map (count_states states) [(Unavailable, ''confirmed_market_open_unavailable''),
          (Censored, ''right_censored_by_research_period_end''), (MissingData, ''data_unavailable'')]))
       (int (length included)) metrics)))))"

definition factor_days_by_horizon :: "(rat list \<Rightarrow> rat list \<Rightarrow> py_error + 'm) \<Rightarrow> factor_data \<Rightarrow> alpha_session list
    \<Rightarrow> (nat \<times> string list) list \<Rightarrow> py_error + (nat \<times> 'm factor_observation list) list" where
  "factor_days_by_horizon factor_values data matrix signal_sessions_by_horizon =
     mapE (\<lambda>(horizon, sessions). bindE (mapE (factor_day_of factor_values data matrix horizon) sessions) (\<lambda>days. Inr (horizon, days)))
       signal_sessions_by_horizon"

section \<open>One coordinate\<close>

definition reason_states :: "(label_state \<times> string) list" where
  "reason_states = [(Unavailable, ''confirmed_market_open_unavailable''), (Censored, ''right_censored_by_research_period_end''),
     (MissingData, ''data_unavailable'')]"

definition error_states :: "label_state set" where
  "error_states = {InvalidZeroEntry, InvalidEntry, InvalidExit, InvalidNonFinite}"

fun cell_matches :: "py_error + resolution \<Rightarrow> label_state \<times> rat option \<Rightarrow> bool" where
  "cell_matches (Inr (Label y)) (s, l) \<longleftrightarrow> s = Projected \<and> l = Some y"
| "cell_matches (Inr (Excluded r)) (s, l) \<longleftrightarrow> (s, r) \<in> set reason_states"
| "cell_matches (Inl e) (s, l) \<longleftrightarrow> s \<in> error_states"

lemma label_cell_matches:
  assumes "map_of (fa_instruments data) i = Some p"
  shows "cell_matches (row_label data (k + 1) (k + 1 + horizon) signal i) (label_cell data horizon (i, p) k)"
proof (cases "length (fa_sessions data) \<le> k + 1 + horizon")
  case True
  then have width: "length (fa_sessions data) - horizon - 1 \<le> k" by simp
  show ?thesis unfolding row_label_def label_cell_def Let_def if_P [OF True] if_P [OF width] by (simp add: reason_states_def)
next
  case False
  define entry exit where sessions: "entry = fa_sessions data ! (k + 1)" "exit = fa_sessions data ! (k + 1 + horizon)"
  have width: "\<not> length (fa_sessions data) - horizon - 1 \<le> k" using False by simp
  have profile: "lookupE (fa_instruments data) i (KeyError i) = Inr p" using assms by (simp add: lookupE_def)
  note row = row_label_def [of data "k + 1" "k + 1 + horizon" signal i, unfolded Let_def if_not_P [OF False] profile sessions [symmetric]]
  note cell = label_cell_def [of data horizon "(i, p)" k, unfolded Let_def if_not_P [OF width] fst_conv sessions [symmetric]]
  note reasons = missing_reason_of_def unavailable_reason_def reason_states_def error_states_def
  show ?thesis
  proof (cases "fa_opens data (entry, i)")
    case None
    then show ?thesis unfolding row cell by (simp add: reasons)
  next
    case (Some x)
    then show ?thesis
    proof (cases "x = 0")
      case True
      then show ?thesis unfolding row cell using Some by (simp add: reasons)
    next
      case nonzero: False
      show ?thesis
      proof (cases "fa_opens data (exit, i)")
        case None
        then show ?thesis unfolding row cell using Some nonzero by (simp add: reasons)
      next
        case exit_open: (Some y)
        then show ?thesis unfolding row cell using Some nonzero by (cases "label_of y x") (simp_all add: reasons)
      qed
    qed
  qed
qed

section \<open>Samples and reasons of a session\<close>

definition samples_of :: "(string \<times> rat \<times> resolution) list \<Rightarrow> (string \<times> rat \<times> rat) list" where
  "samples_of rows = concat (map (\<lambda>(i, x, r). case r of Label y \<Rightarrow> [(i, x, y)] | Excluded q \<Rightarrow> []) rows)"

definition count_reasons :: "(string \<times> rat \<times> resolution) list \<Rightarrow> (string \<times> int) list \<Rightarrow> (string \<times> int) list" where
  "count_reasons rows d = foldl (\<lambda>d (i, x, r). case r of Label y \<Rightarrow> d | Excluded q \<Rightarrow> count_loss q 1 d) d rows"

lemma row_simps [simp]:
  "samples_of [] = []" "count_reasons [] d = d"
  "samples_of ((i, x, r) # rows) = (case r of Label y \<Rightarrow> [(i, x, y)] | Excluded q \<Rightarrow> []) @ samples_of rows"
  "count_reasons ((i, x, r) # rows) d = count_reasons rows (case r of Label y \<Rightarrow> d | Excluded q \<Rightarrow> count_loss q 1 d)"
  by (simp_all add: samples_of_def count_reasons_def)

definition resolved :: "(string \<Rightarrow> py_error + resolution) \<Rightarrow> (string \<times> rat) list \<Rightarrow> py_error + (string \<times> rat \<times> resolution) list" where
  "resolved label alpha = mapE (\<lambda>(i, x). bindE (label i) (\<lambda>r. Inr (i, x, r))) alpha"

lemma resolved_simps [simp]:
  "resolved label [] = Inr []"
  "resolved label ((i, x) # alpha) = bindE (label i) (\<lambda>r. bindE (resolved label alpha) (\<lambda>rows. Inr ((i, x, r) # rows)))"
  by (auto simp: resolved_def bindE_assoc)

lemma resolve_loop:
  "foldE (resolve_step label) alpha (samples, resolutions, unavailable)
     = bindE (resolved label alpha) (\<lambda>rows. Inr (samples @ samples_of rows, resolutions @ rows, count_reasons rows unavailable))"
proof (induction alpha arbitrary: samples resolutions unavailable)
  case Nil
  then show ?case by simp
next
  case (Cons a alpha)
  obtain i x where a: "a = (i, x)" by (cases a)
  have step: "resolve_step label (i, x) (samples, resolutions, unavailable) = bindE (label i) (\<lambda>r. case r of
      Excluded q \<Rightarrow> Inr (samples, resolutions @ [(i, x, r)], count_loss q 1 unavailable)
    | Label y \<Rightarrow> Inr (samples @ [(i, x, y)], resolutions @ [(i, x, r)], unavailable))"
    by (simp add: resolve_step_def)
  show ?case
  proof (cases "label i")
    case (Inl e)
    then show ?thesis by (simp add: a step)
  next
    case (Inr r)
    then show ?thesis by (cases r) (simp_all add: a step Cons.IH bindE_assoc)
  qed
qed

definition reason_count :: "(string \<times> rat \<times> resolution) list \<Rightarrow> string \<Rightarrow> int" where
  "reason_count rows q = int (length (filter (\<lambda>(i, x, r). r = Excluded q) rows))"

lemma reason_count_simps [simp]:
  "reason_count [] q = 0"
  "reason_count ((i, x, r) # rows) q = (if r = Excluded q then 1 else 0) + reason_count rows q"
  by (simp_all add: reason_count_def)

lemma reason_count_nonneg: "0 \<le> reason_count rows q"
  by (simp add: reason_count_def)

lemma count_reasons_map:
  "map_of (count_reasons rows d) q = (if reason_count rows q = 0 then map_of d q
     else Some (reason_count rows q + (case map_of d q of None \<Rightarrow> 0 | Some n \<Rightarrow> n)))"
proof (induction rows arbitrary: d)
  case Nil
  then show ?case by simp
next
  case (Cons row rows)
  obtain i x r where row: "row = (i, x, r)" by (cases row)
  show ?case
    using reason_count_nonneg [of rows q] by (cases r) (auto simp: row Cons.IH count_loss_def update_conv split: option.splits)
qed

lemma count_reasons_distinct: "distinct (map fst d) \<Longrightarrow> distinct (map fst (count_reasons rows d))"
proof (induction rows arbitrary: d)
  case Nil
  then show ?case by simp
next
  case (Cons row rows)
  then show ?case by (cases row) (auto simp: count_loss_def distinct_update split: resolution.splits)
qed

text \<open>Dictionaries with the same entries are the same when sorted.\<close>

lemma sorted_dict_unique:
  assumes "distinct (map fst xs)" "distinct (map fst ys)" "map_of xs = map_of ys"
  shows "sort_key fst xs = sort_key (fst :: 'a :: linorder \<times> 'b \<Rightarrow> 'a) ys"
proof -
  have "set xs = set ys"
    using assms map_of_eq_Some_iff by (metis (no_types, lifting) subrelI subset_antisym)
  then show ?thesis using assms(1,2)
    by (intro map_sorted_distinct_set_unique [of fst]) (auto simp: inj_on_def distinct_map distinct_sort)
qed

lemma sort_key_sorted: "sorted (map f xs) \<Longrightarrow> sort_key f xs = xs"
  by (induction xs) (simp_all add: insort_is_Cons)

section \<open>Both readings of a session\<close>

type_synonym cells = "(string \<times> rat \<times> label_state \<times> rat option) list"

definition cells_of :: "factor_data \<Rightarrow> nat \<Rightarrow> nat \<Rightarrow> (string \<times> rat) list \<Rightarrow> cells" where
  "cells_of data horizon k alpha = map (\<lambda>(i, x). (i, x, label_cell data horizon (i, the (map_of (fa_instruments data) i)) k)) alpha"

lemma map_of_columns: "map_of (map (\<lambda>x. (fst x, f x)) xs) i = map_option (\<lambda>p. f (i, p)) (map_of xs i)"
  by (induction xs) auto

lemma map_of_sort: "distinct (map fst xs) \<Longrightarrow> map_of (sort_key fst xs) = map_of (xs :: ('a :: linorder \<times> 'b) list)"
proof -
  assume d: "distinct (map fst xs)"
  then have "distinct (map fst (sort_key fst xs))" by (simp add: distinct_map)
  with d show ?thesis by (intro map_of_inject_set [THEN iffD2]) simp_all
qed

lemma selected_cells:
  assumes "distinct (map fst (fa_instruments data))" and "\<forall>i\<in>set (map fst alpha). map_of (fa_instruments data) i \<noteq> None"
  shows "mapE (\<lambda>(i, x). bindE (lookupE (prepare_columnar_forward_labels data horizon) i (KeyError i)) (\<lambda>column. Inr (i, x, column k))) alpha
    = Inr (cells_of data horizon k alpha)"
proof -
  have "lookupE (prepare_columnar_forward_labels data horizon) i (KeyError i) = Inr (label_cell data horizon (i, p))"
    if "map_of (fa_instruments data) i = Some p" for i p
    using that by (simp add: lookupE_def prepare_columnar_forward_labels_def map_of_columns map_of_sort [OF assms(1)])
  note column = this
  show ?thesis using assms(2)
  proof (induction alpha)
    case Nil
    then show ?case by (simp add: cells_of_def)
  next
    case (Cons a alpha)
    obtain i x where a: "a = (i, x)" by (cases a)
    obtain p where p: "map_of (fa_instruments data) i = Some p" using Cons.prems by (auto simp: a)
    have "\<forall>i\<in>set (map fst alpha). map_of (fa_instruments data) i \<noteq> None" using Cons.prems by simp
    from Cons.IH [OF this] show ?case by (simp add: a cells_of_def p column [OF p])
  qed
qed

definition row_matches :: "string \<times> rat \<times> resolution \<Rightarrow> string \<times> rat \<times> label_state \<times> rat option \<Rightarrow> bool" where
  "row_matches row cell \<longleftrightarrow> (case (row, cell) of ((i, x, r), (j, y, c)) \<Rightarrow> i = j \<and> x = y \<and> cell_matches (Inr r) c)"

lemma resolved_cells:
  assumes "\<forall>i\<in>set (map fst alpha). map_of (fa_instruments data) i \<noteq> None"
  shows "case resolved (row_label data (k + 1) (k + 1 + horizon) signal) alpha of
      Inr rows \<Rightarrow> list_all2 row_matches rows (cells_of data horizon k alpha)
    | Inl e \<Rightarrow> \<exists>(i, x, s, y)\<in>set (cells_of data horizon k alpha). s \<in> error_states"
  using assms
proof (induction alpha)
  case Nil
  then show ?case by (simp add: cells_of_def)
next
  case (Cons a alpha)
  obtain i x where a: "a = (i, x)" by (cases a)
  obtain p where p: "map_of (fa_instruments data) i = Some p" using Cons.prems by (auto simp: a)
  obtain s y where c: "label_cell data horizon (i, p) k = (s, y)" by fastforce
  have m: "cell_matches (row_label data (k + 1) (k + 1 + horizon) signal i) (s, y)"
    using label_cell_matches [OF p, of k horizon signal] by (simp add: c)
  have cells: "cells_of data horizon k (a # alpha) = (i, x, s, y) # cells_of data horizon k alpha" by (simp add: cells_of_def a p c)
  show ?case
  proof (cases "row_label data (k + 1) (k + 1 + horizon) signal i")
    case (Inl e)
    then show ?thesis using m by (simp add: a cells [unfolded a])
  next
    case (Inr r)
    then show ?thesis using m Cons.IH Cons.prems
      by (cases "resolved (row_label data (k + 1) (k + 1 + horizon) signal) alpha")
        (auto simp: a cells [unfolded a] row_matches_def)
  qed
qed

definition states_of :: "cells \<Rightarrow> label_state list" where
  "states_of cells = map (\<lambda>(i, x, s, y). s) cells"

definition included :: "cells \<Rightarrow> cells" where
  "included cells = filter (\<lambda>(i, x, s, y). s = Projected) cells"

lemma matched_samples:
  "list_all2 row_matches rows cells \<Longrightarrow>
     map (\<lambda>(i, x, s, y). x) (included cells) = map (\<lambda>(i, x, y). x) (samples_of rows) \<and>
     map (\<lambda>(i, x, s, y). the y) (included cells) = map (\<lambda>(i, x, y). y) (samples_of rows)"
  by (induction rule: list_all2_induct)
    (auto simp: row_matches_def included_def reason_states_def split: resolution.splits prod.splits)

lemma matched_counts:
  "list_all2 row_matches rows cells \<Longrightarrow> (s, q) \<in> set reason_states \<Longrightarrow> int (count_list (states_of cells) s) = reason_count rows q"
  by (induction rule: list_all2_induct)
    (auto simp: row_matches_def states_of_def reason_states_def split: resolution.splits prod.splits elim!: cell_matches.elims)

lemma matched_reasons: "list_all2 row_matches rows cells \<Longrightarrow> q \<notin> snd ` set reason_states \<Longrightarrow> reason_count rows q = 0"
  by (induction rule: list_all2_induct)
    (auto simp: row_matches_def reason_states_def split: resolution.splits prod.splits elim!: cell_matches.elims)

lemma matched_errors: "list_all2 row_matches rows cells \<Longrightarrow> set (states_of cells) \<inter> error_states = {}"
  by (induction rule: list_all2_induct)
    (auto simp: row_matches_def states_of_def reason_states_def error_states_def split: resolution.splits prod.splits elim!: cell_matches.elims)

lemma foldE_checks:
  "\<forall>x\<in>set xs. f x () = Inr () \<Longrightarrow> foldE f xs () = Inr ()"
  "\<exists>x\<in>set xs. isl (f x ()) \<Longrightarrow> isl (foldE f xs ())"
proof -
  show "\<forall>x\<in>set xs. f x () = Inr () \<Longrightarrow> foldE f xs () = Inr ()" by (induction xs) auto
  show "\<exists>x\<in>set xs. isl (f x ()) \<Longrightarrow> isl (foldE f xs ())"
  proof (induction xs)
    case (Cons x xs)
    then show ?case by (cases "f x ()") auto
  qed simp
qed

lemma selected_error:
  "set (map snd states) \<inter> error_states = {} \<Longrightarrow> raise_selected_label_error states a b c = Inr ()"
  "set (map snd states) \<inter> error_states \<noteq> {} \<Longrightarrow> isl (raise_selected_label_error states a b c)"
proof -
  let ?raise = "\<lambda>(code, text, session) (_ :: unit).
    case filter (\<lambda>(i, s). s = code) states of [] \<Rightarrow> Inr () | (i, s) # _ \<Rightarrow> Inl (FactorDataError text [i, session])"
  have none: "filter (\<lambda>(i, s). s = code) states = []" if "code \<notin> snd ` set states" for code
    using that by (force simp: filter_empty_conv)
  have some: "\<forall>text session. isl (?raise (code, text, session) ())" if "code \<in> set (map snd states)" for code
  proof -
    have "filter (\<lambda>(i, s). s = code) states \<noteq> []" using that by (fastforce simp: filter_empty_conv)
    then show ?thesis by (auto split: list.splits)
  qed
  show "raise_selected_label_error states a b c = Inr ()" if "set (map snd states) \<inter> error_states = {}"
    unfolding raise_selected_label_error_def using that by (intro foldE_checks(1)) (simp add: none error_states_def)
  show "isl (raise_selected_label_error states a b c)" if "set (map snd states) \<inter> error_states \<noteq> {}"
  proof -
    obtain code where code: "code \<in> set (map snd states)" "code \<in> error_states" using \<open>set (map snd states) \<inter> error_states \<noteq> {}\<close> by blast
    show ?thesis
      unfolding raise_selected_label_error_def using code(2) some [OF code(1)] by (intro foldE_checks(2)) (auto simp: error_states_def)
  qed
qed

lemma matched_dictionary:
  assumes "list_all2 row_matches rows cells"
  shows "sort_key fst (concat (map (count_states (states_of cells)) reason_states)) = sort_key fst (count_reasons rows [])"
proof (rule sorted_dict_unique)
  have count: "(s \<in> set (states_of cells)) = (reason_count rows q \<noteq> 0)" "int (count_list (states_of cells) s) = reason_count rows q"
    if "(s, q) \<in> set reason_states" for s q
    using matched_counts [OF assms that] count_list_0_iff [of "states_of cells" s] by auto
  have entries: "concat (map (count_states (states_of cells)) reason_states)
      = concat (map (\<lambda>(s, q). if reason_count rows q = 0 then [] else [(q, reason_count rows q)]) reason_states)"
  proof (intro arg_cong [of _ _ concat] map_cong refl)
    fix entry
    assume "entry \<in> set reason_states"
    then show "count_states (states_of cells) entry = (case entry of (s, q) \<Rightarrow> if reason_count rows q = 0 then [] else [(q, reason_count rows q)])"
      using count [of "fst entry" "snd entry"] by (simp add: count_states_def case_prod_beta)
  qed
  show "distinct (map fst (concat (map (count_states (states_of cells)) reason_states)))"
    unfolding entries by (simp add: reason_states_def)
  show "distinct (map fst (count_reasons rows []))" by (simp add: count_reasons_distinct)
  have other: "reason_count rows q = 0" if "q \<notin> snd ` set reason_states" for q using matched_reasons [OF assms that] .
  have counts: "map_of (count_reasons rows []) q = (if reason_count rows q = 0 then None else Some (reason_count rows q))" for q
    by (simp add: count_reasons_map)
  show "map_of (concat (map (count_states (states_of cells)) reason_states)) = map_of (count_reasons rows [])"
  proof (rule ext)
    fix q
    show "map_of (concat (map (count_states (states_of cells)) reason_states)) q = map_of (count_reasons rows []) q"
      unfolding entries counts using other [of q]
      by (cases "q \<in> snd ` set reason_states") (auto simp: reason_states_def)
  qed
qed

lemma samples_sorted: "sorted (map fst rows) \<Longrightarrow> sorted (map fst (samples_of rows))"
proof (induction rows)
  case Nil
  then show ?case by simp
next
  case (Cons row rows)
  have "\<forall>x\<in>set (samples_of rows). fst x \<in> set (map fst rows)" by (force simp: samples_of_def split: resolution.splits)
  then have "\<forall>x\<in>set (samples_of rows). fst row \<le> fst x" using Cons.prems by fastforce
  then show ?case using Cons by (cases row) (auto split: resolution.splits)
qed

lemma resolved_keys: "resolved label alpha = Inr rows \<Longrightarrow> map fst rows = map fst alpha"
proof (induction alpha arbitrary: rows)
  case (Cons a alpha)
  then show ?case by (cases a) (auto elim!: bindE_InrE)
qed simp

text \<open>An observation depends on its excluded labels as a dictionary only.\<close>

lemma factor_observation_sorted:
  "sort_key fst xs = sort_key fst ys \<Longrightarrow>
     factor_observation session h a b n alpha_exclusions xs m metrics = factor_observation session h a b n alpha_exclusions ys m metrics"
proof -
  assume *: "sort_key fst xs = sort_key fst ys"
  have "sum_list (map snd (sort_key fst zs)) = sum_list (map snd zs)" for zs :: "(string \<times> int) list"
    using losses_sort [of fst zs] by (simp add: losses_def)
  from this [of xs] this [of ys] * have "sum_list (map snd xs) = sum_list (map snd ys)" by simp
  then show ?thesis using * by (simp add: factor_observation_def)
qed

lemma isl_bindE: "isl r \<Longrightarrow> isl (bindE r f)"
  by (cases r) simp_all

text \<open>Two computations that return the same results, and raise on the same inputs.\<close>

definition same_results :: "py_error + 'a \<Rightarrow> py_error + 'a \<Rightarrow> bool" where
  "same_results r s \<longleftrightarrow> (case r of Inl e \<Rightarrow> isl s | Inr x \<Rightarrow> s = Inr x)"

lemma same_results_refl [simp]: "same_results r r"
  by (cases r) (simp_all add: same_results_def)

lemma same_results_raise: "isl r \<Longrightarrow> isl s \<Longrightarrow> same_results r s"
  by (cases r) (simp_all add: same_results_def)

lemma same_results_bind: "same_results r s \<Longrightarrow> (\<And>x. same_results (f x) (g x)) \<Longrightarrow> same_results (bindE r f) (bindE s g)"
  by (cases r; cases s) (simp_all add: same_results_def)

lemma same_results_map:
  "(\<And>x. x \<in> set xs \<Longrightarrow> same_results (bindE (f x) (g x)) (h x)) \<Longrightarrow> same_results (bindE (mapE f xs) (\<lambda>ys. mapE (\<lambda>(x, y). g x y) (zip xs ys))) (mapE h xs)"
proof (induction xs)
  case Nil
  then show ?case by simp
next
  case (Cons x xs)
  have x: "same_results (bindE (f x) (g x)) (h x)" using Cons.prems by simp
  have xs: "same_results (bindE (mapE f xs) (\<lambda>ys. mapE (\<lambda>(x, y). g x y) (zip xs ys))) (mapE h xs)" using Cons by simp
  show ?case
  proof (cases "f x")
    case (Inl e)
    then show ?thesis using x by (cases "h x") (simp_all add: same_results_def)
  next
    case (Inr y)
    show ?thesis
    proof (cases "g x y")
      case (Inl e)
      then have "isl (h x)" using x Inr by (simp add: same_results_def)
      moreover have "isl (bindE (mapE f (x # xs)) (\<lambda>ys. mapE (\<lambda>(x, y). g x y) (zip (x # xs) ys)))"
        using Inl Inr by (cases "mapE f xs") simp_all
      moreover from \<open>isl (h x)\<close> have "isl (mapE h (x # xs))" by (cases "h x") simp_all
      ultimately show ?thesis by (intro same_results_raise)
    next
      case z: (Inr z)
      then have "h x = Inr z" using x Inr by (simp add: same_results_def)
      have "bindE (mapE f (x # xs)) (\<lambda>ys. mapE (\<lambda>(x, y). g x y) (zip (x # xs) ys))
          = bindE (bindE (mapE f xs) (\<lambda>ys. mapE (\<lambda>(x, y). g x y) (zip xs ys))) (\<lambda>zs. Inr (z # zs))"
        using Inr z by (simp add: bindE_assoc)
      moreover have "mapE h (x # xs) = bindE (mapE h xs) (\<lambda>zs. Inr (z # zs))" using \<open>h x = Inr z\<close> by simp
      ultimately show ?thesis using same_results_bind [OF xs, of "\<lambda>zs. Inr (z # zs)" "\<lambda>zs. Inr (z # zs)"]
        by (simp only: same_results_refl)
    qed
  qed
qed

text \<open>The days an evaluation can read: sessions of the calendar with values in the order of their known instruments.\<close>

definition readable_session :: "factor_data \<Rightarrow> alpha_session list \<Rightarrow> string \<Rightarrow> bool" where
  "readable_session data matrix session \<longleftrightarrow> session \<in> set (fa_sessions data) \<and>
     (case alpha_of_session matrix session of Inl e \<Rightarrow> False
      | Inr alpha \<Rightarrow> sorted (map fst (as_values alpha)) \<and> set (map fst (as_values alpha)) \<subseteq> set (map fst (fa_instruments data)))"

lemma session_days_agree:
  assumes "distinct (map fst (fa_instruments data))" and "readable_session data matrix session"
  shows "same_results (bindE (label_session_of data matrix horizon session) (factor_observation_from_labels factor_values horizon))
    (factor_day_of factor_values data matrix horizon session)"
proof -
  have "\<exists>j. index_of xs session = Inr j" if "session \<in> set xs" for xs using that by (induction xs) auto
  then obtain j where j: "index_of (fa_sessions data) session = Inr j" using assms(2) by (auto simp: readable_session_def)
  obtain alpha where alpha: "alpha_of_session matrix session = Inr alpha" and sorted: "sorted (map fst (as_values alpha))"
    and known: "set (map fst (as_values alpha)) \<subseteq> set (map fst (fa_instruments data))"
    using assms(2) by (auto simp: readable_session_def split: sum.splits)
  have known: "\<forall>i\<in>set (map fst (as_values alpha)). map_of (fa_instruments data) i \<noteq> None"
    using known by (simp add: map_of_eq_None_iff subset_iff)
  let ?k = "nat j" and ?label = "row_label data (nat j + 1) (nat j + 1 + horizon) session"
  let ?cells = "cells_of data horizon ?k (as_values alpha)"
  note day = factor_day_of_def [of factor_values data matrix horizon session, unfolded j alpha mapErr_simps bindE_simps Let_def
      selected_cells [OF assms(1) known]]
  note row = label_session_of_def [of data matrix horizon session, unfolded j alpha bindE_simps Let_def resolve_loop append_Nil]
  show ?thesis
  proof (cases "resolved ?label (as_values alpha)")
    case (Inl e)
    then have "set (states_of ?cells) \<inter> error_states \<noteq> {}"
      using resolved_cells [OF known, where k = ?k and horizon = horizon and signal = session] by (force simp: states_of_def)
    then have "isl (factor_day_of factor_values data matrix horizon session)"
      unfolding day by (intro isl_bindE selected_error(2)) (simp add: states_of_def comp_def case_prod_beta)
    moreover have "isl (bindE (label_session_of data matrix horizon session) (factor_observation_from_labels factor_values horizon))"
      unfolding row Inl bindE_simps by simp
    ultimately show ?thesis by (intro same_results_raise)
  next
    case (Inr rows)
    have m: "list_all2 row_matches rows ?cells" using resolved_cells [OF known, where k = ?k and horizon = horizon and signal = session, unfolded Inr] by simp
    have samples: "sort_key fst (samples_of rows) = samples_of rows"
      using samples_sorted [of rows] resolved_keys [OF Inr] sorted by (simp add: sort_key_sorted)
    have "set (map snd (map (\<lambda>(i, x, s, y). (i, s)) ?cells)) \<inter> error_states = {}"
      using matched_errors [OF m] by (simp add: states_of_def comp_def case_prod_beta)
    note passed = selected_error(1) [OF this]
    have counts: "factor_observation session horizon a b n alpha_exclusions (concat (map (count_states (states_of ?cells)) reason_states)) k metrics
        = factor_observation session horizon a b n alpha_exclusions (sort_key fst (count_reasons rows [])) k metrics"
      for a b n alpha_exclusions k and metrics :: 'a
      using matched_dictionary [OF m] by (intro factor_observation_sorted) (simp add: sort_key_sorted)
    have size: "length (included ?cells) = length (samples_of rows)" using arg_cong [OF matched_samples [OF m, THEN conjunct1], of length] by simp
    show ?thesis
      unfolding row Inr bindE_simps prod.case factor_observation_from_labels_def label_session.simps samples day passed
        states_of_def [symmetric] included_def [symmetric] reason_states_def [symmetric] matched_samples [OF m, THEN conjunct1]
        matched_samples [OF m, THEN conjunct2] counts size
      by (rule same_results_refl)
  qed
qed

lemma mapE_zip: "mapE (\<lambda>x. bindE (f x) (\<lambda>y. Inr (x, y))) xs = bindE (mapE f xs) (\<lambda>ys. Inr (zip xs ys))"
proof (induction xs)
  case (Cons x xs)
  then show ?case by (cases "f x"; cases "mapE f xs") simp_all
qed simp

lemma mapE_second: "length ys = length xs \<Longrightarrow> mapE (\<lambda>(x, y). g y) (zip xs ys) = mapE g ys"
proof (induction ys arbitrary: xs)
  case (Cons y ys)
  then show ?case by (cases xs) simp_all
qed simp

lemma same_results_mapE:
  assumes "\<And>x. x \<in> set xs \<Longrightarrow> same_results (bindE (f x) g) (h x)"
  shows "same_results (bindE (mapE f xs) (mapE g)) (mapE h xs)"
proof -
  have "bindE (mapE f xs) (\<lambda>ys. mapE (\<lambda>(x, y). g y) (zip xs ys)) = bindE (mapE f xs) (mapE g)"
    using mapE_second [of _ xs g] mapE_length [of f xs] by (cases "mapE f xs") simp_all
  then show ?thesis using same_results_map [of xs f "\<lambda>x. g" h] assms by simp
qed

text \<open>
  C39: The two ways to compute the daily Factor observations agree. For any horizons and any sessions of
  the calendar whose Alpha values are in the order of their known instruments, evaluating the labels
  built row by row returns exactly the observations read from the label matrices, with the same
  samples, exclusions, boundaries and coverage; and one raises whenever the other does, a missing or
  zero entry, a missing exit or an infinite return included, whatever the metrics of a sample are.
\<close>

theorem forward_labels_agree:
  assumes "distinct (map fst (fa_instruments data))" and "\<forall>session\<in>set sessions. readable_session data matrix session"
  shows "case bindE (build_forward_labels data matrix sessions horizons) (evaluate_factor factor_values) of
      Inr observations \<Rightarrow> factor_days_by_horizon factor_values data matrix (map (\<lambda>horizon. (horizon, sessions)) horizons) = Inr observations
    | Inl _ \<Rightarrow> isl (factor_days_by_horizon factor_values data matrix (map (\<lambda>horizon. (horizon, sessions)) horizons))"
proof -
  have horizon: "same_results (bindE (bindE (mapE (label_session_of data matrix horizon) sessions) (\<lambda>rows. Inr (horizon, rows)))
      (\<lambda>(horizon, rows). bindE (mapE (factor_observation_from_labels factor_values horizon) rows) (\<lambda>days. Inr (horizon, days))))
    (bindE (mapE (factor_day_of factor_values data matrix horizon) sessions) (\<lambda>days. Inr (horizon, days)))" for horizon
  proof -
    have "same_results (bindE (mapE (label_session_of data matrix horizon) sessions) (mapE (factor_observation_from_labels factor_values horizon)))
        (mapE (factor_day_of factor_values data matrix horizon) sessions)"
      using session_days_agree [OF assms(1)] assms(2) by (intro same_results_mapE) blast
    from same_results_bind [OF this, of "\<lambda>days. Inr (horizon, days)" "\<lambda>days. Inr (horizon, days)"]
    show ?thesis by (simp add: bindE_assoc)
  qed
  have map: "mapE f (map g xs) = mapE (\<lambda>x. f (g x)) xs" for f :: "'x \<Rightarrow> py_error + 'y" and g :: "'z \<Rightarrow> 'x" and xs
    by (induction xs) simp_all
  have "same_results (bindE (build_forward_labels data matrix sessions horizons) (evaluate_factor factor_values))
      (factor_days_by_horizon factor_values data matrix (map (\<lambda>horizon. (horizon, sessions)) horizons))"
    unfolding build_forward_labels_def evaluate_factor_def factor_days_by_horizon_def map prod.case
    using horizon by (intro same_results_mapE)
  then show ?thesis by (simp add: same_results_def split: sum.splits)
qed

definition sample_factor :: factor_data where
  "sample_factor = \<lparr>fa_sessions = [''2024-01-02'', ''2024-01-03'', ''2024-01-04''],
     fa_instruments = [(''b'', \<lparr>profile_board = ''main'', profile_listed_to = Some ''2024-01-04''\<rparr>),
       (''a'', \<lparr>profile_board = ''main'', profile_listed_to = None\<rparr>), (''c'', \<lparr>profile_board = ''main'', profile_listed_to = None\<rparr>)],
     fa_opens = (\<lambda>x. map_of [((''2024-01-03'', ''a''), 10), ((''2024-01-04'', ''a''), 11), ((''2024-01-03'', ''b''), 5)] x),
     fa_states = (\<lambda>x. map_of [((''2024-01-03'', ''c''), ''full_session_suspension'')] x)\<rparr>"

definition sample_alpha :: "alpha_session list" where
  "sample_alpha = [\<lparr>as_session = ''2024-01-02'', as_values = [(''a'', 3), (''b'', 1), (''c'', 2)], as_coverage_loss = []\<rparr>]"

lemma forward_labels_agree_witness:
  "\<exists>day. factor_days_by_horizon (\<lambda>xs ys. Inr (xs, ys)) sample_factor sample_alpha [(1, [''2024-01-02''])] = Inr [(1, [day])] \<and>
     fo_label_exclusions day = [(''confirmed_market_open_unavailable'', 1)] \<and> fst (fo_metrics day) = [3, 1]"
proof -
  let ?rows = "bindE (build_forward_labels sample_factor sample_alpha [''2024-01-02''] [1]) (evaluate_factor (\<lambda>xs ys. Inr (xs, ys)))"
  have "distinct (map fst (fa_instruments sample_factor))" by (simp add: sample_factor_def)
  moreover have "readable_session sample_factor sample_alpha ''2024-01-02''" by code_simp
  ultimately have agree: "case ?rows of
      Inr observations \<Rightarrow> factor_days_by_horizon (\<lambda>xs ys. Inr (xs, ys)) sample_factor sample_alpha [(1, [''2024-01-02''])] = Inr observations
    | Inl _ \<Rightarrow> isl (factor_days_by_horizon (\<lambda>xs ys. Inr (xs, ys)) sample_factor sample_alpha [(1, [''2024-01-02''])])"
    by (intro forward_labels_agree [where data = sample_factor and sessions = "[''2024-01-02'']" and matrix = sample_alpha
        and horizons = "[1]" and factor_values = "\<lambda>xs ys. Inr (xs, ys)", unfolded list.map]) simp_all
  have "case ?rows of Inl _ \<Rightarrow> False | Inr observations \<Rightarrow> map fst observations = [1] \<and> map (length \<circ> snd) observations = [1] \<and>
      fo_label_exclusions (hd (snd (hd observations))) = [(''confirmed_market_open_unavailable'', 1)] \<and>
      fst (fo_metrics (hd (snd (hd observations)))) = [3, 1]" by code_simp
  then obtain observations where o: "?rows = Inr observations" "map fst observations = [1]" "map (length \<circ> snd) observations = [1]"
      "fo_label_exclusions (hd (snd (hd observations))) = [(''confirmed_market_open_unavailable'', 1)]"
      "fst (fo_metrics (hd (snd (hd observations)))) = [3, 1]"
    by (cases ?rows) auto
  then obtain day where "observations = [(1, [day])]" by (auto simp: map_eq_Cons_conv length_Suc_conv)
  then show ?thesis using agree o by (simp add: o(1))
qed

end
