(* ===== verification/FactorEvidence.thy ===== *)
theory FactorEvidence
  imports FactorLabels Floats AlphaTypes
begin

text \<open>
  The metrics of a daily Factor observation (\<open>research_kernel/factor.py\<close>: Pearson and rank
  correlation, quantile groups and their returns) and the check that published observations go through
  (\<open>research_kernel/factor_evidence.py\<close>).

  Samples are finite floats. \<open>beyond\<close> stands for what numpy and \<open>fsum\<close> make of a correlation with an
  intermediate number out of the float range, an infinity or an exception; an intermediate overflow
  inside \<open>fsum\<close> is not told apart from one of its result.
\<close>

section \<open>Correlation\<close>

definition fsum :: "rat list \<Rightarrow> py_error + rat" where
  "fsum xs = float_of (sum_list xs)"

definition mean_or_none :: "rat list \<Rightarrow> py_error + rat option" where
  "mean_or_none xs = (if xs = [] then Inr None else
     bindE (fsum xs) (\<lambda>s. bindE (fdiv s (of_nat (length xs))) (\<lambda>m. Inr (Some m))))"

definition centered :: "rat list \<Rightarrow> py_error + rat list" where
  "centered xs =
     bindE (fsum xs) (\<lambda>s. bindE (fdiv s (of_nat (length xs))) (\<lambda>mean. mapE (\<lambda>x. float_of (x - mean)) xs))"

definition correlation_in_range :: "rat list \<Rightarrow> rat list \<Rightarrow> py_error + rat option" where
  "correlation_in_range left right =
     bindE (centered left) (\<lambda>left_centered.
     bindE (centered right) (\<lambda>right_centered.
     bindE (bindE (mapE (\<lambda>x. fmul x x) left_centered) fsum) (\<lambda>left_sum.
     bindE (bindE (mapE (\<lambda>x. fmul x x) right_centered) fsum) (\<lambda>right_sum.
     if left_sum = 0 \<or> right_sum = 0 then Inr None else
     bindE (bindE (mapE (\<lambda>(x, y). fmul x y) (zip left_centered right_centered)) fsum) (\<lambda>products.
     bindE (bindE (fmul left_sum right_sum) sqrt_fraction) (\<lambda>scale.
     if scale = 0 then Inl ZeroDivisionError
     else Inr (case float_of (products / scale) of Inl _ \<Rightarrow> None | Inr x \<Rightarrow> Some x)))))))"

definition pearson_arrays :: "(rat list \<Rightarrow> rat list \<Rightarrow> py_error + rat option) \<Rightarrow> rat list \<Rightarrow> rat list \<Rightarrow> py_error + rat option" where
  "pearson_arrays beyond left right =
     (if length left \<noteq> length right \<or> length left = 0 then Inr None
      else case correlation_in_range left right of Inl OverflowError \<Rightarrow> beyond left right | r \<Rightarrow> r)"

section \<open>Ranks and groups\<close>

text \<open>\<open>argsort\<close> is stable; a group of equal values takes the average of its positions, counted from one.\<close>

definition average_ranks :: "rat list \<Rightarrow> rat list" where
  "average_ranks xs =
     (let n = length xs; order = sort_key (\<lambda>k. xs ! k) [0..<n]; ordered = map (\<lambda>k. xs ! k) order;
          starts = filter (\<lambda>k. k = 0 \<or> ordered ! k \<noteq> ordered ! (k - 1)) [0..<n];
          ends = tl starts @ [n];
          group_ranks = map2 (\<lambda>a b. of_nat (a + 1 + b) / 2) starts ends;
          sorted_ranks = concat (map2 (\<lambda>(a, b) r. replicate (b - a) r) (zip starts ends) group_ranks)
      in map (\<lambda>k. case map_of (zip order sorted_ranks) k of None \<Rightarrow> 0 | Some r \<Rightarrow> r) [0..<n])"

definition factor_group :: "nat \<Rightarrow> rat \<Rightarrow> py_error + int" where
  "factor_group n rank =
     bindE (float_of (rank - 1)) (\<lambda>a. bindE (fmul a 5) (\<lambda>b. bindE (fdiv b (of_nat n)) (\<lambda>x. Inr (min 5 (\<lfloor>x\<rfloor> + 1)))))"

definition QUANTILES :: "(int \<times> string) list" where
  "QUANTILES = [(1, ''q1''), (2, ''q2''), (3, ''q3''), (4, ''q4''), (5, ''q5'')]"

record factor_metrics =
  mt_ic :: "rat option"
  mt_rank_ic :: "rat option"
  mt_correlation_reason :: "string option"
  mt_quantile_returns :: "(string \<times> rat option) list"
  mt_quantile_counts :: "(string \<times> int) list"
  mt_top_bottom :: "pyfloat option"
  mt_quantile_reason :: "string option"

text \<open>\<open>q5 - q1\<close>\<close>

definition float_difference :: "rat \<Rightarrow> rat \<Rightarrow> pyfloat" where
  "float_difference q5 q1 = (case float_of (q5 - q1) of Inl _ \<Rightarrow> pyfloat.Infinite | Inr x \<Rightarrow> pyfloat.Finite x)"

definition top_bottom_of :: "(string \<times> rat option) list \<Rightarrow> pyfloat option" where
  "top_bottom_of quantiles =
     (case (map_of quantiles ''q1'', map_of quantiles ''q5'') of
        (Some (Some q1), Some (Some q5)) \<Rightarrow> Some (float_difference q5 q1) | _ \<Rightarrow> None)"

definition empty_metrics :: factor_metrics where
  "empty_metrics = \<lparr>mt_ic = None, mt_rank_ic = None, mt_correlation_reason = Some ''sample_insufficient'',
     mt_quantile_returns = map (\<lambda>(g, q). (q, None)) QUANTILES, mt_quantile_counts = map (\<lambda>(g, q). (q, 0)) QUANTILES,
     mt_top_bottom = None, mt_quantile_reason = Some ''sample_insufficient''\<rparr>"

definition in_group :: "int list \<Rightarrow> rat list \<Rightarrow> int \<Rightarrow> rat list" where
  "in_group groups label g = map snd (filter (\<lambda>(h, y). h = g) (zip groups label))"

definition factor_array_values :: "(rat list \<Rightarrow> rat list \<Rightarrow> py_error + rat option) \<Rightarrow> rat list \<Rightarrow> rat list \<Rightarrow> py_error + factor_metrics" where
  "factor_array_values beyond alpha label =
     (if length alpha \<noteq> length label then Inl (FactorDataError ''Factor sample coordinates are misaligned'' [])
      else if length alpha < 30 then Inr empty_metrics
      else
        bindE (pearson_arrays beyond alpha label) (\<lambda>ic.
        let ranks = average_ranks alpha in
        bindE (pearson_arrays beyond ranks (average_ranks label)) (\<lambda>rank_ic.
        bindE (mapE (factor_group (length alpha)) ranks) (\<lambda>groups.
        bindE (mapE (\<lambda>(g, q). bindE (mean_or_none (in_group groups label g)) (\<lambda>m. Inr (q, m))) QUANTILES) (\<lambda>quantiles.
        Inr \<lparr>mt_ic = ic, mt_rank_ic = rank_ic,
             mt_correlation_reason = (if ic = None \<or> rank_ic = None then Some ''constant_array'' else None),
             mt_quantile_returns = quantiles,
             mt_quantile_counts = map (\<lambda>(g, q). (q, int (count_list groups g))) QUANTILES,
             mt_top_bottom = top_bottom_of quantiles, mt_quantile_reason = None\<rparr>)))))"

section \<open>The published observation\<close>

definition validate_coverage :: "'m factor_observation \<Rightarrow> py_error + unit" where
  "validate_coverage o' =
     bindE (raiseIf (length (fo_session o') < 1 \<or> 32 < length (fo_session o') \<or> fo_horizon o' \<notin> {1, 5, 20}
              \<or> fo_candidate_count o' < 0 \<or> fo_alpha_count o' < 0 \<or> fo_sample_count o' < 0
              \<or> \<not> list_all (\<lambda>(q, n). q \<in> {''missing_expression'', ''missing_industry'', ''industry_group_too_small''} \<and> 0 < n)
                   (fo_alpha_exclusions o')
              \<or> \<not> list_all (\<lambda>(q, n). q \<in> {''confirmed_market_open_unavailable'', ''data_unavailable'',
                    ''right_censored_by_research_period_end''} \<and> 0 < n) (fo_label_exclusions o')) (ValueError ''FactorDailyObservation'')) (\<lambda>_.
     bindE (raiseIf (fo_candidate_count o' \<noteq> fo_alpha_count o' + sum_list (map snd (fo_alpha_exclusions o')))
              (ValueError ''Factor Alpha coverage is inconsistent'')) (\<lambda>_.
     bindE (raiseIf (fo_alpha_count o' \<noteq> fo_sample_count o' + sum_list (map snd (fo_label_exclusions o')))
              (ValueError ''Factor label coverage is inconsistent'')) (\<lambda>_.
     bindE (raiseIf (fo_censored o' \<noteq> (fo_exit_session o' = None)) (ValueError ''Factor label boundary is inconsistent'')) (\<lambda>_.
     if fo_censored o' then
       raiseIf (fo_sample_count o' \<noteq> 0 \<or> fo_label_exclusions o' \<noteq>
           (if fo_alpha_count o' \<noteq> 0 then [(''right_censored_by_research_period_end'', fo_alpha_count o')] else []))
         (ValueError ''Censored Factor labels cannot be evaluated'')
     else
       raiseIf (fo_entry_session o' = None \<or> ''right_censored_by_research_period_end'' \<in> set (map fst (fo_label_exclusions o')))
         (ValueError ''Factor label coordinates are incomplete'')))))"

definition unit_range :: "rat option \<Rightarrow> bool" where
  "unit_range c = (case c of None \<Rightarrow> True | Some x \<Rightarrow> - 1 \<le> x \<and> x \<le> 1)"

definition validate_metrics :: "int \<Rightarrow> factor_metrics \<Rightarrow> py_error + unit" where
  "validate_metrics sample_count m =
     (let names = snd ` set QUANTILES; insufficient = (sample_count < 30) in
     bindE (raiseIf (\<not> list_all (\<lambda>(q, n). 0 \<le> n) (mt_quantile_counts m)) (ValueError ''FactorDailyObservation'')) (\<lambda>_.
     bindE (raiseIf (set (map fst (mt_quantile_counts m)) \<noteq> names \<or> set (map fst (mt_quantile_returns m)) \<noteq> names)
              (ValueError ''Factor evidence requires all five groups'')) (\<lambda>_.
     bindE (raiseIf (mt_top_bottom m = Some pyfloat.Infinite \<or> mt_top_bottom m = Some NotANumber)
              (ValueError ''Factor evidence must be finite or missing'')) (\<lambda>_.
     bindE (raiseIf (\<not> unit_range (mt_ic m) \<or> \<not> unit_range (mt_rank_ic m)) (ValueError ''Factor correlation is outside its range'')) (\<lambda>_.
     bindE (raiseIf ((mt_correlation_reason m = None) \<noteq> (mt_ic m \<noteq> None \<and> mt_rank_ic m \<noteq> None))
              (ValueError ''Factor correlation availability is inconsistent'')) (\<lambda>_.
     bindE (raiseIf (insufficient \<noteq> (mt_quantile_reason m = Some ''sample_insufficient''))
              (ValueError ''Factor group availability is inconsistent'')) (\<lambda>_.
     bindE (raiseIf (insufficient \<and> mt_correlation_reason m \<noteq> Some ''sample_insufficient'')
              (ValueError ''Factor sample insufficiency is unexplained'')) (\<lambda>_.
     bindE (raiseIf (sum_list (map snd (mt_quantile_counts m)) \<noteq> (if insufficient then 0 else sample_count))
              (ValueError ''Factor group counts do not reconcile'')) (\<lambda>_.
     bindE (raiseIf (\<exists>q\<in>names. (map_of (mt_quantile_counts m) q = Some 0) \<noteq> (map_of (mt_quantile_returns m) q = Some None))
              (ValueError ''Factor empty group must be missing'')) (\<lambda>_.
     raiseIf (mt_top_bottom m \<noteq> top_bottom_of (mt_quantile_returns m)) (ValueError ''Factor Top-Bottom does not reconcile'')))))))))))"

definition validate_factor_observation :: "factor_metrics factor_observation \<Rightarrow> py_error + unit" where
  "validate_factor_observation o' =
     bindE (validate_coverage o') (\<lambda>_. validate_metrics (fo_sample_count o') (fo_metrics o'))"

definition validate_factor_observations :: "factor_metrics factor_observation list \<Rightarrow> py_error + unit" where
  "validate_factor_observations rows =
     bindE (foldE (\<lambda>o' _. validate_factor_observation o') rows ()) (\<lambda>_.
     raiseIf (\<not> sorted_wrt (\<lambda>a b. fst a < fst b \<or> fst a = fst b \<and> snd a < snd b) (map (\<lambda>o'. (fo_horizon o', fo_session o')) rows))
       (ValueError ''Factor daily coordinates must be unique and ordered''))"

text \<open>The coordinates whose labels a chunk resolves, final censoring included.\<close>

definition factor_resolution_coordinates :: "string list \<Rightarrow> int \<Rightarrow> int \<Rightarrow> bool \<Rightarrow> py_error + (nat \<times> string) list" where
  "factor_resolution_coordinates sessions before after final =
     bindE (raiseIf (\<not> sorted_wrt (<) sessions \<or> \<not> (0 \<le> before \<and> before \<le> after \<and> after \<le> int (length sessions))
              \<or> final \<and> after \<noteq> int (length sessions)) (ValueError ''Factor resolution boundary is invalid'')) (\<lambda>_.
     Inr (concat (map (\<lambda>horizon. map (\<lambda>session. (horizon, session))
       (let start = nat (max 0 (before - int horizon - 1));
            stop = (if final then length sessions else nat (max 0 (after - int horizon - 1)))
        in drop start (take stop sessions))) HORIZONS)))"


section \<open>A perfect correlation can exceed one\<close>

lemma mapE_replicate: "f x = Inr y \<Longrightarrow> mapE f (replicate n x) = Inr (replicate n y)"
  by (induction n) simp_all

lemma mapE_snoc: "mapE f (xs @ [x]) = bindE (mapE f xs) (\<lambda>ys. bindE (f x) (\<lambda>y. Inr (ys @ [y])))"
proof (induction xs)
  case (Cons a xs)
  then show ?case by (cases "f a") (simp_all add: bindE_assoc)
qed simp

text \<open>All values but one are equal.\<close>

lemma outlier_sum: "fsum (replicate n x @ [y]) = float_of (of_nat n * x + y)"
  by (simp add: fsum_def sum_list_replicate)

lemma outlier_map: "f x = Inr a \<Longrightarrow> f y = Inr b \<Longrightarrow> mapE f (replicate n x @ [y]) = Inr (replicate n a @ [b])"
  by (simp add: mapE_snoc mapE_replicate)

definition outlier :: rat where
  "outlier = 2308094809027379 / 2 ^ 49"

text \<open>One instrument of 32 has the signal 32 and the return 4.1, the others have none of either.\<close>

lemma outlier_correlation:
  "pearson_arrays beyond (replicate 31 0 @ [32]) (replicate 31 0 @ [outlier]) = Inr (Some (1 + 1 / 2 ^ 52))"
proof -
  let ?m = "2308094809027379 / 2 ^ 54 :: rat" and ?d = "4471933692490547 / 2 ^ 50 :: rat"
  have left: "centered (replicate 31 0 @ [32]) = Inr (replicate 31 (- 1) @ [31])"
  proof -
    have "float_of 32 = Inr 32" "fdiv 32 32 = Inr 1" "float_of (0 - 1) = Inr (- 1)" "float_of (32 - 1) = Inr 31" by code_simp+
    then show ?thesis by (simp add: centered_def outlier_sum outlier_map)
  qed
  have right: "centered (replicate 31 0 @ [outlier]) = Inr (replicate 31 (- ?m) @ [?d])"
  proof -
    have "float_of outlier = Inr outlier" "fdiv outlier 32 = Inr ?m" "float_of (0 - ?m) = Inr (- ?m)" "float_of (outlier - ?m) = Inr ?d"
      by code_simp+
    then show ?thesis by (simp add: centered_def outlier_sum outlier_map del: diff_0)
  qed
  have left_sum: "bindE (mapE (\<lambda>x. fmul x x) (replicate 31 (- 1) @ [31])) fsum = Inr 992"
  proof -
    have "fmul (- 1) (- 1) = Inr 1" "fmul 31 31 = Inr 961" "float_of 992 = Inr 992" by code_simp+
    then show ?thesis by (simp add: outlier_map outlier_sum)
  qed
  let ?sq = "4731594358506127 / 2 ^ 58 :: rat" and ?sd = "8880980817430445 / 2 ^ 49 :: rat"
  have right_sum: "bindE (mapE (\<lambda>x. fmul x x) (replicate 31 (- ?m) @ [?d])) fsum = Inr (2291866017401405 / 2 ^ 47)"
  proof -
    have f: "fmul (- ?m) (- ?m) = Inr ?sq" "fmul ?d ?d = Inr ?sd" "float_of (of_nat 31 * ?sq + ?sd) = Inr (2291866017401405 / 2 ^ 47)" by code_simp+
    show ?thesis by (simp only: outlier_map [of "\<lambda>x. fmul x x", OF f(1,2)] outlier_sum bindE_simps f(3))
  qed
  let ?p = "8664371529200435 / 2 ^ 46 :: rat"
  have products: "bindE (mapE (\<lambda>(x, y). fmul x y) (zip (replicate 31 (- 1) @ [31]) (replicate 31 (- ?m) @ [?d]))) fsum
      = Inr (4471933692490547 / 2 ^ 45)"
  proof -
    have f: "fmul (- 1) (- ?m) = Inr ?m" "fmul 31 ?d = Inr ?p" "float_of (of_nat 31 * ?m + ?p) = Inr (4471933692490547 / 2 ^ 45)" by code_simp+
    have "zip (replicate 31 (- 1 :: rat) @ [31]) (replicate 31 (- ?m) @ [?d]) = replicate 31 (- 1, - ?m) @ [(31, ?d)]"
      by (simp add: zip_replicate)
    then show ?thesis
      by (simp only: outlier_map [of "\<lambda>(x, y). fmul x y" "(- 1, - ?m)" _ "(31, ?d)", unfolded prod.case, OF f(1,2)] outlier_sum bindE_simps f(3))
  qed
  have "fmul 992 (2291866017401405 / 2 ^ 47) = Inr (2220245204357611 / 2 ^ 37)" by code_simp
  moreover have "sqrt_fraction (2220245204357611 / 2 ^ 37) = Inr (8943867384981093 / 2 ^ 46)" by code_simp
  moreover have "float_of (4471933692490547 / 2 ^ 45 / (8943867384981093 / 2 ^ 46)) = Inr (1 + 1 / 2 ^ 52)" by code_simp
  ultimately have "correlation_in_range (replicate 31 0 @ [32]) (replicate 31 0 @ [outlier]) = Inr (Some (1 + 1 / 2 ^ 52))"
    unfolding correlation_in_range_def left right bindE_simps left_sum right_sum products by simp
  then show ?thesis by (simp add: pearson_arrays_def)
qed

text \<open>
  So a signal with one outlier that the returns follow exactly has a correlation above one, and its
  observation does not pass the check of published observations.
\<close>

lemma perfect_correlation_rejected:
  "\<exists>x. pearson_arrays beyond (replicate 31 0 @ [32]) (replicate 31 0 @ [outlier]) = Inr (Some x) \<and> 1 < x \<and>
     (\<forall>m n. mt_ic m = Some x \<longrightarrow> isl (validate_metrics n m))"
proof -
  have "isl (validate_metrics n m)" if "mt_ic m = Some (1 + 1 / 2 ^ 52)" for m n
    using that by (auto simp: validate_metrics_def unit_range_def raiseIf_def Let_def isl_def)
  then show ?thesis using outlier_correlation [of beyond] by (intro exI [of _ "1 + 1 / 2 ^ 52"]) simp
qed

section \<open>Ranks\<close>

lemma spans_length:
  "sorted (starts :: nat list) \<Longrightarrow> starts \<noteq> [] \<Longrightarrow> \<forall>k\<in>set starts. k \<le> n \<Longrightarrow>
     sum_list (map (\<lambda>(a, b). b - a) (zip starts (tl starts @ [n]))) = n - hd starts"
proof (induction starts)
  case (Cons a starts)
  show ?case
  proof (cases starts)
    case Nil
    then show ?thesis by simp
  next
    case (Cons b rest)
    then show ?thesis using Cons.IH Cons.prems by simp
  qed
qed simp

lemma average_ranks_positive: "length (average_ranks xs) = length xs \<and> (\<forall>r\<in>set (average_ranks xs). 1 \<le> r)"
proof (cases "xs = []")
  case True
  then show ?thesis by (simp add: average_ranks_def)
next
  case False
  define n where "n = length xs"
  define order where "order = sort_key (\<lambda>k. xs ! k) [0..<n]"
  define ordered where "ordered = map (\<lambda>k. xs ! k) order"
  define starts where "starts = filter (\<lambda>k. k = 0 \<or> ordered ! k \<noteq> ordered ! (k - 1)) [0..<n]"
  define spans where "spans = zip starts (tl starts @ [n])"
  define ranks :: "rat list" where "ranks = concat (map2 (\<lambda>(a, b) r. replicate (b - a) r) spans (map2 (\<lambda>a b. of_nat (a + 1 + b) / 2) starts (tl starts @ [n])))"
  have ranks: "ranks = concat (map (\<lambda>(a, b). replicate (b - a) (of_nat (a + 1 + b) / 2)) spans)"
    unfolding ranks_def spans_def by (intro arg_cong [of _ _ concat]) (auto simp: zip_map2 zip_same_conv_map intro!: nth_equalityI)
  have n: "0 < n" using False by (simp add: n_def)
  then have "[0..<n] = 0 # [1..<n]" by (simp add: upt_conv_Cons)
  then have starts0: "starts \<noteq> []" "hd starts = 0" unfolding starts_def by simp_all
  have "sorted starts" unfolding starts_def by (simp add: sorted_filter [of "\<lambda>x. x", simplified])
  moreover have "\<forall>k\<in>set starts. k \<le> n" unfolding starts_def by simp
  ultimately have "sum_list (map (\<lambda>(a, b). b - a) spans) = n" unfolding spans_def using spans_length [of starts n] starts0 by simp
  moreover have "length ranks = sum_list (map (\<lambda>(a, b). b - a) spans)" unfolding ranks length_concat map_map
    by (intro arg_cong [of _ _ sum_list] map_cong) auto
  ultimately have length: "length ranks = n" by simp
  have low: "1 \<le> r" if "r \<in> set ranks" for r
  proof -
    have "\<exists>span\<in>set spans. r \<in> set (case span of (a, b) \<Rightarrow> replicate (b - a) (of_nat (a + 1 + b) / 2))"
      using that unfolding ranks set_concat set_map by blast
    then obtain span where "r \<in> set (replicate (snd span - fst span) (of_nat (fst span + 1 + snd span) / 2))"
      unfolding case_prod_beta by blast
    then have "r = of_nat (fst span + 1 + snd span) / 2" "1 \<le> snd span" by (auto split: if_splits)
    then show ?thesis by simp
  qed
  have result: "average_ranks xs = map (\<lambda>k. case map_of (zip order ranks) k of None \<Rightarrow> 0 | Some r \<Rightarrow> r) [0..<n]"
    unfolding average_ranks_def Let_def ranks_def spans_def starts_def ordered_def order_def n_def by (rule refl)
  have "1 \<le> (case map_of (zip order ranks) k of None \<Rightarrow> 0 | Some r \<Rightarrow> r)" if k: "k < n" for k
  proof -
    have "k \<in> set order" using k by (simp add: order_def)
    moreover have "length order = length ranks" using length by (simp add: order_def)
    ultimately obtain r where r: "map_of (zip order ranks) k = Some r" using map_of_zip_is_Some [of order ranks k] by blast
    then have "r \<in> set ranks" by (auto dest: map_of_SomeD set_zip_rightD)
    then show ?thesis using low r by simp
  qed
  then show ?thesis unfolding result by (simp add: n_def)
qed

section \<open>Groups\<close>

lemma float_of_nonneg: "float_of x = Inr y \<Longrightarrow> 0 \<le> x \<Longrightarrow> 0 \<le> y"
proof -
  assume y: "float_of x = Inr y" and x: "0 \<le> x"
  show "0 \<le> y"
  proof (cases "10 powi (- 28) \<le> x")
    case True
    then show ?thesis using float_of_pos [OF y] by simp
  next
    case False
    then have "\<bar>x\<bar> \<le> 2 ^ 0" using x by (simp add: power_int_minus)
    from float_within [OF this] show ?thesis using x y by simp
  qed
qed

lemma factor_group_range: "factor_group n r = Inr g \<Longrightarrow> 1 \<le> r \<Longrightarrow> 1 \<le> g \<and> g \<le> 5"
proof -
  assume g: "factor_group n r = Inr g" and r: "1 \<le> r"
  obtain a b x where s: "float_of (r - 1) = Inr a" "fmul a 5 = Inr b" "fdiv b (of_nat n) = Inr x" "g = min 5 (\<lfloor>x\<rfloor> + 1)"
    using g by (auto simp: factor_group_def elim!: bindE_InrE)
  have "0 \<le> a" using float_of_nonneg [OF s(1)] r by simp
  then have "0 \<le> b" using float_of_nonneg [of "a * 5" b] s(2) by (simp add: fmul_def)
  then have "0 \<le> x" using float_of_nonneg [of "b / of_nat n" x] s(3) by (auto simp: fdiv_def split: if_splits)
  then show ?thesis using s(4) by simp
qed

lemma groups_sum: "\<forall>g\<in>set groups. 1 \<le> g \<and> g \<le> (5 :: int) \<Longrightarrow> (\<Sum>(g, q)\<leftarrow>QUANTILES. int (count_list groups g)) = int (length groups)"
proof (induction groups)
  case Nil
  then show ?case by (simp add: QUANTILES_def)
next
  case (Cons g groups)
  then have "g = 1 \<or> g = 2 \<or> g = 3 \<or> g = 4 \<or> g = 5" by auto
  then show ?case using Cons by (auto simp: QUANTILES_def)
qed

lemma group_empty: "length groups = length label \<Longrightarrow> (in_group groups label g = []) = (count_list groups g = 0)"
proof (induction groups arbitrary: label)
  case (Cons h groups)
  then show ?case by (cases label) (auto simp: in_group_def)
qed (simp add: in_group_def)

lemma mean_missing: "mean_or_none xs = Inr m \<Longrightarrow> (m = None) = (xs = [])"
  by (auto simp: mean_or_none_def split: if_splits elim!: bindE_InrE)

section \<open>Accepted metrics\<close>

lemma quantile_names: "map snd QUANTILES = [''q1'', ''q2'', ''q3'', ''q4'', ''q5'']" "distinct (map snd QUANTILES)"
  by (simp_all add: QUANTILES_def)

lemma mapE_pairs:
  assumes "mapE (\<lambda>(g, q). bindE (f g) (\<lambda>m. Inr (q, m))) items = Inr rows"
  shows "map fst rows = map snd items" and "\<And>g q. (g, q) \<in> set items \<Longrightarrow> distinct (map snd items) \<Longrightarrow> \<exists>m. f g = Inr m \<and> map_of rows q = Some m"
proof -
  show keys: "map fst rows = map snd items" using assms by (induction items arbitrary: rows) (auto elim!: bindE_InrE)
  fix g q
  assume "(g, q) \<in> set items" and "distinct (map snd items)"
  then show "\<exists>m. f g = Inr m \<and> map_of rows q = Some m" using assms
  proof (induction items arbitrary: rows)
    case (Cons item items)
    obtain h p where item: "item = (h, p)" by (cases item)
    obtain m rest where m: "f h = Inr m" "mapE (\<lambda>(g, q). bindE (f g) (\<lambda>m. Inr (q, m))) items = Inr rest" "rows = (p, m) # rest"
      using Cons.prems(3) by (auto simp: item elim!: bindE_InrE)
    show ?case
    proof (cases "(g, q) = (h, p)")
      case True
      then show ?thesis using m by simp
    next
      case False
      then have "(g, q) \<in> set items" "q \<noteq> p" using Cons.prems(1,2) by (auto simp: item image_iff)
      then show ?thesis using Cons.IH [OF _ _ m(2)] Cons.prems(2) m(3) by auto
    qed
  qed simp
qed

lemma map_of_counts: "(g, q) \<in> set items \<Longrightarrow> distinct (map snd items) \<Longrightarrow> map_of (map (\<lambda>(g, q). (q, f g)) items) q = Some (f g)"
  by (induction items) (auto simp: image_iff)

lemma empty_metrics_accepted: "0 \<le> n \<Longrightarrow> n < 30 \<Longrightarrow> validate_metrics n empty_metrics = Inr ()"
  by (simp add: validate_metrics_def empty_metrics_def QUANTILES_def unit_range_def top_bottom_of_def Let_def)

lemma metrics_accepted:
  assumes run: "factor_array_values beyond alpha label = Inr m"
    and range: "unit_range (mt_ic m)" "unit_range (mt_rank_ic m)" and finite: "mt_top_bottom m \<noteq> Some pyfloat.Infinite"
  shows "validate_metrics (int (length alpha)) m = Inr ()"
proof (cases "length alpha < 30")
  case True
  then have "m = empty_metrics" using run by (simp add: factor_array_values_def split: if_splits)
  then show ?thesis using True by (simp add: empty_metrics_accepted)
next
  case False
  let ?names = "snd ` set QUANTILES"
  obtain ic rank_ic groups quantiles where lengths: "length alpha = length label"
    and groups: "mapE (factor_group (length alpha)) (average_ranks alpha) = Inr groups"
    and quantiles: "mapE (\<lambda>(g, q). bindE (mean_or_none (in_group groups label g)) (\<lambda>m. Inr (q, m))) QUANTILES = Inr quantiles"
    and m: "m = \<lparr>mt_ic = ic, mt_rank_ic = rank_ic,
        mt_correlation_reason = (if ic = None \<or> rank_ic = None then Some ''constant_array'' else None), mt_quantile_returns = quantiles,
        mt_quantile_counts = map (\<lambda>(g, q). (q, int (count_list groups g))) QUANTILES,
        mt_top_bottom = top_bottom_of quantiles, mt_quantile_reason = None\<rparr>"
    using run False by (auto simp: factor_array_values_def Let_def split: if_splits elim!: bindE_InrE)
  have size: "length groups = length alpha" using mapE_length [OF groups] average_ranks_positive [of alpha] by simp
  have "\<forall>g\<in>set groups. 1 \<le> g \<and> g \<le> 5"
    using mapE_InrE(2) [OF groups] average_ranks_positive [of alpha] factor_group_range by blast
  then have sum: "sum_list (map snd (mt_quantile_counts m)) = int (length alpha)"
    using groups_sum [of groups] size by (simp add: m comp_def case_prod_unfold)
  have empty: "(map_of (mt_quantile_counts m) q = Some 0) = (map_of (mt_quantile_returns m) q = Some None)" if q: "q \<in> ?names" for q
  proof -
    obtain g where g: "(g, q) \<in> set QUANTILES" using q by auto
    obtain mean where mean: "mean_or_none (in_group groups label g) = Inr mean" "map_of quantiles q = Some mean"
      using mapE_pairs(2) [OF quantiles g quantile_names(2)] by blast
    have "map_of (mt_quantile_counts m) q = Some (int (count_list groups g))"
      unfolding m by (simp add: map_of_counts [OF g quantile_names(2)])
    then show ?thesis using mean_missing [OF mean(1)] group_empty [of groups label g] size lengths mean(2) by (simp add: m)
  qed
  have names: "set (map fst (mt_quantile_counts m)) = ?names" "set (map fst (mt_quantile_returns m)) = ?names"
    using arg_cong [OF mapE_pairs(1) [OF quantiles], of set] by (simp_all add: m image_image case_prod_unfold)
  have nan: "mt_top_bottom m \<noteq> Some NotANumber"
    by (auto simp: m top_bottom_of_def float_difference_def split: option.splits sum.splits)
  have counts: "list_all (\<lambda>(q, n). 0 \<le> n) (mt_quantile_counts m)" by (auto simp: m list_all_iff)
  have reasons: "(mt_correlation_reason m = None) = (mt_ic m \<noteq> None \<and> mt_rank_ic m \<noteq> None)" "mt_quantile_reason m = None"
    "mt_top_bottom m = top_bottom_of (mt_quantile_returns m)" by (auto simp: m)
  have no: "\<not> (\<exists>q\<in>?names. (map_of (mt_quantile_counts m) q = Some 0) \<noteq> (map_of (mt_quantile_returns m) q = Some None))"
    using empty by blast
  show ?thesis
    unfolding validate_metrics_def Let_def raiseIf_def names sum if_not_P [OF no]
    using range finite nan counts reasons False by simp
qed

section \<open>Accepted observations\<close>

lemma label_cell_censored:
  "length (fa_sessions data) \<le> k + 1 + horizon \<Longrightarrow> fst (label_cell data horizon instrument k) = Censored"
  "k + 1 + horizon < length (fa_sessions data) \<Longrightarrow> fst (label_cell data horizon instrument k) \<noteq> Censored"
proof -
  show "fst (label_cell data horizon instrument k) = Censored" if "length (fa_sessions data) \<le> k + 1 + horizon"
  proof -
    have width: "length (fa_sessions data) - horizon - 1 \<le> k" using that by simp
    show ?thesis unfolding label_cell_def Let_def if_P [OF width] by simp
  qed
  show "fst (label_cell data horizon instrument k) \<noteq> Censored" if "k + 1 + horizon < length (fa_sessions data)"
  proof -
    have width: "\<not> length (fa_sessions data) - horizon - 1 \<le> k" using that by simp
    show ?thesis unfolding label_cell_def Let_def if_not_P [OF width] fst_conv by simp
  qed
qed

lemma selected_states:
  assumes "mapE (\<lambda>(i, x). bindE (lookupE (prepare_columnar_forward_labels data horizon) i (KeyError i)) (\<lambda>column. Inr (i, x, column k))) alpha = Inr selected"
  shows "length selected = length alpha" and "s \<in> set (states_of selected) \<Longrightarrow> \<exists>instrument. s = fst (label_cell data horizon instrument k)"
proof -
  show "length selected = length alpha" by (rule mapE_length [OF assms])
  assume "s \<in> set (states_of selected)"
  then obtain row where row: "row \<in> set selected" "s = fst (snd (snd row))" by (auto simp: states_of_def)
  obtain i x column where "row = (i, x, column k)" "map_of (prepare_columnar_forward_labels data horizon) i = Some column"
    using mapE_InrE(2) [OF assms row(1)] by (auto elim!: bindE_InrE)
  then show "\<exists>instrument. s = fst (label_cell data horizon instrument k)"
    using row(2) by (fastforce simp: prepare_columnar_forward_labels_def dest!: map_of_SomeD)
qed

definition exclusions_of :: "label_state list \<Rightarrow> (string \<times> int) list" where
  "exclusions_of states = concat (map (count_states states) reason_states)"

lemma exclusions_censored: "\<forall>s\<in>set states. s = Censored \<Longrightarrow>
    exclusions_of states = (if states = [] then [] else [(''right_censored_by_research_period_end'', int (length states))])"
proof (cases states)
  case (Cons s rest)
  assume "\<forall>s\<in>set states. s = Censored"
  then have "states = replicate (length states) Censored" by (simp add: replicate_length_same)
  moreover have "count_list (replicate n Censored) Censored = n" for n by (induction n) simp_all
  ultimately have "count_list states Censored = length states" by metis
  then show ?thesis using \<open>\<forall>s\<in>set states. s = Censored\<close> Cons
    by (auto simp: exclusions_of_def reason_states_def count_states_def)
qed (simp add: exclusions_of_def reason_states_def count_states_def)

lemma exclusions_allowed: "(q, n) \<in> set (exclusions_of states) \<Longrightarrow> 0 < n \<and> (\<exists>s\<in>set states. (s, q) \<in> set reason_states)"
  using count_list_0_iff [of states] by (fastforce simp: exclusions_of_def count_states_def split: if_splits)

text \<open>The reasons \<open>compose_session\<close> counts.\<close>

definition coverage_ok :: "(string \<times> int) list \<Rightarrow> bool" where
  "coverage_ok d \<longleftrightarrow> list_all (\<lambda>(q, n). q \<in> {''missing_expression'', ''missing_industry'', ''industry_group_too_small''} \<and> 0 < n) d"

lemma coverage_accepted:
  assumes o': "factor_observation session horizon (session_at sessions (k + 1)) (session_at sessions (k + 1 + horizon)) (int (length states))
      alpha_exclusions (exclusions_of states) (int n) m = Inr o'"
    and horizon: "horizon \<in> set HORIZONS" "1 \<le> length session" "length session \<le> 32" and coverage: "coverage_ok alpha_exclusions"
    and censored: "length sessions \<le> k + 1 + horizon \<Longrightarrow> \<forall>s\<in>set states. s = Censored"
      "k + 1 + horizon < length sessions \<Longrightarrow> Censored \<notin> set states"
    and samples: "n \<le> length (filter (\<lambda>s. s = Projected) states)"
  shows "validate_coverage o' = Inr ()"
proof -
  have sum: "sum_list (map snd (sort_key fst xs)) = sum_list (map snd xs)" for xs :: "(string \<times> int) list"
    using losses_sort [of fst xs] by (simp add: losses_def)
  have account: "int n + sum_list (map snd (exclusions_of states)) = int (length states)"
    and shape: "o' = \<lparr>fo_session = session, fo_horizon = horizon, fo_entry_session = session_at sessions (k + 1),
      fo_exit_session = session_at sessions (k + 1 + horizon), fo_censored = (session_at sessions (k + 1 + horizon) = None),
      fo_candidate_count = int (length states) + sum_list (map snd alpha_exclusions), fo_alpha_count = int (length states),
      fo_alpha_exclusions = sort_key fst alpha_exclusions, fo_sample_count = int n,
      fo_label_exclusions = sort_key fst (exclusions_of states), fo_metrics = m\<rparr>"
    using o' by (auto simp: factor_observation_def elim!: bindE_InrE)
  have "\<forall>(q, n)\<in>set alpha_exclusions. 0 < n" using coverage by (auto simp: coverage_ok_def list_all_iff)
  then have "0 \<le> sum_list (map snd alpha_exclusions)" by (intro sum_list_nonneg) auto
  then have counts: "0 \<le> int (length states) + sum_list (map snd alpha_exclusions)" by simp
  have allowed: "list_all (\<lambda>(q, n). q \<in> {''confirmed_market_open_unavailable'', ''data_unavailable'', ''right_censored_by_research_period_end''} \<and> 0 < n)
      (sort_key fst (exclusions_of states))"
    using exclusions_allowed [of _ _ states] by (auto simp: list_all_iff reason_states_def)
  have coverage: "list_all (\<lambda>(q, n). q \<in> {''missing_expression'', ''missing_industry'', ''industry_group_too_small''} \<and> 0 < n)
      (sort_key fst alpha_exclusions)"
    using coverage by (simp add: coverage_ok_def list_all_iff)
  have horizons: "horizon \<in> {1, 5, 20}" using horizon(1) by (auto simp: HORIZONS_def)
  have "session \<noteq> []" using horizon(2) by auto
  note facts = this counts allowed coverage horizons horizon(2,3) account
  show ?thesis
  proof (cases "length sessions \<le> k + 1 + horizon")
    case True
    note all = censored(1) [OF True]
    have "filter (\<lambda>s. s = Projected) states = []" using all by (auto simp: filter_empty_conv)
    then have "n = 0" using samples by simp
    then show ?thesis using facts exclusions_censored [OF all] True
      by (simp add: validate_coverage_def shape sum session_at_def raiseIf_def)
  next
    case False
    then have none: "Censored \<notin> set states" using censored(2) by simp
    have "''right_censored_by_research_period_end'' \<notin> fst ` set (exclusions_of states)"
    proof
      assume "''right_censored_by_research_period_end'' \<in> fst ` set (exclusions_of states)"
      then obtain c where "(''right_censored_by_research_period_end'', c) \<in> set (exclusions_of states)" by auto
      then show False using exclusions_allowed none by (fastforce simp: reason_states_def)
    qed
    then show ?thesis using facts False
      by (simp add: validate_coverage_def shape sum session_at_def raiseIf_def)
  qed
qed

text \<open>
  C40: Every daily observation the Factor calculation returns passes the check of published observations,
  as far as its correlations lie between -1 and 1 and its top-bottom return is a finite float: its
  candidates, samples and excluded labels add up, it is censored exactly when its exit lies behind the
  calendar and then has no sample, its five groups partition the sample, and a group has a return
  exactly when it has members.
\<close>

theorem factor_observation_accepted:
  assumes "factor_day_of (factor_array_values beyond) data matrix horizon session = Inr o'"
    and "horizon \<in> set HORIZONS" and "1 \<le> length session" and "length session \<le> 32"
    and "\<forall>alpha\<in>set matrix. coverage_ok (as_coverage_loss alpha)"
    and "unit_range (mt_ic (fo_metrics o'))" and "unit_range (mt_rank_ic (fo_metrics o'))"
    and "mt_top_bottom (fo_metrics o') \<noteq> Some pyfloat.Infinite"
  shows "validate_factor_observation o' = Inr ()"
proof -
  obtain j alpha selected metrics where alpha: "alpha_of_session matrix session = Inr alpha"
    and selected: "mapE (\<lambda>(i, x). bindE (lookupE (prepare_columnar_forward_labels data horizon) i (KeyError i))
        (\<lambda>column. Inr (i, x, column (nat j)))) (as_values alpha) = Inr selected"
    and metrics: "factor_array_values beyond (map (\<lambda>(i, x, s, y). x) (included selected)) (map (\<lambda>(i, x, s, y). the y) (included selected)) = Inr metrics"
    and o': "factor_observation session horizon (session_at (fa_sessions data) (nat j + 1)) (session_at (fa_sessions data) (nat j + 1 + horizon))
        (int (length (as_values alpha))) (as_coverage_loss alpha) (exclusions_of (states_of selected)) (int (length (included selected))) metrics = Inr o'"
    using assms(1) unfolding factor_day_of_def Let_def included_def [symmetric] states_of_def [symmetric]
      reason_states_def [symmetric] exclusions_of_def [symmetric]
    by (elim bindE_InrE) (auto elim!: bindE_InrE)
  note states = selected_states [OF selected]
  have "alpha \<in> set matrix" using alpha by (auto simp: alpha_of_session_def dest!: map_of_SomeD)
  then have coverage: "coverage_ok (as_coverage_loss alpha)" using assms(5) by blast
  have sizes: "length (states_of selected) = length (as_values alpha)"
    "length (included selected) = length (filter (\<lambda>s. s = Projected) (states_of selected))"
    using states(1) by (simp_all add: states_of_def included_def filter_map comp_def case_prod_unfold)
  have "fo_metrics o' = metrics" "fo_sample_count o' = int (length (included selected))"
    using o' by (auto simp: factor_observation_def elim!: bindE_InrE)
  moreover have "validate_metrics (int (length (included selected))) metrics = Inr ()"
    using metrics_accepted [OF metrics] assms(6-8) calculation by simp
  moreover have "validate_coverage o' = Inr ()"
  proof (rule coverage_accepted [OF o' [folded sizes(1)] assms(2-4) coverage])
    show "\<forall>s\<in>set (states_of selected). s = Censored" if "length (fa_sessions data) \<le> nat j + 1 + horizon"
      using states(2) label_cell_censored(1) [OF that] by blast
    show "Censored \<notin> set (states_of selected)" if "nat j + 1 + horizon < length (fa_sessions data)"
      using states(2) label_cell_censored(2) [OF that] by metis
    show "length (included selected) \<le> length (filter (\<lambda>s. s = Projected) (states_of selected))" using sizes(2) by simp
  qed
  ultimately show ?thesis by (simp add: validate_factor_observation_def)
qed

lemma factor_observation_accepted_witness:
  "\<exists>day. factor_day_of (factor_array_values (\<lambda>_ _. Inr None)) sample_factor sample_alpha 1 ''2024-01-02'' = Inr day \<and>
     fo_sample_count day = 2 \<and> validate_factor_observation day = Inr ()"
proof -
  let ?run = "factor_day_of (factor_array_values (\<lambda>_ _. Inr None)) sample_factor sample_alpha 1 ''2024-01-02''"
  have "case ?run of Inl _ \<Rightarrow> False | Inr day \<Rightarrow> fo_sample_count day = 2 \<and> unit_range (mt_ic (fo_metrics day)) \<and>
      unit_range (mt_rank_ic (fo_metrics day)) \<and> mt_top_bottom (fo_metrics day) \<noteq> Some pyfloat.Infinite" by code_simp
  then obtain day where day: "?run = Inr day" "fo_sample_count day = 2" "unit_range (mt_ic (fo_metrics day))"
      "unit_range (mt_rank_ic (fo_metrics day))" "mt_top_bottom (fo_metrics day) \<noteq> Some pyfloat.Infinite"
    by (cases ?run) auto
  have "\<forall>alpha\<in>set sample_alpha. coverage_ok (as_coverage_loss alpha)" by (simp add: sample_alpha_def coverage_ok_def)
  then have "validate_factor_observation day = Inr ()"
    using factor_observation_accepted [OF day(1) _ _ _ _ day(3-5)] by (simp add: HORIZONS_def)
  then show ?thesis using day by blast
qed

end
