(* ===== verification/Spec2Isabelle.thy ===== *)
theory Spec2Isabelle
  imports Boundaries MetricsFacts RollingFacts SharedPlan ExposureSeries AlphaMatrix CrossSection RiskPolicies Framework FrameworkModules FactorEvidence
begin

text \<open>
  A verification library of the core of thesistrace, a platform that researches stock selection
  strategies on Chinese A-shares. All paths are below \<open>apps/core/src/thesistrace\<close>.

  \<^bold>\<open>The program.\<close> A researcher writes an Alpha formula, which \<open>alpha_language\<close> compiles into an
  expression; \<open>research_kernel\<close> validates the frozen expression again, flattens it into a plan and
  evaluates it on every stock and session. A portfolio policy turns the resulting values into target
  weights (\<open>research_kernel/portfolio_weighting.py\<close>), and \<open>research_kernel/strategy.py\<close> trades the
  target at the next Open: it marks the positions, submits the sales and then the purchases under the
  rules of the exchange, records every order, fill and cash balance as an event, values the account at
  the Close and asks for the next decision. Metrics summarise the daily rows, either from all of them
  or from a state carried from chunk to chunk. A run can stop at a terminal state
  (\<open>research_kernel/terminal_state_schema.py\<close>) and resume from it.

  \<^bold>\<open>Theories and the code they model.\<close>
  \<^item> \<open>Prelude\<close>: exceptions as the left values of a sum, sequencing, loops, ordered dictionaries.
  \<^item> \<open>Decimals\<close>, \<open>Numeric\<close>: Python's \<open>decimal\<close> as used by \<open>numeric.py\<close>, with its two contexts
    (34 digits inside \<open>accounting_context\<close>, the default 28 outside), canonical text, \<open>money\<close>, and
    the rounding of a rational to binary64.
  \<^item> \<open>Floats\<close>: quotients, roots and deviations of floats.
  \<^item> \<open>Orders\<close>: board lots, child orders, costs, price factors, rejections, affordable quantities
    (\<open>strategy.py\<close>, lines 143--246 and 1446--1482).
  \<^item> \<open>Account\<close>, \<open>Solvency\<close>: positions, marks and the execution of an order with all its rows
    (\<open>mark_positions\<close>, \<open>execute_order\<close>); when an execution keeps net cash non-negative.
  \<^item> \<open>Targets\<close>, \<open>Weights\<close>: target weights, allocations, decisions and the terminal state; selection
    and equal, rank and inverse volatility weights.
  \<^item> \<open>Rebalance\<close>, \<open>Trading\<close>, \<open>Session\<close>, \<open>Boundaries\<close>: \<open>_execute_strategy\<close>. The state of a run is
    the record \<open>run_state\<close>: the account (\<open>book\<close>), the rows written so far, the pending target and the
    decision state. \<open>trade_session\<close> is the Open and the Close of one session, \<open>decide_session\<close> the
    decision after it, \<open>execute_strategy\<close> the run from an origin or a continuation.
  \<^item> \<open>Metrics\<close>, \<open>MetricsFacts\<close>: \<open>strategy_metrics\<close>, \<open>advance_strategy_metric_state\<close>,
    \<open>strategy_metrics_from_state\<close>, \<open>maximum_drawdown\<close>.
  \<^item> \<open>AlphaTypes\<close>, \<open>AlphaBuiltins\<close>, \<open>Rolling\<close>, \<open>CommonMarket\<close>: value types, common inputs, the
    signatures and evaluators of the builtins, the market aggregates.
  \<^item> \<open>AlphaCompiler\<close>, \<open>AlphaValidator\<close>, \<open>AlphaSound\<close>: \<open>alpha_language/language.py\<close>,
    \<open>research_kernel/alpha_expression.py\<close>, and that the second accepts what the first emits.
  \<^item> \<open>SeriesPlan\<close>: \<open>research_kernel/series_plan.py\<close> for one instrument.

  \<^bold>\<open>How code becomes definitions.\<close> A function that may raise returns \<open>py_error + 'a\<close>, where every
  \<open>raise\<close> of the source is a branch. A dictionary whose order the code observes is an association
  list; strings are character lists, compared as Python compares them; Python integers are \<open>int\<close>;
  a \<open>Decimal\<close> is a coefficient and an exponent, a finite float the rational it denotes. A loop is a
  fold over its list or a recursion with a measure, so no definition carries fuel. Canonical texts in
  rows are stored as the decimals they read back as (\<open>Numeric.canonical_decimal_roundtrip\<close>), and an
  identifier made by SHA-256 is its preimage, so equal identifiers mean equal preimages.

  \<^bold>\<open>What the lemmas show.\<close> Orders split into legal child orders; an affordable quantity is legal,
  fits the cash and is the largest such; marking and execution change exactly what they should; shares
  are conserved over a session up to write-offs; sales precede purchases; a run reports each session
  once; the streamed metrics equal those over all rows, except for a report without a rebalance;
  portfolio weights satisfy the contract of targets; an accepted target is executable at the next Open
  and after a resume; a compiled formula passes the kernel's validator.

  \<^bold>\<open>Parameters.\<close> Code outside the repository or not modelled enters as an argument: \<open>ast.parse\<close>, the
  C library's \<open>pow\<close> and \<open>log\<close>, the size of a JSON text, the volatility of a window, the decision
  function of a strategy program.

  \<^bold>\<open>Not modelled.\<close> The SQL state machines of \<open>research_run\<close>, \<open>research_batch\<close> and \<open>daily_track\<close>, the
  data stores under \<open>data\<close>, publication, the HTTP, MCP and CLI entry points and the agent are effects on
  databases, files and sockets. The columnar evaluator works on numpy matrices. Observers and the
  ledger copy of the rows change nothing. Field types that \<open>pydantic\<close> checks are the types of the
  model. Message texts of rejections are kept only where a property speaks about them.
\<close>

end
